(* ===== verification/Nethttp.thy ===== *)
theory Nethttp
  imports Prelude
begin

text \<open>
  What the program uses of Go's net/http and mime: canonical header keys, http.Header as a map
  from names to value lists, and mime.ParseMediaType with its parameters.
\<close>

section \<open>Headers (net/textproto)\<close>

text \<open>validHeaderFieldByte: the token characters of RFC 7230.\<close>

definition token_byte :: "char \<Rightarrow> bool" where
  "token_byte c =
     ((48 \<le> byte_of c \<and> byte_of c \<le> (57::nat)) \<or> (65 \<le> byte_of c \<and> byte_of c \<le> (90::nat)) \<or>
      (97 \<le> byte_of c \<and> byte_of c \<le> (122::nat)) \<or> c \<in> set ''!#$%&'' \<or> byte_of c = (39::nat) \<or>
      c \<in> set ''*+-.^_'' \<or> byte_of c = (96::nat) \<or> c \<in> set ''|~'')"

fun canon_bytes :: "bool \<Rightarrow> string \<Rightarrow> string" where
  "canon_bytes upper [] = []"
| "canon_bytes upper (c # s) =
     (if upper then to_upper_byte c else to_lower_byte c) # canon_bytes (c = CHR ''-'') s"

text \<open>http.CanonicalHeaderKey: a name with a byte that is no token byte is left unchanged.\<close>

definition CanonicalHeaderKey :: "string \<Rightarrow> string" where
  "CanonicalHeaderKey s = (if list_all token_byte s then canon_bytes True s else s)"

text \<open>http.Header, a map from canonical names to the values in order.\<close>

type_synonym http_header = "(string \<times> string list) list"

definition header_values :: "http_header \<Rightarrow> string \<Rightarrow> string list" where
  "header_values h n = mget0 [] h (CanonicalHeaderKey n)"

definition header_get :: "http_header \<Rightarrow> string \<Rightarrow> string" where
  "header_get h n = (case header_values h n of [] \<Rightarrow> [] | v # _ \<Rightarrow> v)"

definition header_add :: "string \<Rightarrow> string \<Rightarrow> http_header \<Rightarrow> http_header" where
  "header_add n v h = mput (CanonicalHeaderKey n) (header_values h n @ [v]) h"

definition header_set :: "string \<Rightarrow> string \<Rightarrow> http_header \<Rightarrow> http_header" where
  "header_set n v h = mput (CanonicalHeaderKey n) [v] h"

definition header_del :: "string \<Rightarrow> http_header \<Rightarrow> http_header" where
  "header_del n h = filter (\<lambda>kv. fst kv \<noteq> CanonicalHeaderKey n) h"

section \<open>mime.ParseMediaType\<close>

definition mime_token :: "char \<Rightarrow> bool" where
  "mime_token c = (32 < byte_of c \<and> byte_of c < (127::nat) \<and>
     c \<notin> set ''()<>@,;:/[]?='' \<and> byte_of c \<noteq> (34::nat) \<and> byte_of c \<noteq> (92::nat))"

definition mime_special :: "char \<Rightarrow> bool" where
  "mime_special c = (c \<in> set ''()<>@,;:/[]?='' \<or> byte_of c = (34::nat) \<or> byte_of c = (92::nat))"

text \<open>checkMediaTypeDisposition.\<close>

definition media_type_ok :: "string \<Rightarrow> bool" where
  "media_type_ok s =
     (let rest = dropWhile mime_token s in
      takeWhile mime_token s \<noteq> [] \<and>
      (rest = [] \<or>
       (hd rest = CHR ''/'' \<and> tl rest \<noteq> [] \<and> list_all mime_token (tl rest))))"

text \<open>The body of a quoted string, behind the opening quote; None without a closing one.\<close>

fun quoted_value :: "string \<Rightarrow> string \<Rightarrow> (string \<times> string) option" where
  "quoted_value acc [] = None"
| "quoted_value acc (c # s) =
     (if byte_of c = (34::nat) then Some (acc, s)
      else if byte_of c = (92::nat) \<and> s \<noteq> [] \<and> mime_special (hd s)
        then quoted_value (acc @ [hd s]) (tl s)
      else if byte_of c = (13::nat) \<or> byte_of c = (10::nat) then None
      else quoted_value (acc @ [c]) s)"

text \<open>consumeValue, where None stands for an empty value that consumed nothing.\<close>

definition consume_value :: "string \<Rightarrow> (string \<times> string) option" where
  "consume_value v =
     (case v of
        [] \<Rightarrow> None
      | c # s \<Rightarrow>
          if byte_of c = (34::nat) then quoted_value [] s
          else if takeWhile mime_token v = [] then None
          else Some (takeWhile mime_token v, dropWhile mime_token v))"

definition consume_param :: "string \<Rightarrow> (string \<times> string \<times> string) option" where
  "consume_param v =
     (case trim_left is_space v of
        [] \<Rightarrow> None
      | c # r \<Rightarrow>
          if c \<noteq> CHR '';'' then None
          else
            let r = trim_left is_space r;
                key = to_lower (takeWhile mime_token r);
                r = trim_left is_space (dropWhile mime_token r)
            in if key = [] \<or> r = [] \<or> hd r \<noteq> CHR ''='' then None
               else map_option (\<lambda>(x, r). (key, x, r)) (consume_value (trim_left is_space (tl r))))"

text \<open>
  The parameter loop: an option for the error returns, whose results differ (an invalid
  parameter keeps the media type, a repeated one with another value drops it).
\<close>

datatype media_params = MPOk "(string \<times> string) list" | MPInvalid | MPDuplicate

function parse_params :: "(string \<times> string) list \<Rightarrow> string \<Rightarrow> media_params" where
  "parse_params ps v =
     (let v = trim_left is_space v in
      if v = [] then MPOk ps
      else (case consume_param v of
        None \<Rightarrow> if trim_space v = '';'' then MPOk ps else MPInvalid
      | Some (k, x, r) \<Rightarrow>
          if length r \<ge> length v then MPInvalid
          else if (case mget ps k of None \<Rightarrow> False | Some y \<Rightarrow> y \<noteq> x) then MPDuplicate
          else parse_params (mput k x ps) r))"
  by pat_completeness auto
termination
  by (relation "measure (length \<circ> snd)")
    (auto simp: trim_left_def not_le split: if_splits
      dest: less_le_trans [OF _ length_dropWhile_le])

declare parse_params.simps [simp del]

text \<open>The media type and the parameters; RFC 2231 continuations (names with a star) are kept raw.\<close>

definition ParseMediaType :: "string \<Rightarrow> string \<times> (string \<times> string) list" where
  "ParseMediaType v =
     (let base = fst (cut_byte CHR '';'' v);
          mt = trim_space (to_lower base)
      in if \<not> media_type_ok mt then ([], [])
         else (case parse_params [] (drop (length base) v) of
            MPOk ps \<Rightarrow> (mt, ps)
          | MPInvalid \<Rightarrow> (mt, [])
          | MPDuplicate \<Rightarrow> ([], [])))"

section \<open>Lemmas\<close>


lemma to_upper_idem [simp]: "to_upper_byte (to_upper_byte c) = to_upper_byte c"
  by (cases "97 \<le> byte_of c \<and> byte_of c \<le> (122::nat)") (auto simp: to_upper_byte_def)

lemma to_lower_idem [simp]: "to_lower_byte (to_lower_byte c) = to_lower_byte c"
  by (cases "65 \<le> byte_of c \<and> byte_of c \<le> (90::nat)") (auto simp: to_lower_byte_def)

lemma to_upper_byte_dash [simp]: "to_upper_byte c = CHR ''-'' \<longleftrightarrow> c = CHR ''-''"
proof (cases "97 \<le> byte_of c \<and> byte_of c \<le> (122::nat)")
  case True
  then have "byte_of (to_upper_byte c) = (byte_of c - 32 :: nat)"
    by (auto simp: to_upper_byte_def mod_less)
  then have "to_upper_byte c \<noteq> CHR ''-''" "c \<noteq> CHR ''-''" using True by auto
  then show ?thesis by simp
qed (auto simp: to_upper_byte_def)

lemma to_lower_byte_dash [simp]: "to_lower_byte c = CHR ''-'' \<longleftrightarrow> c = CHR ''-''"
proof (cases "65 \<le> byte_of c \<and> byte_of c \<le> (90::nat)")
  case True
  then have "byte_of (to_lower_byte c) = (byte_of c + 32 :: nat)"
    by (auto simp: to_lower_byte_def mod_less)
  then have "to_lower_byte c \<noteq> CHR ''-''" "c \<noteq> CHR ''-''" using True by auto
  then show ?thesis by simp
qed (auto simp: to_lower_byte_def)

lemma canon_bytes_idem [simp]: "canon_bytes u (canon_bytes u s) = canon_bytes u s"
  by (induction s arbitrary: u) auto

lemma token_upper: "token_byte c \<Longrightarrow> token_byte (to_upper_byte c)"
  by (auto simp: token_byte_def to_upper_byte_def)

lemma token_lower: "token_byte c \<Longrightarrow> token_byte (to_lower_byte c)"
  by (auto simp: token_byte_def to_lower_byte_def)

lemma token_canon_bytes: "list_all token_byte s \<Longrightarrow> list_all token_byte (canon_bytes u s)"
  by (induction s arbitrary: u) (auto simp: token_upper token_lower)

text \<open>Canonicalizing a header name twice is the same as once.\<close>

lemma CanonicalHeaderKey_idem [simp]: "CanonicalHeaderKey (CanonicalHeaderKey s) = CanonicalHeaderKey s"
  by (auto simp: CanonicalHeaderKey_def token_canon_bytes)

end
