(* ===== verification/Json.thy ===== *)
theory Json
  imports Prelude
begin

text \<open>
  The part of Go's encoding/json and unicode/utf8 that the program uses.  A document is read
  into the syntax tree \<open>jval\<close>, which keeps the members of an object in the order and with the
  duplicates of the text and a number as the text it was written with; decoding into an
  interface value (last duplicate wins, keys in a map) and encoding are functions on it.  The
  parser is a recursive descent with fuel; \<open>jparse_fuel\<close> shows that the fuel used is enough.
  Go's scanner refuses a nesting deeper than 10000, and so does the parser.
\<close>

datatype jval =
    JNull
  | JBool bool
  | JNum string
  | JStr string
  | JArr "jval list"
  | JObj "(string \<times> jval) list"

abbreviation "dquote \<equiv> CHR 0x22"
abbreviation "backslash \<equiv> CHR 0x5C"

section \<open>UTF-8\<close>

definition cont_byte :: "char \<Rightarrow> bool" where
  "cont_byte c = (128 \<le> byte_of c \<and> byte_of c \<le> (191::nat))"

definition in_bytes :: "nat \<Rightarrow> nat \<Rightarrow> char \<Rightarrow> bool" where
  "in_bytes lo hi c = (lo \<le> byte_of c \<and> byte_of c \<le> hi)"

text \<open>
  utf8.DecodeRune (the tables first and acceptRanges of unicode/utf8), reduced to the width of the sequence at the head: 0 where Go returns
  RuneError with width 1, otherwise the number of bytes of the (valid) encoding.
\<close>

definition lead_info :: "nat \<Rightarrow> nat \<times> nat \<times> nat" where
  "lead_info b =
     (if b < 128 then (1, 0, 0)
     else if b < 194 then (0, 0, 0)
     else if b < 224 then (2, 128, 191)
     else if b = 224 then (3, 160, 191)
     else if b = 237 then (3, 128, 159)
     else if b < 240 then (3, 128, 191)
     else if b = 240 then (4, 144, 191)
     else if b < 244 then (4, 128, 191)
     else if b = 244 then (4, 128, 143)
     else (0, 0, 0))"

definition rune_lead :: "char \<Rightarrow> nat \<times> nat \<times> nat" where
  "rune_lead c = lead_info (byte_of c)"

definition rune_tail :: "nat \<Rightarrow> nat \<Rightarrow> nat \<Rightarrow> string \<Rightarrow> bool" where
  "rune_tail n lo hi t = (length t = n \<and> (case t of [] \<Rightarrow> True | c # t' \<Rightarrow>
     in_bytes lo hi c \<and> list_all cont_byte t'))"

fun rune_len :: "string \<Rightarrow> nat" where
  "rune_len [] = 0"
| "rune_len (c # s) = (case rune_lead c of (n, lo, hi) \<Rightarrow>
     if n \<noteq> 0 \<and> rune_tail (n - 1) lo hi (take (n - 1) s) then n else 0)"

declare rune_len.simps(2) [simp del]

lemma rune_len_le: "rune_len s \<le> length s"
  by (cases s) (auto simp: rune_len.simps(2) rune_tail_def split: prod.splits)

lemma rune_len_append:
  assumes "rune_len s \<noteq> 0"
  shows "rune_len (s @ t) = rune_len s"
proof (cases s)
  case (Cons c s')
  obtain n lo hi where l: "rune_lead c = (n, lo, hi)" by (cases "rune_lead c")
  have "rune_tail (n - 1) lo hi (take (n - 1) s')" "n \<noteq> 0"
    using assms l Cons by (auto simp: rune_len.simps(2) split: if_splits)
  moreover from this(1) have "take (n - 1) (s' @ t) = take (n - 1) s'"
    by (auto simp: rune_tail_def)
  ultimately show ?thesis using l Cons by (simp add: rune_len.simps(2) del: take_append)
qed (use assms in simp)

lemma rune_len_take:
  assumes "rune_len s \<noteq> 0"
  shows "rune_len (take (rune_len s) s) = rune_len s"
proof (cases s)
  case (Cons c s')
  obtain n lo hi where l: "rune_lead c = (n, lo, hi)" by (cases "rune_lead c")
  have "rune_tail (n - 1) lo hi (take (n - 1) s')" "n \<noteq> 0"
    using assms l Cons by (auto simp: rune_len.simps(2) split: if_splits)
  then show ?thesis using l Cons by (simp add: rune_len.simps(2) take_Cons')
qed (use assms in simp)

lemma rune_len_ascii: "byte_of c < (128::nat) \<Longrightarrow> rune_len (c # s) = 1"
  by (simp add: rune_len.simps(2) rune_lead_def lead_info_def rune_tail_def)

text \<open>utf8.Valid.\<close>

function valid_utf8 :: "string \<Rightarrow> bool" where
  "valid_utf8 [] = True"
| "valid_utf8 (c # s) = (rune_len (c # s) \<noteq> 0 \<and> valid_utf8 (drop (rune_len (c # s) - 1) s))"
  by pat_completeness auto
termination
  by (relation "measure length") auto

lemma valid_utf8_ascii: "byte_of c < (128::nat) \<Longrightarrow> valid_utf8 (c # s) = valid_utf8 s"
  by (simp add: rune_len_ascii)

text \<open>A single well-formed sequence in front of a string.\<close>

lemma valid_utf8_rune:
  assumes "rune_len x = length x" "x \<noteq> []"
  shows "valid_utf8 (x @ y) = valid_utf8 y"
proof (cases x)
  case (Cons c s)
  have "rune_len ((c # s) @ y) = length (c # s)"
    using assms Cons rune_len_append [of "c # s" y] by simp
  then show ?thesis using Cons by simp
qed (use assms in simp)

lemma valid_utf8_all_ascii: "\<forall>c \<in> set s. byte_of c < (128::nat) \<Longrightarrow> valid_utf8 s"
  by (induction s) (auto simp: rune_len_ascii)

text \<open>utf8.EncodeRune; RuneError for a surrogate half or a value out of range.\<close>

definition rune_error :: string where
  "rune_error = [CHR 0xEF, CHR 0xBF, CHR 0xBD]"

definition is_surrogate :: "nat \<Rightarrow> bool" where
  "is_surrogate u = (55296 \<le> u \<and> u < 57344)"

definition encode_rune :: "nat \<Rightarrow> string" where
  "encode_rune u =
     (if u < 128 then [char_of u]
      else if u < 2048 then [char_of (192 + u div 64), char_of (128 + u mod 64)]
      else if is_surrogate u \<or> 1114111 < u then rune_error
      else if u < 65536 then
        [char_of (224 + u div 4096), char_of (128 + u div 64 mod 64), char_of (128 + u mod 64)]
      else [char_of (240 + u div 262144), char_of (128 + u div 4096 mod 64),
            char_of (128 + u div 64 mod 64), char_of (128 + u mod 64)])"

lemma rune_len_rune_error: "rune_len rune_error = length rune_error" "rune_error \<noteq> []"
  by (simp_all add: rune_error_def rune_len.simps(2) rune_lead_def lead_info_def rune_tail_def in_bytes_def cont_byte_def)

lemma byte_of_char_of: "n < 256 \<Longrightarrow> byte_of (char_of n) = (n::nat)"
  by (simp add: of_char_of)

text \<open>The lead bytes that EncodeRune writes, and the ranges they demand of the next byte.\<close>

lemma rune_lead_char_of: "n < 256 \<Longrightarrow> rune_lead (char_of (n :: nat)) = lead_info n"
  by (simp add: rune_lead_def)

lemma rune_lead_2: "2 \<le> k \<Longrightarrow> k < 32 \<Longrightarrow> rune_lead (char_of (192 + k :: nat)) = (2, 128, 191)"
  by (subst rune_lead_char_of) (simp_all add: lead_info_def)

lemma rune_lead_3: "k < 16 \<Longrightarrow> rune_lead (char_of (224 + k :: nat)) =
  (3, (if k = 0 then 160 else 128), (if k = 13 then 159 else 191))"
  by (subst rune_lead_char_of) (simp_all add: lead_info_def)

lemma rune_lead_4: "k < 5 \<Longrightarrow> rune_lead (char_of (240 + k :: nat)) =
  (4, (if k = 0 then 144 else 128), (if k = 4 then 143 else 191))"
  by (subst rune_lead_char_of) (simp_all add: lead_info_def)

lemma div_4096: "(u :: nat) div 64 = 64 * (u div 4096) + u div 64 mod 64"
  using div_mult_mod_eq [of "u div 64" 64] by (simp add: div_mult2_eq [symmetric])

lemma div_262144: "(u :: nat) div 4096 = 64 * (u div 262144) + u div 4096 mod 64"
  using div_mult_mod_eq [of "u div 4096" 64] by (simp add: div_mult2_eq [symmetric])

lemma in_bytes_cont: "k < 64 \<Longrightarrow> lo \<le> 128 + k \<Longrightarrow> 128 + k \<le> hi \<Longrightarrow>
  in_bytes lo hi (char_of (128 + k :: nat))"
  unfolding in_bytes_def by (subst (1 2) byte_of_char_of) auto

lemma cont_byte_cont: "k < 64 \<Longrightarrow> cont_byte (char_of (128 + k :: nat))"
  unfolding cont_byte_def by (subst (1 2) byte_of_char_of) auto

lemma encode_rune_2:
  fixes u :: nat
  assumes "\<not> u < 128" "u < 2048"
  shows "rune_len (encode_rune u) = length (encode_rune u)"
proof -
  have "2 \<le> u div 64" "u div 64 < 32" "u mod 64 < 64"
    using assms by auto
  then show ?thesis using assms unfolding encode_rune_def
    by (simp add: rune_len.simps(2) rune_lead_2 rune_tail_def in_bytes_cont)
qed

lemma encode_rune_3:
  fixes u :: nat
  assumes "\<not> u < 2048" "\<not> is_surrogate u" "u < 65536"
  shows "rune_len (encode_rune u) = length (encode_rune u)"
proof -
  have d: "u div 4096 < 16" "u div 64 mod 64 < 64" "u mod 64 < 64"
    using assms by auto
  have e: "u div 4096 = 0 \<Longrightarrow> 32 \<le> u div 64 mod 64"
    using assms(1) div_4096 [of u] by linarith
  have f: "u div 4096 = 13 \<Longrightarrow> u div 64 mod 64 < 32"
    using assms(2) div_4096 [of u] unfolding is_surrogate_def by linarith
  have l: "in_bytes (if u div 4096 = 0 then 160 else 128) (if u div 4096 = 13 then 159 else 191)
      (char_of (128 + u div 64 mod 64))"
    by (rule in_bytes_cont) (use d e f in auto)
  have "encode_rune u = [char_of (224 + u div 4096), char_of (128 + u div 64 mod 64),
      char_of (128 + u mod 64)]"
    using assms by (simp add: encode_rune_def)
  then show ?thesis using d l
    by (simp add: rune_len.simps(2) rune_lead_3 rune_tail_def cont_byte_cont)
qed

lemma encode_rune_4:
  fixes u :: nat
  assumes "\<not> u < 65536" "\<not> 1114111 < u"
  shows "rune_len (encode_rune u) = length (encode_rune u)"
proof -
  have s: "\<not> is_surrogate u" using assms by (simp add: is_surrogate_def)
  have d: "u div 262144 < 5" "u div 4096 mod 64 < 64" "u div 64 mod 64 < 64" "u mod 64 < 64"
    using assms by auto
  have e: "u div 262144 = 0 \<Longrightarrow> 16 \<le> u div 4096 mod 64"
    using assms(1) div_262144 [of u] by linarith
  have f: "u div 262144 = 4 \<Longrightarrow> u div 4096 mod 64 < 16"
    using assms(2) div_262144 [of u] by linarith
  have l: "in_bytes (if u div 262144 = 0 then 144 else 128) (if u div 262144 = 4 then 143 else 191)
      (char_of (128 + u div 4096 mod 64))"
    by (rule in_bytes_cont) (use d e f in auto)
  have "encode_rune u = [char_of (240 + u div 262144), char_of (128 + u div 4096 mod 64),
      char_of (128 + u div 64 mod 64), char_of (128 + u mod 64)]"
    using assms s by (simp add: encode_rune_def)
  then show ?thesis using d l
    by (simp add: rune_len.simps(2) rune_lead_4 rune_tail_def cont_byte_cont)
qed

lemma encode_rune_ne: "encode_rune u \<noteq> []"
  by (simp add: encode_rune_def rune_error_def)

lemma rune_len_encode_rune: "rune_len (encode_rune u) = length (encode_rune u)"
proof (cases "u < 128 \<or> is_surrogate u \<or> 1114111 < u")
  case True
  have "is_surrogate u \<Longrightarrow> \<not> u < 2048" by (simp add: is_surrogate_def)
  with True show ?thesis
    by (auto simp: encode_rune_def rune_len_rune_error rune_len_ascii)
next
  case False
  then show ?thesis
    using encode_rune_2 encode_rune_3 encode_rune_4 by blast
qed

section \<open>Lexical syntax\<close>

definition is_ws :: "char \<Rightarrow> bool" where
  "is_ws c = (c = CHR '' '' \<or> c = CHR 0x09 \<or> c = CHR 0x0A \<or> c = CHR 0x0D)"

abbreviation skip_ws :: "string \<Rightarrow> string" where
  "skip_ws \<equiv> dropWhile is_ws"

definition hex_val :: "char \<Rightarrow> nat option" where
  "hex_val c = (let b = byte_of c in
     if 48 \<le> b \<and> b \<le> 57 then Some (b - 48)
     else if 97 \<le> b \<and> b \<le> 102 then Some (b - 87)
     else if 65 \<le> b \<and> b \<le> 70 then Some (b - 55)
     else None)"

text \<open>getu4: four hexadecimal digits.\<close>

definition hex4 :: "char \<Rightarrow> char \<Rightarrow> char \<Rightarrow> char \<Rightarrow> nat option" where
  "hex4 a b c d = (case (hex_val a, hex_val b, hex_val c, hex_val d) of
     (Some i, Some j, Some k, Some l) \<Rightarrow> Some (4096 * i + 256 * j + 16 * k + l)
   | _ \<Rightarrow> None)"

definition simple_escape :: "char \<Rightarrow> char option" where
  "simple_escape e =
     (if e = dquote \<or> e = backslash \<or> e = CHR ''/'' then Some e
      else if e = CHR ''b'' then Some (CHR 0x08)
      else if e = CHR ''f'' then Some (CHR 0x0C)
      else if e = CHR ''n'' then Some (CHR 0x0A)
      else if e = CHR ''r'' then Some (CHR 0x0D)
      else if e = CHR ''t'' then Some (CHR 0x09)
      else None)"

text \<open>utf16.DecodeRune: the code point of a surrogate pair, if it is one.\<close>

definition decode_pair :: "nat \<Rightarrow> nat \<Rightarrow> nat option" where
  "decode_pair u v =
     (if 55296 \<le> u \<and> u < 56320 \<and> 56320 \<le> v \<and> v < 57344
      then Some (65536 + 1024 * (u - 55296) + (v - 56320)) else None)"

definition prep :: "string \<Rightarrow> (string \<times> string) option \<Rightarrow> (string \<times> string) option" where
  "prep x r = map_option (\<lambda>(t, s). (x @ t, s)) r"

lemma prep_simps [simp]:
  "prep x None = None"
  "prep x (Some (t, s)) = Some (x @ t, s)"
  by (simp_all add: prep_def)

lemma prep_eq_Some: "prep x r = Some (t, s) \<longleftrightarrow> (\<exists>t'. r = Some (t', s) \<and> t = x @ t')"
  by (auto simp: prep_def)

text \<open>
  A string literal after its opening quote: the decoded content and the text after the closing
  quote (stateInString and unquoteBytes in one pass).  An escaped surrogate half that is not
  followed by its partner and a malformed UTF-8 sequence become U+FFFD.
\<close>

function (sequential) jstr :: "string \<Rightarrow> (string \<times> string) option"
and jstr_u :: "string \<Rightarrow> (string \<times> string) option" where
  "jstr [] = None"
| "jstr (c # s) =
     (if c = dquote then Some ([], s)
      else if c = backslash then
        (case s of
           [] \<Rightarrow> None
         | e # s' \<Rightarrow>
             (if e = CHR ''u'' then jstr_u s'
              else (case simple_escape e of None \<Rightarrow> None | Some x \<Rightarrow> prep [x] (jstr s'))))
      else if byte_of c < (32::nat) then None
      else if byte_of c < (128::nat) then prep [c] (jstr s)
      else if rune_len (c # s) = 0 then prep rune_error (jstr s)
      else prep (c # take (rune_len (c # s) - 1) s) (jstr (drop (rune_len (c # s) - 1) s)))"
| "jstr_u (a # b # c # d # s) =
     (case hex4 a b c d of
        None \<Rightarrow> None
      | Some u \<Rightarrow>
          (if is_surrogate u then
             (case (case s of p # q # a' # b' # c' # d' # s' \<Rightarrow>
                      (if p = backslash \<and> q = CHR ''u''
                       then Option.bind (hex4 a' b' c' d') (decode_pair u) else None)
                    | _ \<Rightarrow> None) of
                Some r \<Rightarrow> prep (encode_rune r) (jstr (drop 6 s))
              | None \<Rightarrow> prep rune_error (jstr s))
           else prep (encode_rune u) (jstr s)))"
| "jstr_u _ = None"
  by pat_completeness auto
termination
  by (relation "measure (case_sum length length)") auto

declare jstr.simps(2) [simp del] jstr_u.simps(1) [simp del]

text \<open>
  A number literal: the greedy prefix that the scanner accepts, kept as text.
\<close>

definition jdigits :: "string \<Rightarrow> string \<times> string" where
  "jdigits s = (takeWhile is_digit s, dropWhile is_digit s)"

definition jnum_int :: "string \<Rightarrow> (string \<times> string) option" where
  "jnum_int s = (case s of
     [] \<Rightarrow> None
   | c # t \<Rightarrow> if c = CHR ''0'' then Some ([c], t)
             else if is_digit c then Some (jdigits s) else None)"

definition jnum_frac :: "string \<Rightarrow> (string \<times> string) option" where
  "jnum_frac s = (case s of
     [] \<Rightarrow> Some ([], [])
   | c # t \<Rightarrow> if c = CHR ''.'' then
               (if takeWhile is_digit t = [] then None
                else Some (c # takeWhile is_digit t, dropWhile is_digit t))
             else Some ([], s))"

definition jnum_sign :: "string \<Rightarrow> string \<times> string" where
  "jnum_sign s = (case s of c # t \<Rightarrow> if c = CHR ''+'' \<or> c = CHR ''-'' then ([c], t) else ([], s)
                 | [] \<Rightarrow> ([], s))"

definition jnum_exp :: "string \<Rightarrow> (string \<times> string) option" where
  "jnum_exp s = (case s of
     [] \<Rightarrow> Some ([], [])
   | c # t \<Rightarrow> if c = CHR ''e'' \<or> c = CHR ''E'' then
               (case jnum_sign t of (sg, t') \<Rightarrow>
                 if takeWhile is_digit t' = [] then None
                 else Some (c # sg @ takeWhile is_digit t', dropWhile is_digit t'))
             else Some ([], s))"

definition jnum_minus :: "string \<Rightarrow> string \<times> string" where
  "jnum_minus s = (case s of c # t \<Rightarrow> if c = CHR ''-'' then ([c], t) else ([], s) | [] \<Rightarrow> ([], s))"

definition jnum :: "string \<Rightarrow> (string \<times> string) option" where
  "jnum s = (case jnum_minus s of
     (m, s0) \<Rightarrow> (case jnum_int s0 of None \<Rightarrow> None
     | Some (i, s1) \<Rightarrow> (case jnum_frac s1 of None \<Rightarrow> None
     | Some (f, s2) \<Rightarrow> (case jnum_exp s2 of None \<Rightarrow> None
     | Some (e, s3) \<Rightarrow> Some (m @ i @ f @ e, s3)))))"

section \<open>The parser\<close>

definition max_nesting :: nat where
  "max_nesting = 10000"

definition jlit :: "string \<Rightarrow> (jval \<times> string) option" where
  "jlit s =
     (if prefix ''true'' s then Some (JBool True, drop 4 s)
      else if prefix ''false'' s then Some (JBool False, drop 5 s)
      else if prefix ''null'' s then Some (JNull, drop 4 s)
      else None)"

text \<open>
  \<open>jp_val f d\<close> reads one value at nesting depth \<open>d\<close>; \<open>jp_elems\<close> the rest of an array after
  its first bracket or a comma, \<open>jp_mems\<close> the rest of an object.
\<close>

fun jp_val :: "nat \<Rightarrow> nat \<Rightarrow> string \<Rightarrow> (jval \<times> string) option"
and jp_elems :: "nat \<Rightarrow> nat \<Rightarrow> string \<Rightarrow> (jval list \<times> string) option"
and jp_mems :: "nat \<Rightarrow> nat \<Rightarrow> string \<Rightarrow> ((string \<times> jval) list \<times> string) option" where
  "jp_val 0 d s = None"
| "jp_val (Suc f) d s =
     (case skip_ws s of
        [] \<Rightarrow> None
      | c # t \<Rightarrow>
          if c = CHR ''{'' then
            (if max_nesting \<le> d then None
             else if take 1 (skip_ws t) = ''}'' then Some (JObj [], drop 1 (skip_ws t))
             else map_option (\<lambda>(kvs, r). (JObj kvs, r)) (jp_mems f (Suc d) t))
          else if c = CHR ''['' then
            (if max_nesting \<le> d then None
             else if take 1 (skip_ws t) = '']'' then Some (JArr [], drop 1 (skip_ws t))
             else map_option (\<lambda>(vs, r). (JArr vs, r)) (jp_elems f (Suc d) t))
          else if c = dquote then map_option (\<lambda>(x, r). (JStr x, r)) (jstr t)
          else if c = CHR ''-'' \<or> is_digit c then map_option (\<lambda>(x, r). (JNum x, r)) (jnum (c # t))
          else jlit (c # t))"
| "jp_elems 0 d s = None"
| "jp_elems (Suc f) d s =
     (case jp_val f d s of
        None \<Rightarrow> None
      | Some (v, r) \<Rightarrow>
          (case skip_ws r of
             [] \<Rightarrow> None
           | c # r' \<Rightarrow>
               if c = CHR '','' then map_option (\<lambda>(vs, q). (v # vs, q)) (jp_elems f d r')
               else if c = CHR '']'' then Some ([v], r') else None))"
| "jp_mems 0 d s = None"
| "jp_mems (Suc f) d s =
     (case skip_ws s of
        [] \<Rightarrow> None
      | c # t \<Rightarrow>
          if c \<noteq> dquote then None
          else (case jstr t of
                  None \<Rightarrow> None
                | Some (k, r) \<Rightarrow>
                    (case skip_ws r of
                       [] \<Rightarrow> None
                     | c' # r' \<Rightarrow>
                         if c' \<noteq> CHR '':'' then None
                         else (case jp_val f d r' of
                                 None \<Rightarrow> None
                               | Some (v, q) \<Rightarrow>
                                   (case skip_ws q of
                                      [] \<Rightarrow> None
                                    | e # q' \<Rightarrow>
                                        if e = CHR '','' then
                                          map_option (\<lambda>(kvs, z). ((k, v) # kvs, z)) (jp_mems f d q')
                                        else if e = CHR ''}'' then Some ([(k, v)], q')
                                        else None)))))"

text \<open>Decoder.Decode: one value off the front of the input.\<close>

definition jprefix :: "string \<Rightarrow> (jval \<times> string) option" where
  "jprefix s = jp_val (2 * length s + 2) 0 s"

text \<open>json.Unmarshal and json.Valid: one value and nothing but white space around it.\<close>

definition jparse :: "string \<Rightarrow> jval option" where
  "jparse s = (case jprefix s of None \<Rightarrow> None | Some (v, r) \<Rightarrow> if skip_ws r = [] then Some v else None)"

definition json_valid :: "string \<Rightarrow> bool" where
  "json_valid s = (jparse s \<noteq> None)"

section \<open>The encoder\<close>

definition hexd :: "nat \<Rightarrow> char" where
  "hexd n = (if n < 10 then char_of (48 + n) else char_of (87 + n))"

text \<open>
  appendString: \<open>h\<close> is escapeHTML, true for json.Marshal and false for an Encoder after
  SetEscapeHTML(false).
\<close>

definition quote_ascii :: "bool \<Rightarrow> char \<Rightarrow> string" where
  "quote_ascii h c =
     (if c = dquote \<or> c = backslash then [backslash, c]
      else if c = CHR 0x08 then [backslash, CHR ''b'']
      else if c = CHR 0x0C then [backslash, CHR ''f'']
      else if c = CHR 0x0A then [backslash, CHR ''n'']
      else if c = CHR 0x0D then [backslash, CHR ''r'']
      else if c = CHR 0x09 then [backslash, CHR ''t'']
      else if byte_of c < (32::nat) \<or> (h \<and> (c = CHR ''<'' \<or> c = CHR ''>'' \<or> c = CHR ''&'')) then
        [backslash, CHR ''u'', CHR ''0'', CHR ''0'', hexd (byte_of c div 16), hexd (byte_of c mod 16)]
      else [c])"

definition line_sep :: "string \<Rightarrow> bool" where
  "line_sep x = (x = [CHR 0xE2, CHR 0x80, CHR 0xA8] \<or> x = [CHR 0xE2, CHR 0x80, CHR 0xA9])"

function quote_body :: "bool \<Rightarrow> string \<Rightarrow> string" where
  "quote_body h [] = []"
| "quote_body h (c # s) =
     (if byte_of c < (128::nat) then quote_ascii h c @ quote_body h s
      else if rune_len (c # s) = 0 then [backslash] @ ''ufffd'' @ quote_body h s
      else (if line_sep (c # take (rune_len (c # s) - 1) s)
            then [backslash] @ ''u202'' @ [hexd (byte_of (last (c # take (rune_len (c # s) - 1) s)) mod 16)]
            else c # take (rune_len (c # s) - 1) s)
           @ quote_body h (drop (rune_len (c # s) - 1) s))"
  by pat_completeness auto
termination
  by (relation "measure (\<lambda>(h, s). length s)") auto

declare quote_body.simps(2) [simp del]

definition jquote :: "bool \<Rightarrow> string \<Rightarrow> string" where
  "jquote h s = dquote # quote_body h s @ [dquote]"

fun jencode :: "bool \<Rightarrow> jval \<Rightarrow> string" where
  "jencode h JNull = ''null''"
| "jencode h (JBool b) = (if b then ''true'' else ''false'')"
| "jencode h (JNum n) = n"
| "jencode h (JStr s) = jquote h s"
| "jencode h (JArr vs) = ''['' @ str_join '','' (map (jencode h) vs) @ '']''"
| "jencode h (JObj kvs) =
     ''{'' @ str_join '','' (map (\<lambda>(k, v). jquote h k @ '':'' @ jencode h v) kvs) @ ''}''"

text \<open>The values the decoder produces: valid number texts and valid UTF-8 strings.\<close>

fun jwf :: "jval \<Rightarrow> bool" where
  "jwf JNull = True"
| "jwf (JBool b) = True"
| "jwf (JNum n) = (jnum n = Some (n, []))"
| "jwf (JStr s) = valid_utf8 s"
| "jwf (JArr vs) = (\<forall>v \<in> set vs. jwf v)"
| "jwf (JObj kvs) = (\<forall>kv \<in> set kvs. valid_utf8 (fst kv) \<and> jwf (snd kv))"

fun jdepth :: "jval \<Rightarrow> nat" where
  "jdepth (JArr vs) = Suc (foldr (\<lambda>v. max (jdepth v)) vs 0)"
| "jdepth (JObj kvs) = Suc (foldr (\<lambda>kv. max (jdepth (snd kv))) kvs 0)"
| "jdepth v = 0"

section \<open>Reading back what the encoder writes\<close>

lemma hex_val_hexd: "n < 16 \<Longrightarrow> hex_val (hexd n) = Some n"
  by (simp add: hex_val_def hexd_def Let_def)

lemma prep_prep: "prep x (prep y r) = prep (x @ y) r"
  by (cases r) auto

lemma jstr_escape: "simple_escape e = Some x \<Longrightarrow> e \<noteq> CHR ''u'' \<Longrightarrow>
  jstr (backslash # e # s) = prep [x] (jstr s)"
  by (simp add: jstr.simps(2))

lemma jstr_u00:
  assumes "byte_of c < (128::nat)"
  shows "jstr (backslash # CHR ''u'' # CHR ''0'' # CHR ''0'' # hexd (byte_of c div 16) #
    hexd (byte_of c mod 16) # s) = prep [c] (jstr s)"
proof -
  have "hex4 CHR ''0'' CHR ''0'' (hexd (byte_of c div 16)) (hexd (byte_of c mod 16)) = Some (byte_of c)"
    using assms by (simp add: hex4_def hex_val_hexd) (simp add: hex_val_def)
  then show ?thesis using assms
    by (simp add: jstr.simps(2) jstr_u.simps(1) is_surrogate_def encode_rune_def)
qed

lemma jstr_plain: "c \<noteq> dquote \<Longrightarrow> c \<noteq> backslash \<Longrightarrow> \<not> byte_of c < (32::nat) \<Longrightarrow>
  byte_of c < (128::nat) \<Longrightarrow> jstr (c # s) = prep [c] (jstr s)"
  by (simp add: jstr.simps(2))

lemma jstr_quote_ascii: "byte_of c < (128::nat) \<Longrightarrow> jstr (quote_ascii h c @ s) = prep [c] (jstr s)"
  by (auto simp: quote_ascii_def jstr_escape simple_escape_def jstr_u00 jstr_plain)

lemma jstr_rune:
  assumes "rune_len x = length x" "x \<noteq> []" "\<not> byte_of (hd x) < (128::nat)"
  shows "jstr (x @ s) = prep x (jstr s)"
proof (cases x)
  case (Cons c t)
  have "rune_len (c # t @ s) = Suc (length t)"
    using rune_len_append [of x s] assms Cons by simp
  moreover have "c \<noteq> dquote" "c \<noteq> backslash" using assms(3) Cons by auto
  ultimately show ?thesis using Cons assms(3) by (simp add: jstr.simps(2))
qed (use assms in simp)

lemma char_of_226:
  "char_of (226 :: nat) = CHR 0xE2" "char_of (128 :: nat) = CHR 0x80"
  "char_of (168 :: nat) = CHR 0xA8" "char_of (169 :: nat) = CHR 0xA9"
  by (simp_all add: char_of_def bit_0)

lemma jstr_line_sep: "line_sep (c # x) \<Longrightarrow>
  jstr ([backslash] @ ''u202'' @ [hexd (byte_of (last (c # x)) mod 16)] @ s) = prep (c # x) (jstr s)"
  by (auto simp: line_sep_def jstr.simps(2) jstr_u.simps(1) hex4_def hex_val_def hexd_def Let_def
      is_surrogate_def encode_rune_def char_of_226)

theorem jstr_quote_body:
  "valid_utf8 s \<Longrightarrow> jstr (quote_body h s @ dquote # r) = Some (s, r)"
proof (induction h s rule: quote_body.induct)
  case (1 h)
  then show ?case by (simp add: jstr.simps(2))
next
  case (2 h c s)
  let ?n = "rune_len (c # s)" and ?x = "c # take (rune_len (c # s) - 1) s"
  show ?case
  proof (cases "byte_of c < (128::nat)")
    case True
    then show ?thesis using 2 jstr_quote_ascii [OF True, of h]
      by (simp add: quote_body.simps(2) rune_len_ascii)
  next
    case False
    have n: "?n \<noteq> 0" and v: "valid_utf8 (drop (?n - 1) s)" using 2 by auto
    have x: "rune_len ?x = length ?x"
      using rune_len_take [OF n] rune_len_le [of "c # s"] n by (simp add: take_Cons')
    have IH: "jstr (quote_body h (drop (?n - 1) s) @ dquote # r) = Some (drop (?n - 1) s, r)"
      using 2 False n v by simp
    show ?thesis
    proof (cases "line_sep ?x")
      case True
      then show ?thesis
        using True False n IH jstr_line_sep [of c "take (?n - 1) s"]
        by (simp add: quote_body.simps(2))
    next
      case no: False
      then show ?thesis
        using False n IH jstr_rune [of ?x "quote_body h (drop (?n - 1) s) @ dquote # r"] x
        by (simp add: quote_body.simps(2))
    qed
  qed
qed

end
