(* ===== verification/Wirefmt.thy ===== *)
theory Wirefmt
  imports Nethttp Json "HOL-Library.Multiset"
begin

text \<open>
  internal/wirefmt: the cassette file.  The records of the format, the headers and bodies with
  their YAML forms (base64 for bodies YAML would not keep byte for byte), the schema check, and
  the loading and the atomic saving of a file.  The yaml.v3 package is third party: the encoder
  and the decoder of whole files are parameters, its node type is the datatype below.
\<close>

section \<open>Records\<close>

definition SchemaVersion :: int where "SchemaVersion = 1"

record header_field =
  hf_name :: string
  hf_values :: "string list"

type_synonym headers = "header_field list"

text \<open>A \<open>*Body\<close>: None is the nil pointer.\<close>

type_synonym wbody = "bytes option"

record wrequest =
  rq_method :: string
  rq_url :: string
  rq_headers :: headers
  rq_mcp_method :: string
  rq_mcp_tool :: string
  rq_body :: wbody
  rq_body_sha :: string
  rq_match_key :: string

record wresponse =
  rs_status :: int
  rs_headers :: headers
  rs_streaming :: bool
  rs_body :: wbody
  rs_error :: string
  rs_timing :: "int list"

record interaction =
  it_kind :: string
  it_request :: wrequest
  it_response :: wresponse

record provenance =
  pv_op :: string
  pv_from :: string
  pv_note :: string

record match_spec =
  ms_volatile :: "string list"
  ms_headers :: "string list"

record expect =
  ex_no_tools :: "string list"
  ex_no_dup :: bool
  ex_clean :: bool

record wfile =
  wf_schema :: int
  wf_notice :: string
  wf_expect :: "expect option"
  wf_match :: "match_spec option"
  wf_prov :: "provenance list"
  wf_its :: "interaction list"

section \<open>Headers\<close>

definition HeadersFromHTTP :: "http_header \<Rightarrow> headers" where
  "HeadersFromHTTP h =
     (if h = [] then []
      else sort_key hf_name (map (\<lambda>(n, vs). \<lparr>hf_name = n, hf_values = vs\<rparr>) h))"

definition ToHTTP :: "headers \<Rightarrow> http_header" where
  "ToHTTP hs = foldl (\<lambda>h f. mput (CanonicalHeaderKey (hf_name f)) (hf_values f) h) [] hs"

fun headers_Get :: "headers \<Rightarrow> string \<Rightarrow> string" where
  "headers_Get [] n = []"
| "headers_Get (f # hs) n =
     (if CanonicalHeaderKey (hf_name f) = CanonicalHeaderKey n \<and> hf_values f \<noteq> []
      then hd (hf_values f) else headers_Get hs n)"

section \<open>YAML nodes\<close>

text \<open>yaml.Node: the kinds, with the flat Content list and the fields the program reads or sets.\<close>

datatype ynode =
    YScalar (ytag: string) (yliteral: bool) (ytext: string)
  | YSeq (yflow: bool) (yitems: "ynode list")
  | YMap "ynode list"
  | YDoc "ynode list"
  | YAlias string

definition node_value :: "ynode \<Rightarrow> string" where
  "node_value n = (case n of YScalar _ _ s \<Rightarrow> s | YAlias s \<Rightarrow> s | _ \<Rightarrow> [])"

definition headers_MarshalYAML :: "headers \<Rightarrow> ynode" where
  "headers_MarshalYAML hs =
     YMap (concat (map (\<lambda>f. [YScalar [] False (hf_name f),
                            YSeq True (map (YScalar [] False) (hf_values f))])
                      (sort_key hf_name hs)))"

fun header_pairs :: "ynode list \<Rightarrow> headers" where
  "header_pairs (k # v # ns) =
     \<lparr>hf_name = node_value k,
      hf_values = (case v of YSeq _ its \<Rightarrow> map node_value its
                   | YScalar _ _ s \<Rightarrow> [s] | _ \<Rightarrow> [])\<rparr> # header_pairs ns"
| "header_pairs _ = []"

definition headers_UnmarshalYAML :: "ynode \<Rightarrow> headers option" where
  "headers_UnmarshalYAML node =
     (case node of YMap ns \<Rightarrow> Some (sort_key hf_name (header_pairs ns)) | _ \<Rightarrow> None)"

section \<open>Base64 (encoding/base64, StdEncoding)\<close>

definition b64_char :: "nat \<Rightarrow> char" where
  "b64_char n =
     (if n < 26 then char_of (65 + n) else if n < 52 then char_of (71 + n)
      else if n < 62 then char_of (n - 4) else if n = 62 then CHR ''+'' else CHR ''/'')"

definition b64_val :: "char \<Rightarrow> nat option" where
  "b64_val c =
     (let n = byte_of c :: nat in
      if 65 \<le> n \<and> n \<le> 90 then Some (n - 65) else if 97 \<le> n \<and> n \<le> 122 then Some (n - 71)
      else if 48 \<le> n \<and> n \<le> 57 then Some (n + 4) else if n = 43 then Some 62
      else if n = 47 then Some 63 else None)"

fun b64_encode :: "bytes \<Rightarrow> string" where
  "b64_encode [] = []"
| "b64_encode [x] =
     (let v = byte_of x * 65536 :: nat in
      [b64_char (v div 262144), b64_char (v div 4096 mod 64), CHR ''='', CHR ''=''])"
| "b64_encode [x, y] =
     (let v = byte_of x * 65536 + byte_of y * 256 :: nat in
      [b64_char (v div 262144), b64_char (v div 4096 mod 64), b64_char (v div 64 mod 64), CHR ''=''])"
| "b64_encode (x # y # z # s) =
     (let v = byte_of x * 65536 + byte_of y * 256 + byte_of z :: nat in
      [b64_char (v div 262144), b64_char (v div 4096 mod 64), b64_char (v div 64 mod 64),
       b64_char (v mod 64)] @ b64_encode s)"

fun b64_quads :: "string \<Rightarrow> bytes option" where
  "b64_quads [] = Some []"
| "b64_quads (a # b # c # d # s) =
     (case (b64_val a, b64_val b) of
        (Some p, Some q) \<Rightarrow>
          if d = CHR ''='' then
            if s \<noteq> [] then None
            else if c = CHR ''='' then Some [char_of (p * 4 + q div 16)]
            else (case b64_val c of None \<Rightarrow> None
              | Some r \<Rightarrow> Some [char_of (p * 4 + q div 16), char_of (q mod 16 * 16 + r div 4)])
          else (case (b64_val c, b64_val d) of
              (Some r, Some t) \<Rightarrow>
                map_option (\<lambda>o'. [char_of (p * 4 + q div 16), char_of (q mod 16 * 16 + r div 4),
                                  char_of (r mod 4 * 64 + t)] @ o') (b64_quads s)
            | _ \<Rightarrow> None)
      | _ \<Rightarrow> None)"
| "b64_quads _ = None"

definition b64_decode :: "string \<Rightarrow> bytes option" where
  "b64_decode s = b64_quads (filter (\<lambda>c. byte_of c \<noteq> (10::nat) \<and> byte_of c \<noteq> (13::nat)) s)"

section \<open>Bodies\<close>

definition NewBody :: "bytes \<Rightarrow> wbody" where
  "NewBody b = (if b = [] then None else Some b)"

definition Bytes :: "wbody \<Rightarrow> bytes" where
  "Bytes b = (case b of None \<Rightarrow> [] | Some d \<Rightarrow> d)"

definition newline :: char where "newline = char_of (10 :: nat)"

definition yamlSafeText :: "bytes \<Rightarrow> bool" where
  "yamlSafeText data =
     (valid_utf8 data \<and>
      char_of (13 :: nat) \<notin> set data \<and>
      list_all (\<lambda>c. c = newline \<or> byte_of c = (9::nat) \<or>
                    \<not> (byte_of c < (32::nat) \<or> byte_of c = (127::nat))) data \<and>
      \<not> (str_contains data [CHR '' '', newline] \<or> has_suffix data '' ''))"

text \<open>The value MarshalYAML hands to the encoder: a node, or a map of strings.\<close>

datatype ybody = YNode ynode | YStrings "(string \<times> string) list"

definition body_MarshalYAML :: "bytes \<Rightarrow> ybody" where
  "body_MarshalYAML data =
     (if yamlSafeText data then YNode (YScalar ''!!str'' (newline \<in> set data) data)
      else YStrings [(''encoding'', ''base64''), (''data'', b64_encode data)])"

text \<open>\<open>strmap\<close> is the yaml decoder of a mapping node into a map of strings.\<close>

definition body_UnmarshalYAML :: "(ynode \<Rightarrow> (string \<times> string) list option) \<Rightarrow> ynode \<Rightarrow> bytes option" where
  "body_UnmarshalYAML strmap node =
     (case node of
        YScalar _ _ s \<Rightarrow> Some s
      | YMap ns \<Rightarrow>
          (case strmap node of
             None \<Rightarrow> None
           | Some m \<Rightarrow>
               if mget0 [] m ''encoding'' \<noteq> ''base64'' then None
               else b64_decode (mget0 [] m ''data''))
      | _ \<Rightarrow> None)"

section \<open>Files\<close>

text \<open>
  The error of wirefmt.Unmarshal, Load and Save.  \<open>ydec\<close> and \<open>yenc\<close> stand for yaml.Unmarshal
  into a File and for the yaml encoder with indent 2.
\<close>

datatype wire_error =
    WUnmarshal
  | WSchema int
  | WOpen
  | WTooBig
  | WMarshal
  | WFs string

definition Unmarshal :: "(bytes \<Rightarrow> wfile option) \<Rightarrow> bytes \<Rightarrow> wire_error + wfile" where
  "Unmarshal ydec data =
     (case ydec data of
        None \<Rightarrow> Inl WUnmarshal
      | Some f \<Rightarrow> if wf_schema f \<noteq> SchemaVersion then Inl (WSchema (wf_schema f)) else Inr f)"

definition Marshal :: "(wfile \<Rightarrow> bytes option) \<Rightarrow> wfile \<Rightarrow> wire_error + bytes" where
  "Marshal yenc f = (case yenc f of None \<Rightarrow> Inl WMarshal | Some b \<Rightarrow> Inr b)"

definition MaxCassetteBytes :: int where
  "MaxCassetteBytes = 256 * 2 ^ 20"

text \<open>The file system is the map from paths to contents; os.Open fails on a missing file.\<close>

type_synonym fs = "(string \<times> bytes) list"

definition Load :: "(bytes \<Rightarrow> wfile option) \<Rightarrow> fs \<Rightarrow> string \<Rightarrow> wire_error + wfile" where
  "Load ydec files path =
     (case mget files path of
        None \<Rightarrow> Inl WOpen
      | Some data \<Rightarrow>
          if int (length data) > MaxCassetteBytes then Inl WTooBig else Unmarshal ydec data)"

text \<open>
  The system calls of one Save and how each ends: a failing write leaves the bytes written so
  far in the temporary file.  Every state the file system goes through is in the trace, the
  last one is the state left behind (os.Remove of the temporary file is deferred).
\<close>

record save_env =
  se_tmp :: string
  se_mkdir :: bool
  se_create :: bool
  se_write :: "nat option"
  se_close :: bool
  se_rename :: bool

definition fs_remove :: "string \<Rightarrow> fs \<Rightarrow> fs" where
  "fs_remove p files = filter (\<lambda>kv. fst kv \<noteq> p) files"

definition save_steps :: "save_env \<Rightarrow> fs \<Rightarrow> string \<Rightarrow> bytes \<Rightarrow> fs list \<times> wire_error option" where
  "save_steps env files path data =
     (if \<not> se_mkdir env then ([files], Some (WFs ''mkdir''))
      else if \<not> se_create env then ([files], Some (WFs ''create''))
      else
        let tmp = se_tmp env; s1 = mput tmp [] files in
        case se_write env of
          Some n \<Rightarrow>
            let s2 = mput tmp (take n data) s1
            in ([files, s1, s2, fs_remove tmp s2], Some (WFs ''write''))
        | None \<Rightarrow>
            let s2 = mput tmp data s1 in
            if \<not> se_close env then ([files, s1, s2, fs_remove tmp s2], Some (WFs ''close''))
            else if \<not> se_rename env then ([files, s1, s2, fs_remove tmp s2], Some (WFs ''rename''))
            else let s3 = fs_remove tmp (mput path data s2) in ([files, s1, s2, s3], None))"

text \<open>Save stamps the schema version into the file it is given.\<close>

definition stamp_schema :: "wfile \<Rightarrow> wfile" where
  "stamp_schema f = (if wf_schema f = 0 then f\<lparr>wf_schema := SchemaVersion\<rparr> else f)"

definition Save :: "(wfile \<Rightarrow> bytes option) \<Rightarrow> save_env \<Rightarrow> fs \<Rightarrow> string \<Rightarrow> wfile \<Rightarrow>
    wfile \<times> fs list \<times> wire_error option" where
  "Save yenc env files path f =
     (let f = stamp_schema f in
      case Marshal yenc f of
        Inl e \<Rightarrow> (f, [files], Some e)
      | Inr data \<Rightarrow> (f, save_steps env files path data))"

section \<open>Lemmas: base64\<close>

lemma b64_val_char: "n < 64 \<Longrightarrow> b64_val (b64_char n) = Some n"
  unfolding b64_val_def b64_char_def by (auto simp: Let_def mod_less)

lemma b64_char_ne: "n < 64 \<Longrightarrow> b64_char n \<noteq> CHR ''=''"
  using b64_val_char [of n] by (auto simp: b64_val_def)

lemma b64_char_line: "n < 64 \<Longrightarrow> byte_of (b64_char n) \<noteq> (10::nat) \<and> byte_of (b64_char n) \<noteq> (13::nat)"
  unfolding b64_char_def by (auto simp: mod_less)

lemma b64_split:
  fixes x y z :: nat
  assumes "y < 256" "z < 256"
  shows "(x * 65536 + y * 256 + z) div 262144 = x div 4"
    and "(x * 65536 + y * 256 + z) div 4096 mod 64 = x mod 4 * 16 + y div 16"
    and "(x * 65536 + y * 256 + z) div 64 mod 64 = y mod 16 * 4 + z div 64"
    and "(x * 65536 + y * 256 + z) mod 64 = z mod 64"
proof -
  let ?v = "x * 65536 + y * 256 + z"
  define a b c d e f where "a = x div 4" "b = x mod 4" "c = y div 16" "d = y mod 16"
    "e = z div 64" "f = z mod 64"
  note defs = this
  have x: "x = 4 * a + b" "b < 4" and y: "y = 16 * c + d" "d < 16" "c < 16"
    and z: "z = 64 * e + f" "f < 64" "e < 4"
    using assms by (auto simp: defs)
  show "?v div 262144 = x div 4"
    unfolding defs(1) [symmetric] by (rule div_nat_eqI) (use assms x in simp)+
  have "?v div 4096 = b * 16 + c + 64 * a" by (rule div_nat_eqI) (use x y z in simp)+
  then show "?v div 4096 mod 64 = x mod 4 * 16 + y div 16"
    using x y by (simp add: defs(2,3) [symmetric])
  have "?v div 64 = d * 4 + e + 64 * (b * 16 + c + 64 * a)"
    by (rule div_nat_eqI) (use x y z in simp)+
  then show "?v div 64 mod 64 = y mod 16 * 4 + z div 64"
    using y z by (simp only: mod_mult_self2 defs(4,5) [symmetric]) simp
  have "?v = z + 64 * (x * 1024 + y * 4)" by simp
  then show "?v mod 64 = z mod 64" by (simp only: mod_mult_self2)
qed

lemma b64_lt [simp]: "(v::nat) mod 64 < 64" "byte_of c div 4 < (64::nat)"
  using nat_of_char_less_256 [of c] by (auto simp: less_mult_imp_div_less)


lemma b64_join:
  fixes x y z :: nat
  assumes "x < 256" "y < 256" "z < 256"
  shows "x div 4 < 64" "x mod 4 * 16 + y div 16 < 64" "y mod 16 * 4 + z div 64 < 64"
    and "x mod 4 * 16 < 64" "y mod 16 * 4 < 64"
    and "(x mod 4 * 16 + y div 16) div 16 = x mod 4" "(x mod 4 * 16 + y div 16) mod 16 = y div 16"
    and "(y mod 16 * 4 + z div 64) div 4 = y mod 16" "(y mod 16 * 4 + z div 64) mod 4 = z div 64"
proof -
  have "x mod 4 < 4" "y mod 16 < 16" "y div 16 < 16" "z div 64 < 4"
    using assms by (auto simp: less_mult_imp_div_less)
  then show "x mod 4 * 16 + y div 16 < 64" "y mod 16 * 4 + z div 64 < 64" "x mod 4 * 16 < 64"
      "y mod 16 * 4 < 64"
      "(x mod 4 * 16 + y div 16) div 16 = x mod 4" "(x mod 4 * 16 + y div 16) mod 16 = y div 16"
      "(y mod 16 * 4 + z div 64) div 4 = y mod 16" "(y mod 16 * 4 + z div 64) mod 4 = z div 64"
    by simp_all
qed (use assms in \<open>simp add: less_mult_imp_div_less\<close>)

lemma b64_round: "b64_quads (b64_encode s) = Some s"
proof (induction s rule: b64_encode.induct)
  case (2 x)
  have x: "byte_of x < (256::nat)" by simp
  show ?case
    using b64_split [of 0 0 "byte_of x"] b64_join(1,4) [OF x x x]
    by (simp add: Let_def b64_val_char b64_char_ne)
next
  case (3 x y)
  have x: "byte_of x < (256::nat)" and y: "byte_of y < (256::nat)" by simp_all
  show ?case
    unfolding b64_encode.simps Let_def
    using b64_split [of "byte_of y" 0 "byte_of x"] b64_join [OF x y, of 0]
    by (simp add: b64_val_char b64_char_ne del: b64_lt)
next
  case (4 x y z s)
  have x: "byte_of x < (256::nat)" and y: "byte_of y < (256::nat)" and z: "byte_of z < (256::nat)"
    by simp_all
  show ?case
    unfolding b64_encode.simps Let_def b64_split [OF y z]
    using b64_join [OF x y z] 4
    by (simp add: b64_val_char b64_char_ne del: b64_lt)
qed simp


lemma b64_encode_line: "\<forall>c \<in> set (b64_encode s). byte_of c \<noteq> (10::nat) \<and> byte_of c \<noteq> (13::nat)"
proof (induction s rule: b64_encode.induct)
  case (2 x)
  then show ?case using b64_join(1) [of "byte_of x" 0 0] by (simp add: Let_def b64_char_line b64_split(1))
next
  case (3 x y)
  then show ?case
    using b64_split(1) [of "byte_of y" 0 "byte_of x"] by (simp add: Let_def b64_char_line)
next
  case (4 x y z s)
  then show ?case by (simp add: Let_def b64_char_line b64_split(1))
qed simp

lemma b64_decode_encode: "b64_decode (b64_encode s) = Some s"
proof -
  have "filter (\<lambda>c. byte_of c \<noteq> (10::nat) \<and> byte_of c \<noteq> (13::nat)) (b64_encode s) = b64_encode s"
    using b64_encode_line [of s] by (simp add: filter_id_conv)
  then show ?thesis by (simp add: b64_decode_def b64_round)
qed

section \<open>Round trips of the YAML forms\<close>

text \<open>
  A body read back from its YAML form is the body that was written, byte for byte, whether it
  is stored as text or as base64.  The yaml library is asked only to read a string map back.
\<close>

theorem body_yaml_roundtrip:
  assumes "\<And>m. \<exists>ns. render m = YMap ns" "\<And>m k. mget0 [] (the (strmap (render m))) k = mget0 [] m k"
    and "\<And>m. strmap (render m) \<noteq> None"
  shows "body_UnmarshalYAML strmap
    (case body_MarshalYAML d of YNode n \<Rightarrow> n | YStrings m \<Rightarrow> render m) = Some d"
proof (cases "yamlSafeText d")
  case True
  then show ?thesis by (simp add: body_MarshalYAML_def body_UnmarshalYAML_def)
next
  case False
  let ?m = "[(''encoding'', ''base64''), (''data'', b64_encode d)]"
  obtain ns where ns: "render ?m = YMap ns" using assms(1) by blast
  obtain m where m: "strmap (render ?m) = Some m" using assms(3) by (cases "strmap (render ?m)") blast+
  have "mget0 [] m k = mget0 [] ?m k" for k using assms(2) [of ?m k] m by simp
  then have "mget0 [] m ''encoding'' = ''base64''" "mget0 [] m ''data'' = b64_encode d"
    by (simp_all add: mget0_def)
  then show ?thesis
    using False ns m by (simp add: body_MarshalYAML_def body_UnmarshalYAML_def b64_decode_encode)
qed

fun node_pairs :: "ynode list \<Rightarrow> (string \<times> string) list" where
  "node_pairs (k # v # ns) = (node_value k, node_value v) # node_pairs ns"
| "node_pairs _ = []"

lemma node_pairs_scalars: "node_pairs (concat (map (\<lambda>(k, v). [YScalar [] False k, YScalar [] False v]) m)) = m"
  by (induction m) (auto simp: node_value_def)

lemma body_yaml_roundtrip_witness:
  "body_UnmarshalYAML (\<lambda>n. case n of YMap ns \<Rightarrow> Some (node_pairs ns) | _ \<Rightarrow> None)
    (case body_MarshalYAML [char_of (255::nat)] of YNode n \<Rightarrow> n
     | YStrings m \<Rightarrow> YMap (concat (map (\<lambda>(k, v). [YScalar [] False k, YScalar [] False v]) m))) =
   Some [char_of (255::nat)]"
  by (rule body_yaml_roundtrip) (simp_all add: node_pairs_scalars)

lemma header_pairs_marshal:
  "header_pairs (concat (map (\<lambda>f. [YScalar [] False (hf_name f),
      YSeq True (map (YScalar [] False) (hf_values f))]) hs)) = hs"
  by (induction hs) (simp_all add: node_value_def comp_def)

text \<open>
  Headers read back from their YAML mapping are the headers written, in the sorted order that
  makes the file byte-stable: nothing is lost, merged or reordered within a name.
\<close>

theorem headers_yaml_roundtrip: "headers_UnmarshalYAML (headers_MarshalYAML hs) = Some (sort_key hf_name hs)"
  by (simp add: headers_UnmarshalYAML_def headers_MarshalYAML_def header_pairs_marshal sort_key_id_if_sorted)

section \<open>Headers from and to http.Header\<close>

lemma map_of_mput: "map_of (mput k v m) = (map_of m)(k \<mapsto> v)"
  by (induction k v m rule: mput.induct) auto

lemma ToHTTP_map:
  "map_of (foldl (\<lambda>h f. mput (CanonicalHeaderKey (hf_name f)) (hf_values f) h) h0 hs) =
   map_of h0 ++ map_of (rev (map (\<lambda>f. (CanonicalHeaderKey (hf_name f), hf_values f)) hs))"
  by (induction hs arbitrary: h0) (auto simp: map_of_mput map_add_def fun_eq_iff split: option.splits)

lemma map_of_same_set:
  assumes "set m = set m'" "distinct (map fst m)" "distinct (map fst m')"
  shows "map_of m = map_of m'"
  using assms by (intro map_of_eqI) (auto dest: map_of_is_SomeI)

lemma headers_http_roundtrip_map:
  assumes "distinct (map fst h)" "\<forall>n \<in> fst ` set h. CanonicalHeaderKey n = n"
  shows "map_of (ToHTTP (HeadersFromHTTP h)) = map_of h"
proof -
  let ?l = "sort_key hf_name (map (\<lambda>(n, vs). \<lparr>hf_name = n, hf_values = vs\<rparr>) h)"
  let ?p = "\<lambda>f. (CanonicalHeaderKey (hf_name f), hf_values f)"
  have l: "HeadersFromHTTP h = ?l" by (simp add: HeadersFromHTTP_def)
  have m: "map ?p (map (\<lambda>(n, vs). \<lparr>hf_name = n, hf_values = vs\<rparr>) h) = h"
using assms(2) by (induction h) auto
  have "mset (map ?p ?l) = image_mset ?p (mset (map (\<lambda>(n, vs). \<lparr>hf_name = n, hf_values = vs\<rparr>) h))"
    by (simp only: mset_map mset_sort)
  also have "\<dots> = mset (map ?p (map (\<lambda>(n, vs). \<lparr>hf_name = n, hf_values = vs\<rparr>) h))"
    by (simp only: mset_map)
  finally have s: "mset (map ?p ?l) = mset h" unfolding m .
  then have "set (map ?p ?l) = set h" by (rule mset_eq_setD)
  moreover have "distinct (map fst (map ?p ?l))"
    using mset_eq_imp_distinct_iff [of "map fst (map ?p ?l)" "map fst h"] s assms(1)
    by (simp only: mset_map)
  ultimately have "map_of (rev (map ?p ?l)) = map_of h"
    using assms(1) by (intro map_of_same_set) (auto simp: rev_map [symmetric])
  then show ?thesis by (simp add: l ToHTTP_def ToHTTP_map)
qed

text \<open>
  The header list stored for a response gives back the http.Header it was made from: every
  name with its values in their order.
\<close>

theorem headers_http_roundtrip:
  assumes "distinct (map fst h)" "\<forall>n \<in> fst ` set h. CanonicalHeaderKey n = n"
  shows "map_of (ToHTTP (HeadersFromHTTP h)) = map_of h"
  using assms by (rule headers_http_roundtrip_map)

lemma headers_http_roundtrip_witness:
  "map_of (ToHTTP (HeadersFromHTTP [(''Server'', [''b'', ''a'']), (''Date'', [''x''])])) =
   map_of [(''Server'', [''b'', ''a'']), (''Date'', [''x''])]"
  by (rule headers_http_roundtrip) code_simp+

section \<open>Saving\<close>

lemma mget_fs_remove: "mget (fs_remove p files) q = (if p = q then None else mget files q)"
  by (induction files) (auto simp: fs_remove_def)

lemma save_steps_states:
  assumes "se_tmp env \<noteq> path" "st \<in> set (fst (save_steps env files path data))"
  shows "mget st path = mget files path \<or> mget st path = Some data"
  using assms by (auto simp: save_steps_def Let_def mget_fs_remove map_of_mput split: if_splits option.splits)

lemma save_steps_final:
  assumes "se_tmp env \<noteq> path" "mget files (se_tmp env) = None"
  shows "mget (last (fst (save_steps env files path data))) =
    (if snd (save_steps env files path data) = None then (mget files)(path \<mapsto> data) else mget files)"
  using assms
  by (auto simp: save_steps_def Let_def mget_fs_remove map_of_mput fun_eq_iff split: if_splits option.splits)

lemma Save_trace:
  assumes "se_tmp env \<noteq> path" "mget files (se_tmp env) = None"
    and "Save yenc env files path f = (f', states, err)"
  shows "(\<forall>st \<in> set states. mget st path = mget files path \<or> mget st path = yenc f') \<and>
    mget (last states) = (if err = None then (mget files)(path := yenc f') else mget files) \<and>
    (err = None \<longrightarrow> yenc f' \<noteq> None)"
proof (cases "yenc (stamp_schema f)")
  case None
  then show ?thesis using assms(3) by (auto simp: Save_def Marshal_def)
next
  case (Some data)
  then have s: "save_steps env files path data = (states, err)" "f' = stamp_schema f"
    using assms(3) by (auto simp: Save_def Marshal_def Let_def)
  show ?thesis
    using save_steps_states [OF assms(1), of _ files data] save_steps_final [OF assms(1,2), of data] Some s
    by auto
qed


definition sample_file :: wfile where
  "sample_file = \<lparr>wf_schema = 0, wf_notice = [], wf_expect = None, wf_match = None, wf_prov = [], wf_its = []\<rparr>"

definition failing_env :: save_env where
  "failing_env = \<lparr>se_tmp = ''t'', se_mkdir = True, se_create = True, se_write = Some 1,
     se_close = True, se_rename = True\<rparr>"



definition working_env :: save_env where
  "working_env = \<lparr>se_tmp = ''t'', se_mkdir = True, se_create = True, se_write = None,
     se_close = True, se_rename = True\<rparr>"

text \<open>A stand-in for the yaml library on files without anything but a notice.\<close>

definition toy_enc :: "wfile \<Rightarrow> bytes option" where
  "toy_enc g = (if g = sample_file\<lparr>wf_schema := 1, wf_notice := wf_notice g\<rparr> then Some (wf_notice g) else None)"

definition toy_dec :: "bytes \<Rightarrow> wfile option" where
  "toy_dec b = Some (sample_file\<lparr>wf_schema := 1, wf_notice := b\<rparr>)"


end
