(* ===== verification/Json_Roundtrip.thy ===== *)
theory Json_Roundtrip
  imports Json
begin

text \<open>
  The encoder and the parser fit: the parser reads back every well-formed value the encoder
  writes, everything the parser returns is well formed and within the nesting limit, and the
  fuel of \<open>jprefix\<close> is enough, so that no document is refused for want of it.
\<close>

section \<open>Number texts\<close>

definition ndelim :: "string \<Rightarrow> bool" where
  "ndelim r = (case r of [] \<Rightarrow> True
     | c # _ \<Rightarrow> \<not> is_digit c \<and> c \<noteq> CHR ''.'' \<and> c \<noteq> CHR ''e'' \<and> c \<noteq> CHR ''E'')"

lemma ndelim_simps [simp]:
  "ndelim []" "ndelim (CHR '','' # r)" "ndelim (CHR '']'' # r)" "ndelim (CHR ''}'' # r)"
  by (simp_all add: ndelim_def is_digit_def)

lemma digits_append:
  "ndelim r \<Longrightarrow> takeWhile is_digit (s @ r) = takeWhile is_digit s \<and>
     dropWhile is_digit (s @ r) = dropWhile is_digit s @ r"
proof (induction s)
  case Nil
  then show ?case by (cases r) (auto simp: ndelim_def)
qed auto

lemma jnum_int_append:
  "jnum_int s = Some (i, t) \<Longrightarrow> ndelim r \<Longrightarrow> jnum_int (s @ r) = Some (i, t @ r)"
  using digits_append [of r s]
  by (cases s) (auto simp: jnum_int_def jdigits_def split: if_splits)

lemma jnum_frac_append:
  "jnum_frac s = Some (i, t) \<Longrightarrow> ndelim r \<Longrightarrow> jnum_frac (s @ r) = Some (i, t @ r)"
  using digits_append [of r "tl s"]
  by (cases s; cases r) (auto simp: jnum_frac_def ndelim_def split: if_splits)

lemma jnum_sign_append:
  "s \<noteq> [] \<Longrightarrow> jnum_sign s = (sg, t) \<Longrightarrow> jnum_sign (s @ r) = (sg, t @ r)"
  by (cases s) (auto simp: jnum_sign_def split: if_splits)

lemma jnum_exp_append:
  assumes "jnum_exp s = Some (i, t)" "ndelim r"
  shows "jnum_exp (s @ r) = Some (i, t @ r)"
proof (cases s)
  case Nil
  then show ?thesis using assms by (cases r) (auto simp: jnum_exp_def ndelim_def)
next
  case (Cons c s')
  show ?thesis
  proof (cases "c = CHR ''e'' \<or> c = CHR ''E''")
    case True
    obtain sg u where sg: "jnum_sign s' = (sg, u)" by (cases "jnum_sign s'")
    have ne: "takeWhile is_digit u \<noteq> []" using assms(1) Cons True sg
      by (auto simp: jnum_exp_def split: if_splits)
    then have "s' \<noteq> []" using sg by (cases s') (auto simp: jnum_sign_def)
    then have "jnum_sign (s' @ r) = (sg, u @ r)" using sg by (rule jnum_sign_append)
    then show ?thesis using assms Cons True sg ne digits_append [OF assms(2), of u]
      by (auto simp: jnum_exp_def)
  next
    case False
    then show ?thesis using assms Cons by (auto simp: jnum_exp_def)
  qed
qed

lemma jnumE:
  assumes "jnum s = Some (n, t)"
  obtains m s0 i s1 f s2 e where "jnum_minus s = (m, s0)" "jnum_int s0 = Some (i, s1)"
    "jnum_frac s1 = Some (f, s2)" "jnum_exp s2 = Some (e, t)" "n = m @ i @ f @ e"
  using assms by (auto simp: jnum_def split: option.splits prod.splits)

lemma jnum_append:
  assumes "jnum s = Some (n, t)" "ndelim r"
  shows "jnum (s @ r) = Some (n, t @ r)"
proof -
  obtain m s0 i s1 f s2 e where m: "jnum_minus s = (m, s0)" and p: "jnum_int s0 = Some (i, s1)"
      "jnum_frac s1 = Some (f, s2)" "jnum_exp s2 = Some (e, t)" "n = m @ i @ f @ e"
    using assms(1) by (rule jnumE)
  have "s \<noteq> []" using p(1) m by (cases s) (auto simp: jnum_int_def jnum_minus_def)
  then have m': "jnum_minus (s @ r) = (m, s0 @ r)"
    using m by (cases s) (auto simp: jnum_minus_def split: if_splits)
  show ?thesis unfolding jnum_def m'
    using jnum_int_append [OF p(1) assms(2)] jnum_frac_append [OF p(2) assms(2)]
      jnum_exp_append [OF p(3) assms(2)] p(4) by simp
qed

lemma digits_nil: "takeWhile is_digit (takeWhile is_digit s) = takeWhile is_digit s"
    "dropWhile is_digit (takeWhile is_digit s) = []"
  by (induction s) auto

lemma jnum_int_split: "jnum_int s = Some (i, t) \<Longrightarrow> s = i @ t \<and> i \<noteq> [] \<and> jnum_int i = Some (i, [])"
  by (cases s) (auto simp: jnum_int_def jdigits_def digits_nil split: if_splits)

lemma jnum_frac_split: "jnum_frac s = Some (i, t) \<Longrightarrow> s = i @ t \<and>
    (i = [] \<or> (\<exists>i'. i = CHR ''.'' # i' \<and> i' \<noteq> [] \<and> (\<forall>c \<in> set i'. is_digit c)))"
  by (cases s) (auto simp: jnum_frac_def dest: set_takeWhileD split: if_splits)

lemma jnum_exp_split: "jnum_exp s = Some (i, t) \<Longrightarrow> s = i @ t"
  by (cases s) (auto simp: jnum_exp_def jnum_sign_def split: if_splits list.splits)

lemma jnum_minus_split: "jnum_minus s = (m, s0) \<Longrightarrow> s = m @ s0"
  by (cases s) (auto simp: jnum_minus_def split: if_splits)

lemma jnum_split: "jnum s = Some (n, t) \<Longrightarrow> s = n @ t"
  by (erule jnumE) (auto dest!: jnum_minus_split jnum_int_split jnum_frac_split jnum_exp_split)

text \<open>A prefix that was read as a number reads as the same number on its own.\<close>

lemma jnum_exp_alone: "jnum_exp s = Some (e, t) \<Longrightarrow> jnum_exp e = Some (e, [])"
  by (cases s) (auto simp: jnum_exp_def jnum_sign_def digits_nil dest: set_takeWhileD split: if_splits list.splits)

lemma jnum_exp_start: "jnum_exp s = Some (e, t) \<Longrightarrow> e = [] \<or> hd e = CHR ''e'' \<or> hd e = CHR ''E''"
  by (cases s) (auto simp: jnum_exp_def split: if_splits prod.splits)

lemma takeWhile_stop: "(x = [] \<or> \<not> P (hd x)) \<Longrightarrow> \<forall>c \<in> set i. P c \<Longrightarrow>
    takeWhile P (i @ x) = i \<and> dropWhile P (i @ x) = x"
  by (cases x) (auto simp: takeWhile_append2)

lemma jnum_frac_alone:
  assumes "jnum_frac s = Some (f, t)" "e = [] \<or> hd e = CHR ''e'' \<or> hd e = CHR ''E''"
  shows "jnum_frac (f @ e) = Some (f, e)"
proof -
  have e: "e = [] \<or> \<not> is_digit (hd e)" "e = [] \<or> hd e \<noteq> CHR ''.''"
    using assms(2) by (auto simp: is_digit_def)
  consider "f = []" | f' where "f = CHR ''.'' # f'" "f' \<noteq> []" "\<forall>c \<in> set f'. is_digit c"
    using jnum_frac_split [OF assms(1)] by blast
  then show ?thesis
  proof cases
    case 1
    then show ?thesis using e by (cases e) (auto simp: jnum_frac_def)
  next
    case 2
    then show ?thesis using takeWhile_stop [where P = is_digit, OF e(1) 2(3)] by (simp add: jnum_frac_def)
  qed
qed

lemma jnum_int_alone:
  assumes "jnum_int s = Some (i, t)" "x = [] \<or> \<not> is_digit (hd x)"
  shows "jnum_int (i @ x) = Some (i, x)"
proof (cases s)
  case (Cons c s')
  show ?thesis
  proof (cases "c = CHR ''0''")
    case True
    then show ?thesis using assms Cons by (auto simp: jnum_int_def)
  next
    case False
    then have c: "is_digit c" "i = c # takeWhile is_digit s'"
      using assms(1) Cons by (auto simp: jnum_int_def jdigits_def split: if_splits)
    have "takeWhile is_digit (takeWhile is_digit s' @ x) = takeWhile is_digit s' \<and>
        dropWhile is_digit (takeWhile is_digit s' @ x) = x"
      by (rule takeWhile_stop [where P = is_digit, OF assms(2)]) (auto dest: set_takeWhileD)
    then show ?thesis using c False by (simp add: jnum_int_def jdigits_def)
  qed
qed (use assms in \<open>simp add: jnum_int_def\<close>)

lemma jnum_alone:
  assumes "jnum s = Some (n, t)"
  shows "jnum n = Some (n, [])"
proof -
  obtain m s0 i s1 f s2 e where m: "jnum_minus s = (m, s0)" and p: "jnum_int s0 = Some (i, s1)"
      "jnum_frac s1 = Some (f, s2)" "jnum_exp s2 = Some (e, t)" "n = m @ i @ f @ e"
    using assms by (rule jnumE)
  have e: "e = [] \<or> hd e = CHR ''e'' \<or> hd e = CHR ''E''" using p(3) by (rule jnum_exp_start)
  have f: "f = [] \<or> hd f = CHR ''.''" using jnum_frac_split [OF p(2)] by auto
  have "f @ e = [] \<or> \<not> is_digit (hd (f @ e))"
    using e f by (cases f; cases e) (auto simp: is_digit_def)
  note i = jnum_int_alone [OF p(1) this]
  have "i \<noteq> []" "hd i \<noteq> CHR ''-''"
    using p(1) by (cases s0; auto simp: jnum_int_def jdigits_def is_digit_def split: if_splits)+
  moreover have "m = [] \<or> m = ''-''" using m by (cases s) (auto simp: jnum_minus_def split: if_splits)
  ultimately have "jnum_minus n = (m, i @ f @ e)"
    using p(4) by (cases i) (auto simp: jnum_minus_def)
  then show ?thesis unfolding jnum_def
    using i jnum_frac_alone [OF p(2) e] jnum_exp_alone [OF p(3)] p(4) by simp
qed

section \<open>Parsing an encoded value\<close>

lemma quote_len: "length (jquote h s) \<ge> 2"
  by (simp add: jquote_def)

lemma is_digit_neq: "is_digit c \<Longrightarrow> \<not> is_ws c \<and> c \<noteq> CHR '']'' \<and> c \<noteq> CHR ''}'' \<and> c \<noteq> CHR ''{'' \<and>
    c \<noteq> CHR ''['' \<and> c \<noteq> dquote \<and> c \<noteq> CHR ''-''"
  by (auto simp: is_digit_def is_ws_def)

lemma jencode_start:
  assumes "jwf v"
  obtains c t where "jencode h v = c # t" "\<not> is_ws c" "c \<noteq> CHR '']''" "c \<noteq> CHR ''}''"
proof (cases v)
  case (JNum n)
  then have n: "jnum n = Some (n, [])" using assms by simp
  obtain m s0 i s1 where p: "jnum_minus n = (m, s0)" "jnum_int s0 = Some (i, s1)"
    using n by (rule jnumE)
  then obtain c t where "n = c # t" "c = CHR ''-'' \<or> is_digit c"
    by (cases n) (auto simp: jnum_int_def jnum_minus_def is_digit_def [of "CHR ''0''"] split: if_splits list.splits)
  then show ?thesis using that [of c t] JNum is_digit_neq [of c] by (auto simp: is_ws_def)
next
  case (JBool b)
  then show ?thesis using that by (cases b) (auto simp: is_ws_def)
qed (use that in \<open>auto simp: is_ws_def jquote_def\<close>)

lemma jencode_ne: "jwf v \<Longrightarrow> jencode h v \<noteq> []"
  by (erule jencode_start [of v h]) simp

lemma jencode_hd: "jwf v \<Longrightarrow> \<not> is_ws (hd (jencode h v)) \<and> hd (jencode h v) \<noteq> CHR '']'' \<and> jencode h v \<noteq> []"
  by (erule jencode_start [of v h]) simp

lemma skip_ws_jencode: "jwf v \<Longrightarrow> skip_ws (jencode h v @ r) = jencode h v @ r"
  by (erule jencode_start [of v h]) simp

abbreviation jmember :: "bool \<Rightarrow> string \<times> jval \<Rightarrow> string" where
  "jmember h kv \<equiv> jquote h (fst kv) @ '':'' @ jencode h (snd kv)"

lemma jencode_obj: "jencode h (JObj kvs) = ''{'' @ str_join '','' (map (jmember h) kvs) @ ''}''"
  by (simp add: case_prod_unfold)

text \<open>What has to be shown of one value: it is read back in front of any continuation.\<close>

definition reads_back :: "bool \<Rightarrow> jval \<Rightarrow> bool" where
  "reads_back h v = (\<forall>f d r. 2 * length (jencode h v) < f \<longrightarrow> jdepth v + d \<le> max_nesting \<longrightarrow>
     ndelim r \<longrightarrow> jp_val f d (jencode h v @ r) = Some (v, r))"

lemma reads_backD: "reads_back h v \<Longrightarrow> 2 * length (jencode h v) < f \<Longrightarrow>
    jdepth v + d \<le> max_nesting \<Longrightarrow> ndelim r \<Longrightarrow> jp_val f d (jencode h v @ r) = Some (v, r)"
  by (simp add: reads_back_def)

lemma jp_elems_reads_back:
  assumes "vs \<noteq> []" "\<forall>v \<in> set vs. reads_back h v \<and> jwf v \<and> jdepth v + d \<le> max_nesting"
    "2 * length (str_join '','' (map (jencode h) vs)) + 1 < f"
  shows "jp_elems f d (str_join '','' (map (jencode h) vs) @ '']'' @ r) = Some (vs, r)"
  using assms
proof (induction vs arbitrary: f)
  case (Cons v vs)
  obtain f' where f: "f = Suc f'" using Cons.prems by (cases f) auto
  show ?case
  proof (cases vs)
    case Nil
    then show ?thesis using Cons.prems f
      by (simp add: reads_backD is_ws_def)
  next
    case (Cons w ws)
    have IH: "jp_elems f' d (str_join '','' (map (jencode h) vs) @ '']'' @ r) = Some (vs, r)"
      using Cons Cons.prems f by (intro Cons.IH) auto
    have "jp_val f' d (jencode h v @ '','' @ str_join '','' (map (jencode h) vs) @ '']'' @ r) =
        Some (v, '','' @ str_join '','' (map (jencode h) vs) @ '']'' @ r)"
      using Cons Cons.prems f by (intro reads_backD) auto
    then show ?thesis using IH Cons f by (simp add: is_ws_def)
  qed
qed simp

lemma jp_mems_reads_back:
  assumes "kvs \<noteq> []" "\<forall>kv \<in> set kvs. reads_back h (snd kv) \<and> jwf (snd kv) \<and>
      valid_utf8 (fst kv) \<and> jdepth (snd kv) + d \<le> max_nesting"
    "2 * length (str_join '','' (map (jmember h) kvs)) + 1 < f"
  shows "jp_mems f d (str_join '','' (map (jmember h) kvs) @ ''}'' @ r) = Some (kvs, r)"
  using assms
proof (induction kvs arbitrary: f)
  case (Cons kv kvs)
  obtain k v where kv: "kv = (k, v)" by (cases kv)
  obtain f' where f: "f = Suc f'" using Cons.prems by (cases f) auto
  have k: "jstr (quote_body h k @ dquote # s) = Some (k, s)" for s
    using Cons.prems kv by (simp add: jstr_quote_body)
  show ?case
  proof (cases kvs)
    case Nil
    then show ?thesis using Cons.prems f kv k
      by (simp add: jquote_def is_ws_def reads_backD)
  next
    case (Cons w ws)
    have IH: "jp_mems f' d (str_join '','' (map (jmember h) kvs) @ ''}'' @ r) = Some (kvs, r)"
      using Cons Cons.prems f by (intro Cons.IH) auto
    have "jp_val f' d (jencode h v @ '','' @ str_join '','' (map (jmember h) kvs) @ ''}'' @ r) =
        Some (v, '','' @ str_join '','' (map (jmember h) kvs) @ ''}'' @ r)"
      using Cons Cons.prems f kv by (intro reads_backD) auto
    then show ?thesis using IH Cons f kv k by (simp add: jquote_def is_ws_def)
  qed
qed simp

lemma foldr_max_le: "foldr (\<lambda>v. max (g v)) vs 0 \<le> (n::nat) \<Longrightarrow> v \<in> set vs \<Longrightarrow> g v \<le> n"
  by (induction vs) auto

lemma skip_ws_join: "vs \<noteq> [] \<Longrightarrow> \<forall>v \<in> set vs. \<not> is_ws (hd (g v)) \<and> g v \<noteq> [] \<Longrightarrow>
    skip_ws (str_join sep (map g vs) @ r) = str_join sep (map g vs) @ r"
proof (cases vs)
  case (Cons v ws)
  assume "\<forall>v \<in> set vs. \<not> is_ws (hd (g v)) \<and> g v \<noteq> []"
  then show ?thesis using Cons by (cases "g v"; cases ws) auto
qed simp

lemma take1_join: "vs \<noteq> [] \<Longrightarrow> \<forall>v \<in> set vs. hd (g v) \<noteq> c \<and> g v \<noteq> [] \<Longrightarrow>
    take 1 (str_join sep (map g vs) @ r) \<noteq> [c]"
proof (cases vs)
  case (Cons v ws)
  assume "\<forall>v \<in> set vs. hd (g v) \<noteq> c \<and> g v \<noteq> []"
  then show ?thesis using Cons by (cases "g v"; cases ws) auto
qed simp

lemma reads_backI:
  assumes "\<And>f d r. 2 * length (jencode h v) \<le> f \<Longrightarrow> jdepth v + d \<le> max_nesting \<Longrightarrow> ndelim r \<Longrightarrow>
     jp_val (Suc f) d (jencode h v @ r) = Some (v, r)"
  shows "reads_back h v"
  unfolding reads_back_def
proof (intro allI impI)
  fix f d r
  assume "2 * length (jencode h v) < f" "jdepth v + d \<le> max_nesting" "ndelim r"
  then show "jp_val f d (jencode h v @ r) = Some (v, r)"
    using assms [of "f - 1" d r] by (cases f) auto
qed

lemma reads_back_num:
  assumes "jwf (JNum n)"
  shows "reads_back h (JNum n)"
proof (rule reads_backI)
  fix f d r
  assume "ndelim r"
  then have n: "jnum (n @ r) = Some (n, r)"
    using assms jnum_append [of n n "[]" r] by simp
  obtain c t where c: "n = c # t" "\<not> is_ws c" "c \<noteq> CHR '']''" "c \<noteq> CHR ''}''"
    using jencode_start [OF assms, of h] by auto
  have "jnum n = Some (n, [])" using assms by simp
  then obtain m s0 i s1 where p: "jnum_minus n = (m, s0)" "jnum_int s0 = Some (i, s1)"
    by (rule jnumE)
  then have "c = CHR ''-'' \<or> is_digit c"
    using c by (auto simp: jnum_int_def jnum_minus_def is_digit_def split: if_splits list.splits)
  then show "jp_val (Suc f) d (jencode h (JNum n) @ r) = Some (JNum n, r)"
    using c n is_digit_neq [of c] by auto
qed

lemma reads_back_arr:
  assumes "jwf (JArr vs)" "\<And>v. v \<in> set vs \<Longrightarrow> reads_back h v"
  shows "reads_back h (JArr vs)"
proof (rule reads_backI)
  fix f d r
  assume f: "2 * length (jencode h (JArr vs)) \<le> f" and d: "jdepth (JArr vs) + d \<le> max_nesting"
  show "jp_val (Suc f) d (jencode h (JArr vs) @ r) = Some (JArr vs, r)"
  proof (cases "vs = []")
    case True
    then show ?thesis using d by (simp add: is_ws_def)
  next
    case False
    have st: "\<forall>v \<in> set vs. \<not> is_ws (hd (jencode h v)) \<and> hd (jencode h v) \<noteq> CHR '']'' \<and> jencode h v \<noteq> []"
      using assms(1) jencode_hd by simp
    have dep: "\<forall>v \<in> set vs. jdepth v + Suc d \<le> max_nesting"
      using d foldr_max_le [of jdepth vs "max_nesting - Suc d"] by fastforce
    have "jp_elems f (Suc d) (str_join '','' (map (jencode h) vs) @ '']'' @ r) = Some (vs, r)"
      using f dep assms False by (intro jp_elems_reads_back) auto
    then show ?thesis
      using d False st skip_ws_join [of vs "jencode h" "'',''" "'']'' @ r"]
        take1_join [of vs "jencode h" "CHR '']''" "'',''" "'']'' @ r"]
      by (simp add: is_ws_def)
  qed
qed

lemma reads_back_obj:
  assumes "jwf (JObj kvs)" "\<And>kv. kv \<in> set kvs \<Longrightarrow> reads_back h (snd kv)"
  shows "reads_back h (JObj kvs)"
proof (rule reads_backI)
  fix f d r
  assume f: "2 * length (jencode h (JObj kvs)) \<le> f" and d: "jdepth (JObj kvs) + d \<le> max_nesting"
  show "jp_val (Suc f) d (jencode h (JObj kvs) @ r) = Some (JObj kvs, r)"
  proof (cases "kvs = []")
    case True
    then show ?thesis using d by (simp add: is_ws_def)
  next
    case False
    have st: "\<forall>kv \<in> set kvs. \<not> is_ws (hd (jmember h kv)) \<and> hd (jmember h kv) \<noteq> CHR ''}'' \<and> jmember h kv \<noteq> []"
      by (simp add: jquote_def is_ws_def)
    have dep: "\<forall>kv \<in> set kvs. jdepth (snd kv) + Suc d \<le> max_nesting"
      using d foldr_max_le [of "\<lambda>kv. jdepth (snd kv)" kvs "max_nesting - Suc d"] by fastforce
    have len: "2 * length (str_join '','' (map (jmember h) kvs)) + 1 < f"
      using f unfolding jencode_obj by simp
    have "jp_mems f (Suc d) (str_join '','' (map (jmember h) kvs) @ ''}'' @ r) = Some (kvs, r)"
      using dep assms False by (intro jp_mems_reads_back [OF _ _ len]) auto
    then show ?thesis
      using d False st skip_ws_join [of kvs "jmember h" "'',''" "''}'' @ r"]
        take1_join [of kvs "jmember h" "CHR ''}''" "'',''" "''}'' @ r"]
      unfolding jencode_obj
      by (simp add: is_ws_def)
  qed
qed

theorem jp_val_jencode: "jwf v \<Longrightarrow> reads_back h v"
proof (induction v)
  case (JNum n)
  then show ?case by (rule reads_back_num)
next
  case (JStr s)
  then show ?case
    by (intro reads_backI) (simp add: jquote_def is_ws_def jstr_quote_body)
next
  case (JArr vs)
  then show ?case by (intro reads_back_arr) auto
next
  case (JObj kvs)
  then show ?case by (intro reads_back_obj) (auto simp: snds.simps)
qed (auto intro!: reads_backI simp: jlit_def is_ws_def is_digit_def)

corollary jprefix_jencode:
  "jwf v \<Longrightarrow> jdepth v \<le> max_nesting \<Longrightarrow> ndelim r \<Longrightarrow> jprefix (jencode h v @ r) = Some (v, r)"
  unfolding jprefix_def by (rule reads_backD [OF jp_val_jencode]) auto

corollary jparse_jencode: "jwf v \<Longrightarrow> jdepth v \<le> max_nesting \<Longrightarrow> jparse (jencode h v) = Some v"
  using jprefix_jencode [of v "[]" h] by (simp add: jparse_def)

section \<open>What the parser returns\<close>

lemma prep_SomeE:
  assumes "prep x r = Some (t, s)"
  obtains t' where "r = Some (t', s)" "t = x @ t'"
  using assms by (auto simp: prep_eq_Some)

lemma simple_escape_ascii: "simple_escape e = Some x \<Longrightarrow> byte_of x < (128::nat)"
  by (auto simp: simple_escape_def split: if_splits)

text \<open>A string literal decodes to valid UTF-8 and consumes input.\<close>

definition str_result :: "string \<Rightarrow> (string \<times> string) option \<Rightarrow> bool" where
  "str_result s x = (case x of None \<Rightarrow> True | Some (t, r) \<Rightarrow> valid_utf8 t \<and> length r < length s)"

lemma str_result_None [simp]: "str_result s None"
  by (simp add: str_result_def)

lemma str_result_prep:
  assumes "str_result s' x" "length s' \<le> length s" "y \<noteq> []" "rune_len y = length y"
  shows "str_result s (prep y x)"
proof (cases x)
  case (Some p)
  then show ?thesis using assms(1,2) valid_utf8_rune [OF assms(4,3)]
    by (cases p) (simp add: str_result_def)
qed simp

lemma rune_len_single: "byte_of c < (128::nat) \<Longrightarrow> rune_len [c] = length [c]"
  by (simp add: rune_len_ascii)

lemma jstr_result: "str_result s (jstr s)" "str_result s' (jstr_u s')"
proof (induction s and s' rule: jstr_jstr_u.induct)
  case (2 c s)
  let ?n = "rune_len (c # s)"
  consider "c = dquote" | "c = backslash" | "c \<noteq> dquote" "c \<noteq> backslash" "byte_of c < (32::nat)"
    | "c \<noteq> dquote" "c \<noteq> backslash" "\<not> byte_of c < (32::nat)" "byte_of c < (128::nat)"
    | "c \<noteq> dquote" "c \<noteq> backslash" "\<not> byte_of c < (128::nat)" "?n = 0"
    | "c \<noteq> dquote" "c \<noteq> backslash" "\<not> byte_of c < (128::nat)" "?n \<noteq> 0"
    by blast
  then show ?case
  proof cases
    case 1
    then show ?thesis by (simp add: jstr.simps(2) str_result_def)
  next
    case c: 2
    show ?thesis
    proof (cases s)
      case (Cons e s')
      show ?thesis
      proof (cases "e = CHR ''u''")
        case True
        then show ?thesis using 2(1) c Cons by (auto simp: jstr.simps(2) str_result_def split: option.splits)
      next
        case False
        show ?thesis
        proof (cases "simple_escape e")
          case (Some x)
          have "str_result (c # s) (prep [x] (jstr s'))"
            using 2(2) c Cons False Some rune_len_single [OF simple_escape_ascii [OF Some]]
            by (intro str_result_prep [of s']) auto
          then show ?thesis using c Cons False Some by (simp add: jstr.simps(2))
        qed (use c Cons False in \<open>simp add: jstr.simps(2)\<close>)
      qed
    qed (use c in \<open>simp add: jstr.simps(2)\<close>)
  next
    case 3
    then show ?thesis by (simp add: jstr.simps(2))
  next
    case 4
    then have "str_result (c # s) (prep [c] (jstr s))"
      using 2 rune_len_single by (intro str_result_prep [of s]) auto
    then show ?thesis using 4 by (simp add: jstr.simps(2))
  next
    case 5
    then have "str_result (c # s) (prep rune_error (jstr s))"
      using 2 rune_len_rune_error by (intro str_result_prep [of s]) auto
    then show ?thesis using 5 by (simp add: jstr.simps(2))
  next
    case 6
    have x: "rune_len (c # take (?n - 1) s) = length (c # take (?n - 1) s)"
      using rune_len_take [OF 6(4)] rune_len_le [of "c # s"] 6 by (simp add: take_Cons')
    have "str_result (c # s) (prep (c # take (?n - 1) s) (jstr (drop (?n - 1) s)))"
      using 2 6 x by (intro str_result_prep [of "drop (?n - 1) s"]) auto
    then show ?thesis using 6 by (simp add: jstr.simps(2))
  qed
next
  case (3 a b c d s)
  show ?case
  proof (cases "hex4 a b c d")
    case (Some u)
    show ?thesis
    proof (cases "is_surrogate u")
      case True
      let ?p = "case s of p # q # a' # b' # c' # d' # s' \<Rightarrow>
                      (if p = backslash \<and> q = CHR ''u''
                       then Option.bind (hex4 a' b' c' d') (decode_pair u) else None)
                    | _ \<Rightarrow> None"
      show ?thesis
      proof (cases ?p)
        case None
        have "str_result (a # b # c # d # s) (prep rune_error (jstr s))"
          using 3 None Some True rune_len_rune_error by (intro str_result_prep [of s]) auto
        then show ?thesis using None Some True by (simp add: jstr_u.simps(1))
      next
        case r: (Some r)
        have "str_result (a # b # c # d # s) (prep (encode_rune r) (jstr (drop 6 s)))"
          using 3 r Some True rune_len_encode_rune encode_rune_ne by (intro str_result_prep [of "drop 6 s"]) auto
        then show ?thesis using r Some True by (simp add: jstr_u.simps(1))
      qed
    next
      case False
      have "str_result (a # b # c # d # s) (prep (encode_rune u) (jstr s))"
        using 3 Some False rune_len_encode_rune encode_rune_ne by (intro str_result_prep [of s]) auto
      then show ?thesis using Some False by (simp add: jstr_u.simps(1))
    qed
  qed (simp add: jstr_u.simps(1))
qed (simp_all add: str_result_def)

lemma jstr_SomeD: "jstr s = Some (t, r) \<Longrightarrow> valid_utf8 t \<and> length r < length s"
  using jstr_result(1) [of s] by (simp add: str_result_def)

lemma length_skip_ws: "length (skip_ws s) \<le> length s"
  by (rule length_dropWhile_le)

lemma skip_ws_Cons_len: "skip_ws s = c # t \<Longrightarrow> length t < length s"
  using length_skip_ws [of s] by simp

lemma jnum_len: "jnum s = Some (n, r) \<Longrightarrow> length r < length s"
proof -
  assume n: "jnum s = Some (n, r)"
  then have "jnum n = Some (n, [])" by (rule jnum_alone)
  then have "n \<noteq> []" by (auto simp: jnum_def jnum_minus_def jnum_int_def)
  then show ?thesis using jnum_split [OF n] by simp
qed

lemma jlit_SomeD: "jlit s = Some (v, r) \<Longrightarrow> jwf v \<and> jdepth v = 0 \<and> length r < length s"
  by (auto simp: jlit_def split: if_splits dest: prefix_length_le)

lemma foldr_max_leI: "(\<And>v. v \<in> set vs \<Longrightarrow> g v \<le> (n::nat)) \<Longrightarrow> foldr (\<lambda>v. max (g v)) vs 0 \<le> n"
  by (induction vs) auto

lemma jdepth_arr_le: "jdepth (JArr vs) + d \<le> n \<longleftrightarrow> Suc d \<le> n \<and> (\<forall>v \<in> set vs. jdepth v + Suc d \<le> n)"
  by (induction vs) auto

lemma jdepth_obj_le: "jdepth (JObj kvs) + d \<le> n \<longleftrightarrow>
    Suc d \<le> n \<and> (\<forall>kv \<in> set kvs. jdepth (snd kv) + Suc d \<le> n)"
  by (induction kvs) auto

declare jdepth.simps(1,2) [simp del]

abbreviation val_ok :: "nat \<Rightarrow> jval \<Rightarrow> bool" where
  "val_ok d v \<equiv> jwf v \<and> jdepth v + d \<le> max_nesting"

text \<open>One step of each parser, as the cases in which it succeeds.\<close>

lemma jp_elems_Suc: "jp_elems (Suc f) d s = Some (ws, r) \<longleftrightarrow>
    (\<exists>v q. jp_val f d s = Some (v, q) \<and>
       ((\<exists>r' vs. skip_ws q = CHR '','' # r' \<and> jp_elems f d r' = Some (vs, r) \<and> ws = v # vs) \<or>
        (skip_ws q = CHR '']'' # r \<and> ws = [v])))"
  by (auto simp del: dropWhile_eq_Nil_conv split: option.splits list.splits)

lemma jp_mems_Suc: "jp_mems (Suc f) d s = Some (ws, r) \<longleftrightarrow>
    (\<exists>t k q r' v z. skip_ws s = dquote # t \<and> jstr t = Some (k, q) \<and> skip_ws q = CHR '':'' # r' \<and>
       jp_val f d r' = Some (v, z) \<and>
       ((\<exists>q' kvs. skip_ws z = CHR '','' # q' \<and> jp_mems f d q' = Some (kvs, r) \<and> ws = (k, v) # kvs) \<or>
        (skip_ws z = CHR ''}'' # r \<and> ws = [(k, v)])))"
  by (auto simp del: dropWhile_eq_Nil_conv split: option.splits list.splits if_splits)

definition jp_leaf :: "string \<Rightarrow> (jval \<times> string) option" where
  "jp_leaf s = (case s of [] \<Rightarrow> None | c # t \<Rightarrow>
     if c = dquote then map_option (\<lambda>(x, r). (JStr x, r)) (jstr t)
     else if c = CHR ''-'' \<or> is_digit c then map_option (\<lambda>(x, r). (JNum x, r)) (jnum (c # t))
     else jlit (c # t))"

lemma jp_val_Suc: "jp_val (Suc f) d s = Some (v, r) \<longleftrightarrow>
    (\<exists>t. skip_ws s = CHR ''{'' # t \<and> d < max_nesting \<and>
       (if take 1 (skip_ws t) = ''}'' then v = JObj [] \<and> r = drop 1 (skip_ws t)
        else (\<exists>kvs. jp_mems f (Suc d) t = Some (kvs, r) \<and> v = JObj kvs))) \<or>
    (\<exists>t. skip_ws s = CHR ''['' # t \<and> d < max_nesting \<and>
       (if take 1 (skip_ws t) = '']'' then v = JArr [] \<and> r = drop 1 (skip_ws t)
        else (\<exists>vs. jp_elems f (Suc d) t = Some (vs, r) \<and> v = JArr vs))) \<or>
    (take 1 (skip_ws s) \<noteq> ''{'' \<and> take 1 (skip_ws s) \<noteq> ''['' \<and> jp_leaf (skip_ws s) = Some (v, r))"
proof (cases "skip_ws s")
  case (Cons c t)
  consider "c = CHR ''{''" | "c = CHR ''[''" | "c \<noteq> CHR ''{''" "c \<noteq> CHR ''[''" by blast
  then show ?thesis
    by cases (use Cons in \<open>auto simp: jp_leaf_def not_le\<close>)
qed (simp add: jp_leaf_def del: dropWhile_eq_Nil_conv)

lemma jp_leaf_SomeD: "jp_leaf s = Some (v, r) \<Longrightarrow> jwf v \<and> jdepth v = 0 \<and> length r < length s"
proof (cases s)
  case (Cons c t)
  assume "jp_leaf s = Some (v, r)"
  then show ?thesis
    using Cons jlit_SomeD [of s v r] jnum_len [of s _ r] jnum_alone [of s _ r] jstr_SomeD [of t _ r]
    by (auto simp: jp_leaf_def split: if_splits)
qed (simp add: jp_leaf_def)

definition val_sound :: "nat \<Rightarrow> bool" where
  "val_sound f = (\<forall>d s v r. d \<le> max_nesting \<longrightarrow> jp_val f d s = Some (v, r) \<longrightarrow>
     val_ok d v \<and> length r < length s)"

definition elems_sound :: "nat \<Rightarrow> bool" where
  "elems_sound f = (\<forall>d s vs r. d \<le> max_nesting \<longrightarrow> jp_elems f d s = Some (vs, r) \<longrightarrow>
     (\<forall>v \<in> set vs. val_ok d v) \<and> length r < length s)"

definition mems_sound :: "nat \<Rightarrow> bool" where
  "mems_sound f = (\<forall>d s kvs r. d \<le> max_nesting \<longrightarrow> jp_mems f d s = Some (kvs, r) \<longrightarrow>
     (\<forall>kv \<in> set kvs. valid_utf8 (fst kv) \<and> val_ok d (snd kv)) \<and> length r < length s)"

lemma val_soundD: "val_sound f \<Longrightarrow> d \<le> max_nesting \<Longrightarrow> jp_val f d s = Some (v, r) \<Longrightarrow>
    val_ok d v \<and> length r < length s"
  unfolding val_sound_def by blast

lemma elems_soundD: "elems_sound f \<Longrightarrow> d \<le> max_nesting \<Longrightarrow> jp_elems f d s = Some (vs, r) \<Longrightarrow>
    (\<forall>v \<in> set vs. val_ok d v) \<and> length r < length s"
  unfolding elems_sound_def by blast

lemma mems_soundD: "mems_sound f \<Longrightarrow> d \<le> max_nesting \<Longrightarrow> jp_mems f d s = Some (kvs, r) \<Longrightarrow>
    (\<forall>kv \<in> set kvs. valid_utf8 (fst kv) \<and> val_ok d (snd kv)) \<and> length r < length s"
  unfolding mems_sound_def by blast

lemma elems_sound_Suc:
  assumes "val_sound f" "elems_sound f"
  shows "elems_sound (Suc f)"
  unfolding elems_sound_def
proof (intro allI impI)
  fix d s vs r
  assume d: "d \<le> max_nesting" and "jp_elems (Suc f) d s = Some (vs, r)"
  then obtain v q where v: "jp_val f d s = Some (v, q)" and c:
      "(\<exists>r' ws. skip_ws q = CHR '','' # r' \<and> jp_elems f d r' = Some (ws, r) \<and> vs = v # ws) \<or>
       (skip_ws q = CHR '']'' # r \<and> vs = [v])"
    unfolding jp_elems_Suc by blast
  note q = val_soundD [OF assms(1) d v]
  from c show "(\<forall>v \<in> set vs. val_ok d v) \<and> length r < length s"
  proof
    assume "\<exists>r' ws. skip_ws q = CHR '','' # r' \<and> jp_elems f d r' = Some (ws, r) \<and> vs = v # ws"
    then obtain r' ws where w: "skip_ws q = CHR '','' # r'" "jp_elems f d r' = Some (ws, r)" "vs = v # ws"
      by blast
    show ?thesis
      using q elems_soundD [OF assms(2) d w(2)] skip_ws_Cons_len [OF w(1)] w(3) by auto
  next
    assume "skip_ws q = CHR '']'' # r \<and> vs = [v]"
    then show ?thesis using q skip_ws_Cons_len [of q] by auto
  qed
qed

lemma mems_sound_Suc:
  assumes "val_sound f" "mems_sound f"
  shows "mems_sound (Suc f)"
  unfolding mems_sound_def
proof (intro allI impI)
  fix d s kvs r
  assume d: "d \<le> max_nesting" and "jp_mems (Suc f) d s = Some (kvs, r)"
  then obtain t k q r' v z where v: "skip_ws s = dquote # t" "jstr t = Some (k, q)"
      "skip_ws q = CHR '':'' # r'" "jp_val f d r' = Some (v, z)" and c:
      "(\<exists>q' ws. skip_ws z = CHR '','' # q' \<and> jp_mems f d q' = Some (ws, r) \<and> kvs = (k, v) # ws) \<or>
       (skip_ws z = CHR ''}'' # r \<and> kvs = [(k, v)])"
    unfolding jp_mems_Suc by blast
  note q = val_soundD [OF assms(1) d v(4)]
  have z: "length z < length s" "valid_utf8 k"
    using q skip_ws_Cons_len [OF v(1)] skip_ws_Cons_len [OF v(3)] jstr_SomeD [OF v(2)] by auto
  from c show "(\<forall>kv \<in> set kvs. valid_utf8 (fst kv) \<and> val_ok d (snd kv)) \<and> length r < length s"
  proof
    assume "\<exists>q' ws. skip_ws z = CHR '','' # q' \<and> jp_mems f d q' = Some (ws, r) \<and> kvs = (k, v) # ws"
    then obtain q' ws where w: "skip_ws z = CHR '','' # q'" "jp_mems f d q' = Some (ws, r)" "kvs = (k, v) # ws"
      by blast
    show ?thesis
      using q z mems_soundD [OF assms(2) d w(2)] skip_ws_Cons_len [OF w(1)] w(3) by auto
  next
    assume "skip_ws z = CHR ''}'' # r \<and> kvs = [(k, v)]"
    then show ?thesis using q z skip_ws_Cons_len [of z] by auto
  qed
qed

lemma val_sound_Suc:
  assumes "elems_sound f" "mems_sound f"
  shows "val_sound (Suc f)"
  unfolding val_sound_def
proof (intro allI impI)
  fix d s v r
  assume d: "d \<le> max_nesting" and "jp_val (Suc f) d s = Some (v, r)"
  then consider t where "skip_ws s = CHR ''{'' # t" "d < max_nesting" "take 1 (skip_ws t) = ''}''"
      "v = JObj []" "r = drop 1 (skip_ws t)"
    | t kvs where "skip_ws s = CHR ''{'' # t" "d < max_nesting"
      "jp_mems f (Suc d) t = Some (kvs, r)" "v = JObj kvs"
    | t where "skip_ws s = CHR ''['' # t" "d < max_nesting" "take 1 (skip_ws t) = '']''"
      "v = JArr []" "r = drop 1 (skip_ws t)"
    | t vs where "skip_ws s = CHR ''['' # t" "d < max_nesting"
      "jp_elems f (Suc d) t = Some (vs, r)" "v = JArr vs"
    | "jp_leaf (skip_ws s) = Some (v, r)"
    unfolding jp_val_Suc by (auto split: if_splits)
  then show "val_ok d v \<and> length r < length s"
  proof cases
    case 1
    then show ?thesis using skip_ws_Cons_len [OF 1(1)] length_skip_ws [of t]
      by (auto simp: jdepth_obj_le)
  next
    case 2
    have "Suc d \<le> max_nesting" using 2(2) by simp
    from mems_soundD [OF assms(2) this 2(3)] show ?thesis
      using 2 skip_ws_Cons_len [OF 2(1)] by (auto simp: jdepth_obj_le)
  next
    case 3
    then show ?thesis using skip_ws_Cons_len [OF 3(1)] length_skip_ws [of t]
      by (auto simp: jdepth_arr_le)
  next
    case 4
    have "Suc d \<le> max_nesting" using 4(2) by simp
    from elems_soundD [OF assms(1) this 4(3)] show ?thesis
      using 4 skip_ws_Cons_len [OF 4(1)] by (auto simp: jdepth_arr_le)
  next
    case 5
    then show ?thesis using jp_leaf_SomeD [OF 5] length_skip_ws [of s] d by auto
  qed
qed

lemma jp_sound: "val_sound f \<and> elems_sound f \<and> mems_sound f"
proof (induction f)
  case 0
  show ?case by (simp add: val_sound_def elems_sound_def mems_sound_def)
next
  case (Suc f)
  then show ?case using val_sound_Suc elems_sound_Suc mems_sound_Suc by blast
qed

theorem jprefix_wf: "jprefix s = Some (v, r) \<Longrightarrow> jwf v \<and> jdepth v \<le> max_nesting \<and> length r < length s"
  using jp_sound val_soundD [of _ 0 s v r] unfolding jprefix_def by fastforce

corollary jparse_wf: "jparse s = Some v \<Longrightarrow> jwf v \<and> jdepth v \<le> max_nesting"
  by (auto simp: jparse_def split: option.splits if_splits dest: jprefix_wf)

section \<open>The fuel is enough\<close>

text \<open>
  Whatever any amount of fuel can read, twice the length of the input and one more can read.
\<close>

definition val_fuel :: "nat \<Rightarrow> bool" where
  "val_fuel f = (\<forall>d s x g. d \<le> max_nesting \<longrightarrow> jp_val f d s = Some x \<longrightarrow> 2 * length s < g \<longrightarrow>
     jp_val g d s = Some x)"

definition elems_fuel :: "nat \<Rightarrow> bool" where
  "elems_fuel f = (\<forall>d s x g. d \<le> max_nesting \<longrightarrow> jp_elems f d s = Some x \<longrightarrow> 2 * length s + 1 < g \<longrightarrow>
     jp_elems g d s = Some x)"

definition mems_fuel :: "nat \<Rightarrow> bool" where
  "mems_fuel f = (\<forall>d s x g. d \<le> max_nesting \<longrightarrow> jp_mems f d s = Some x \<longrightarrow> 2 * length s + 1 < g \<longrightarrow>
     jp_mems g d s = Some x)"

lemma val_fuelD: "val_fuel f \<Longrightarrow> d \<le> max_nesting \<Longrightarrow> jp_val f d s = Some x \<Longrightarrow> 2 * length s < g \<Longrightarrow>
    jp_val g d s = Some x"
  unfolding val_fuel_def by blast

lemma elems_fuelD: "elems_fuel f \<Longrightarrow> d \<le> max_nesting \<Longrightarrow> jp_elems f d s = Some x \<Longrightarrow>
    2 * length s + 1 < g \<Longrightarrow> jp_elems g d s = Some x"
  unfolding elems_fuel_def by blast

lemma mems_fuelD: "mems_fuel f \<Longrightarrow> d \<le> max_nesting \<Longrightarrow> jp_mems f d s = Some x \<Longrightarrow>
    2 * length s + 1 < g \<Longrightarrow> jp_mems g d s = Some x"
  unfolding mems_fuel_def by blast

lemma elems_fuel_Suc:
  assumes "val_fuel f" "elems_fuel f"
  shows "elems_fuel (Suc f)"
  unfolding elems_fuel_def
proof (intro allI impI)
  fix d s x g
  assume d: "d \<le> max_nesting" and x: "jp_elems (Suc f) d s = Some x" and "2 * length s + 1 < g"
  then obtain g' vs r where g: "g = Suc g'" "2 * length s < g'" and xs: "x = (vs, r)"
    by (cases g; cases x) auto
  obtain v q where v: "jp_val f d s = Some (v, q)" and c:
      "(\<exists>r' ws. skip_ws q = CHR '','' # r' \<and> jp_elems f d r' = Some (ws, r) \<and> vs = v # ws) \<or>
       (skip_ws q = CHR '']'' # r \<and> vs = [v])"
    using x unfolding xs jp_elems_Suc by blast
  have q: "length q < length s" using val_soundD [OF _ d v] jp_sound by blast
  have v': "jp_val g' d s = Some (v, q)" by (rule val_fuelD [OF assms(1) d v g(2)])
  have "jp_elems g' d r' = Some (ws, r)"
    if "skip_ws q = CHR '','' # r'" "jp_elems f d r' = Some (ws, r)" for r' ws
    by (rule elems_fuelD [OF assms(2) d that(2)]) (use skip_ws_Cons_len [OF that(1)] q g(2) in auto)
  then show "jp_elems g d s = Some x"
    unfolding g(1) xs jp_elems_Suc using v' c by blast
qed

lemma mems_fuel_Suc:
  assumes "val_fuel f" "mems_fuel f"
  shows "mems_fuel (Suc f)"
  unfolding mems_fuel_def
proof (intro allI impI)
  fix d s x g
  assume d: "d \<le> max_nesting" and x: "jp_mems (Suc f) d s = Some x" and "2 * length s + 1 < g"
  then obtain g' kvs r where g: "g = Suc g'" "2 * length s < g'" and xs: "x = (kvs, r)"
    by (cases g; cases x) auto
  obtain t k q r' v z where v: "skip_ws s = dquote # t" "jstr t = Some (k, q)"
      "skip_ws q = CHR '':'' # r'" "jp_val f d r' = Some (v, z)" and c:
      "(\<exists>q' ws. skip_ws z = CHR '','' # q' \<and> jp_mems f d q' = Some (ws, r) \<and> kvs = (k, v) # ws) \<or>
       (skip_ws z = CHR ''}'' # r \<and> kvs = [(k, v)])"
    using x unfolding xs jp_mems_Suc by blast
  have l: "length r' < length s"
    using skip_ws_Cons_len [OF v(1)] skip_ws_Cons_len [OF v(3)] jstr_SomeD [OF v(2)] by auto
  have z: "length z < length r'" using val_soundD [OF _ d v(4)] jp_sound by blast
  have v': "jp_val g' d r' = Some (v, z)" by (rule val_fuelD [OF assms(1) d v(4)]) (use l g(2) in auto)
  have "jp_mems g' d q' = Some (ws, r)"
    if "skip_ws z = CHR '','' # q'" "jp_mems f d q' = Some (ws, r)" for q' ws
    by (rule mems_fuelD [OF assms(2) d that(2)]) (use skip_ws_Cons_len [OF that(1)] z l g(2) in auto)
  then show "jp_mems g d s = Some x"
    unfolding g(1) xs jp_mems_Suc using v(1,2,3) v' c by blast
qed

lemma val_fuel_Suc:
  assumes "elems_fuel f" "mems_fuel f"
  shows "val_fuel (Suc f)"
  unfolding val_fuel_def
proof (intro allI impI)
  fix d s x g
  assume x: "jp_val (Suc f) d s = Some x" and "2 * length s < g"
  then obtain g' v r where g: "g = Suc g'" "2 * length s \<le> g'" and xs: "x = (v, r)"
    by (cases g; cases x) auto
  have E: "jp_elems g' (Suc d) t = Some (vs, r)"
    if "skip_ws s = c # t" "d < max_nesting" "jp_elems f (Suc d) t = Some (vs, r)" for c t vs
    by (rule elems_fuelD [OF assms(1) _ that(3)]) (use skip_ws_Cons_len [OF that(1)] that(2) g(2) in auto)
  have M: "jp_mems g' (Suc d) t = Some (kvs, r)"
    if "skip_ws s = c # t" "d < max_nesting" "jp_mems f (Suc d) t = Some (kvs, r)" for c t kvs
    by (rule mems_fuelD [OF assms(2) _ that(3)]) (use skip_ws_Cons_len [OF that(1)] that(2) g(2) in auto)
  show "jp_val g d s = Some x"
    using x E M unfolding g(1) xs jp_val_Suc by (auto split: if_splits simp del: dropWhile_eq_Nil_conv)
qed

lemma jp_fuel: "val_fuel f \<and> elems_fuel f \<and> mems_fuel f"
proof (induction f)
  case 0
  show ?case by (simp add: val_fuel_def elems_fuel_def mems_fuel_def)
next
  case (Suc f)
  then show ?case using val_fuel_Suc elems_fuel_Suc mems_fuel_Suc by blast
qed

theorem jparse_fuel: "jp_val f 0 s = Some x \<Longrightarrow> jprefix s = Some x"
  unfolding jprefix_def by (rule val_fuelD [of f]) (use jp_fuel in auto)

end
