(* ===== verification/Canon.thy ===== *)
theory Canon
  imports Json_Roundtrip Sha256 "HOL-Library.Multiset"
begin

text \<open>
  Package internal/canon: the canonical JSON form and the digests that match keys and cassette
  checksums are built from.  A decoded interface value is a \<open>jval\<close> whose objects are strictly
  sorted by key (\<open>jcanon\<close>), which represents Go's map without its order.
\<close>

section \<open>Decoding into an interface value\<close>

text \<open>Assignment \<open>m[k] = v\<close> to a map held as a strictly sorted association list.\<close>

fun obj_put :: "string \<Rightarrow> 'v \<Rightarrow> (string \<times> 'v) list \<Rightarrow> (string \<times> 'v) list" where
  "obj_put k v [] = [(k, v)]"
| "obj_put k v ((k', v') # m) =
     (if k = k' then (k, v) # m
      else if k < k' then (k, v) # (k', v') # m
      else (k', v') # obj_put k v m)"

definition obj_of :: "(string \<times> 'v) list \<Rightarrow> (string \<times> 'v) list" where
  "obj_of kvs = fold (\<lambda>(k, v). obj_put k v) kvs []"

fun jany :: "jval \<Rightarrow> jval" where
  "jany (JArr vs) = JArr (map jany vs)"
| "jany (JObj kvs) = JObj (obj_of (map (\<lambda>(k, v). (k, jany v)) kvs))"
| "jany v = v"

text \<open>A Go map literal.\<close>

definition jmap :: "(string \<times> jval) list \<Rightarrow> jval" where
  "jmap kvs = JObj (obj_of kvs)"

text \<open>
  Decoder.More after the first value: another byte other than white space follows, and it is
  not a closing bracket.
\<close>

definition dec_more :: "string \<Rightarrow> bool" where
  "dec_more r = (case skip_ws r of [] \<Rightarrow> False | c # _ \<Rightarrow> c \<noteq> CHR '']'' \<and> c \<noteq> CHR ''}'')"

definition canon_decode :: "bytes \<Rightarrow> jval option" where
  "canon_decode b =
     (case jprefix b of
        None \<Rightarrow> None
      | Some (v, r) \<Rightarrow> if dec_more r then None else Some (jany v))"

definition canon_encode :: "jval \<Rightarrow> bytes option" where
  "canon_encode v = Some (trim_right (\<lambda>c. c = CHR 0x0A) (jencode False v @ [CHR 0x0A]))"

definition Canonicalize :: "bytes \<Rightarrow> bytes option" where
  "Canonicalize b = (case canon_decode b of None \<Rightarrow> None | Some v \<Rightarrow> canon_encode v)"

section \<open>Dropping volatile paths\<close>

text \<open>strconv.Atoi on a 64-bit platform.\<close>

definition atoi :: "string \<Rightarrow> int option" where
  "atoi s =
     (let (neg, ds) = (case s of c # t \<Rightarrow> if c = CHR ''-'' then (True, t)
                          else if c = CHR ''+'' then (False, t) else (False, s)
                       | [] \<Rightarrow> (False, s))
      in if ds = [] \<or> \<not> list_all is_digit ds then None
         else let n = (if neg then - int (dec_val ds) else int (dec_val ds)) in
              if - (2 ^ 63) \<le> n \<and> n < 2 ^ 63 then Some n else None)"

fun drop_path :: "jval \<Rightarrow> string list \<Rightarrow> jval" where
  "drop_path v [] = v"
| "drop_path (JObj kvs) [s] = JObj (filter (\<lambda>kv. fst kv \<noteq> s) kvs)"
| "drop_path (JObj kvs) (s # s' # segs) =
     JObj (map (\<lambda>(k, v). (k, if k = s then drop_path v (s' # segs) else v)) kvs)"
| "drop_path (JArr vs) (s # segs) =
     (case atoi s of
        None \<Rightarrow> JArr vs
      | Some i \<Rightarrow>
          if i < 0 \<or> int (length vs) \<le> i then JArr vs
          else if segs = [] then JArr (vs[nat i := JNull])
          else JArr (vs[nat i := drop_path (vs ! nat i) segs]))"
| "drop_path v (s # segs) = v"

definition drop_one :: "jval \<Rightarrow> string \<Rightarrow> jval" where
  "drop_one v p = (if p = [] then v else drop_path v (split_byte CHR ''.'' p))"

definition CanonicalizeDropping :: "bytes \<Rightarrow> string list \<Rightarrow> bytes option" where
  "CanonicalizeDropping b dropPaths =
     (case canon_decode b of None \<Rightarrow> None | Some v \<Rightarrow> canon_encode (foldl drop_one v dropPaths))"

section \<open>Digests\<close>

definition SumHex :: "bytes \<Rightarrow> string" where
  "SumHex b = hex_encode (sha256 b)"

definition Digest :: "bytes \<Rightarrow> string" where
  "Digest b = (case Canonicalize b of Some c \<Rightarrow> SumHex c | None \<Rightarrow> SumHex b)"

section \<open>Canonical values\<close>

fun jcanon :: "jval \<Rightarrow> bool" where
  "jcanon (JArr vs) = (\<forall>v \<in> set vs. jcanon v)"
| "jcanon (JObj kvs) = (sorted_wrt (<) (map fst kvs) \<and> (\<forall>kv \<in> set kvs. jcanon (snd kv)))"
| "jcanon v = True"

lemma set_obj_put: "set (map fst (obj_put k v m)) = insert k (set (map fst m))"
  by (induction k v m rule: obj_put.induct) auto

lemma snd_obj_put: "snd ` set (obj_put k v m) \<subseteq> insert v (snd ` set m)"
  by (induction k v m rule: obj_put.induct) auto

lemma obj_put_sorted:
  "sorted_wrt (<) (map fst m) \<Longrightarrow> sorted_wrt (<) (map fst (obj_put k v m))"
proof (induction k v m rule: obj_put.induct)
  case (2 k v k' v' m)
  then show ?case using set_obj_put [of k v m] by (auto simp: image_iff)
qed simp

lemma map_of_obj_put:
  "sorted_wrt (<) (map fst m) \<Longrightarrow> map_of (obj_put k v m) = (map_of m)(k \<mapsto> v)"
proof (induction k v m rule: obj_put.induct)
  case (2 k v k' v' m)
  then show ?case by (auto simp: fun_eq_iff)
qed (simp add: fun_eq_iff)

lemma obj_of_snoc: "obj_of (kvs @ [(k, v)]) = obj_put k v (obj_of kvs)"
  by (simp add: obj_of_def)

lemma obj_of_sorted: "sorted_wrt (<) (map fst (obj_of kvs))"
proof (induction kvs rule: rev_induct)
  case (snoc kv kvs)
  then show ?case by (cases kv) (simp add: obj_of_snoc obj_put_sorted)
qed (simp add: obj_of_def)

lemma fst_obj_of: "fst ` set (obj_of kvs) = fst ` set kvs"
proof (induction kvs rule: rev_induct)
  case (snoc kv kvs)
  then show ?case using set_obj_put [of "fst kv" "snd kv" "obj_of kvs"]
    by (cases kv) (simp add: obj_of_snoc)
qed (simp add: obj_of_def)

lemma snd_obj_of: "snd ` set (obj_of kvs) \<subseteq> snd ` set kvs"
proof (induction kvs rule: rev_induct)
  case (snoc kv kvs)
  then show ?case using snd_obj_put [of "fst kv" "snd kv" "obj_of kvs"]
    by (cases kv) (simp add: obj_of_snoc subset_iff image_iff Bex_def, blast)
qed (simp add: obj_of_def)

text \<open>The last of several members with the same key wins.\<close>

lemma map_of_obj_of: "map_of (obj_of kvs) = map_of (rev kvs)"
proof (induction kvs rule: rev_induct)
  case (snoc kv kvs)
  then show ?case by (cases kv) (simp add: obj_of_snoc map_of_obj_put obj_of_sorted)
qed (simp add: obj_of_def)

text \<open>A strictly sorted association list is determined by its lookup function.\<close>

lemma sorted_map_of_eq:
  fixes m m' :: "(string \<times> 'v) list"
  assumes "sorted_wrt (<) (map fst m)" "sorted_wrt (<) (map fst m')" "map_of m = map_of m'"
  shows "m = m'"
proof -
  have d: "distinct (map fst m)" "distinct (map fst m')"
    using assms(1,2) by (auto simp: strict_sorted_iff)
  have s: "set m = set m'"
    using d assms(3) by (metis map_of_SomeD map_of_eq_Some_iff subrelI subset_antisym)
  have "inj_on fst (set m \<union> set m')"
    using d(1) s by (simp add: distinct_map)
  then show ?thesis
    using d s assms(1,2) by (intro map_sorted_distinct_set_unique [of fst]) (auto simp: strict_sorted_iff)
qed

lemma obj_of_id: "sorted_wrt (<) (map fst m) \<Longrightarrow> obj_of m = m"
proof (rule sorted_map_of_eq)
  assume m: "sorted_wrt (<) (map fst m)"
  then have "distinct (map fst m)" by (simp add: strict_sorted_iff)
  then have "map_of (rev m) = map_of m"
    by (subst map_of_inject_set) (simp_all add: rev_map [symmetric])
  then show "map_of (obj_of m) = map_of m" by (simp add: map_of_obj_of)
qed (auto simp: obj_of_sorted)

lemma jany_canon: "jcanon (jany v)"
proof (induction v)
  case (JObj kvs)
  then show ?case
    using snd_obj_of [of "map (\<lambda>(k, v). (k, jany v)) kvs"] obj_of_sorted
    by (fastforce simp: snds.simps)
qed auto

lemma jany_id: "jcanon v \<Longrightarrow> jany v = v"
proof (induction v)
  case (JArr vs)
  then show ?case by (simp add: map_idI)
next
  case (JObj kvs)
  then have "map (\<lambda>(k, v). (k, jany v)) kvs = kvs"
    by (intro map_idI) (auto simp: snds.simps)
  then show ?case using JObj by (simp add: obj_of_id)
qed auto

lemma jany_jwf: "jwf v \<Longrightarrow> jwf (jany v)"
proof (induction v)
  case (JObj kvs)
  let ?m = "map (\<lambda>(k, v). (k, jany v)) kvs"
  have "valid_utf8 k \<and> jwf v" if "(k, v) \<in> set (obj_of ?m)" for k v
  proof -
    have "k \<in> fst ` set ?m" "v \<in> snd ` set ?m"
      using that snd_obj_of [of ?m] fst_obj_of [of ?m] by force+
    then show ?thesis using JObj by (fastforce simp: snds.simps)
  qed
  then show ?case by auto
qed auto

lemma jany_depth: "jdepth v \<le> n \<Longrightarrow> jdepth (jany v) \<le> n"
proof (induction v arbitrary: n)
  case (JArr vs)
  then show ?case using jdepth_arr_le [of _ 0 n] by (cases n) fastforce+
next
  case (JObj kvs)
  let ?m = "map (\<lambda>(k, v). (k, jany v)) kvs"
  have n: "Suc 0 \<le> n" "\<forall>kv \<in> set kvs. jdepth (snd kv) + Suc 0 \<le> n"
    using JObj.prems jdepth_obj_le [of kvs 0 n] by auto
  have "jdepth v + Suc 0 \<le> n" if "v \<in> snd ` set (obj_of ?m)" for v
  proof -
    have "v \<in> snd ` set ?m" using that snd_obj_of [of ?m] by blast
    then obtain k w where w: "(k, w) \<in> set kvs" "v = jany w" by auto
    have "jdepth w \<le> n - 1" using w n by fastforce
    then have "jdepth (jany w) \<le> n - 1" using JObj.IH w by (auto simp: snds.simps)
    then show ?thesis using w n by simp
  qed
  then show ?case using n jdepth_obj_le [of "obj_of ?m" 0 n] by auto
qed auto

section \<open>Encoded text has no control characters\<close>

definition printable :: "string \<Rightarrow> bool" where
  "printable s = (\<forall>c \<in> set s. (32::nat) \<le> byte_of c)"

lemma printable_simps [simp]:
  "printable []"
  "printable (c # s) \<longleftrightarrow> (32::nat) \<le> byte_of c \<and> printable s"
  "printable (s @ t) \<longleftrightarrow> printable s \<and> printable t"
  by (auto simp: printable_def)

lemma printable_join: "printable sep \<Longrightarrow> (\<And>x. x \<in> set xs \<Longrightarrow> printable x) \<Longrightarrow> printable (str_join sep xs)"
  by (induction sep xs rule: str_join.induct) auto

lemma printable_digits: "\<forall>c \<in> set s. is_digit c \<Longrightarrow> printable s"
  by (auto simp: is_digit_def printable_def)

lemma printable_takeWhile: "printable (takeWhile is_digit s)"
  by (rule printable_digits) (auto dest: set_takeWhileD)

lemma jnum_printable:
  assumes "jnum s = Some (n, t)"
  shows "printable n"
proof -
  obtain m s0 i s1 f s2 e where p: "jnum_minus s = (m, s0)" "jnum_int s0 = Some (i, s1)"
      "jnum_frac s1 = Some (f, s2)" "jnum_exp s2 = Some (e, t)" "n = m @ i @ f @ e"
    using assms by (rule jnumE)
  have "printable m" using p(1) by (cases s) (auto simp: jnum_minus_def split: if_splits)
  moreover have "printable i" using p(2) printable_takeWhile
    by (cases s0) (auto simp: jnum_int_def jdigits_def is_digit_def split: if_splits)
  moreover have "printable f"
    using jnum_frac_split [OF p(3)] printable_digits by fastforce
  moreover have "printable e"
  proof (cases s2)
    case (Cons c u)
    obtain sg u' where u: "jnum_sign u = (sg, u')" by (cases "jnum_sign u")
    then have "printable sg" by (cases u) (auto simp: jnum_sign_def split: if_splits)
    then show ?thesis using p(4) Cons u printable_takeWhile [of u']
      by (auto simp: jnum_exp_def split: if_splits)
  qed (use p(4) in \<open>simp add: jnum_exp_def\<close>)
  ultimately show ?thesis using p(5) by auto
qed

lemma hexd_printable: "n < 16 \<Longrightarrow> (32::nat) \<le> byte_of (hexd n)"
  by (simp add: hexd_def)

lemma quote_ascii_printable: "byte_of c < (128::nat) \<Longrightarrow> printable (quote_ascii h c)"
  by (auto simp: quote_ascii_def hexd_printable)

lemma rune_lead_lo: "rune_lead c = (n, lo, hi) \<Longrightarrow> 1 < n \<Longrightarrow> 128 \<le> lo"
  by (simp add: rune_lead_def lead_info_def split: if_splits)

lemma rune_tail_high: "rune_tail n lo hi t \<Longrightarrow> 128 \<le> lo \<Longrightarrow> x \<in> set t \<Longrightarrow> (128::nat) \<le> byte_of x"
  by (cases t) (auto simp: rune_tail_def in_bytes_def cont_byte_def list_all_iff)

lemma rune_len_high:
  assumes "rune_len (c # s) \<noteq> 0" "\<not> byte_of c < (128::nat)" "x \<in> set (c # take (rune_len (c # s) - 1) s)"
  shows "(128::nat) \<le> byte_of x"
proof -
  obtain n lo hi where l: "rune_lead c = (n, lo, hi)" by (cases "rune_lead c")
  then have n: "rune_len (c # s) = n" "rune_tail (n - 1) lo hi (take (n - 1) s)"
    using assms(1) by (auto simp: rune_len.simps(2) split: if_splits)
  have "x = c \<or> x \<in> set (take (n - 1) s)" using assms(3) n(1) by auto
  then show ?thesis
  proof
    assume x: "x \<in> set (take (n - 1) s)"
    then have "1 < n" by (cases "n - 1") auto
    then show ?thesis using rune_tail_high [OF n(2) _ x] rune_lead_lo [OF l] by simp
  qed (use assms(2) in simp)
qed

lemma quote_body_printable: "printable (quote_body h s)"
proof (induction h s rule: quote_body.induct)
  case (2 h c s)
  let ?n = "rune_len (c # s)"
  show ?case
  proof (cases "byte_of c < (128::nat)")
    case True
    then show ?thesis using 2(1) quote_ascii_printable by (auto simp: quote_body.simps(2))
  next
    case False
    show ?thesis
    proof (cases "?n = 0")
      case True
      then show ?thesis using False 2(2) by (auto simp: quote_body.simps(2))
    next
      case n: False
      have "printable (c # take (?n - 1) s)"
        unfolding printable_def using rune_len_high [OF n False] by fastforce
      then show ?thesis using False n 2(3) by (simp add: quote_body.simps(2) hexd_printable)
    qed
  qed
qed simp

lemma jquote_printable: "printable (jquote h s)"
  by (simp add: jquote_def quote_body_printable)

lemma jencode_printable: "jwf v \<Longrightarrow> printable (jencode h v)"
proof (induction v)
  case (JNum n)
  then show ?case by (auto dest: jnum_printable)
next
  case (JStr s)
  show ?case by (simp add: jquote_printable)
next
  case (JArr vs)
  then have "printable (str_join '','' (map (jencode h) vs))" by (intro printable_join) auto
  then show ?case by simp
next
  case (JObj kvs)
  have "printable (jmember h kv)" if "kv \<in> set kvs" for kv
    using JObj that jquote_printable by (cases kv) (fastforce simp: snds.simps)
  then have "printable (str_join '','' (map (jmember h) kvs))" by (intro printable_join) auto
  then show ?case unfolding jencode_obj by simp
qed auto

section \<open>Canonicalize\<close>

lemma canon_encode_eq: "jwf v \<Longrightarrow> canon_encode v = Some (jencode False v)"
  using jencode_printable [of v False] jencode_ne [of v False]
  by (cases "jencode False v" rule: rev_cases) (auto simp: canon_encode_def trim_right_def)

lemma canon_decode_wf: "canon_decode b = Some v \<Longrightarrow> jwf v \<and> jcanon v \<and> jdepth v \<le> max_nesting"
  by (auto simp: canon_decode_def jany_canon jany_jwf jany_depth split: option.splits if_splits
      dest!: jprefix_wf)

lemma Canonicalize_eq: "Canonicalize b = map_option (jencode False) (canon_decode b)"
  by (cases "canon_decode b") (auto simp: Canonicalize_def canon_encode_eq dest: canon_decode_wf)

text \<open>The canonical text of a canonical value decodes to that value.\<close>

lemma canon_decode_jencode: "jwf v \<Longrightarrow> jcanon v \<Longrightarrow> jdepth v \<le> max_nesting \<Longrightarrow>
    canon_decode (jencode h v) = Some v"
  using jprefix_jencode [of v "[]" h] by (simp add: canon_decode_def dec_more_def jany_id)

text \<open>
  Canonicalisation is idempotent: the canonical form of a document is its own canonical form,
  so a key derived from a stored canonical body equals the key derived from the live one.
\<close>

theorem Canonicalize_idempotent: "Canonicalize b = Some c \<Longrightarrow> Canonicalize c = Some c"
proof -
  assume "Canonicalize b = Some c"
  then obtain v where v: "canon_decode b = Some v" "c = jencode False v"
    by (auto simp: Canonicalize_eq)
  then show ?thesis using canon_decode_wf [OF v(1)] by (simp add: Canonicalize_eq canon_decode_jencode)
qed

lemma Canonicalize_idempotent_witness:
  "Canonicalize ''{ \"b\":1, \"a\":[ ]}'' = Some ''{\"a\":[],\"b\":1}'' \<and>
   Canonicalize ''{\"a\":[],\"b\":1}'' = Some ''{\"a\":[],\"b\":1}''"
proof -
  have c: "Canonicalize ''{ \"b\":1, \"a\":[ ]}'' = Some ''{\"a\":[],\"b\":1}''" by code_simp
  show ?thesis using c Canonicalize_idempotent [OF c] by simp
qed

text \<open>
  C9. Two documents have the same canonical form exactly when they decode to the same value:
  nothing but the decoded value enters a digest, and no two values share a canonical form.
\<close>

theorem Canonicalize_iff_same_value:
  "canon_decode a = Some v \<Longrightarrow> canon_decode b = Some w \<Longrightarrow> Canonicalize a = Canonicalize b \<longleftrightarrow> v = w"
proof -
  assume a: "canon_decode a = Some v" and b: "canon_decode b = Some w"
  have v: "canon_decode (jencode False v) = Some v"
    using canon_decode_wf [OF a] by (intro canon_decode_jencode) auto
  have w: "canon_decode (jencode False w) = Some w"
    using canon_decode_wf [OF b] by (intro canon_decode_jencode) auto
  have "v = w" if "jencode False v = jencode False w"
    using v w unfolding that by simp
  then show ?thesis using a b by (auto simp: Canonicalize_eq)
qed

lemma Canonicalize_iff_same_value_witness:
  "canon_decode ''[1]'' = Some (JArr [JNum ''1'']) \<and> canon_decode ''[1.0]'' = Some (JArr [JNum ''1.0'']) \<and>
   Canonicalize ''[1]'' \<noteq> Canonicalize ''[1.0]''"
proof -
  have d: "canon_decode ''[1]'' = Some (JArr [JNum ''1''])"
      "canon_decode ''[1.0]'' = Some (JArr [JNum ''1.0''])" by code_simp+
  show ?thesis using d Canonicalize_iff_same_value [OF d] by simp
qed

lemma obj_of_perm:
  assumes "mset kvs = mset kvs'" "distinct (map fst kvs)"
  shows "obj_of kvs = obj_of kvs'"
proof (rule sorted_map_of_eq)
  have d: "distinct (map fst kvs')" using assms by (metis mset_eq_imp_distinct_iff mset_map)
  have "map_of (rev kvs) = map_of (rev kvs')"
    using assms(2) d mset_eq_setD [OF assms(1)]
    by (subst map_of_inject_set) (simp_all add: rev_map [symmetric])
  then show "map_of (obj_of kvs) = map_of (obj_of kvs')" by (simp add: map_of_obj_of)
qed (simp_all add: obj_of_sorted)

text \<open>
  Reordering the members of an object does not change its canonical form (nor does writing
  it with or without HTML escapes).
\<close>

theorem Canonicalize_key_order:
  assumes "mset kvs = mset kvs'" "distinct (map fst kvs)" "jwf (JObj kvs)" "jdepth (JObj kvs) \<le> max_nesting"
  shows "Canonicalize (jencode h (JObj kvs)) = Canonicalize (jencode h' (JObj kvs'))"
proof -
  have s: "set kvs = set kvs'" using assms(1) by (rule mset_eq_setD)
  have w: "jwf (JObj kvs')" "jdepth (JObj kvs') \<le> max_nesting"
    using assms(3,4) s jdepth_obj_le [of _ 0 max_nesting] by auto
  let ?m = "\<lambda>kvs. map (\<lambda>(k, v). (k, jany v)) kvs"
  have "map fst (?m kvs) = map fst kvs" by (simp add: case_prod_beta)
  then have "obj_of (?m kvs) = obj_of (?m kvs')"
    using assms(1,2) by (intro obj_of_perm) (simp_all only: mset_map)
  then have "jany (JObj kvs) = jany (JObj kvs')" by simp
  moreover have "canon_decode (jencode h (JObj kvs)) = Some (jany (JObj kvs))"
      "canon_decode (jencode h' (JObj kvs')) = Some (jany (JObj kvs'))"
    using jprefix_jencode [OF assms(3,4), of "[]" h] jprefix_jencode [OF w, of "[]" h']
    by (simp_all add: canon_decode_def dec_more_def del: jencode.simps jany.simps)
  ultimately show ?thesis by (simp add: Canonicalize_eq)
qed

lemma Canonicalize_key_order_witness:
  "Canonicalize (jencode False (JObj [(''a'', JNull), (''b'', JBool True)])) =
   Canonicalize (jencode True (JObj [(''b'', JBool True), (''a'', JNull)]))"
  by (rule Canonicalize_key_order) (auto simp: max_nesting_def jdepth.simps rune_len_ascii)

text \<open>
  Against the comment that trailing tokens are rejected, everything behind a closing bracket
  that follows the first value is ignored: Decoder.More answers False there.
\<close>

theorem Canonicalize_ignores_after_bracket:
  assumes "jwf v" "jdepth v \<le> max_nesting" "c = CHR ''}'' \<or> c = CHR '']''"
  shows "Canonicalize (jencode h v @ c # junk) = Canonicalize (jencode h v)"
proof -
  have "jprefix (jencode h v @ c # junk) = Some (v, c # junk)"
    using assms by (intro jprefix_jencode) auto
  then show ?thesis
    using assms jprefix_jencode [of v "[]" h]
    by (auto simp: Canonicalize_eq canon_decode_def dec_more_def is_ws_def)
qed

lemma Canonicalize_ignores_after_bracket_witness:
  "Canonicalize (jencode False (JObj []) @ CHR ''}'' # '' not json'') = Canonicalize (jencode False (JObj []))"
  by (rule Canonicalize_ignores_after_bracket) (auto simp: max_nesting_def jdepth.simps)

section \<open>Volatile paths\<close>

text \<open>The value with the entry at an existing path replaced.\<close>

fun put_path :: "jval \<Rightarrow> string list \<Rightarrow> jval \<Rightarrow> jval" where
  "put_path v [] x = x"
| "put_path (JObj kvs) (s # segs) x =
     JObj (map (\<lambda>(k, v). (k, if k = s then put_path v segs x else v)) kvs)"
| "put_path (JArr vs) (s # segs) x =
     (case atoi s of
        None \<Rightarrow> JArr vs
      | Some i \<Rightarrow> if i < 0 \<or> int (length vs) \<le> i then JArr vs
                  else JArr (vs[nat i := put_path (vs ! nat i) segs x]))"
| "put_path v (s # segs) x = v"

lemma drop_path_put_path: "segs \<noteq> [] \<Longrightarrow> drop_path (put_path v segs x) segs = drop_path v segs"
proof (induction v segs arbitrary: x rule: drop_path.induct)
  case (2 kvs s)
  show ?case by (induction kvs) auto
next
  case (3 kvs s s' segs)
  then show ?case by (auto simp: comp_def case_prod_beta)
next
  case (4 vs s segs)
  then show ?case by (auto split: option.splits)
qed auto

lemma drop_path_jwf: "jwf v \<Longrightarrow> jwf (drop_path v segs)"
proof (induction v segs rule: drop_path.induct)
  case (3 kvs s s' segs)
  then show ?case by fastforce
next
  case (4 vs s segs)
  then show ?case
    by (auto split: option.splits dest!: set_update_subset_insert [THEN subsetD])
qed auto

lemma drop_one_jwf: "jwf v \<Longrightarrow> jwf (drop_one v p)"
  by (simp add: drop_one_def drop_path_jwf)

lemma drop_all_jwf: "jwf v \<Longrightarrow> jwf (foldl drop_one v ps)"
  by (induction ps arbitrary: v) (auto simp: drop_one_jwf)

lemma CanonicalizeDropping_eq:
  "CanonicalizeDropping b ps = map_option (\<lambda>v. jencode False (foldl drop_one v ps)) (canon_decode b)"
proof (cases "canon_decode b")
  case None
  then show ?thesis by (simp add: CanonicalizeDropping_def)
next
  case (Some v)
  have "jwf (foldl drop_one v ps)" using canon_decode_wf [OF Some] by (intro drop_all_jwf) simp
  then show ?thesis using Some by (simp add: CanonicalizeDropping_def canon_encode_eq)
qed

lemma CanonicalizeDropping_Nil: "CanonicalizeDropping b [] = Canonicalize b"
  by (simp add: CanonicalizeDropping_eq Canonicalize_eq)

text \<open>
  A volatile path really leaves the key: two bodies that differ only in the value at a dropped
  path, at any depth of objects and arrays, have the same canonical form after dropping.
\<close>

theorem CanonicalizeDropping_volatile:
  assumes "canon_decode a = Some v" "canon_decode b = Some (put_path v (split_byte CHR ''.'' p) x)" "p \<noteq> []"
  shows "CanonicalizeDropping a (p # ps) = CanonicalizeDropping b (p # ps)"
proof -
  have "split_byte CHR ''.'' p \<noteq> []" by (cases p) (auto split: list.splits)
  then show ?thesis
    using assms by (simp add: CanonicalizeDropping_eq drop_one_def drop_path_put_path)
qed

lemma CanonicalizeDropping_volatile_witness:
  "CanonicalizeDropping ''{\"m\":{\"t\":1}}'' [''m.t''] = CanonicalizeDropping ''{\"m\":{\"t\":true}}'' [''m.t'']"
  by (rule CanonicalizeDropping_volatile [where v = "JObj [(''m'', JObj [(''t'', JNum ''1'')])]" and x = "JBool True"])
    code_simp+

end
