(* ===== verification/Regex.thy ===== *)
theory Regex
  imports Prelude
begin

text \<open>
  The part of Go's package regexp the program uses: byte classes, concatenation, greedy bounded
  and unbounded repetition and the ASCII word boundary.  The matcher returns the ways to match
  in priority order, so that its head is the leftmost-first match of the package; \<open>rx_split\<close> is
  the scan behind FindAll and ReplaceAll.
\<close>

datatype regex =
    RSet "char \<Rightarrow> bool"
  | RSeq regex regex
  | RRep nat "nat option" regex
  | RWord
  | REmpty

text \<open>A position is the byte before it, if any, and the bytes from it on.\<close>

type_synonym rpos = "char option \<times> string"

definition word_byte :: "char \<Rightarrow> bool" where
  "word_byte c = ((48 \<le> byte_of c \<and> byte_of c \<le> (57::nat)) \<or> (65 \<le> byte_of c \<and> byte_of c \<le> (90::nat)) \<or>
     (97 \<le> byte_of c \<and> byte_of c \<le> (122::nat)) \<or> c = CHR ''_'')"

definition at_boundary :: "rpos \<Rightarrow> bool" where
  "at_boundary p =
     ((case fst p of None \<Rightarrow> False | Some c \<Rightarrow> word_byte c) \<noteq>
      (case snd p of [] \<Rightarrow> False | c # _ \<Rightarrow> word_byte c))"

text \<open>Greedy repetition: another round that consumes something first, then stopping.\<close>

fun rx_rep :: "(rpos \<Rightarrow> rpos list) \<Rightarrow> nat \<Rightarrow> nat \<Rightarrow> nat option \<Rightarrow> rpos \<Rightarrow> rpos list" where
  "rx_rep m 0 lo hi p = (if lo = 0 then [p] else [])"
| "rx_rep m (Suc n) lo hi p =
     (if hi = Some 0 then []
      else concat (map (\<lambda>q. if length (snd q) < length (snd p)
                            then rx_rep m n (lo - 1) (map_option (\<lambda>h. h - 1) hi) q else [])
             (m p))) @
     (if lo = 0 then [p] else [])"

primrec rxm :: "regex \<Rightarrow> rpos \<Rightarrow> rpos list" where
  "rxm (RSet f) p =
     (case snd p of [] \<Rightarrow> [] | c # s \<Rightarrow> if f c then [(Some c, s)] else [])"
| "rxm (RSeq a b) p = concat (map (rxm b) (rxm a p))"
| "rxm (RRep lo hi a) p = rx_rep (rxm a) (length (snd p)) lo hi p"
| "rxm RWord p = (if at_boundary p then [p] else [])"
| "rxm REmpty p = [p]"

text \<open>The subject cut into skipped bytes and matches, left to right and without overlap.\<close>

function rx_split :: "regex \<Rightarrow> char option \<Rightarrow> string \<Rightarrow> (char + string) list" where
  "rx_split r b [] = []"
| "rx_split r b (c # s) =
     (case rxm r (b, c # s) of
        [] \<Rightarrow> Inl c # rx_split r (Some c) s
      | (b', s') # _ \<Rightarrow>
          if length s' \<le> length s
          then Inr (take (length (c # s) - length s') (c # s)) # rx_split r b' s'
          else Inl c # rx_split r (Some c) s)"
  by pat_completeness auto
termination by (relation "measure (length \<circ> snd \<circ> snd)") (auto simp: less_Suc_eq_le)

text \<open>Regexp.FindAll, MatchString and ReplaceAll.\<close>

fun rx_hits :: "(char + string) list \<Rightarrow> string list" where
  "rx_hits [] = []"
| "rx_hits (Inl c # ps) = rx_hits ps"
| "rx_hits (Inr m # ps) = m # rx_hits ps"

definition rx_find_all :: "regex \<Rightarrow> string \<Rightarrow> string list" where
  "rx_find_all r s = rx_hits (rx_split r None s)"

fun rx_glue :: "string \<Rightarrow> (char + string) list \<Rightarrow> string" where
  "rx_glue rep [] = []"
| "rx_glue rep (Inl c # ps) = c # rx_glue rep ps"
| "rx_glue rep (Inr m # ps) = rep @ rx_glue rep ps"

definition rx_replace :: "regex \<Rightarrow> string \<Rightarrow> string \<Rightarrow> string" where
  "rx_replace r rep s = rx_glue rep (rx_split r None s)"

section \<open>Building blocks\<close>

fun rlit :: "string \<Rightarrow> regex" where
  "rlit [] = REmpty"
| "rlit (c # s) = RSeq (RSet (\<lambda>x. x = c)) (rlit s)"

abbreviation ropt :: "regex \<Rightarrow> regex" where
  "ropt r \<equiv> RRep 0 (Some 1) r"

abbreviation rplus :: "regex \<Rightarrow> regex" where
  "rplus r \<equiv> RRep 1 None r"

definition is_alnum :: "char \<Rightarrow> bool" where
  "is_alnum c = ((48 \<le> byte_of c \<and> byte_of c \<le> (57::nat)) \<or> (65 \<le> byte_of c \<and> byte_of c \<le> (90::nat)) \<or>
     (97 \<le> byte_of c \<and> byte_of c \<le> (122::nat)))"

definition is_alpha :: "char \<Rightarrow> bool" where
  "is_alpha c = ((65 \<le> byte_of c \<and> byte_of c \<le> (90::nat)) \<or> (97 \<le> byte_of c \<and> byte_of c \<le> (122::nat)))"

definition is_upnum :: "char \<Rightarrow> bool" where
  "is_upnum c = ((48 \<le> byte_of c \<and> byte_of c \<le> (57::nat)) \<or> (65 \<le> byte_of c \<and> byte_of c \<le> (90::nat)))"

definition rx_space :: "char \<Rightarrow> bool" where
  "rx_space c = (c = CHR '' '' \<or> byte_of c \<in> {9, 10, 12, 13 :: nat})"

section \<open>Lemmas\<close>

lemma rx_rep_suffix:
  assumes "\<And>p q. q \<in> set (m p) \<Longrightarrow> suffix (snd q) (snd p)"
  shows "q \<in> set (rx_rep m n lo hi p) \<Longrightarrow> suffix (snd q) (snd p)"
proof (induction n arbitrary: lo hi p)
  case (Suc n)
  consider "q = p" | q' lo' hi' where "q' \<in> set (m p)" "q \<in> set (rx_rep m n lo' hi' q')"
    using Suc.prems by (fastforce split: if_splits)
  then show ?case
  proof cases
    case 2
    then show ?thesis using assms [OF 2(1)] Suc.IH [OF 2(2)] suffix_order.trans by blast
  qed simp
qed (auto split: if_splits)

text \<open>A match consumes a prefix of what is left.\<close>

lemma rxm_suffix: "q \<in> set (rxm r p) \<Longrightarrow> suffix (snd q) (snd p)"
proof (induction r arbitrary: p q)
  case (RSeq a b)
  obtain q' where "q' \<in> set (rxm a p)" "q \<in> set (rxm b q')" using RSeq.prems by auto
  then show ?case using RSeq.IH suffix_order.trans by blast
next
  case (RRep lo hi a)
  then show ?case using rx_rep_suffix [of "rxm a"] by auto
qed (auto split: list.splits if_splits intro: suffix_ConsI)

text \<open>The pieces of the scan are the subject.\<close>

fun rx_pieces :: "(char + string) list \<Rightarrow> string" where
  "rx_pieces [] = []"
| "rx_pieces (Inl c # ps) = c # rx_pieces ps"
| "rx_pieces (Inr m # ps) = m @ rx_pieces ps"

lemma take_suffix: "suffix t s \<Longrightarrow> take (length s - length t) s @ t = s"
  by (auto simp: suffix_def)

lemma rx_split_pieces: "rx_pieces (rx_split r b s) = s"
proof (induction r b s rule: rx_split.induct)
  case (2 r b c s)
  show ?case
  proof (cases "rxm r (b, c # s)")
    case Nil
    then show ?thesis using 2(1) by simp
  next
    case (Cons q qs)
    obtain b' s' where q: "q = (b', s')" by (cases q)
    have "suffix s' (c # s)" using rxm_suffix [of q r "(b, c # s)"] Cons q by simp
    then have "take (length (c # s) - length s') (c # s) @ s' = c # s" by (rule take_suffix)
    then show ?thesis using 2(2,3) [OF Cons q [symmetric]] Cons q by simp
  qed
qed simp

text \<open>Without a match nothing is replaced.\<close>

lemma rx_glue_no_hits: "rx_hits ps = [] \<Longrightarrow> rx_glue rep ps = rx_pieces ps"
  by (induction ps rule: rx_hits.induct) auto

lemma rx_replace_no_match: "rx_find_all r s = [] \<Longrightarrow> rx_replace r rep s = s"
  using rx_glue_no_hits rx_split_pieces by (simp add: rx_find_all_def rx_replace_def)

end
