(* ===== verification/Match.thy ===== *)
theory Match
  imports Wirefmt Canon Regex
begin

text \<open>
  internal/match: the match key of a request, from its method, path, body digest and allowlisted
  headers.  Of Go's library the gzip reader and the multipart reader are parameters (\<open>golib\<close>);
  the hooks of the configuration are functions, as in the code.
\<close>

section \<open>Configuration and input\<close>

text \<open>
  gunzip reads a whole gzip stream (None: an error); the multipart reader gives form name, content
  type and raw content of every part, None when the stream is malformed.
\<close>

record golib =
  gl_gunzip :: "bytes \<Rightarrow> bytes option"
  gl_parts :: "string \<Rightarrow> bytes \<Rightarrow> (string \<times> string \<times> bytes) list option"

record match_input =
  in_method :: string
  in_path :: string
  in_body :: bytes
  in_ctype :: string
  in_header :: "http_header option"

datatype match_error = EGunzip | EMultipart | EKeyFunc string

record match_config =
  mc_headers :: "string list"
  mc_volatile :: "string list"
  mc_path :: "(string \<Rightarrow> string \<Rightarrow> string) option"
  mc_body :: "(string \<Rightarrow> bytes \<Rightarrow> string \<Rightarrow> bytes) option"
  mc_key :: "(match_input \<Rightarrow> string + string) option"

definition zero_config :: match_config where
  "zero_config = \<lparr>mc_headers = [], mc_volatile = [], mc_path = None, mc_body = None, mc_key = None\<rparr>"

text \<open>
  The expression \<open>(/openai/deployments/)[^/]+\<close>; its group is a literal, so the replacement
  template is the constant below.
\<close>

definition azureDeploymentRe :: regex where
  "azureDeploymentRe = RSeq (rlit ''/openai/deployments/'') (rplus (RSet (\<lambda>c. c \<noteq> CHR ''/'')))"

definition AzureConfig :: match_config where
  "AzureConfig = zero_config\<lparr>mc_path :=
     Some (\<lambda>_ path. rx_replace azureDeploymentRe ''/openai/deployments/{deployment}'' path)\<rparr>"

section \<open>Bodies\<close>

definition DecodeBody :: "golib \<Rightarrow> bytes \<Rightarrow> string \<Rightarrow> bytes option" where
  "DecodeBody gl body enc =
     (if str_contains (to_lower enc) ''gzip'' \<and> body \<noteq> [] then gl_gunzip gl body else Some body)"

text \<open>A live request: the method, the path of its URL, its headers.\<close>

record http_request =
  hr_method :: string
  hr_path :: string
  hr_header :: "http_header option"

abbreviation hdr_get :: "http_header option \<Rightarrow> string \<Rightarrow> string" where
  "hdr_get h n \<equiv> (case h of None \<Rightarrow> [] | Some m \<Rightarrow> header_get m n)"

definition FromRequest :: "golib \<Rightarrow> http_request \<Rightarrow> bytes \<Rightarrow> match_error + match_input" where
  "FromRequest gl req raw =
     (case DecodeBody gl raw (hdr_get (hr_header req) ''Content-Encoding'') of
        None \<Rightarrow> Inl EGunzip
      | Some body \<Rightarrow> Inr \<lparr>in_method = hr_method req, in_path = hr_path req, in_body = body,
          in_ctype = hdr_get (hr_header req) ''Content-Type'', in_header = hr_header req\<rparr>)"

definition looksJSON :: "bytes \<Rightarrow> bool" where
  "looksJSON b =
     (case trim_space b of [] \<Rightarrow> False | c # _ \<Rightarrow> c = CHR ''{'' \<or> c = CHR ''['')"

definition unit_sep :: string where "unit_sep = [char_of (31 :: nat)]"
definition record_sep :: string where "record_sep = [char_of (30 :: nat)]"

definition multipartDigest :: "golib \<Rightarrow> bytes \<Rightarrow> string \<Rightarrow> match_error + string" where
  "multipartDigest gl body boundary =
     (if boundary = [] then Inr (SumHex body)
      else (case gl_parts gl boundary body of
        None \<Rightarrow> Inl EMultipart
      | Some ps \<Rightarrow> Inr (SumHex (concat (map (\<lambda>(name, ct, content).
          name @ unit_sep @ ct @ unit_sep @ SumHex content @ record_sep) ps)))))"

definition bodyDigest :: "golib \<Rightarrow> bytes \<Rightarrow> string \<Rightarrow> string list \<Rightarrow> match_error + string \<times> string" where
  "bodyDigest gl body contentType dropPaths =
     (let (mediaType, params) = ParseMediaType contentType in
      if str_contains mediaType ''json'' \<or> (mediaType = [] \<and> looksJSON body) then
        (case CanonicalizeDropping body dropPaths of
           Some c \<Rightarrow> Inr (''json'', SumHex c)
         | None \<Rightarrow> Inr (''raw'', SumHex body))
      else if has_prefix mediaType ''multipart/'' then
        (case multipartDigest gl body (mget0 [] params ''boundary'') of
           Inl e \<Rightarrow> Inl e
         | Inr d \<Rightarrow> Inr (''multipart'', d))
      else Inr (''raw'', SumHex body))"

definition BodyDigest :: "golib \<Rightarrow> bytes \<Rightarrow> string \<Rightarrow> string list \<Rightarrow> match_error + string \<times> string" where
  "BodyDigest gl body contentType dropPaths = bodyDigest gl body contentType dropPaths"

section \<open>The key\<close>

definition header_part :: "string list \<Rightarrow> http_header option \<Rightarrow> string" where
  "header_part allow h =
     (if allow \<noteq> [] then
        (case h of
           None \<Rightarrow> []
         | Some m \<Rightarrow>
             newline # ''H'' @ concat (map (\<lambda>n. newline # n @ ''='' @ str_join '','' (sort (header_values m n)))
               (sort (map CanonicalHeaderKey allow))))
      else [])"

definition Key :: "golib \<Rightarrow> match_input \<Rightarrow> match_config \<Rightarrow> match_error + string" where
  "Key gl inp cfg =
     (case mc_key cfg of
        Some kf \<Rightarrow> (case kf inp of Inl e \<Rightarrow> Inl (EKeyFunc e) | Inr k \<Rightarrow> Inr k)
      | None \<Rightarrow>
          let path = (case mc_path cfg of None \<Rightarrow> in_path inp | Some f \<Rightarrow> f (in_method inp) (in_path inp));
              body = (case mc_body cfg of None \<Rightarrow> in_body inp | Some f \<Rightarrow> f path (in_body inp) (in_ctype inp))
          in (case bodyDigest gl body (in_ctype inp) (mc_volatile cfg) of
                Inl e \<Rightarrow> Inl e
              | Inr (kind, digest) \<Rightarrow>
                  Inr (to_upper (in_method inp) @ newline # path @ newline # kind @ '':'' @ digest @
                       header_part (mc_headers cfg) (in_header inp))))"

section \<open>Lemmas\<close>

lemma header_values_get: "header_get h n = (case header_values h n of [] \<Rightarrow> [] | v # _ \<Rightarrow> v)"
  by (simp add: header_get_def)

lemma bodyDigest_kind:
  "bodyDigest gl body ct ps = Inr (kind, d) \<Longrightarrow> kind = ''json'' \<or> kind = ''raw'' \<or> kind = ''multipart''"
  by (auto simp: bodyDigest_def Let_def split: prod.splits if_splits option.splits sum.splits)

lemma bodyDigest_json:
  assumes "str_contains (fst (ParseMediaType ct)) ''json''" "CanonicalizeDropping body ps = Some c"
  shows "bodyDigest gl body ct ps = Inr (''json'', SumHex c)"
  using assms by (simp add: bodyDigest_def case_prod_beta)

text \<open>
  Two requests whose JSON bodies have the same value (white space, member order, number and
  escape spelling aside) get the same key, whatever headers they carry besides the content type.
\<close>

theorem Key_same_json_value:
  assumes "str_contains (fst (ParseMediaType (in_ctype a))) ''json''"
    and "canon_decode (in_body a) = Some v" "canon_decode (in_body b) = Some v"
    and "in_method b = in_method a" "in_path b = in_path a" "in_ctype b = in_ctype a"
    and "mc_key cfg = None" "mc_body cfg = None" "mc_headers cfg = []"
  shows "Key gl a cfg = Key gl b cfg"
proof -
  have "CanonicalizeDropping (in_body a) ps = CanonicalizeDropping (in_body b) ps" for ps
    using assms(2,3) by (simp add: CanonicalizeDropping_eq)
  moreover obtain c where "CanonicalizeDropping (in_body a) (mc_volatile cfg) = Some c"
    using assms(2) by (simp add: CanonicalizeDropping_eq)
  ultimately show ?thesis
    using assms
    by (cases "mc_path cfg") (simp_all add: Key_def Let_def header_part_def bodyDigest_json [of _ _ _ c])
qed

definition sample_input :: "bytes \<Rightarrow> match_input" where
  "sample_input b = \<lparr>in_method = ''post'', in_path = ''/v1/messages'', in_body = b,
     in_ctype = ''application/json; charset=utf-8'', in_header = Some []\<rparr>"

lemma Key_same_json_value_witness:
  "\<forall>gl. Key gl (sample_input ''{\"a\":1,\"b\":[]}'') zero_config = Key gl (sample_input ''{ \"b\": [], \"a\":1 }'') zero_config"
  by (intro allI, rule Key_same_json_value [where v = "JObj [(''a'', JNum ''1''), (''b'', JArr [])]"]) code_simp+


lemma newline_CHR: "newline = CHR 0x0A" by code_simp

lemma append_newline_eq:
  assumes "newline \<notin> set a" "newline \<notin> set b" "a @ newline # x = b @ newline # y"
  shows "a = b \<and> x = y"
proof -
  have "takeWhile (\<lambda>c. c \<noteq> newline) (a @ newline # x) = a"
    "takeWhile (\<lambda>c. c \<noteq> newline) (b @ newline # y) = b"
    using assms(1,2) by (auto simp: takeWhile_append takeWhile_eq_all_conv)
  then have "a = b" using assms(3) by simp
  then show ?thesis using assms(3) by simp
qed

lemma kind_digest_eq:
  assumes "k @ '':'' @ d = k' @ '':'' @ d'"
    and "k = ''json'' \<or> k = ''raw'' \<or> k = ''multipart''" "k' = ''json'' \<or> k' = ''raw'' \<or> k' = ''multipart''"
  shows "k = k' \<and> d = d'"
  using assms by auto

lemma newline_to_upper: "newline \<in> set (to_upper s) \<Longrightarrow> newline \<in> set s"
proof -
  assume "newline \<in> set (to_upper s)"
  then obtain c where c: "c \<in> set s" "to_upper_byte c = newline" by (auto simp: to_upper_def)
  have "to_upper_byte c = c"
  proof (rule ccontr)
    assume "to_upper_byte c \<noteq> c"
    then have r: "97 \<le> byte_of c \<and> byte_of c \<le> (122::nat)"
      by (auto simp: to_upper_byte_def split: if_splits)
    then have "byte_of (to_upper_byte c) = (byte_of c - 32 :: nat)"
      by (auto simp: to_upper_byte_def mod_less)
    then have "byte_of c - 32 = (10::nat)" unfolding c(2) by (simp add: newline_def)
    then show False using r by arith
  qed
  then show ?thesis using c by simp
qed

text \<open>
  C8. Keys do not run together: with the default configuration, two requests with the same key
  agree on the upper-cased method, on the path, on the kind of body and on the digest of the body.
  So a method, a path and a body never trade bytes across the separators of the key.
\<close>

theorem Key_separates:
  assumes "Key gl a cfg = Inr k" "Key gl b cfg = Inr k"
    and "mc_key cfg = None" "mc_body cfg = None" "mc_path cfg = None" "mc_headers cfg = []"
    and "newline \<notin> set (in_method a @ in_path a @ in_method b @ in_path b)"
  shows "to_upper (in_method a) = to_upper (in_method b) \<and> in_path a = in_path b \<and>
    bodyDigest gl (in_body a) (in_ctype a) (mc_volatile cfg) =
    bodyDigest gl (in_body b) (in_ctype b) (mc_volatile cfg)"
proof -
  obtain ka da where a: "bodyDigest gl (in_body a) (in_ctype a) (mc_volatile cfg) = Inr (ka, da)"
    and ka: "k = to_upper (in_method a) @ newline # in_path a @ newline # ka @ '':'' @ da"
    using assms(1,3-6) by (auto simp: Key_def Let_def header_part_def split: sum.splits)
  obtain kb db where b: "bodyDigest gl (in_body b) (in_ctype b) (mc_volatile cfg) = Inr (kb, db)"
    and kb: "k = to_upper (in_method b) @ newline # in_path b @ newline # kb @ '':'' @ db"
    using assms(2,3-6) by (auto simp: Key_def Let_def header_part_def split: sum.splits)
  have m: "newline \<notin> set (to_upper (in_method a))" "newline \<notin> set (to_upper (in_method b))"
    using assms(7) newline_to_upper by auto
  have p: "newline \<notin> set (in_path a)" "newline \<notin> set (in_path b)" using assms(7) by auto
  have 1: "to_upper (in_method a) = to_upper (in_method b) \<and>
      in_path a @ newline # ka @ '':'' @ da = in_path b @ newline # kb @ '':'' @ db"
    by (rule append_newline_eq [OF m]) (use ka kb in simp)
  have 2: "in_path a = in_path b \<and> ka @ '':'' @ da = kb @ '':'' @ db"
    by (rule append_newline_eq [OF p]) (use 1 in simp)
  then have "ka = kb \<and> da = db"
    using bodyDigest_kind [OF a] bodyDigest_kind [OF b] by (intro kind_digest_eq) auto
  then show ?thesis using 1 2 a b by simp
qed

lemma bodyDigest_opaque: "bodyDigest gl ''x'' [] [] = Inr (''raw'', SumHex ''x'')"
proof -
  have "ParseMediaType [] = ([], [])" "looksJSON ''x'' = False" by code_simp+
  then show ?thesis by (simp add: bodyDigest_def str_contains_def has_prefix_def)
qed

definition raw_input :: match_input where
  "raw_input = \<lparr>in_method = ''GET'', in_path = ''/p'', in_body = ''x'', in_ctype = [], in_header = None\<rparr>"

lemma Key_separates_witness:
  "\<forall>gl. to_upper ''GET'' = to_upper ''get'' \<and> ''/p'' = (''/p'' :: string) \<and>
   bodyDigest gl ''x'' [] [] = bodyDigest gl ''x'' [] []"
proof
  fix gl
  have u: "to_upper ''GET'' = ''GET''" "to_upper ''get'' = ''GET''" by code_simp+
  have k: "Key gl raw_input zero_config = Inr (''GET'' @ newline # ''/p'' @ newline # ''raw:'' @ SumHex ''x'')"
    "Key gl (raw_input\<lparr>in_method := ''get''\<rparr>) zero_config =
       Inr (''GET'' @ newline # ''/p'' @ newline # ''raw:'' @ SumHex ''x'')"
    by (simp_all add: Key_def raw_input_def zero_config_def bodyDigest_opaque header_part_def u)
  show "to_upper ''GET'' = to_upper ''get'' \<and> ''/p'' = (''/p'' :: string) \<and>
      bodyDigest gl ''x'' [] [] = bodyDigest gl ''x'' [] []"
    using Key_separates [OF k] by (simp add: raw_input_def zero_config_def newline_CHR u)
qed

lemma header_part_cong:
  assumes "\<forall>n \<in> set allow. header_values h n = header_values h' n"
  shows "header_part allow (Some h) = header_part allow (Some h')"
proof -
  have "header_values h n = header_values h' n" if "n \<in> set (sort (map CanonicalHeaderKey allow))" for n
    using that assms by (auto simp: header_values_def)
  then have "map (\<lambda>n. newline # n @ ''='' @ str_join '','' (sort (header_values h n)))
      (sort (map CanonicalHeaderKey allow)) =
    map (\<lambda>n. newline # n @ ''='' @ str_join '','' (sort (header_values h' n)))
      (sort (map CanonicalHeaderKey allow))"
    by (intro map_cong) simp_all
  then show ?thesis by (simp only: header_part_def option.case)
qed

text \<open>
  Only allowlisted headers enter the key: requests that differ in any other header have equal
  keys, and the order of the allowlist does not matter.
\<close>

theorem Key_only_allowlisted_headers:
  assumes "\<forall>n \<in> set (mc_headers cfg). header_values h n = header_values h' n"
    and "mset allow = mset (mc_headers cfg)" "mc_key cfg = None"
  shows "Key gl (i\<lparr>in_header := Some h\<rparr>) (cfg\<lparr>mc_headers := allow\<rparr>) = Key gl (i\<lparr>in_header := Some h'\<rparr>) cfg"
proof -
  have s: "set allow = set (mc_headers cfg)" using assms(2) by (rule mset_eq_setD)
  have "mset (map CanonicalHeaderKey allow) = mset (map CanonicalHeaderKey (mc_headers cfg))"
    using assms(2) by simp
  then have "sort (map CanonicalHeaderKey allow) = sort (map CanonicalHeaderKey (mc_headers cfg))"
    by (metis mset_sort properties_for_sort sorted_sort)
  moreover have "(allow = []) = (mc_headers cfg = [])" using s by auto
  ultimately have "header_part allow (Some h) = header_part (mc_headers cfg) (Some h)"
    by (simp only: header_part_def option.case)
  then show ?thesis using assms(3) header_part_cong [OF assms(1)]
    by (cases "mc_path cfg"; cases "mc_body cfg") (simp_all add: Key_def Let_def split: sum.split)
qed

lemma Key_only_allowlisted_headers_witness:
  "\<forall>gl. Key gl (raw_input\<lparr>in_header := Some [(''X-A'', [''1'']), (''Date'', [''now''])]\<rparr>) (zero_config\<lparr>mc_headers := [''x-b'', ''x-a'']\<rparr>) =
   Key gl (raw_input\<lparr>in_header := Some [(''X-A'', [''1''])]\<rparr>) (zero_config\<lparr>mc_headers := [''x-a'', ''x-b'']\<rparr>)"
proof
  fix gl
  have "\<forall>n \<in> set (mc_headers (zero_config\<lparr>mc_headers := [''x-a'', ''x-b'']\<rparr>)).
     header_values [(''X-A'', [''1'']), (''Date'', [''now''])] n = header_values [(''X-A'', [''1''])] n"
    by code_simp
  then have "Key gl (raw_input\<lparr>in_header := Some [(''X-A'', [''1'']), (''Date'', [''now''])]\<rparr>)
      ((zero_config\<lparr>mc_headers := [''x-a'', ''x-b'']\<rparr>)\<lparr>mc_headers := [''x-b'', ''x-a'']\<rparr>) =
    Key gl (raw_input\<lparr>in_header := Some [(''X-A'', [''1''])]\<rparr>) (zero_config\<lparr>mc_headers := [''x-a'', ''x-b'']\<rparr>)"
    by (rule Key_only_allowlisted_headers) (simp_all add: zero_config_def)
  then show "Key gl (raw_input\<lparr>in_header := Some [(''X-A'', [''1'']), (''Date'', [''now''])]\<rparr>) (zero_config\<lparr>mc_headers := [''x-b'', ''x-a'']\<rparr>) =
    Key gl (raw_input\<lparr>in_header := Some [(''X-A'', [''1''])]\<rparr>) (zero_config\<lparr>mc_headers := [''x-a'', ''x-b'']\<rparr>)" by simp
qed

text \<open>
  A gzip-encoded request has the key of the same request sent in the clear, as long as the
  content encoding header itself is not allowlisted into the key.
\<close>

theorem gzip_same_key:
  assumes "gl_gunzip gl z = Some raw" "z \<noteq> []"
    and "str_contains (to_lower (header_get h ''Content-Encoding'')) ''gzip''"
    and "header_get h' ''Content-Encoding'' = []" "header_get h' ''Content-Type'' = header_get h ''Content-Type''"
    and "mc_key cfg = None" "\<forall>n \<in> set (mc_headers cfg). header_values h n = header_values h' n"
  shows "(case FromRequest gl \<lparr>hr_method = m, hr_path = p, hr_header = Some h\<rparr> z of
            Inl e \<Rightarrow> Inl e | Inr i \<Rightarrow> Key gl i cfg) =
         (case FromRequest gl \<lparr>hr_method = m, hr_path = p, hr_header = Some h'\<rparr> raw of
            Inl e \<Rightarrow> Inl e | Inr i \<Rightarrow> Key gl i cfg)"
proof -
  have "header_part (mc_headers cfg) (Some h) = header_part (mc_headers cfg) (Some h')"
    using assms(7) by (rule header_part_cong)
  then show ?thesis
    using assms
    by (cases "mc_path cfg"; cases "mc_body cfg")
      (simp_all add: FromRequest_def DecodeBody_def Key_def Let_def to_lower_def str_contains_def
        split: sum.split)
qed

lemma gzip_same_key_witness:
  "(case FromRequest \<lparr>gl_gunzip = \<lambda>_. Some ''x'', gl_parts = \<lambda>_ _. None\<rparr>
        \<lparr>hr_method = ''POST'', hr_path = ''/'', hr_header = Some [(''Content-Encoding'', [''gzip''])]\<rparr> ''zz'' of
      Inl e \<Rightarrow> Inl e | Inr i \<Rightarrow> Key \<lparr>gl_gunzip = \<lambda>_. Some ''x'', gl_parts = \<lambda>_ _. None\<rparr> i zero_config) =
   (case FromRequest \<lparr>gl_gunzip = \<lambda>_. Some ''x'', gl_parts = \<lambda>_ _. None\<rparr>
        \<lparr>hr_method = ''POST'', hr_path = ''/'', hr_header = Some []\<rparr> ''x'' of
      Inl e \<Rightarrow> Inl e | Inr i \<Rightarrow> Key \<lparr>gl_gunzip = \<lambda>_. Some ''x'', gl_parts = \<lambda>_ _. None\<rparr> i zero_config)"
  by (rule gzip_same_key) code_simp+

end
