(* ===== verification/Rekey.thy ===== *)
theory Rekey
  imports Match
begin

text \<open>
  internal/rekey: the keys of stored requests, for HTTP and for MCP, and the recomputation of every
  key of a file; RekeyPath of the root package on top of it.
\<close>

definition HTTPKey :: "golib \<Rightarrow> wrequest \<Rightarrow> match_config \<Rightarrow> match_error + string" where
  "HTTPKey gl r cfg =
     (case DecodeBody gl (Bytes (rq_body r)) (headers_Get (rq_headers r) ''Content-Encoding'') of
        None \<Rightarrow> Inl EGunzip
      | Some body \<Rightarrow>
          Key gl \<lparr>in_method = rq_method r, in_path = rq_url r, in_body = body,
                  in_ctype = headers_Get (rq_headers r) ''Content-Type'',
                  in_header = Some (ToHTTP (rq_headers r))\<rparr> cfg)"

abbreviation hook_body :: "match_config \<Rightarrow> string \<Rightarrow> bytes \<Rightarrow> bytes" where
  "hook_body cfg path b \<equiv> (case mc_body cfg of None \<Rightarrow> b | Some f \<Rightarrow> f path b ''application/json'')"

definition CallKey :: "string \<Rightarrow> bytes \<Rightarrow> match_config \<Rightarrow> string" where
  "CallKey tool argsJSON cfg =
     (let path = ''mcp:tools/call:'' @ tool
      in path @ '':'' @ Digest (hook_body cfg path argsJSON))"

definition ListKey :: "bytes \<Rightarrow> match_config \<Rightarrow> string" where
  "ListKey paramsJSON cfg =
     (let path = ''mcp:tools/list''
      in path @ '':'' @ Digest (hook_body cfg path paramsJSON))"

definition MCPKey :: "wrequest \<Rightarrow> match_config \<Rightarrow> string" where
  "MCPKey r cfg =
     (if rq_mcp_method r = ''tools/call'' then CallKey (rq_mcp_tool r) (Bytes (rq_body r)) cfg
      else if rq_mcp_method r = ''tools/list'' then ListKey (Bytes (rq_body r)) cfg
      else
        let path = ''mcp:'' @ rq_mcp_method r
        in path @ '':'' @ Digest (hook_body cfg path (Bytes (rq_body r))))"

text \<open>
  rekey.File works in place: on an error the interactions before the failing one are rekeyed, the
  others are as they were.  The error carries the index.
\<close>

abbreviation set_key :: "interaction \<Rightarrow> string \<Rightarrow> interaction" where
  "set_key it k \<equiv> it\<lparr>it_request := (it_request it)\<lparr>rq_match_key := k\<rparr>\<rparr>"

fun rekey_its :: "golib \<Rightarrow> match_config \<Rightarrow> nat \<Rightarrow> interaction list \<Rightarrow>
    interaction list \<times> (nat \<times> match_error) option" where
  "rekey_its gl cfg i [] = ([], None)"
| "rekey_its gl cfg i (it # its) =
     (if it_kind it = ''http'' then
        (case HTTPKey gl (it_request it) cfg of
           Inl e \<Rightarrow> (it # its, Some (i, e))
         | Inr k \<Rightarrow>
             let (its', err) = rekey_its gl cfg (Suc i) its in (set_key it k # its', err))
      else if it_kind it = ''mcp'' then
        let (its', err) = rekey_its gl cfg (Suc i) its
        in (set_key it (MCPKey (it_request it) cfg) # its', err)
      else let (its', err) = rekey_its gl cfg (Suc i) its in (it # its', err))"

definition rekey_File :: "golib \<Rightarrow> wfile \<Rightarrow> match_config \<Rightarrow> wfile \<times> (nat \<times> match_error) option" where
  "rekey_File gl f cfg =
     (let (its, err) = rekey_its gl cfg 0 (wf_its f) in (f\<lparr>wf_its := its\<rparr>, err))"

datatype rekey_error = RWire wire_error | RKey nat match_error

text \<open>RekeyPath: load, rekey, save; the result is the trace of file-system states of the save.\<close>

definition RekeyPath :: "golib \<Rightarrow> (bytes \<Rightarrow> wfile option) \<Rightarrow> (wfile \<Rightarrow> bytes option) \<Rightarrow> save_env \<Rightarrow> fs \<Rightarrow>
    string \<Rightarrow> match_config \<Rightarrow> fs list \<times> rekey_error option" where
  "RekeyPath gl ydec yenc env files path cfg =
     (case Load ydec files path of
        Inl e \<Rightarrow> ([files], Some (RWire e))
      | Inr f \<Rightarrow>
          (case rekey_File gl f cfg of
             (_, Some (i, e)) \<Rightarrow> ([files], Some (RKey i e))
           | (f', None) \<Rightarrow>
               (case Save yenc env files path f' of
                  (_, states, err) \<Rightarrow> (states, map_option RWire err))))"

section \<open>Lemmas\<close>

text \<open>The request the recorder stores for a live request, up to the fields the key does not read.\<close>

lemma headers_Get_sorted:
  assumes "distinct (map fst h)" "\<forall>n \<in> fst ` set h. CanonicalHeaderKey n = n"
  shows "headers_Get (HeadersFromHTTP h) n = header_get h n"
proof -
  have get: "headers_Get hs n = (case map_of (map (\<lambda>f. (hf_name f, hf_values f)) hs) (CanonicalHeaderKey n) of
      Some (v # _) \<Rightarrow> v | _ \<Rightarrow> [])"
    if "distinct (map hf_name hs)" "\<forall>f \<in> set hs. CanonicalHeaderKey (hf_name f) = hf_name f" for hs
    using that
  proof (induction hs)
    case (Cons f hs)
    show ?case
    proof (cases "hf_name f = CanonicalHeaderKey n")
      case True
      then have "map_of (map (\<lambda>f. (hf_name f, hf_values f)) hs) (CanonicalHeaderKey n) = None"
        using Cons.prems by (auto simp: map_of_eq_None_iff)
      then have "headers_Get hs n = []" using Cons by simp
      then show ?thesis using True Cons.prems by (cases "hf_values f") auto
    next
      case False
      then show ?thesis using Cons by simp
    qed
  qed simp
  let ?l = "map (\<lambda>(n, vs). \<lparr>hf_name = n, hf_values = vs\<rparr>) h"
  let ?s = "sort_key hf_name ?l"
  have m: "map hf_name ?l = map fst h" "map (\<lambda>f. (hf_name f, hf_values f)) ?l = h"
    by (induction h) auto
  have "mset (map hf_name ?s) = mset (map fst h)" using m(1) by (metis mset_map mset_sort)
  then have d: "distinct (map hf_name ?s)" using assms(1) by (metis mset_eq_imp_distinct_iff)
  have "set (map (\<lambda>f. (hf_name f, hf_values f)) ?s) = set (map (\<lambda>f. (hf_name f, hf_values f)) ?l)"
    by (simp only: set_map set_sort)
  then have s: "set (map (\<lambda>f. (hf_name f, hf_values f)) ?s) = set h" unfolding m(2) .
  have f: "map fst (map (\<lambda>f. (hf_name f, hf_values f)) ?s) = map hf_name ?s" by simp
  have "map_of (map (\<lambda>f. (hf_name f, hf_values f)) ?s) = map_of h"
    by (rule map_of_same_set [OF s _ assms(1)]) (unfold f, rule d)
  moreover have "\<forall>f \<in> set ?s. CanonicalHeaderKey (hf_name f) = hf_name f"
    using assms(2) by (auto simp: image_iff)
  ultimately show ?thesis
    using get [OF d] by (auto simp: HeadersFromHTTP_def header_get_def header_values_def mget0_def
      split: option.splits list.splits)
qed

lemma Key_header_cong:
  assumes "\<And>n. header_values h n = header_values h' n"
  shows "mc_key cfg = None \<Longrightarrow> Key gl (i\<lparr>in_header := Some h\<rparr>) cfg = Key gl (i\<lparr>in_header := Some h'\<rparr>) cfg"
  using header_part_cong [of "mc_headers cfg" h h'] assms
  by (cases "mc_path cfg"; cases "mc_body cfg") (simp_all add: Key_def Let_def split: sum.split)

text \<open>
  C4. Record and replay derive the same key: the key of the stored form of a live request (its
  method, path, headers as a sorted list and raw body) is the key matching computes for the live
  request itself, errors included.
\<close>

theorem HTTPKey_of_stored_request:
  assumes "distinct (map fst h)" "\<forall>n \<in> fst ` set h. CanonicalHeaderKey n = n" "mc_key cfg = None"
    and "rq_method r = m" "rq_url r = p" "rq_headers r = HeadersFromHTTP h" "rq_body r = NewBody raw"
  shows "HTTPKey gl r cfg =
    (case FromRequest gl \<lparr>hr_method = m, hr_path = p, hr_header = Some h\<rparr> raw of
       Inl e \<Rightarrow> Inl e | Inr i \<Rightarrow> Key gl i cfg)"
proof -
  have b: "Bytes (NewBody raw) = raw" by (simp add: Bytes_def NewBody_def)
  have "header_values (ToHTTP (HeadersFromHTTP h)) n = header_values h n" for n
    using headers_http_roundtrip_map [OF assms(1,2)] by (simp add: header_values_def mget0_def)
  note k = Key_header_cong [OF this assms(3), of gl]
  show ?thesis
  proof (cases "DecodeBody gl raw (header_get h ''Content-Encoding'')")
    case (Some body)
    then show ?thesis
      using assms k [of "\<lparr>in_method = m, in_path = p, in_body = body,
          in_ctype = header_get h ''Content-Type'', in_header = None\<rparr>"]
      by (simp add: HTTPKey_def FromRequest_def b headers_Get_sorted)
  qed (use assms in \<open>simp add: HTTPKey_def FromRequest_def b headers_Get_sorted\<close>)
qed

lemma HTTPKey_of_stored_request_witness:
  "\<forall>gl. HTTPKey gl \<lparr>rq_method = ''POST'', rq_url = ''/v1'', rq_headers = HeadersFromHTTP [(''X-B'', [''1'']), (''Accept'', [''*''])],
     rq_mcp_method = [], rq_mcp_tool = [], rq_body = NewBody ''{}'', rq_body_sha = [], rq_match_key = []\<rparr> zero_config =
   (case FromRequest gl \<lparr>hr_method = ''POST'', hr_path = ''/v1'',
        hr_header = Some [(''X-B'', [''1'']), (''Accept'', [''*''])]\<rparr> ''{}'' of
      Inl e \<Rightarrow> Inl e | Inr i \<Rightarrow> Key gl i zero_config)"
  by (intro allI, rule HTTPKey_of_stored_request) (simp_all, code_simp+)


section \<open>Rekeying a file\<close>

lemma HTTPKey_ignores_key [simp]: "HTTPKey gl (r\<lparr>rq_match_key := k\<rparr>) cfg = HTTPKey gl r cfg"
  by (simp add: HTTPKey_def split: option.split)

lemma MCPKey_ignores_key [simp]: "MCPKey (r\<lparr>rq_match_key := k\<rparr>) cfg = MCPKey r cfg"
  by (simp add: MCPKey_def Let_def split: option.split)

text \<open>The key an interaction should carry; None for a kind the program does not key.\<close>

definition derived_key :: "golib \<Rightarrow> match_config \<Rightarrow> interaction \<Rightarrow> (match_error + string) option" where
  "derived_key gl cfg it =
     (if it_kind it = ''http'' then Some (HTTPKey gl (it_request it) cfg)
      else if it_kind it = ''mcp'' then Some (Inr (MCPKey (it_request it) cfg)) else None)"

lemma derived_key_set_key [simp]: "derived_key gl cfg (set_key it k) = derived_key gl cfg it"
  by (simp add: derived_key_def)

definition keyed :: "golib \<Rightarrow> match_config \<Rightarrow> interaction \<Rightarrow> interaction" where
  "keyed gl cfg it = (case derived_key gl cfg it of Some (Inr k) \<Rightarrow> set_key it k | _ \<Rightarrow> it)"

lemma keyed_keyed [simp]: "keyed gl cfg (keyed gl cfg it) = keyed gl cfg it"
  by (simp add: keyed_def split: option.split sum.split)

lemma rekey_its_Cons:
  "rekey_its gl cfg i (it # its) =
     (case derived_key gl cfg it of
        Some (Inl e) \<Rightarrow> (it # its, Some (i, e))
      | _ \<Rightarrow> (keyed gl cfg it # fst (rekey_its gl cfg (Suc i) its), snd (rekey_its gl cfg (Suc i) its)))"
  by (simp add: derived_key_def keyed_def case_prod_beta Let_def split: sum.split)

lemma rekey_its_ok: "rekey_its gl cfg i its = (its', None) \<Longrightarrow>
    its' = map (keyed gl cfg) its \<and> (\<forall>it \<in> set its. \<forall>e. derived_key gl cfg it \<noteq> Some (Inl e))"
proof (induction its arbitrary: i its')
  case (Cons it its)
  have "rekey_its gl cfg (Suc i) its = (tl its', None)" "hd its' = keyed gl cfg it" "its' \<noteq> []"
      "derived_key gl cfg it \<noteq> Some (Inl e)" for e
    using Cons.prems by (auto simp: rekey_its_Cons prod_eq_iff split: option.splits sum.splits simp del: rekey_its.simps)
  then show ?case using Cons.IH [of "Suc i" "tl its'"] by (cases its') auto
qed simp

lemma rekey_its_total: "\<forall>it \<in> set its. \<forall>e. derived_key gl cfg it \<noteq> Some (Inl e) \<Longrightarrow>
    rekey_its gl cfg i its = (map (keyed gl cfg) its, None)"
proof (induction its arbitrary: i)
  case (Cons it its)
  then show ?case
    by (auto simp: rekey_its_Cons simp del: rekey_its.simps split: option.splits sum.splits)
qed simp

lemma derived_key_keyed [simp]: "derived_key gl cfg (keyed gl cfg it) = derived_key gl cfg it"
  by (simp add: keyed_def split: option.split sum.split)

text \<open>
  A successful rekey gives every HTTP and MCP interaction the key of its stored request and
  changes nothing else, so that rekeying once more changes nothing at all.
\<close>

theorem rekey_File_correct:
  assumes "rekey_File gl f cfg = (f', None)"
  shows "wf_its f' = map (keyed gl cfg) (wf_its f) \<and> f'\<lparr>wf_its := wf_its f\<rparr> = f \<and>
    rekey_File gl f' cfg = (f', None)"
proof -
  obtain its where its: "rekey_its gl cfg 0 (wf_its f) = (its, None)" "f' = f\<lparr>wf_its := its\<rparr>"
    using assms by (auto simp: rekey_File_def split: prod.splits)
  note ok = rekey_its_ok [OF its(1)]
  have "rekey_its gl cfg 0 its = (map (keyed gl cfg) its, None)"
    using ok by (intro rekey_its_total) auto
  then show ?thesis using ok its(2) by (simp add: rekey_File_def comp_def)
qed

definition empty_request :: wrequest where
  "empty_request = \<lparr>rq_method = [], rq_url = [], rq_headers = [], rq_mcp_method = [], rq_mcp_tool = [],
     rq_body = None, rq_body_sha = [], rq_match_key = []\<rparr>"

definition empty_response :: wresponse where
  "empty_response = \<lparr>rs_status = 0, rs_headers = [], rs_streaming = False, rs_body = None, rs_error = [], rs_timing = []\<rparr>"

lemma rekey_File_correct_witness:
  "\<forall>gl. wf_its (sample_file\<lparr>wf_its := [\<lparr>it_kind = ''mcp'', it_request = empty_request\<lparr>rq_match_key := MCPKey empty_request zero_config\<rparr>,
      it_response = empty_response\<rparr>]\<rparr>) =
   map (keyed gl zero_config) [\<lparr>it_kind = ''mcp'', it_request = empty_request, it_response = empty_response\<rparr>]"
proof
  fix gl
  have "rekey_File gl (sample_file\<lparr>wf_its := [\<lparr>it_kind = ''mcp'', it_request = empty_request, it_response = empty_response\<rparr>]\<rparr>) zero_config =
    (sample_file\<lparr>wf_its := [\<lparr>it_kind = ''mcp'', it_request = empty_request\<lparr>rq_match_key := MCPKey empty_request zero_config\<rparr>,
      it_response = empty_response\<rparr>]\<rparr>, None)"
    by (simp add: rekey_File_def)
  from rekey_File_correct [OF this] show "wf_its (sample_file\<lparr>wf_its := [\<lparr>it_kind = ''mcp'', it_request = empty_request\<lparr>rq_match_key := MCPKey empty_request zero_config\<rparr>,
      it_response = empty_response\<rparr>]\<rparr>) =
   map (keyed gl zero_config) [\<lparr>it_kind = ''mcp'', it_request = empty_request, it_response = empty_response\<rparr>]" by simp
qed

end
