(* ===== verification/Store.thy ===== *)
theory Store
  imports Prelude
begin

text \<open>
  The replay store of cassette.go: interactions grouped by match key, a cursor per key, and the
  policy for a key whose recorded entries are used up.  The key type is left open.
\<close>

section \<open>Index and cursor\<close>

datatype exhaust = ExhaustError | ExhaustRepeatLast | ExhaustCycle

type_synonym 'k groups = "('k \<times> nat list) list"

type_synonym 'k cursor = "('k \<times> nat) list"

text \<open>\<open>c.keys[key] = append(c.keys[key], i)\<close>, in recorded order; an entry without a key is skipped.\<close>

fun index_from :: "nat \<Rightarrow> 'k option list \<Rightarrow> 'k groups \<Rightarrow> 'k groups" where
  "index_from i [] m = m"
| "index_from i (None # ks) m = index_from (Suc i) ks m"
| "index_from i (Some k # ks) m = index_from (Suc i) ks (mput k (mget0 [] m k @ [i]) m)"

definition nextIndexLocked :: "exhaust \<Rightarrow> 'k groups \<Rightarrow> 'k cursor \<Rightarrow> 'k \<Rightarrow> 'k cursor \<times> nat option" where
  "nextIndexLocked pol keys cur key =
     (let group = mget0 [] keys key; n = mget0 0 cur key in
      if group = [] then (cur, None)
      else if n < length group then (mput key (n + 1) cur, Some (group ! n))
      else (case pol of
          ExhaustRepeatLast \<Rightarrow> (cur, Some (group ! (length group - 1)))
        | ExhaustCycle \<Rightarrow> (mput key (n + 1) cur, Some (group ! (n mod length group)))
        | ExhaustError \<Rightarrow> (cur, None)))"

section \<open>Lemmas\<close>

lemma mget0_mput [simp]: "mget0 z (mput k v m) k' = (if k' = k then v else mget0 z m k')"
  by (induction k v m rule: mput.induct) (auto simp: mget0_def)

lemma mget0_Nil [simp]: "mget0 z [] k = z"
  by (simp add: mget0_def)

lemma index_from_group:
  "mget0 [] (index_from i ks m) k =
   mget0 [] m k @ filter (\<lambda>j. ks ! (j - i) = Some k) [i ..< i + length ks]"
proof (induction i ks m rule: index_from.induct)
  case (2 i ks m)
  have u: "[i ..< i + length (None # ks)] = i # [Suc i ..< Suc i + length ks]"
    by (simp add: upt_conv_Cons del: upt_Suc)
  have "filter (\<lambda>j. ks ! (j - Suc i) = Some k) [Suc i ..< Suc i + length ks] =
      filter (\<lambda>j. (None # ks) ! (j - i) = Some k) [Suc i ..< Suc i + length ks]"
    by (rule filter_cong) (auto simp: nth_Cons' Suc_diff_le)
  then show ?case unfolding u using 2 by (simp del: upt_Suc)
next
  case (3 i k' ks m)
  have u: "[i ..< i + length (Some k' # ks)] = i # [Suc i ..< Suc i + length ks]"
    by (simp add: upt_conv_Cons del: upt_Suc)
  have "filter (\<lambda>j. ks ! (j - Suc i) = Some k) [Suc i ..< Suc i + length ks] =
      filter (\<lambda>j. (Some k' # ks) ! (j - i) = Some k) [Suc i ..< Suc i + length ks]"
    by (rule filter_cong) (auto simp: nth_Cons' Suc_diff_le)
  then show ?case unfolding u using 3 by (simp del: upt_Suc)
qed simp

text \<open>The entries recorded under a key, in recorded order.\<close>

definition group_of :: "'k option list \<Rightarrow> 'k \<Rightarrow> nat list" where
  "group_of ks k = filter (\<lambda>j. ks ! j = Some k) [0 ..< length ks]"

lemma index_group: "mget0 [] (index_from 0 ks []) k = group_of ks k"
  by (simp add: index_from_group group_of_def)

section \<open>What a sequence of requests is served\<close>

fun serve :: "exhaust \<Rightarrow> 'k groups \<Rightarrow> 'k cursor \<Rightarrow> 'k list \<Rightarrow> nat option list" where
  "serve pol keys cur [] = []"
| "serve pol keys cur (q # qs) =
     snd (nextIndexLocked pol keys cur q) # serve pol keys (fst (nextIndexLocked pol keys cur q)) qs"

text \<open>The specification: the answer to the request for a key that comes after \<open>n\<close> others for it.\<close>

definition answer :: "exhaust \<Rightarrow> nat list \<Rightarrow> nat \<Rightarrow> nat option" where
  "answer pol g n =
     (if g = [] then None
      else if n < length g then Some (g ! n)
      else (case pol of ExhaustError \<Rightarrow> None | ExhaustRepeatLast \<Rightarrow> Some (last g)
            | ExhaustCycle \<Rightarrow> Some (g ! (n mod length g))))"

text \<open>The cursor of a key that has been asked for \<open>n\<close> times.\<close>

definition cursor_at :: "exhaust \<Rightarrow> nat list \<Rightarrow> nat \<Rightarrow> nat" where
  "cursor_at pol g n = (if g = [] then 0 else if pol = ExhaustCycle then n else min n (length g))"

lemma next_answer:
  assumes "mget0 0 cur k = cursor_at pol (mget0 [] keys k) n"
  shows "snd (nextIndexLocked pol keys cur k) = answer pol (mget0 [] keys k) n \<and>
    mget0 0 (fst (nextIndexLocked pol keys cur k)) k' =
      (if k' = k then cursor_at pol (mget0 [] keys k) (Suc n) else mget0 0 cur k')"
  using assms
  by (cases pol)
    (auto simp: nextIndexLocked_def cursor_at_def answer_def Let_def last_conv_nth min_def)

lemma serve_answers:
  assumes "\<And>k. mget0 0 cur k = cursor_at pol (mget0 [] keys k) (c k)"
  shows "i < length qs \<Longrightarrow> serve pol keys cur qs ! i =
    answer pol (mget0 [] keys (qs ! i)) (c (qs ! i) + count_list (take i qs) (qs ! i))"
  using assms
proof (induction qs arbitrary: i cur c)
  case (Cons q qs)
  note n = next_answer [of cur q pol keys "c q", OF Cons.prems(2)]
  show ?case
  proof (cases i)
    case 0
    then show ?thesis using n by simp
  next
    case (Suc j)
    have c: "mget0 0 (fst (nextIndexLocked pol keys cur q)) k =
        cursor_at pol (mget0 [] keys k) (if k = q then Suc (c q) else c k)" for k
      using n Cons.prems(2) by simp
    show ?thesis using Cons.IH [of j, OF _ c] Cons.prems(1) Suc by simp
  qed
qed simp

lemma serve_length [simp]: "length (serve pol keys cur qs) = length qs"
  by (induction qs arbitrary: cur) auto

text \<open>
  C3. The replay store answers as specified: the request that comes after n others for its key gets
  the n-th interaction recorded under the key, and when the entries are used up the policy decides,
  an error, the last entry again, or the entries cyclically.
\<close>

theorem serve_spec:
  assumes "i < length qs"
  shows "serve pol (index_from 0 ks []) [] qs ! i =
    answer pol (group_of ks (qs ! i)) (count_list (take i qs) (qs ! i))"
  using serve_answers [of "[]" pol "index_from 0 ks []" "\<lambda>_. 0", OF _ assms]
  by (simp add: index_group cursor_at_def)

lemma serve_spec_witness:
  "serve ExhaustCycle (index_from 0 [Some ''a'', None, Some ''b'', Some ''a''] []) [] [''a'', ''a'', ''a''] ! 2 = Some 0"
proof -
  let ?ks = "[Some ''a'', None, Some ''b'', Some ''a'']" and ?qs = "[''a'', ''a'', ''a'']"
  have "serve ExhaustCycle (index_from 0 ?ks []) [] ?qs ! 2 =
      answer ExhaustCycle (group_of ?ks (?qs ! 2)) (count_list (take 2 ?qs) (?qs ! 2))"
    by (rule serve_spec) simp
  also have "\<dots> = Some 0" by code_simp
  finally show ?thesis .
qed

text \<open>The position of an entry within its group is the number of earlier entries with its key.\<close>

lemma filter_upt_nth:
  assumes "i < n" "P i"
  shows "filter P [0 ..< n] ! length (filter P [0 ..< i]) = i \<and> length (filter P [0 ..< i]) < length (filter P [0 ..< n])"
proof -
  have "[0 ..< n] = [0 ..< i] @ i # [Suc i ..< n]"
    using assms(1) by (metis upt_add_eq_append le_add1 less_imp_add_positive plus_nat.add_0 upt_conv_Cons)
  then have "filter P [0 ..< n] = filter P [0 ..< i] @ i # filter P [Suc i ..< n]" using assms(2) by simp
  then show ?thesis by (simp add: nth_append)
qed

lemma count_list_filter: "i \<le> length ks \<Longrightarrow> count_list (take i ks) k = length (filter (\<lambda>j. ks ! j = k) [0 ..< i])"
proof (induction i)
  case (Suc i)
  then show ?case by (simp add: take_Suc_conv_app_nth)
qed simp

lemma serve_same_order: "serve pol (index_from 0 (map Some ks) []) [] ks = map Some [0 ..< length ks]"
proof (rule nth_equalityI)
  fix i assume "i < length (serve pol (index_from 0 (map Some ks) []) [] ks)"
  then have i: "i < length ks" by simp
  have f: "filter (\<lambda>j. map Some ks ! j = Some (ks ! i)) [0 ..< n] = filter (\<lambda>j. ks ! j = ks ! i) [0 ..< n]"
    if "n \<le> length ks" for n
    using that by (intro filter_cong) auto
  have c: "count_list (take i ks) (ks ! i) = length (filter (\<lambda>j. ks ! j = ks ! i) [0 ..< i])"
    using i by (intro count_list_filter) simp
  have n: "filter (\<lambda>j. ks ! j = ks ! i) [0 ..< length ks] ! count_list (take i ks) (ks ! i) = i"
    "count_list (take i ks) (ks ! i) < length (filter (\<lambda>j. ks ! j = ks ! i) [0 ..< length ks])"
    using filter_upt_nth [OF i, of "\<lambda>j. ks ! j = ks ! i"] c by simp_all
  have "serve pol (index_from 0 (map Some ks) []) [] ks ! i =
      answer pol (group_of (map Some ks) (ks ! i)) (count_list (take i ks) (ks ! i))"
    using serve_answers [of "[]" pol "index_from 0 (map Some ks) []" "\<lambda>_. 0", OF _ i]
    by (simp add: index_group cursor_at_def)
  also have "\<dots> = Some i" using n f [of "length ks"] by (auto simp: answer_def group_of_def)
  finally show "serve pol (index_from 0 (map Some ks) []) [] ks ! i = map Some [0 ..< length ks] ! i"
    using i by simp
qed simp

section \<open>The contract between recorder and store\<close>

text \<open>
  What replay needs of the recorder: the key found in a stored interaction is the key derived from
  the live request it was stored for.  Then the same run is served its own recording, in order.
\<close>

locale record_replay =
  fixes live_key :: "'r \<Rightarrow> 'k"
    and stored_key :: "'s \<Rightarrow> 'k option"
    and store :: "'r \<Rightarrow> 's"
  assumes stored_live: "stored_key (store r) = Some (live_key r)"
begin

lemma keys_of_recording: "map (stored_key \<circ> store) rs = map Some (map live_key rs)"
  by (simp add: stored_live)

lemma replay_in_order:
  "serve pol (index_from 0 (map (stored_key \<circ> store) rs) []) [] (map live_key rs) = map Some [0 ..< length rs]"
  unfolding keys_of_recording by (simp add: serve_same_order del: map_map)

end

end
