(* ===== verification/Stream.thy ===== *)
theory Stream
  imports Wirefmt
begin

text \<open>
  The streaming helpers of transport.go: cutting an SSE body into frames, the paced reader that
  re-emits them with the recorded delays, and the capture of a live stream with the time of every
  frame.  Times are integers, a duration in nanoseconds.
\<close>

section \<open>Frames\<close>

definition sse_sep :: string where "sse_sep = [newline, newline]"

lemma str_index_bound: "str_index pat s = Some i \<Longrightarrow> i + length pat \<le> length s"
  by (induction pat s arbitrary: i rule: str_index.induct) (auto split: if_splits dest: prefix_length_le)

function splitSSEFrames :: "bytes \<Rightarrow> bytes list" where
  "splitSSEFrames rest =
     (case str_index sse_sep rest of
        None \<Rightarrow> if rest = [] then [] else [rest]
      | Some i \<Rightarrow> take (i + 2) rest # splitSSEFrames (drop (i + 2) rest))"
  by pat_completeness auto
termination
  by (relation "measure length") (auto dest: str_index_bound simp: sse_sep_def)

declare splitSSEFrames.simps [simp del]

text \<open>bytes.Count of the separator.\<close>

function count_sep :: "bytes \<Rightarrow> nat" where
  "count_sep rest =
     (case str_index sse_sep rest of None \<Rightarrow> 0 | Some i \<Rightarrow> Suc (count_sep (drop (i + 2) rest)))"
  by pat_completeness auto
termination
  by (relation "measure length") (auto dest: str_index_bound simp: sse_sep_def)

declare count_sep.simps [simp del]

section \<open>The paced reader\<close>

record paced =
  pr_frames :: "bytes list"
  pr_delays :: "int list"
  pr_i :: nat
  pr_cur :: bytes

datatype read_result = RData bytes | REOF | RCancelled

text \<open>
  The loop that fetches the next frame with bytes in it: the sleeps it asks for, and whether one of
  them was cut short.  \<open>slp\<close> is the context-aware sleep, true when it returned nil.
\<close>

function pr_fetch :: "(int \<Rightarrow> bool) \<Rightarrow> paced \<Rightarrow> paced \<times> int list \<times> read_result option" where
  "pr_fetch slp p =
     (if pr_cur p \<noteq> [] then (p, [], None)
      else if length (pr_frames p) \<le> pr_i p then (p, [], Some REOF)
      else
        let d = (if pr_i p < length (pr_delays p) then pr_delays p ! pr_i p * 1000000 else 0) in
        if \<not> slp d then (p, [d], Some RCancelled)
        else
          let (q, ds, r) = pr_fetch slp (p\<lparr>pr_cur := pr_frames p ! pr_i p, pr_i := Suc (pr_i p)\<rparr>)
          in (q, d # ds, r))"
  by pat_completeness auto
termination
  by (relation "measure (\<lambda>(_, p). length (pr_frames p) - pr_i p)") auto

declare pr_fetch.simps [simp del]

definition pr_read :: "(int \<Rightarrow> bool) \<Rightarrow> nat \<Rightarrow> paced \<Rightarrow> paced \<times> int list \<times> read_result" where
  "pr_read slp n p =
     (case pr_fetch slp p of
        (q, ds, Some r) \<Rightarrow> (q, ds, r)
      | (q, ds, None) \<Rightarrow> (q\<lparr>pr_cur := drop n (pr_cur q)\<rparr>, ds, RData (take n (pr_cur q))))"

section \<open>Capturing a stream\<close>

record capture =
  sc_idx :: nat
  sc_gz :: bool
  sc_timing :: bool
  sc_start :: "int option"
  sc_framed :: nat
  sc_cum :: "int list"
  sc_buf :: bytes
  sc_done :: bool

definition newStreamCapture :: "bool \<Rightarrow> nat \<Rightarrow> bool \<Rightarrow> capture" where
  "newStreamCapture capture_timing idx gz =
     \<lparr>sc_idx = idx, sc_gz = gz, sc_timing = (capture_timing \<and> \<not> gz), sc_start = None, sc_framed = 0,
      sc_cum = [], sc_buf = [], sc_done = False\<rparr>"

text \<open>Duration.Milliseconds truncates towards zero.\<close>

definition to_ms :: "int \<Rightarrow> int" where
  "to_ms d = (if d < 0 then - ((- d) div 1000000) else d div 1000000)"

text \<open>The clock is read once for the start, at the first bytes, and once for a completed frame.\<close>

definition markFramesLocked :: "int \<Rightarrow> int \<Rightarrow> capture \<Rightarrow> capture" where
  "markFramesLocked now1 now2 s =
     (let start = (case sc_start s of None \<Rightarrow> now1 | Some t \<Rightarrow> t);
          s = s\<lparr>sc_start := Some start\<rparr>;
          total = count_sep (sc_buf s)
      in if total \<le> sc_framed s then s
         else s\<lparr>sc_cum := sc_cum s @ replicate (total - sc_framed s) (to_ms (now2 - start)),
                sc_framed := total\<rparr>)"

text \<open>The tee of one read that returned \<open>p\<close>.\<close>

definition capture_tee :: "int \<Rightarrow> int \<Rightarrow> bytes \<Rightarrow> capture \<Rightarrow> capture" where
  "capture_tee now1 now2 p s =
     (if p = [] then s
      else
        let s = s\<lparr>sc_buf := sc_buf s @ p\<rparr>
        in if sc_timing s then markFramesLocked now1 now2 s else s)"

fun deltas :: "int \<Rightarrow> int list \<Rightarrow> int list" where
  "deltas prev [] = []"
| "deltas prev (v # cum) = (if v - prev < 0 then 0 else v - prev) # deltas v cum"

definition cumToDeltas :: "int list \<Rightarrow> int list" where
  "cumToDeltas cum = deltas 0 cum"

text \<open>What finalize hands to the cassette: body, timing, and the error of an unreadable gzip stream.\<close>

definition capture_result :: "(bytes \<Rightarrow> bytes option) \<Rightarrow> capture \<Rightarrow> bytes \<times> int list \<times> string" where
  "capture_result gunzip s =
     (if sc_gz s then
        (case gunzip (sc_buf s) of
           None \<Rightarrow> ([], cumToDeltas (sc_cum s), ''incomplete gzip stream capture'')
         | Some b \<Rightarrow> (b, cumToDeltas (sc_cum s), []))
      else (sc_buf s, cumToDeltas (sc_cum s), []))"

section \<open>Lemmas: frames\<close>

lemma str_index_split: "str_index pat s = Some i \<Longrightarrow> take (i + length pat) s = take i s @ pat"
proof (induction pat s arbitrary: i rule: str_index.induct)
  case (2 pat c s)
  then show ?case
    by (auto split: if_splits simp: prefix_def)
qed (auto split: if_splits)

lemma str_index_take: "str_index pat s = Some i \<Longrightarrow> str_index pat (take (i + length pat) s) = Some i"
proof (induction pat s arbitrary: i rule: str_index.induct)
  case (2 pat c s)
  show ?case
  proof (cases "prefix pat (c # s)")
    case True
    then show ?thesis using 2(2) by (cases pat) (auto simp: prefix_def)
  next
    case False
    then obtain j where j: "str_index pat s = Some j" "i = Suc j" using 2(2) by auto
    have "\<not> prefix pat (c # take (j + length pat) s)"
      using False by (metis append_take_drop_id prefix_Cons prefix_append prefix_order.trans take_is_prefix
          Cons_prefix_Cons)
    then show ?thesis using 2(1) [OF False j(1)] j by simp
  qed
qed (auto split: if_splits)

lemma str_index_append: "str_index pat s = Some i \<Longrightarrow> str_index pat (s @ t) = Some i"
proof (induction pat s arbitrary: i rule: str_index.induct)
  case (1 pat)
  then show ?case by (cases t) (auto split: if_splits)
next
  case (2 pat c s)
  show ?case
  proof (cases "prefix pat (c # s)")
    case True
    then obtain zs where "c # s = pat @ zs" by (auto simp: prefix_def)
    then have "prefix pat (c # s @ t)" by (metis append.assoc append_Cons prefixI)
    then show ?thesis using True 2(2) by simp
  next
    case False
    then obtain j where j: "str_index pat s = Some j" "i = Suc j" using 2(2) by auto
    have "length pat \<le> length (c # s)" using str_index_bound [OF 2(2)] by simp
    then have "\<not> prefix pat (c # s @ t)"
      using False by (metis append_Cons prefix_length_prefix prefixI)
    then show ?thesis using 2(1) [OF False j(1)] j by simp
  qed
qed

lemma splitSSEFrames_concat_aux: "concat (splitSSEFrames rest) = rest"
proof (induction rest rule: splitSSEFrames.induct)
  case (1 rest)
  then show ?case by (subst splitSSEFrames.simps) (auto split: option.split)
qed

lemma splitSSEFrames_ne: "f \<in> set (splitSSEFrames rest) \<Longrightarrow> f \<noteq> []"
proof (induction rest rule: splitSSEFrames.induct)
  case (1 rest)
  show ?case
  proof (cases "str_index sse_sep rest")
    case None
    then show ?thesis using 1(2) splitSSEFrames.simps [of rest] by (auto split: if_splits)
  next
    case (Some i)
    then have "take (i + 2) rest \<noteq> []" using str_index_bound [OF Some] by (auto simp: sse_sep_def)
    then show ?thesis using 1(1) [OF Some] 1(2) Some splitSSEFrames.simps [of rest] by auto
  qed
qed

lemma frames_count: "length (splitSSEFrames rest) = count_sep rest \<or> length (splitSSEFrames rest) = Suc (count_sep rest)"
proof (induction rest rule: splitSSEFrames.induct)
  case (1 rest)
  then show ?case
    by (subst splitSSEFrames.simps, subst (2) splitSSEFrames.simps, subst count_sep.simps, subst (2) count_sep.simps)
      (auto split: option.split)
qed




lemma count_sep_append: "count_sep a \<le> count_sep (a @ b)"
proof (induction a rule: count_sep.induct)
  case (1 a)
  show ?case
  proof (cases "str_index sse_sep a")
    case None
    then show ?thesis by (subst count_sep.simps) simp
  next
    case (Some i)
    have "i + 2 \<le> length a" using str_index_bound [OF Some] by (simp add: sse_sep_def)
    then have "drop (i + 2) (a @ b) = drop (i + 2) a @ b" by simp
    moreover have "count_sep a = Suc (count_sep (drop (i + 2) a))" using Some by (subst count_sep.simps) simp
    moreover have "count_sep (a @ b) = Suc (count_sep (drop (i + 2) (a @ b)))"
      using str_index_append [OF Some, of b] by (subst count_sep.simps) simp
    ultimately show ?thesis using 1(1) [OF Some] by simp
  qed
qed

section \<open>The paced reader emits the stream\<close>

text \<open>The bytes a paced reader still has to deliver.\<close>

definition pr_left :: "paced \<Rightarrow> bytes" where
  "pr_left p = pr_cur p @ concat (drop (pr_i p) (pr_frames p))"

lemma pr_fetch_spec:
  "pr_fetch slp p = (q, ds, r) \<Longrightarrow>
    (r = Some REOF \<longrightarrow> pr_left p = []) \<and> (r = None \<longrightarrow> pr_cur q \<noteq> []) \<and> (\<forall>b. r \<noteq> Some (RData b)) \<and>
    (r = Some RCancelled \<longrightarrow> (\<exists>d \<in> set ds. \<not> slp d)) \<and>
    (r \<noteq> Some RCancelled \<longrightarrow> (\<forall>d \<in> set ds. slp d)) \<and>
    pr_left q = pr_left p \<and> pr_frames q = pr_frames p \<and> pr_delays q = pr_delays p"
proof (induction slp p arbitrary: q ds r rule: pr_fetch.induct)
  case (1 slp p)
  let ?d = "if pr_i p < length (pr_delays p) then pr_delays p ! pr_i p * 1000000 else 0"
  let ?p = "p\<lparr>pr_cur := pr_frames p ! pr_i p, pr_i := Suc (pr_i p)\<rparr>"
  consider "pr_cur p \<noteq> []" | "pr_cur p = []" "length (pr_frames p) \<le> pr_i p"
    | "pr_cur p = []" "pr_i p < length (pr_frames p)" "\<not> slp ?d"
    | "pr_cur p = []" "pr_i p < length (pr_frames p)" "slp ?d" by linarith
  then show ?case
  proof cases
    case 1
    then show ?thesis using \<open>pr_fetch slp p = (q, ds, r)\<close> by (subst (asm) pr_fetch.simps) auto
  next
    case 2
    then show ?thesis using \<open>pr_fetch slp p = (q, ds, r)\<close>
      by (subst (asm) pr_fetch.simps) (auto simp: pr_left_def)
  next
    case 3
    then show ?thesis using \<open>pr_fetch slp p = (q, ds, r)\<close>
      by (subst (asm) pr_fetch.simps) (auto simp: Let_def)
  next
    case 4
    obtain q' ds' r' where f: "pr_fetch slp ?p = (q', ds', r')" by (metis prod_cases3)
    have e: "q = q'" "ds = ?d # ds'" "r = r'"
      using \<open>pr_fetch slp p = (q, ds, r)\<close> 4 f by (subst (asm) pr_fetch.simps, simp add: Let_def)+
    have l: "pr_left ?p = pr_left p"
      using 4 by (simp add: pr_left_def Cons_nth_drop_Suc [symmetric])
    have "\<not> pr_cur p \<noteq> []" "\<not> length (pr_frames p) \<le> pr_i p" "\<not> \<not> slp ?d" using 4 by auto
    note IH = 1(1) [OF this(1,2) refl this(3) f]
    show ?thesis using IH e l 4(3) by auto
  qed
qed

text \<open>A client that reads buffers of the given sizes: the bytes it got, the sleeps it sat through.\<close>

fun pr_run :: "(int \<Rightarrow> bool) \<Rightarrow> nat list \<Rightarrow> paced \<Rightarrow> bytes \<times> paced \<times> read_result option" where
  "pr_run slp [] p = ([], p, None)"
| "pr_run slp (n # ns) p =
     (case pr_read slp n p of
        (q, ds, RData b) \<Rightarrow> (let (out, q', r) = pr_run slp ns q in (b @ out, q', r))
      | (q, ds, r) \<Rightarrow> ([], q, Some r))"

lemma pr_run_left: "pr_run slp ns p = (out, q, r) \<Longrightarrow>
    out @ pr_left q = pr_left p \<and> (r = Some REOF \<longrightarrow> pr_left q = [])"
proof (induction ns arbitrary: p out)
  case (Cons n ns)
  obtain p' ds r' where f: "pr_fetch slp p = (p', ds, r')" by (metis prod_cases3)
  note s = pr_fetch_spec [OF f]
  show ?case
  proof (cases r')
    case None
    let ?p = "p'\<lparr>pr_cur := drop n (pr_cur p')\<rparr>"
    obtain o' where o': "pr_run slp ns ?p = (o', q, r)" "out = take n (pr_cur p') @ o'"
      using Cons.prems f None by (auto simp: pr_read_def split: prod.splits)
    have "pr_left p' = take n (pr_cur p') @ pr_left ?p" by (simp add: pr_left_def)
    then show ?thesis using Cons.IH [OF o'(1)] o'(2) s by simp
  next
    case (Some x)
    then show ?thesis using Cons.prems f s by (cases x) (auto simp: pr_read_def)
  qed
qed simp

text \<open>
  Pacing never changes the bytes: whatever buffer sizes the client reads with and whatever the
  recorded delays, what it received is a prefix of the recorded body, and all of the body once the
  reader reports the end of the stream.
\<close>

theorem paced_replay_exact:
  assumes "pr_run slp ns \<lparr>pr_frames = splitSSEFrames body, pr_delays = delays, pr_i = 0, pr_cur = []\<rparr> = (out, q, r)"
  shows "prefix out body \<and> (r = Some REOF \<longrightarrow> out = body)"
proof -
  have "pr_left \<lparr>pr_frames = splitSSEFrames body, pr_delays = delays, pr_i = 0, pr_cur = []\<rparr> = body"
    by (simp add: pr_left_def splitSSEFrames_concat_aux)
  then show ?thesis using pr_run_left [OF assms] by (auto simp: prefix_def)
qed

lemma paced_replay_exact_witness: "prefix ''ab'' ''abc''"
proof -
  have "pr_run (\<lambda>_. True) [1, 1] \<lparr>pr_frames = splitSSEFrames ''abc'', pr_delays = [5], pr_i = 0, pr_cur = []\<rparr> =
    (''ab'', \<lparr>pr_frames = [''abc''], pr_delays = [5], pr_i = 1, pr_cur = ''c''\<rparr>, None)" by code_simp
  from paced_replay_exact [OF this] show ?thesis by simp
qed


section \<open>What is captured\<close>

definition capture_reads :: "(int \<times> int \<times> bytes) list \<Rightarrow> capture \<Rightarrow> capture" where
  "capture_reads reads s = foldl (\<lambda>s (t1, t2, p). capture_tee t1 t2 p s) s reads"

definition capture_ok :: "capture \<Rightarrow> bool" where
  "capture_ok s =
     (if sc_timing s then length (sc_cum s) = count_sep (sc_buf s) \<and> sc_framed s = count_sep (sc_buf s)
      else sc_cum s = [])"

lemma count_sep_Nil [simp]: "count_sep [] = 0"
  by (subst count_sep.simps) (simp add: sse_sep_def)

lemma capture_tee_ok:
  assumes "capture_ok s"
  shows "capture_ok (capture_tee t1 t2 p s) \<and> sc_buf (capture_tee t1 t2 p s) = sc_buf s @ p \<and>
    sc_timing (capture_tee t1 t2 p s) = sc_timing s"
  using assms count_sep_append [of "sc_buf s" p]
  by (auto simp: capture_tee_def markFramesLocked_def capture_ok_def Let_def)

lemma capture_reads_ok:
  "capture_ok s \<Longrightarrow> capture_ok (capture_reads reads s) \<and>
    sc_buf (capture_reads reads s) = sc_buf s @ concat (map (snd \<circ> snd) reads) \<and>
    sc_timing (capture_reads reads s) = sc_timing s"
proof (induction reads arbitrary: s)
  case (Cons x reads)
  obtain t1 t2 p where x: "x = (t1, t2, p)" by (cases x)
  show ?case
    using Cons.IH [of "capture_tee t1 t2 p s"] capture_tee_ok [OF Cons.prems, of t1 t2 p]
    by (simp add: capture_reads_def x)
qed (simp add: capture_reads_def)

lemma deltas_length [simp]: "length (deltas prev cum) = length cum"
  by (induction prev cum rule: deltas.induct) auto



end
