(* ===== verification/Faults.thy ===== *)
theory Faults
  imports Stream
begin

text \<open>
  faults.go: the chaos overlay.  Synthetic faults replace a response, modifying faults cut the
  frames of a copy of the recorded one.  The YAML decoder of an overlay file is a parameter.
\<close>

record fault =
  fl_method :: string
  fl_path :: string
  fl_attempt :: int
  fl_status :: int
  fl_retry_after :: string
  fl_body :: string
  fl_truncate :: "int option"
  fl_drop_terminal :: bool

datatype faults_error = FRead | FParse

definition LoadFaults :: "(bytes \<Rightarrow> fault list option) \<Rightarrow> fs \<Rightarrow> string \<Rightarrow> faults_error + fault list" where
  "LoadFaults ydec files path =
     (case mget files path of
        None \<Rightarrow> Inl FRead
      | Some data \<Rightarrow> (case ydec data of None \<Rightarrow> Inl FParse | Some fs \<Rightarrow> Inr fs))"

definition synthetic :: "fault \<Rightarrow> bool" where
  "synthetic f = (fl_status f > 0)"

text \<open>strings.EqualFold, on ASCII.\<close>

definition equal_fold :: "string \<Rightarrow> string \<Rightarrow> bool" where
  "equal_fold a b = (to_lower a = to_lower b)"

definition fault_matches :: "fault \<Rightarrow> string \<Rightarrow> string \<Rightarrow> int \<Rightarrow> bool" where
  "fault_matches f method path attempt =
     (if fl_method f \<noteq> [] \<and> \<not> equal_fold (fl_method f) method then False
      else if fl_path f \<noteq> [] \<and> \<not> has_suffix path (fl_path f) then False
      else fl_attempt f = 0 \<or> fl_attempt f = attempt)"

definition shadowsEveryAttempt :: "fault list \<Rightarrow> string \<Rightarrow> string \<Rightarrow> bool" where
  "shadowsEveryAttempt fs method path =
     list_ex (\<lambda>f. synthetic f \<and> fl_attempt f = 0 \<and> fault_matches f method path 0) fs"

fun fault_lookup :: "fault list \<Rightarrow> string \<Rightarrow> string \<Rightarrow> int \<Rightarrow> fault option" where
  "fault_lookup [] method path attempt = None"
| "fault_lookup (f # fs) method path attempt =
     (if fault_matches f method path attempt then Some f else fault_lookup fs method path attempt)"

definition quote_json :: "string \<Rightarrow> string" where
  "quote_json s = [CHR 0x22] @ s @ [CHR 0x22]"

text \<open>The body a synthetic fault gets when it has none of its own.\<close>

definition fault_body :: "int \<Rightarrow> string" where
  "fault_body status =
     ''{'' @ quote_json ''error'' @ '':{'' @ quote_json ''type'' @ '':'' @ quote_json ''injected_fault'' @ '','' @
     quote_json ''message'' @ '':'' @ quote_json (''synthetic '' @ itoa status) @ ''}}''"

definition synthResponse :: "fault \<Rightarrow> wresponse" where
  "synthResponse f =
     (let h = [(''Content-Type'', [''application/json''])];
          h = (if fl_retry_after f \<noteq> [] then header_set ''Retry-After'' (fl_retry_after f) h else h);
          body = (if fl_body f = [] then fault_body (fl_status f) else fl_body f)
      in \<lparr>rs_status = fl_status f, rs_headers = HeadersFromHTTP h, rs_streaming = False,
          rs_body = NewBody body, rs_error = [], rs_timing = []\<rparr>)"

definition applyModify :: "wresponse \<Rightarrow> fault \<Rightarrow> wresponse" where
  "applyModify stored f =
     (if fl_status f > 0 \<or> (fl_truncate f = None \<and> \<not> fl_drop_terminal f) then stored
      else
        let frames = splitSSEFrames (Bytes (rs_body stored));
            frames = (case fl_truncate f of
                        Some n \<Rightarrow> if 0 \<le> n \<and> n < int (length frames) then take (nat n) frames else frames
                      | None \<Rightarrow> frames);
            frames = (if fl_drop_terminal f \<and> frames \<noteq> [] then butlast frames else frames)
        in stored\<lparr>rs_body := NewBody (concat frames), rs_timing := []\<rparr>)"

section \<open>Lemmas\<close>

lemma fault_lookup_ex:
  "f \<in> set fs \<Longrightarrow> fault_matches f m p n \<Longrightarrow> \<exists>g \<in> set fs. fault_lookup fs m p n = Some g \<and> fault_matches g m p n"
  by (induction fs m p n rule: fault_lookup.induct) auto

text \<open>The verification exemption is right where every fault of the overlay is synthetic.\<close>

lemma shadows_lookup:
  assumes "shadowsEveryAttempt fs m p" "\<forall>f \<in> set fs. synthetic f"
  shows "\<exists>f. fault_lookup fs m p n = Some f \<and> synthetic f"
proof -
  obtain f where "f \<in> set fs" "fault_matches f m p n"
    using assms(1) by (auto simp: shadowsEveryAttempt_def list_ex_iff fault_matches_def split: if_splits)
  then show ?thesis using fault_lookup_ex assms(2) by blast
qed

text \<open>
  A modifying fault only shortens the stream: the faulted body is a prefix of the recorded one,
  cut at a frame boundary, and status, headers and streaming flag are those of the recording.
\<close>

theorem applyModify_prefix:
  "(\<exists>k. Bytes (rs_body (applyModify stored f)) = concat (take k (splitSSEFrames (Bytes (rs_body stored))))) \<and>
   prefix (Bytes (rs_body (applyModify stored f))) (Bytes (rs_body stored)) \<and>
   rs_status (applyModify stored f) = rs_status stored \<and> rs_headers (applyModify stored f) = rs_headers stored \<and>
   rs_streaming (applyModify stored f) = rs_streaming stored"
proof -
  let ?fr = "splitSSEFrames (Bytes (rs_body stored))"
  have all: "concat (take (length ?fr) ?fr) = Bytes (rs_body stored)"
    by (simp add: splitSSEFrames_concat_aux)
  have nb: "Bytes (NewBody b) = b" for b by (simp add: Bytes_def NewBody_def)
  have "\<exists>k. Bytes (rs_body (applyModify stored f)) = concat (take k ?fr)"
  proof (cases "fl_status f > 0 \<or> (fl_truncate f = None \<and> \<not> fl_drop_terminal f)")
    case True
    then show ?thesis using all by (metis applyModify_def)
  next
    case False
    let ?f1 = "case fl_truncate f of
        Some n \<Rightarrow> if 0 \<le> n \<and> n < int (length ?fr) then take (nat n) ?fr else ?fr | None \<Rightarrow> ?fr"
    have 1: "\<exists>k. ?f1 = take k ?fr"
      by (cases "fl_truncate f") (auto intro: exI [of _ "length ?fr"])
    have 2: "\<exists>k. butlast (take j ?fr) = take k ?fr" for j
      by (auto simp: butlast_conv_take)
    have "rs_body (applyModify stored f) =
        NewBody (concat (if fl_drop_terminal f \<and> ?f1 \<noteq> [] then butlast ?f1 else ?f1))"
      using False unfolding applyModify_def Let_def by (simp only: if_False) simp
    then have "Bytes (rs_body (applyModify stored f)) =
        concat (if fl_drop_terminal f \<and> ?f1 \<noteq> [] then butlast ?f1 else ?f1)" using nb by simp
    moreover obtain k where "?f1 = take k ?fr" using 1 ..
    moreover obtain k' where "butlast (take k ?fr) = take k' ?fr" using 2 ..
    ultimately show ?thesis by (auto split: if_splits)
  qed
  moreover have "prefix (concat (take k ?fr)) (Bytes (rs_body stored))" for k
    by (metis all append_take_drop_id concat_append prefixI take_all order_refl)
  moreover have "rs_status (applyModify stored f) = rs_status stored \<and>
      rs_headers (applyModify stored f) = rs_headers stored \<and> rs_streaming (applyModify stored f) = rs_streaming stored"
    by (simp add: applyModify_def Let_def)
  ultimately show ?thesis by metis
qed

end
