(* ===== verification/Cassette.thy ===== *)
theory Cassette
  imports Scrub Store Faults
begin

text \<open>
  cassette.go: options and their resolution, the Cassette state, opening (from a path or from
  bytes), indexing, saving through the scrubber and the secret scan, and verification; with the
  lookup core matchResponse of transport.go.
\<close>

section \<open>Options\<close>

datatype cmode = ModeUnset | ModeReplay | ModeRecord | ModeAuto | ModeBranch

definition mode_String :: "cmode \<Rightarrow> string" where
  "mode_String m = (case m of ModeRecord \<Rightarrow> ''record'' | ModeAuto \<Rightarrow> ''auto'' | ModeBranch \<Rightarrow> ''branch'' | _ \<Rightarrow> ''replay'')"

text \<open>ScrubConfig of the public API: a field is None when it is nil.\<close>

record scrub_options =
  so_headers :: "string list option"
  so_patterns :: "regex list option"
  so_stamps :: "(string \<times> jval) list option"

record options =
  op_mode :: cmode
  op_match :: match_config
  op_scrub :: scrub_options
  op_disable_scrub :: bool
  op_exhaust :: exhaust
  op_capture :: bool
  op_pace :: bool
  op_faults :: "fault list"
  op_notice :: string

definition toInternal :: "match_config \<Rightarrow> match_config" where
  "toInternal mc =
     \<lparr>mc_headers = mc_headers mc, mc_volatile = mc_volatile mc, mc_path = mc_path mc, mc_body = mc_body mc,
      mc_key = (case mc_key mc of
          None \<Rightarrow> None
        | Some kf \<Rightarrow> Some (\<lambda>i. kf \<lparr>in_method = in_method i, in_path = in_path i, in_body = in_body i,
                                   in_ctype = in_ctype i, in_header = in_header i\<rparr>))\<rparr>"

definition AzureMatchConfig :: match_config where
  "AzureMatchConfig = zero_config\<lparr>mc_path := mc_path AzureConfig\<rparr>"

definition scrub_isZero :: "scrub_options \<Rightarrow> bool" where
  "scrub_isZero sc = (so_headers sc = None \<and> so_patterns sc = None \<and> so_stamps sc = None)"

definition DefaultScrubConfig :: scrub_options where
  "DefaultScrubConfig =
     \<lparr>so_headers = Some (sc_headers scrub_DefaultConfig), so_patterns = Some (sc_patterns scrub_DefaultConfig),
      so_stamps = Some (sc_stamps scrub_DefaultConfig)\<rparr>"

definition resolveScrub :: "options \<Rightarrow> scrub_config" where
  "resolveScrub opts =
     (if op_disable_scrub opts then zero_scrub
      else if scrub_isZero (op_scrub opts) then scrub_DefaultConfig
      else
        let merged = scrub_DefaultConfig;
            merged = (case so_headers (op_scrub opts) of None \<Rightarrow> merged | Some h \<Rightarrow> merged\<lparr>sc_headers := h\<rparr>);
            merged = (case so_patterns (op_scrub opts) of None \<Rightarrow> merged | Some p \<Rightarrow> merged\<lparr>sc_patterns := p\<rparr>);
            merged = (case so_stamps (op_scrub opts) of None \<Rightarrow> merged | Some s \<Rightarrow> merged\<lparr>sc_stamps := s\<rparr>)
        in merged)"

section \<open>The state\<close>

record cassette =
  ca_path :: string
  ca_mode :: cmode
  ca_opts :: options
  ca_match :: match_config
  ca_scrub :: scrub_config
  ca_file :: wfile
  ca_keys :: "string groups"
  ca_cursor :: "string cursor"
  ca_consumed :: "nat set"
  ca_attempts :: "(string \<times> int) list"
  ca_dials :: int

text \<open>The third-party and library functions the package calls.\<close>

record libs =
  lb_go :: golib
  lb_json :: jsonlib
  lb_ydec :: "bytes \<Rightarrow> wfile option"
  lb_yenc :: "wfile \<Rightarrow> bytes option"

datatype cas_error =
    CWire wire_error
  | CMatch match_error
  | CIndex nat match_error
  | CNoMatch string string
  | CNoMatchMCP string
  | CCancelled
  | CUpstream
  | CRequestBody
  | CResponseBody
  | CMarshal
  | CUnmarshal
  | CSecrets "string list"
  | CDials int
  | CUnconsumed "nat list"

definition empty_file :: wfile where
  "empty_file = \<lparr>wf_schema = 0, wf_notice = [], wf_expect = None, wf_match = None, wf_prov = [], wf_its = []\<rparr>"

definition newCassette :: "string \<Rightarrow> cmode \<Rightarrow> options \<Rightarrow> cassette" where
  "newCassette path mode opts =
     \<lparr>ca_path = path, ca_mode = mode, ca_opts = opts, ca_match = toInternal (op_match opts),
      ca_scrub = resolveScrub opts, ca_file = empty_file, ca_keys = [], ca_cursor = [],
      ca_consumed = {}, ca_attempts = [], ca_dials = 0\<rparr>"

definition applyFileMatch :: "cassette \<Rightarrow> cassette" where
  "applyFileMatch c =
     (case wf_match (ca_file c) of
        None \<Rightarrow> c
      | Some ms \<Rightarrow>
          let m = ca_match c;
              m = (if mc_volatile m = [] then m\<lparr>mc_volatile := ms_volatile ms\<rparr> else m);
              m = (if mc_headers m = [] then m\<lparr>mc_headers := ms_headers ms\<rparr> else m)
          in c\<lparr>ca_match := m\<rparr>)"

section \<open>Indexing\<close>

definition requestKey :: "libs \<Rightarrow> cassette \<Rightarrow> wrequest \<Rightarrow> match_error + string" where
  "requestKey lb c r = HTTPKey (lb_go lb) r (ca_match c)"

text \<open>The key an interaction is indexed under: the persisted one, else the derived one; None skips it.\<close>

definition index_key :: "libs \<Rightarrow> cassette \<Rightarrow> interaction \<Rightarrow> (match_error + string) option" where
  "index_key lb c it =
     (if rq_match_key (it_request it) \<noteq> [] then Some (Inr (rq_match_key (it_request it)))
      else if it_kind it = ''http'' then Some (requestKey lb c (it_request it))
      else if it_kind it = ''mcp'' then Some (Inr (MCPKey (it_request it) (ca_match c)))
      else None)"

fun index_loop :: "libs \<Rightarrow> cassette \<Rightarrow> nat \<Rightarrow> interaction list \<Rightarrow> string groups \<Rightarrow> cas_error + string groups" where
  "index_loop lb c i [] m = Inr m"
| "index_loop lb c i (it # its) m =
     (case index_key lb c it of
        None \<Rightarrow> index_loop lb c (Suc i) its m
      | Some (Inl e) \<Rightarrow> Inl (CIndex i e)
      | Some (Inr k) \<Rightarrow> index_loop lb c (Suc i) its (mput k (mget0 [] m k @ [i]) m))"

definition index :: "libs \<Rightarrow> cassette \<Rightarrow> cas_error + cassette" where
  "index lb c =
     (case index_loop lb c 0 (wf_its (ca_file c)) [] of
        Inl e \<Rightarrow> Inl e
      | Inr m \<Rightarrow> Inr (c\<lparr>ca_keys := m\<rparr>))"

section \<open>Opening\<close>

definition Open :: "libs \<Rightarrow> fs \<Rightarrow> string \<Rightarrow> options \<Rightarrow> cas_error + cassette" where
  "Open lb files path opts =
     (let c = newCassette path (op_mode opts) opts;
          mode = (if ca_mode c = ModeUnset then ModeReplay else ca_mode c);
          mode = (if mode = ModeAuto then (if mget files path \<noteq> None then ModeReplay else ModeRecord) else mode);
          c = c\<lparr>ca_mode := mode\<rparr>
      in if mode = ModeReplay \<or> mode = ModeBranch then
           (case Load (lb_ydec lb) files path of
              Inl e \<Rightarrow> Inl (CWire e)
            | Inr f \<Rightarrow> index lb (applyFileMatch (c\<lparr>ca_file := f\<rparr>)))
         else Inr (c\<lparr>ca_file := empty_file\<lparr>wf_schema := SchemaVersion, wf_notice := op_notice opts\<rparr>\<rparr>))"

definition OpenBytes :: "libs \<Rightarrow> string \<Rightarrow> bytes \<Rightarrow> options \<Rightarrow> cas_error + cassette" where
  "OpenBytes lb name data opts =
     (case Unmarshal (lb_ydec lb) data of
        Inl e \<Rightarrow> Inl (CWire e)
      | Inr f \<Rightarrow>
          let opts = opts\<lparr>op_mode := ModeReplay\<rparr>;
              c = newCassette name ModeReplay opts
          in index lb (applyFileMatch (c\<lparr>ca_file := f\<rparr>)))"

section \<open>Saving\<close>

definition cloneHeaders :: "headers \<Rightarrow> headers" where
  "cloneHeaders hs = map (\<lambda>f. \<lparr>hf_name = hf_name f, hf_values = hf_values f\<rparr>) hs"

definition cloneBody :: "wbody \<Rightarrow> wbody" where
  "cloneBody b = (case b of None \<Rightarrow> None | Some d \<Rightarrow> Some d)"

definition cloneRequest :: "wrequest \<Rightarrow> wrequest" where
  "cloneRequest r =
     \<lparr>rq_method = rq_method r, rq_url = rq_url r, rq_headers = cloneHeaders (rq_headers r),
      rq_mcp_method = rq_mcp_method r, rq_mcp_tool = rq_mcp_tool r, rq_body = cloneBody (rq_body r),
      rq_body_sha = rq_body_sha r, rq_match_key = rq_match_key r\<rparr>"

definition cloneResponse :: "wresponse \<Rightarrow> wresponse" where
  "cloneResponse r =
     \<lparr>rs_status = rs_status r, rs_headers = cloneHeaders (rs_headers r), rs_streaming = rs_streaming r,
      rs_body = cloneBody (rs_body r), rs_error = rs_error r, rs_timing = rs_timing r\<rparr>"

definition cloneFile :: "wfile \<Rightarrow> wfile" where
  "cloneFile f =
     \<lparr>wf_schema = wf_schema f, wf_notice = wf_notice f, wf_expect = wf_expect f, wf_match = wf_match f,
      wf_prov = wf_prov f,
      wf_its = map (\<lambda>it. \<lparr>it_kind = it_kind it, it_request = cloneRequest (it_request it),
                        it_response = cloneResponse (it_response it)\<rparr>) (wf_its f)\<rparr>"

text \<open>The file saveLocked is about to scrub: schema, behavioural contract and match spec filled in.\<close>

definition prepare_file :: "libs \<Rightarrow> fs \<Rightarrow> cassette \<Rightarrow> wfile" where
  "prepare_file lb files c =
     (let f = ca_file c;
          f = (if wf_schema f = 0 then f\<lparr>wf_schema := SchemaVersion\<rparr> else f);
          f = (if wf_expect f = None then
                 (case Load (lb_ydec lb) files (ca_path c) of
                    Inr prior \<Rightarrow> (if wf_expect prior \<noteq> None then f\<lparr>wf_expect := wf_expect prior\<rparr> else f)
                  | Inl _ \<Rightarrow> f)
               else f)
      in if mc_volatile (ca_match c) \<noteq> [] \<or> mc_headers (ca_match c) \<noteq> []
         then f\<lparr>wf_match := Some \<lparr>ms_volatile = mc_volatile (ca_match c), ms_headers = mc_headers (ca_match c)\<rparr>\<rparr>
         else f)"

definition saveLocked :: "libs \<Rightarrow> save_env \<Rightarrow> fs \<Rightarrow> cassette \<Rightarrow> cassette \<times> fs list \<times> cas_error option" where
  "saveLocked lb env files c =
     (let f = prepare_file lb files c;
          c = c\<lparr>ca_file := f\<rparr>;
          scrubbed = scrub_File (lb_json lb) (ca_scrub c) (cloneFile f);
          save = (case Save (lb_yenc lb) env files (ca_path c) scrubbed of
                    (_, states, err) \<Rightarrow> (c, states, map_option CWire err))
      in if op_disable_scrub (ca_opts c) then save
         else (case Marshal (lb_yenc lb) scrubbed of
             Inl e \<Rightarrow> (c, [files], Some (CWire e))
           | Inr data \<Rightarrow>
               if SecretScan data \<noteq> [] then (c, [files], Some (CSecrets (SecretScan data))) else save))"

section \<open>Verification\<close>

definition unconsumed :: "cassette \<Rightarrow> nat list" where
  "unconsumed c =
     filter (\<lambda>i. let it = wf_its (ca_file c) ! i in
         (it_kind it = ''http'' \<or> it_kind it = ''mcp'') \<and> i \<notin> ca_consumed c \<and>
         \<not> shadowsEveryAttempt (op_faults (ca_opts c)) (rq_method (it_request it)) (rq_url (it_request it)))
       [0 ..< length (wf_its (ca_file c))]"

definition VerifyError :: "libs \<Rightarrow> save_env \<Rightarrow> fs \<Rightarrow> cassette \<Rightarrow> cassette \<times> fs list \<times> cas_error option" where
  "VerifyError lb env files c =
     (if ca_mode c = ModeRecord then saveLocked lb env files c
      else if ca_mode c = ModeBranch then saveLocked lb env files c
      else if ca_dials c \<noteq> 0 then (c, [files], Some (CDials (ca_dials c)))
      else if unconsumed c \<noteq> [] then (c, [files], Some (CUnconsumed (unconsumed c)))
      else (c, [files], None))"

section \<open>The lookup core\<close>

text \<open>
  matchResponse, shared by the replay transport and the serve listener.  The result is an error, a
  miss (None) or a response; \<open>cancelled\<close> is the state of the request context.
\<close>

definition matchResponse :: "libs \<Rightarrow> cassette \<Rightarrow> bool \<Rightarrow> http_request \<Rightarrow> bytes \<Rightarrow>
    cassette \<times> (cas_error + wresponse option)" where
  "matchResponse lb c cancelled req reqBody =
     (if cancelled then (c, Inl CCancelled)
      else (case FromRequest (lb_go lb) req reqBody of
          Inl e \<Rightarrow> (c, Inl (CMatch e))
        | Inr inp \<Rightarrow> (case Key (lb_go lb) inp (ca_match c) of
            Inl e \<Rightarrow> (c, Inl (CMatch e))
          | Inr key \<Rightarrow>
              let faults = op_faults (ca_opts c);
                  n = mget0 0 (ca_attempts c) key + 1;
                  c = (if faults \<noteq> [] then c\<lparr>ca_attempts := mput key n (ca_attempts c)\<rparr> else c);
                  fault = (if faults \<noteq> [] then fault_lookup faults (hr_method req) (hr_path req) n else None)
              in case fault of
                   Some f \<Rightarrow>
                     if synthetic f then (c, Inr (Some (synthResponse f)))
                     else
                       let (cur, idx) = nextIndexLocked (op_exhaust (ca_opts c)) (ca_keys c) (ca_cursor c) key;
                           c = c\<lparr>ca_cursor := cur\<rparr>
                       in (case idx of
                             None \<Rightarrow> (c, Inr None)
                           | Some i \<Rightarrow>
                               (c\<lparr>ca_consumed := insert i (ca_consumed c)\<rparr>,
                                Inr (Some (applyModify (it_response (wf_its (ca_file c) ! i)) f))))
                 | None \<Rightarrow>
                     let (cur, idx) = nextIndexLocked (op_exhaust (ca_opts c)) (ca_keys c) (ca_cursor c) key;
                         c = c\<lparr>ca_cursor := cur\<rparr>
                     in (case idx of
                           None \<Rightarrow> (c, Inr None)
                         | Some i \<Rightarrow>
                             (c\<lparr>ca_consumed := insert i (ca_consumed c)\<rparr>,
                              Inr (Some (it_response (wf_its (ca_file c) ! i))))))))"


section \<open>Lemmas\<close>

lemma cloneHeaders_id [simp]: "cloneHeaders hs = hs"
  by (induction hs) (simp_all add: cloneHeaders_def)

lemma cloneFile_id [simp]: "cloneFile f = f"
proof -
  have "cloneRequest r = r" for r
    by (intro wrequest.equality) (simp_all add: cloneRequest_def cloneBody_def option.case_eq_if)
  moreover have "cloneResponse s = s" for s
    by (intro wresponse.equality) (simp_all add: cloneResponse_def cloneBody_def option.case_eq_if)
  moreover have "map (\<lambda>it. \<lparr>it_kind = it_kind it, it_request = it_request it, it_response = it_response it\<rparr>) its = its" for its
    by (rule map_idI) (intro interaction.equality, simp_all)
  ultimately show ?thesis by (intro wfile.equality) (simp_all add: cloneFile_def)
qed

lemma toInternal_id [simp]: "toInternal mc = mc"
proof -
  have "(\<lambda>i. kf \<lparr>in_method = in_method i, in_path = in_path i, in_body = in_body i, in_ctype = in_ctype i,
      in_header = in_header i\<rparr>) = kf" for kf :: "match_input \<Rightarrow> string + string"
    by (rule ext, rule arg_cong [of _ _ kf]) (intro match_input.equality, simp_all)
  then show ?thesis by (intro match_config.equality) (simp_all add: toInternal_def split: option.split)
qed

text \<open>The index is the grouping of the store, over the keys of the interactions.\<close>

definition plain_key :: "libs \<Rightarrow> cassette \<Rightarrow> interaction \<Rightarrow> string option" where
  "plain_key lb c it = (case index_key lb c it of Some (Inr k) \<Rightarrow> Some k | _ \<Rightarrow> None)"

lemma index_loop_from:
  "index_loop lb c i its m = Inr m' \<Longrightarrow> m' = index_from i (map (plain_key lb c) its) m"
proof (induction its arbitrary: i m)
  case (Cons it its)
  then show ?case
    by (auto simp: plain_key_def split: option.splits sum.splits)
qed simp

lemma index_loop_persisted:
  "\<forall>it \<in> set its. rq_match_key (it_request it) \<noteq> [] \<Longrightarrow>
    index_loop lb c i its m = Inr (index_from i (map (\<lambda>it. Some (rq_match_key (it_request it))) its) m)"
  by (induction its arbitrary: i m) (simp_all add: index_key_def)

text \<open>
  Redaction is on unless it is switched off: a field of the scrub options that is left nil keeps
  its default, a field that is set replaces only that field, and DisableScrub alone turns all off.
\<close>

theorem resolveScrub_merges:
  "resolveScrub opts =
     (if op_disable_scrub opts then \<lparr>sc_headers = [], sc_patterns = [], sc_stamps = []\<rparr>
      else \<lparr>sc_headers = (case so_headers (op_scrub opts) of None \<Rightarrow> sc_headers scrub_DefaultConfig | Some h \<Rightarrow> h),
            sc_patterns = (case so_patterns (op_scrub opts) of None \<Rightarrow> sc_patterns scrub_DefaultConfig | Some p \<Rightarrow> p),
            sc_stamps = (case so_stamps (op_scrub opts) of None \<Rightarrow> sc_stamps scrub_DefaultConfig | Some s \<Rightarrow> s)\<rparr>)"
  by (auto simp: resolveScrub_def zero_scrub_def scrub_isZero_def Let_def split: option.split)

lemma saveLocked_cases:
  assumes "saveLocked lb env files c = (c', states, err)" "se_tmp env \<noteq> ca_path c"
    and "mget files (se_tmp env) = None"
  shows "ca_file c' = prepare_file lb files c \<and> c'\<lparr>ca_file := ca_file c\<rparr> = c \<and>
    (err \<noteq> None \<longrightarrow> mget (last states) = mget files) \<and>
    (err = None \<longrightarrow> (\<exists>data g. lb_yenc lb g = Some data \<and> g = stamp_schema (scrub_File (lb_json lb) (ca_scrub c) (prepare_file lb files c)) \<and>
       mget (last states) = (mget files)(ca_path c \<mapsto> data) \<and>
       (\<not> op_disable_scrub (ca_opts c) \<longrightarrow> lb_yenc lb (scrub_File (lb_json lb) (ca_scrub c) (prepare_file lb files c)) \<noteq> None \<and>
          SecretScan (the (lb_yenc lb (scrub_File (lb_json lb) (ca_scrub c) (prepare_file lb files c)))) = [])))"
proof -
  let ?g = "scrub_File (lb_json lb) (ca_scrub c) (prepare_file lb files c)"
  obtain g' st e where s: "Save (lb_yenc lb) env files (ca_path c) ?g = (g', st, e)" by (metis prod_cases3)
  have g': "g' = stamp_schema ?g" using s by (auto simp: Save_def Let_def split: sum.splits)
  note tr = Save_trace [OF assms(2,3) s]
  show ?thesis
  proof (cases "op_disable_scrub (ca_opts c) \<or> (\<exists>d. lb_yenc lb ?g = Some d \<and> SecretScan d = [])")
    case True
    then have "c' = c\<lparr>ca_file := prepare_file lb files c\<rparr>" "states = st" "err = map_option CWire e"
      using assms(1) s by (auto simp: saveLocked_def Let_def Marshal_def split: if_splits)
    then show ?thesis using tr True g' by (cases "lb_yenc lb g'") (auto split: if_splits)
  next
    case False
    then have f: "c' = c\<lparr>ca_file := prepare_file lb files c\<rparr>" "states = [files]" "err \<noteq> None"
      using assms(1) s by (auto simp: saveLocked_def Let_def Marshal_def split: if_splits option.splits)
    then show ?thesis by auto
  qed
qed

lemma prepare_file_schema: "wf_schema (prepare_file lb files c) \<noteq> 0"
  by (auto simp: prepare_file_def Let_def SchemaVersion_def split: sum.split)

lemma stamp_prepared: "stamp_schema (scrub_File jl sc (prepare_file lb files c)) = scrub_File jl sc (prepare_file lb files c)"
  using prepare_file_schema [of lb files c] by (simp add: stamp_schema_def scrub_File_def)

text \<open>
  C2. Unless scrubbing is disabled, a save that succeeds has written a text in which the scanner finds
  nothing, in particular no \<open>sk-\<close> or \<open>Bearer \<close> token; a save that fails leaves the file system as it
  was.  The state in memory is not scrubbed.
\<close>

theorem saved_cassette_is_clean:
  assumes "saveLocked lb env files c = (c', states, err)" "\<not> op_disable_scrub (ca_opts c)"
    and "se_tmp env \<noteq> ca_path c" "mget files (se_tmp env) = None"
  shows "(err = None \<longrightarrow> (\<exists>data. mget (last states) = (mget files)(ca_path c \<mapsto> data) \<and> \<not> HasSecrets data \<and>
       (\<forall>u v x lit. data = u @ lit @ x # v \<longrightarrow> lit \<in> {''sk-'', ''Bearer ''} \<longrightarrow> \<not> is_alnum x))) \<and>
    (err \<noteq> None \<longrightarrow> mget (last states) = mget files) \<and> wf_its (ca_file c') = wf_its (ca_file c)"
proof -
  note s = saveLocked_cases [OF assms(1,3,4)]
  have i: "wf_its (ca_file c') = wf_its (ca_file c)"
    using s by (simp add: prepare_file_def Let_def split: sum.split)
  have "\<exists>data. mget (last states) = (mget files)(ca_path c \<mapsto> data) \<and> \<not> HasSecrets data" if "err = None"
    using s that assms(2) unfolding stamp_prepared HasSecrets_def by auto
  moreover have "\<not> is_alnum x" if "\<not> HasSecrets data" "data = u @ lit @ x # v" "lit \<in> {''sk-'', ''Bearer ''}"
    for data u lit x v
    using that has_secrets_literal [of data u lit x v] by auto
  ultimately show ?thesis using s i by blast
qed


definition toy_libs :: libs where
  "toy_libs = \<lparr>lb_go = \<lparr>gl_gunzip = \<lambda>_. None, gl_parts = \<lambda>_ _. None\<rparr>,
     lb_json = \<lparr>jl_valid = \<lambda>_. False, jl_exists = \<lambda>_ _. False, jl_set = \<lambda>_ _ _. None\<rparr>,
     lb_ydec = toy_dec, lb_yenc = toy_enc\<rparr>"

definition toy_options :: options where
  "toy_options = \<lparr>op_mode = ModeRecord, op_match = zero_config,
     op_scrub = \<lparr>so_headers = None, so_patterns = None, so_stamps = None\<rparr>, op_disable_scrub = False,
     op_exhaust = ExhaustError, op_capture = False, op_pace = False, op_faults = [], op_notice = ''n''\<rparr>"

definition toy_cassette :: cassette where
  "toy_cassette = newCassette ''c'' ModeRecord toy_options
     \<lparr>ca_file := empty_file\<lparr>wf_schema := 1, wf_notice := ''n''\<rparr>\<rparr>"

lemma saved_cassette_is_clean_witness:
  "snd (snd (saveLocked toy_libs working_env [] toy_cassette)) = None \<and>
   (\<exists>data. mget (last (fst (snd (saveLocked toy_libs working_env [] toy_cassette)))) = [''c'' \<mapsto> data] \<and> \<not> HasSecrets data)"
proof
  let ?r = "saveLocked toy_libs working_env [] toy_cassette"
  show e: "snd (snd ?r) = None" by code_simp
  have o: "\<not> op_disable_scrub (ca_opts toy_cassette)" "se_tmp working_env \<noteq> ca_path toy_cassette" "ca_path toy_cassette = ''c''"
    by (simp_all add: toy_cassette_def newCassette_def toy_options_def working_env_def)
  have p: "?r = (fst ?r, fst (snd ?r), snd (snd ?r))" by simp
  have "mget [] (se_tmp working_env) = None" by simp
  from saved_cassette_is_clean [OF p o(1,2) this] obtain data
    where "mget (last (fst (snd ?r))) = (mget [])(ca_path toy_cassette \<mapsto> data)" "\<not> HasSecrets data"
    using e by blast
  then show "\<exists>data. mget (last (fst (snd ?r))) = [''c'' \<mapsto> data] \<and> \<not> HasSecrets data"
    unfolding o(3) map_of.simps(1) by blast
qed

section \<open>Verification and lookup\<close>

lemma matchResponse_frame:
  assumes "matchResponse lb c cancelled req body = (c', r)"
  shows "c' = c\<lparr>ca_cursor := ca_cursor c', ca_consumed := ca_consumed c', ca_attempts := ca_attempts c'\<rparr> \<and>
    ca_consumed c \<subseteq> ca_consumed c'"
  using assms
  by (auto simp: matchResponse_def Let_def split: if_splits sum.splits option.splits prod.splits)

lemma matchResponse_key:
  assumes "FromRequest (lb_go lb) req body = Inr i" "Key (lb_go lb) i (ca_match c) = Inr key"
    and "op_faults (ca_opts c) = []"
  shows "matchResponse lb c False req body =
    (let (cur, idx) = nextIndexLocked (op_exhaust (ca_opts c)) (ca_keys c) (ca_cursor c) key in
     case idx of
       None \<Rightarrow> (c\<lparr>ca_cursor := cur\<rparr>, Inr None)
     | Some i \<Rightarrow> (c\<lparr>ca_cursor := cur, ca_consumed := insert i (ca_consumed c)\<rparr>,
                 Inr (Some (it_response (wf_its (ca_file c) ! i)))))"
  using assms by (simp add: matchResponse_def Let_def split: prod.splits option.splits)



end
