(* ===== verification/Transport.thy ===== *)
theory Transport
  imports Cassette
begin

text \<open>
  transport.go: the round tripper.  Recording appends an interaction and tees the response; replay
  looks the response up and synthesizes it; branch mode replays until the first miss and records
  from there.  The upstream transport is the response it gives, None for an error.
\<close>

section \<open>Requests and responses\<close>

datatype request_body = NoBody | BodyBytes bytes | BodyError

definition bufferRequestBody :: "request_body \<Rightarrow> bytes option" where
  "bufferRequestBody b = (case b of NoBody \<Rightarrow> Some [] | BodyBytes x \<Rightarrow> Some x | BodyError \<Rightarrow> None)"

text \<open>A live response: its bytes on the wire, and whether reading them fails at the end.\<close>

record live_response =
  lr_status :: int
  lr_header :: "http_header option"
  lr_body :: bytes
  lr_fails :: bool
  lr_length :: int

datatype body_reader = RBytes bytes | RPaced paced | RCapture capture

record http_out =
  ho_status :: int
  ho_header :: http_header
  ho_body :: body_reader
  ho_length :: int

datatype hop = HopBase | HopLive | HopDefault | HopBlocking

text \<open>Transport: which round tripper stands behind the cassette.\<close>

definition Transport_next :: "cassette \<Rightarrow> bool \<Rightarrow> bool \<Rightarrow> hop" where
  "Transport_next c has_base has_live =
     (if ca_mode c = ModeRecord then (if has_base then HopBase else HopDefault)
      else if ca_mode c = ModeBranch then (if has_live then HopLive else HopDefault)
      else HopBlocking)"

text \<open>A dial through the blocking transport.\<close>

definition blocked_dial :: "cassette \<Rightarrow> cassette" where
  "blocked_dial c = c\<lparr>ca_dials := ca_dials c + 1\<rparr>"

definition stripStoredEncodingHeaders :: "http_header \<Rightarrow> http_header" where
  "stripStoredEncodingHeaders h = header_del ''Content-Length'' (header_del ''Content-Encoding'' h)"

definition captureResponseMeta :: "live_response \<Rightarrow> headers \<times> bool" where
  "captureResponseMeta resp =
     (HeadersFromHTTP (stripStoredEncodingHeaders (case lr_header resp of None \<Rightarrow> [] | Some h \<Rightarrow> h)),
      str_contains (to_lower (hdr_get (lr_header resp) ''Content-Type'')) ''text/event-stream'')"

definition isGzip :: "http_header option \<Rightarrow> bool" where
  "isGzip h = str_contains (to_lower (hdr_get h ''Content-Encoding'')) ''gzip''"

definition readDecoded :: "golib \<Rightarrow> bytes \<Rightarrow> bool \<Rightarrow> bool \<Rightarrow> bytes option" where
  "readDecoded gl raw fails gz = (if fails then None else if gz then gl_gunzip gl raw else Some raw)"

section \<open>Recording\<close>

definition appendInteraction :: "interaction \<Rightarrow> cassette \<Rightarrow> cassette \<times> nat" where
  "appendInteraction it c =
     (c\<lparr>ca_file := (ca_file c)\<lparr>wf_its := wf_its (ca_file c) @ [it]\<rparr>\<rparr>, length (wf_its (ca_file c)))"

definition update_response :: "nat \<Rightarrow> (wresponse \<Rightarrow> wresponse) \<Rightarrow> cassette \<Rightarrow> cassette" where
  "update_response idx g c =
     (let its = wf_its (ca_file c); it = its ! idx
      in c\<lparr>ca_file := (ca_file c)\<lparr>wf_its := its[idx := it\<lparr>it_response := g (it_response it)\<rparr>]\<rparr>\<rparr>)"

definition setResponseBody :: "nat \<Rightarrow> bytes \<Rightarrow> cassette \<Rightarrow> cassette" where
  "setResponseBody idx body c = update_response idx (\<lambda>r. r\<lparr>rs_body := NewBody body\<rparr>) c"

definition setStreamCapture :: "nat \<Rightarrow> bytes \<Rightarrow> int list \<Rightarrow> cassette \<Rightarrow> cassette" where
  "setStreamCapture idx body timing c =
     update_response idx (\<lambda>r.
       let r = r\<lparr>rs_body := NewBody body\<rparr>
       in if op_capture (ca_opts c) \<and> timing \<noteq> [] then r\<lparr>rs_timing := timing\<rparr> else r) c"

definition setStreamError :: "nat \<Rightarrow> string \<Rightarrow> cassette \<Rightarrow> cassette" where
  "setStreamError idx msg c = update_response idx (\<lambda>r. r\<lparr>rs_error := msg\<rparr>) c"

text \<open>finalize runs once, at the end of the stream or at Close.\<close>

definition finalize :: "golib \<Rightarrow> capture \<Rightarrow> cassette \<Rightarrow> capture \<times> cassette" where
  "finalize gl s c =
     (if sc_done s then (s, c)
      else
        let (body, timing, err) = capture_result (gl_gunzip gl) s;
            c = setStreamCapture (sc_idx s) body timing c;
            c = (if err \<noteq> [] then setStreamError (sc_idx s) err c else c)
        in (s\<lparr>sc_done := True\<rparr>, c))"

text \<open>The request as it is stored, with its body digest and its match key.\<close>

definition stored_request :: "golib \<Rightarrow> match_config \<Rightarrow> http_request \<Rightarrow> bytes \<Rightarrow> wrequest" where
  "stored_request gl cfg req reqBody =
     \<lparr>rq_method = hr_method req, rq_url = hr_path req,
      rq_headers = HeadersFromHTTP (case hr_header req of None \<Rightarrow> [] | Some h \<Rightarrow> h),
      rq_mcp_method = [], rq_mcp_tool = [], rq_body = NewBody reqBody,
      rq_body_sha =
        (case BodyDigest gl reqBody (hdr_get (hr_header req) ''Content-Type'') [] of
           Inr (_, digest) \<Rightarrow> if reqBody \<noteq> [] then digest else []
         | Inl _ \<Rightarrow> []),
      rq_match_key =
        (case FromRequest gl req reqBody of
           Inl _ \<Rightarrow> []
         | Inr inp \<Rightarrow> (case Key gl inp cfg of Inl _ \<Rightarrow> [] | Inr key \<Rightarrow> key))\<rparr>"

definition record_http :: "libs \<Rightarrow> cassette \<Rightarrow> http_request \<Rightarrow> bytes \<Rightarrow> live_response option \<Rightarrow>
    cassette \<times> (cas_error + http_out)" where
  "record_http lb c req reqBody up =
     (case up of
        None \<Rightarrow> (c, Inl CUpstream)
      | Some resp \<Rightarrow>
          let (hs, streaming) = captureResponseMeta resp;
              it = \<lparr>it_kind = ''http'', it_request = stored_request (lb_go lb) (ca_match c) req reqBody,
                    it_response = \<lparr>rs_status = lr_status resp, rs_headers = hs, rs_streaming = streaming,
                                   rs_body = None, rs_error = [], rs_timing = []\<rparr>\<rparr>;
              (c, idx) = appendInteraction it c;
              header = (case lr_header resp of None \<Rightarrow> [] | Some h \<Rightarrow> h)
          in if streaming then
               (c, Inr \<lparr>ho_status = lr_status resp, ho_header = header,
                        ho_body = RCapture (newStreamCapture (op_capture (ca_opts c)) idx (isGzip (lr_header resp))),
                        ho_length = lr_length resp\<rparr>)
             else
               (case readDecoded (lb_go lb) (lr_body resp) (lr_fails resp) (isGzip (lr_header resp)) of
                  None \<Rightarrow> (c, Inl CResponseBody)
                | Some decoded \<Rightarrow>
                    (setResponseBody idx decoded c,
                     Inr \<lparr>ho_status = lr_status resp, ho_header = stripStoredEncodingHeaders header,
                          ho_body = RBytes decoded, ho_length = int (length decoded)\<rparr>)))"

section \<open>Replaying\<close>

definition synthesize :: "options \<Rightarrow> wresponse \<Rightarrow> http_out" where
  "synthesize opts stored =
     (let body = Bytes (rs_body stored);
          header = stripStoredEncodingHeaders (ToHTTP (rs_headers stored));
          status = (if rs_status stored = 0 then 200 else rs_status stored)
      in if rs_streaming stored then
           let frames = splitSSEFrames body;
               delays = (if length frames = length (rs_timing stored) + 1
                         then rs_timing stored @ [0] else rs_timing stored)
           in \<lparr>ho_status = status, ho_header = header,
               ho_body = (if op_pace opts \<and> rs_timing stored \<noteq> [] \<and> length frames = length delays
                          then RPaced \<lparr>pr_frames = frames, pr_delays = delays, pr_i = 0, pr_cur = []\<rparr>
                          else RBytes body),
               ho_length = -1\<rparr>
         else \<lparr>ho_status = status, ho_header = header, ho_body = RBytes body, ho_length = int (length body)\<rparr>)"

definition replay :: "libs \<Rightarrow> cassette \<Rightarrow> bool \<Rightarrow> http_request \<Rightarrow> bytes \<Rightarrow> cassette \<times> (cas_error + http_out)" where
  "replay lb c cancelled req reqBody =
     (case matchResponse lb c cancelled req reqBody of
        (c, Inl e) \<Rightarrow> (c, Inl e)
      | (c, Inr None) \<Rightarrow> (c, Inl (CNoMatch (hr_method req) (hr_path req)))
      | (c, Inr (Some stored)) \<Rightarrow> (c, Inr (synthesize (ca_opts c) stored)))"

definition branch :: "libs \<Rightarrow> cassette \<Rightarrow> bool \<Rightarrow> http_request \<Rightarrow> bytes \<Rightarrow> live_response option \<Rightarrow>
    cassette \<times> (cas_error + http_out)" where
  "branch lb c cancelled req reqBody up =
     (case matchResponse lb c cancelled req reqBody of
        (c, Inl e) \<Rightarrow> (c, Inl e)
      | (c, Inr (Some stored)) \<Rightarrow> (c, Inr (synthesize (ca_opts c) stored))
      | (c, Inr None) \<Rightarrow> record_http lb c req reqBody up)"

definition RoundTrip :: "libs \<Rightarrow> cassette \<Rightarrow> bool \<Rightarrow> http_request \<Rightarrow> request_body \<Rightarrow> live_response option \<Rightarrow>
    cassette \<times> (cas_error + http_out)" where
  "RoundTrip lb c cancelled req rb up =
     (case bufferRequestBody rb of
        None \<Rightarrow> (c, Inl CRequestBody)
      | Some body \<Rightarrow>
          if ca_mode c = ModeRecord then record_http lb c req body up
          else if ca_mode c = ModeBranch then branch lb c cancelled req body up
          else replay lb c cancelled req body)"


section \<open>Runs\<close>

text \<open>
  One exchange of a run: the request with its body, the live response, and, for a stream, the reads
  of the client that drains it (two clock values and the bytes of every read).
\<close>

record exchange =
  ex_req :: http_request
  ex_body :: bytes
  ex_resp :: live_response
  ex_reads :: "(int \<times> int \<times> bytes) list"

definition record_exchange :: "libs \<Rightarrow> cassette \<Rightarrow> exchange \<Rightarrow> cassette" where
  "record_exchange lb c ex =
     (case RoundTrip lb c False (ex_req ex) (BodyBytes (ex_body ex)) (Some (ex_resp ex)) of
        (c, Inl e) \<Rightarrow> c
      | (c, Inr out) \<Rightarrow>
          (case ho_body out of
             RCapture s \<Rightarrow> snd (finalize (lb_go lb) (capture_reads (ex_reads ex) s) c)
           | _ \<Rightarrow> c))"

definition record_run :: "libs \<Rightarrow> cassette \<Rightarrow> exchange list \<Rightarrow> cassette" where
  "record_run lb c exs = foldl (record_exchange lb) c exs"

fun replay_run :: "libs \<Rightarrow> cassette \<Rightarrow> exchange list \<Rightarrow> (cas_error + http_out) list \<times> cassette" where
  "replay_run lb c [] = ([], c)"
| "replay_run lb c (ex # exs) =
     (let (c', r) = RoundTrip lb c False (ex_req ex) (BodyBytes (ex_body ex)) None;
          (rs, c'') = replay_run lb c' exs
      in (r # rs, c''))"

section \<open>Lemmas: recording\<close>

abbreviation append_it :: "interaction \<Rightarrow> cassette \<Rightarrow> cassette" where
  "append_it it c \<equiv> c\<lparr>ca_file := (ca_file c)\<lparr>wf_its := wf_its (ca_file c) @ [it]\<rparr>\<rparr>"

lemma update_response_last:
  "update_response (length (wf_its (ca_file c))) g (append_it it c) =
   append_it (it\<lparr>it_response := g (it_response it)\<rparr>) c"
  by (simp add: update_response_def Let_def)

lemma capture_reads_fixed:
  "sc_idx (capture_reads reads s) = sc_idx s \<and> sc_done (capture_reads reads s) = sc_done s \<and>
   sc_gz (capture_reads reads s) = sc_gz s"
proof -
  have "sc_idx (capture_tee t1 t2 p s) = sc_idx s \<and> sc_done (capture_tee t1 t2 p s) = sc_done s \<and>
      sc_gz (capture_tee t1 t2 p s) = sc_gz s" for t1 t2 p s
    by (simp add: capture_tee_def markFramesLocked_def Let_def)
  then show ?thesis
    by (induction reads arbitrary: s) (auto simp: capture_reads_def)
qed

text \<open>The response an exchange leaves in the cassette.\<close>

definition stored_response :: "libs \<Rightarrow> cassette \<Rightarrow> exchange \<Rightarrow> wresponse" where
  "stored_response lb c ex =
     (let resp = ex_resp ex; (hs, streaming) = captureResponseMeta resp; gz = isGzip (lr_header resp);
          r = \<lparr>rs_status = lr_status resp, rs_headers = hs, rs_streaming = streaming, rs_body = None,
               rs_error = [], rs_timing = []\<rparr>
      in if streaming then
           let (body, timing, err) = capture_result (gl_gunzip (lb_go lb))
                 (capture_reads (ex_reads ex) (newStreamCapture (op_capture (ca_opts c)) 0 gz));
               r = r\<lparr>rs_body := NewBody body\<rparr>;
               r = (if op_capture (ca_opts c) \<and> timing \<noteq> [] then r\<lparr>rs_timing := timing\<rparr> else r)
           in if err \<noteq> [] then r\<lparr>rs_error := err\<rparr> else r
         else (case readDecoded (lb_go lb) (lr_body resp) (lr_fails resp) gz of
                 None \<Rightarrow> r | Some decoded \<Rightarrow> r\<lparr>rs_body := NewBody decoded\<rparr>))"

definition stored_it :: "libs \<Rightarrow> cassette \<Rightarrow> exchange \<Rightarrow> interaction" where
  "stored_it lb c ex =
     \<lparr>it_kind = ''http'', it_request = stored_request (lb_go lb) (ca_match c) (ex_req ex) (ex_body ex),
      it_response = stored_response lb c ex\<rparr>"

lemma capture_result_idx:
  "capture_result gz (capture_reads reads (newStreamCapture t i g)) =
   capture_result gz (capture_reads reads (newStreamCapture t j g))"
proof -
  have "capture_tee t1 t2 p (s\<lparr>sc_idx := j\<rparr>) = (capture_tee t1 t2 p s)\<lparr>sc_idx := j\<rparr>" for t1 t2 p s
    by (simp add: capture_tee_def markFramesLocked_def Let_def)
  then have "capture_reads reads (s\<lparr>sc_idx := j\<rparr>) = (capture_reads reads s)\<lparr>sc_idx := j\<rparr>" for s
    by (induction reads arbitrary: s) (auto simp: capture_reads_def)
  from this [of "newStreamCapture t i g"] show ?thesis
    by (simp add: newStreamCapture_def capture_result_def split: option.split)
qed

lemma record_exchange_appends:
  assumes "ca_mode c = ModeRecord"
  shows "record_exchange lb c ex = append_it (stored_it lb c ex) c"
proof -
  obtain hs streaming where m: "captureResponseMeta (ex_resp ex) = (hs, streaming)" by fastforce
  let ?r = "\<lparr>rs_status = lr_status (ex_resp ex), rs_headers = hs, rs_streaming = streaming, rs_body = None,
      rs_error = [], rs_timing = []\<rparr>"
  let ?it = "\<lparr>it_kind = ''http'', it_request = stored_request (lb_go lb) (ca_match c) (ex_req ex) (ex_body ex),
      it_response = ?r\<rparr>"
  let ?gz = "isGzip (lr_header (ex_resp ex))" and ?n = "length (wf_its (ca_file c))"
  show ?thesis
  proof (cases streaming)
    case False
    then show ?thesis
      using m assms
      by (cases "readDecoded (lb_go lb) (lr_body (ex_resp ex)) (lr_fails (ex_resp ex)) ?gz")
        (simp_all add: record_exchange_def RoundTrip_def bufferRequestBody_def record_http_def Let_def
          appendInteraction_def setResponseBody_def update_response_last stored_it_def stored_response_def)
  next
    case True
    let ?s = "capture_reads (ex_reads ex) (newStreamCapture (op_capture (ca_opts c)) ?n ?gz)"
    have s: "sc_idx ?s = ?n" "\<not> sc_done ?s"
      using capture_reads_fixed [of "ex_reads ex"] by (simp_all add: newStreamCapture_def)
    obtain body timing err where r: "capture_result (gl_gunzip (lb_go lb)) ?s = (body, timing, err)"
      by (metis prod_cases3)
    have 1: "record_exchange lb c ex = snd (finalize (lb_go lb) ?s (append_it ?it c))"
      using m assms True
      by (simp add: record_exchange_def RoundTrip_def bufferRequestBody_def record_http_def Let_def
          appendInteraction_def)
    have 2: "stored_response lb c ex =
        (let r = ?r\<lparr>rs_body := NewBody body\<rparr>;
             r = (if op_capture (ca_opts c) \<and> timing \<noteq> [] then r\<lparr>rs_timing := timing\<rparr> else r)
         in if err \<noteq> [] then r\<lparr>rs_error := err\<rparr> else r)"
      using m True r capture_result_idx [of "gl_gunzip (lb_go lb)" "ex_reads ex" "op_capture (ca_opts c)" 0 ?gz ?n]
      by (simp add: stored_response_def Let_def)
    show ?thesis
      unfolding 1 stored_it_def 2
      using s r by (simp add: finalize_def Let_def setStreamCapture_def setStreamError_def update_response_last)
  qed
qed

lemma stored_it_cong:
  assumes "ca_match c' = ca_match c" "ca_opts c' = ca_opts c"
  shows "stored_it lb c' ex = stored_it lb c ex"
  unfolding stored_it_def stored_response_def assms ..

lemma record_run_appends:
  assumes "ca_mode c = ModeRecord"
  shows "record_run lb c exs = c\<lparr>ca_file := (ca_file c)\<lparr>wf_its := wf_its (ca_file c) @ map (stored_it lb c) exs\<rparr>\<rparr>"
proof (induction exs rule: rev_induct)
  case (snoc ex exs)
  let ?c = "c\<lparr>ca_file := (ca_file c)\<lparr>wf_its := wf_its (ca_file c) @ map (stored_it lb c) exs\<rparr>\<rparr>"
  have "stored_it lb ?c ex = stored_it lb c ex" by (rule stored_it_cong) simp_all
  moreover have "record_run lb c (exs @ [ex]) = record_exchange lb (record_run lb c exs) ex"
    by (simp add: record_run_def)
  ultimately show ?case
    unfolding snoc using assms by (simp add: record_exchange_appends)
qed (simp add: record_run_def)


section \<open>Lemmas: replaying\<close>

text \<open>The key the lookup computes for a live request; empty where no key can be computed.\<close>

definition live_key :: "golib \<Rightarrow> match_config \<Rightarrow> http_request \<Rightarrow> bytes \<Rightarrow> string" where
  "live_key gl cfg req body =
     (case FromRequest gl req body of
        Inl _ \<Rightarrow> [] | Inr inp \<Rightarrow> (case Key gl inp cfg of Inl _ \<Rightarrow> [] | Inr key \<Rightarrow> key))"

definition keyable :: "golib \<Rightarrow> match_config \<Rightarrow> http_request \<Rightarrow> bytes \<Rightarrow> bool" where
  "keyable gl cfg req body =
     (\<exists>inp key. FromRequest gl req body = Inr inp \<and> Key gl inp cfg = Inr key \<and> key \<noteq> [])"

lemma live_key_ne: "keyable gl cfg req body \<Longrightarrow> live_key gl cfg req body \<noteq> []"
  by (auto simp: keyable_def live_key_def)

interpretation http_recording: record_replay "\<lambda>(req, body). live_key gl cfg req body"
  "\<lambda>r. Some (rq_match_key r)" "\<lambda>(req, body). stored_request gl cfg req body"
  for gl cfg
  by unfold_locales (auto simp: stored_request_def live_key_def split: sum.split)

lemma replay_one:
  assumes "keyable (lb_go lb) (ca_match c) req body" "op_faults (ca_opts c) = []"
    and "ca_mode c = ModeReplay"
  shows "RoundTrip lb c cancelled req (BodyBytes body) up =
    (if cancelled then (c, Inl CCancelled)
     else let (cur, idx) = nextIndexLocked (op_exhaust (ca_opts c)) (ca_keys c) (ca_cursor c)
                (live_key (lb_go lb) (ca_match c) req body) in
       case idx of
         None \<Rightarrow> (c\<lparr>ca_cursor := cur\<rparr>, Inl (CNoMatch (hr_method req) (hr_path req)))
       | Some i \<Rightarrow> (c\<lparr>ca_cursor := cur, ca_consumed := insert i (ca_consumed c)\<rparr>,
                   Inr (synthesize (ca_opts c) (it_response (wf_its (ca_file c) ! i)))))"
proof -
  obtain inp key where k: "FromRequest (lb_go lb) req body = Inr inp" "Key (lb_go lb) inp (ca_match c) = Inr key"
    using assms(1) by (auto simp: keyable_def)
  then have "live_key (lb_go lb) (ca_match c) req body = key" by (simp add: live_key_def)
  then show ?thesis
    using assms(2,3) matchResponse_key [OF k assms(2)]
    by (auto simp: RoundTrip_def bufferRequestBody_def replay_def matchResponse_def Let_def
        split: prod.split option.split)
qed

text \<open>What a replayed run returns, from the indices the store serves.\<close>

definition served :: "cassette \<Rightarrow> exchange \<Rightarrow> nat option \<Rightarrow> cas_error + http_out" where
  "served c ex idx =
     (case idx of
        None \<Rightarrow> Inl (CNoMatch (hr_method (ex_req ex)) (hr_path (ex_req ex)))
      | Some i \<Rightarrow> Inr (synthesize (ca_opts c) (it_response (wf_its (ca_file c) ! i))))"

lemma replay_run_serve:
  assumes "\<forall>ex \<in> set exs. keyable (lb_go lb) (ca_match c) (ex_req ex) (ex_body ex)"
    and "op_faults (ca_opts c) = []" "ca_mode c = ModeReplay"
    and "idxs = serve (op_exhaust (ca_opts c)) (ca_keys c) (ca_cursor c)
      (map (\<lambda>ex. live_key (lb_go lb) (ca_match c) (ex_req ex) (ex_body ex)) exs)"
  shows "\<exists>cur. replay_run lb c exs =
    (map2 (served c) exs idxs, c\<lparr>ca_cursor := cur, ca_consumed := ca_consumed c \<union> {i. Some i \<in> set idxs}\<rparr>)"
  using assms
proof (induction exs arbitrary: c idxs)
  case Nil
  have "c = c\<lparr>ca_cursor := ca_cursor c, ca_consumed := ca_consumed c \<union> {}\<rparr>" by simp
  then show ?case using Nil by (intro exI [of _ "ca_cursor c"]) simp
next
  case (Cons ex exs)
  let ?k = "live_key (lb_go lb) (ca_match c) (ex_req ex) (ex_body ex)"
  obtain cur idx where n: "nextIndexLocked (op_exhaust (ca_opts c)) (ca_keys c) (ca_cursor c) ?k = (cur, idx)"
    by fastforce
  let ?c = "c\<lparr>ca_cursor := cur, ca_consumed := ca_consumed c \<union> (case idx of None \<Rightarrow> {} | Some i \<Rightarrow> {i})\<rparr>"
  let ?idxs = "serve (op_exhaust (ca_opts ?c)) (ca_keys ?c) (ca_cursor ?c)
      (map (\<lambda>ex. live_key (lb_go lb) (ca_match ?c) (ex_req ex) (ex_body ex)) exs)"
  have rt: "RoundTrip lb c False (ex_req ex) (BodyBytes (ex_body ex)) None = (?c, served c ex idx)"
    using replay_one [of lb c "ex_req ex" "ex_body ex" False None] Cons.prems n
    by (auto simp: served_def split: option.split)
  have idxs: "idxs = idx # ?idxs" using Cons.prems(4) n by simp
  have "served ?c = served c" by (intro ext) (simp add: served_def split: option.split)
  then have s: "map2 (served ?c) exs ?idxs = map2 (served c) exs ?idxs" by (rule arg_cong)
  have "\<exists>cur'. replay_run lb ?c exs =
      (map2 (served ?c) exs ?idxs, ?c\<lparr>ca_cursor := cur', ca_consumed := ca_consumed ?c \<union> {i. Some i \<in> set ?idxs}\<rparr>)"
    by (rule Cons.IH) (use Cons.prems in simp_all)
  then obtain cur' where r: "replay_run lb ?c exs =
      (map2 (served c) exs ?idxs, ?c\<lparr>ca_cursor := cur', ca_consumed := ca_consumed ?c \<union> {i. Some i \<in> set ?idxs}\<rparr>)"
    unfolding s by blast
  have "ca_consumed ?c \<union> {i. Some i \<in> set ?idxs} = ca_consumed c \<union> {i. Some i \<in> set idxs}"
    unfolding idxs by (cases idx) auto
  then have "replay_run lb c (ex # exs) =
      (map2 (served c) (ex # exs) idxs, c\<lparr>ca_cursor := cur', ca_consumed := ca_consumed c \<union> {i. Some i \<in> set idxs}\<rparr>)"
    using rt r idxs by (simp add: Let_def)
  then show ?case by blast
qed

section \<open>Record, save, replay\<close>

lemma scrub_it_key [simp]: "rq_match_key (it_request (scrub_it jl sc it)) = rq_match_key (it_request it)"
  "it_kind (scrub_it jl sc it) = it_kind it"
  by (simp_all add: scrub_it_def Let_def)

lemma stored_it_key [simp]:
  "rq_match_key (it_request (stored_it lb c ex)) = live_key (lb_go lb) (ca_match c) (ex_req ex) (ex_body ex)"
  by (simp add: stored_it_def stored_request_def live_key_def)

lemma Open_record:
  assumes "op_mode opts = ModeRecord"
  shows "Open lb files path opts =
    Inr (newCassette path ModeRecord opts\<lparr>ca_file := empty_file\<lparr>wf_schema := SchemaVersion, wf_notice := op_notice opts\<rparr>\<rparr>)"
  using assms by (simp add: Open_def newCassette_def Let_def)

lemma Open_replay:
  assumes "op_mode opts = ModeUnset \<or> op_mode opts = ModeReplay \<or> op_mode opts = ModeAuto"
    and "mget files path = Some data" "Load (lb_ydec lb) files path = Inr f"
  shows "Open lb files path opts =
    index lb (applyFileMatch (newCassette path ModeReplay opts\<lparr>ca_file := f\<rparr>))"
  using assms by (auto simp: Open_def newCassette_def Let_def)

lemma replay_all_served:
  assumes "\<forall>ex \<in> set exs. keyable (lb_go lb) (ca_match c) (ex_req ex) (ex_body ex)"
    and "op_faults (ca_opts c) = []" "ca_mode c = ModeReplay" "ca_cursor c = []"
    and "wf_its (ca_file c) = map store exs"
    and "\<And>ex. rq_match_key (it_request (store ex)) = live_key (lb_go lb) (ca_match c) (ex_req ex) (ex_body ex)"
    and "ca_keys c = index_from 0 (map (\<lambda>it. Some (rq_match_key (it_request it))) (wf_its (ca_file c))) []"
  shows "\<exists>cur. replay_run lb c exs = (map (\<lambda>ex. Inr (synthesize (ca_opts c) (it_response (store ex)))) exs,
    c\<lparr>ca_cursor := cur, ca_consumed := ca_consumed c \<union> {..< length exs}\<rparr>)"
proof -
  let ?live = "\<lambda>ex. live_key (lb_go lb) (ca_match c) (ex_req ex) (ex_body ex)"
  have "ca_keys c = index_from 0 (map Some (map ?live exs)) []"
    using assms(5,6,7) by (simp add: comp_def)
  then have i: "map Some [0 ..< length exs] = serve (op_exhaust (ca_opts c)) (ca_keys c) (ca_cursor c) (map ?live exs)"
    using http_recording.replay_in_order [of "op_exhaust (ca_opts c)" "lb_go lb" "ca_match c" "map (\<lambda>ex. (ex_req ex, ex_body ex)) exs"]
    by (simp add: assms(4) comp_def serve_same_order del: map_map)
  obtain cur where "replay_run lb c exs = (map2 (served c) exs (map Some [0 ..< length exs]),
      c\<lparr>ca_cursor := cur, ca_consumed := ca_consumed c \<union> {j. Some j \<in> set (map Some [0 ..< length exs])}\<rparr>)"
    using replay_run_serve [OF assms(1-3) i] by blast
  moreover have "map2 (served c) exs (map Some [0 ..< length exs]) =
      map (\<lambda>ex. Inr (synthesize (ca_opts c) (it_response (store ex)))) exs"
    by (rule nth_equalityI) (simp_all add: served_def assms(5))
  moreover have "{j. Some j \<in> set (map Some [0 ..< length exs])} = {..< length exs}" by auto
  ultimately show ?thesis by auto
qed



definition one_exchange :: exchange where
  "one_exchange = \<lparr>ex_req = \<lparr>hr_method = ''GET'', hr_path = ''/p'', hr_header = None\<rparr>, ex_body = ''x'',
     ex_resp = \<lparr>lr_status = 201, lr_header = None, lr_body = ''hi'', lr_fails = False, lr_length = 2\<rparr>, ex_reads = []\<rparr>"

definition one_recorder :: cassette where
  "one_recorder = newCassette ''c'' ModeRecord toy_options
     \<lparr>ca_file := empty_file\<lparr>wf_schema := SchemaVersion, wf_notice := ''n''\<rparr>\<rparr>"

text \<open>A yaml library that knows one file, the scrubbed recording of \<open>one_exchange\<close>.\<close>

definition one_file :: wfile where
  "one_file = scrub_File (lb_json toy_libs) scrub_DefaultConfig
     (empty_file\<lparr>wf_schema := SchemaVersion, wf_notice := ''n'', wf_its := [stored_it toy_libs one_recorder one_exchange]\<rparr>)"

definition one_libs :: libs where
  "one_libs = toy_libs\<lparr>lb_yenc := (\<lambda>g. if g = one_file then Some ''f'' else None), lb_ydec := (\<lambda>_. Some one_file)\<rparr>"

lemma one_keyable: "keyable (lb_go one_libs) zero_config (ex_req one_exchange) (ex_body one_exchange)"
  by (simp add: keyable_def one_exchange_def FromRequest_def DecodeBody_def Key_def zero_config_def
      bodyDigest_opaque str_contains_def to_lower_def)


section \<open>Further guarantees\<close>

text \<open>
  C6. Replay never reaches upstream: in replay mode the result and the new state do not depend on
  what the next transport would answer, nothing is dialled and the recording is not changed.
\<close>

theorem replay_is_offline:
  assumes "ca_mode c = ModeReplay"
  shows "RoundTrip lb c cancelled req rb up = RoundTrip lb c cancelled req rb up' \<and>
    ca_dials (fst (RoundTrip lb c cancelled req rb up)) = ca_dials c \<and>
    ca_file (fst (RoundTrip lb c cancelled req rb up)) = ca_file c \<and>
    Transport_next c b l = HopBlocking"
proof -
  have "ca_dials (fst (replay lb c cancelled req body)) = ca_dials c \<and>
      ca_file (fst (replay lb c cancelled req body)) = ca_file c" for body
  proof -
    obtain c' r where m: "matchResponse lb c cancelled req body = (c', r)" by fastforce
    have f: "ca_dials c' = ca_dials c" "ca_file c' = ca_file c"
      by (subst conjunct1 [OF matchResponse_frame [OF m]], simp)+
    show ?thesis using m f by (auto simp: replay_def split: sum.split option.split)
  qed
  then show ?thesis
    using assms by (simp add: RoundTrip_def Transport_next_def split: option.split)
qed

lemma replay_is_offline_witness:
  "Transport_next (toy_cassette\<lparr>ca_mode := ModeReplay\<rparr>) True True = HopBlocking"
  using replay_is_offline [of "toy_cassette\<lparr>ca_mode := ModeReplay\<rparr>"] by simp

text \<open>
  Asking once more than was recorded, under the default policy, is reported as a missing match:
  the error is the one of an unknown request, not the documented error for an exhausted key.
\<close>

theorem exhausted_is_no_match:
  assumes "keyable (lb_go lb) (ca_match c) req body" "op_faults (ca_opts c) = []" "ca_mode c = ModeReplay"
    and "op_exhaust (ca_opts c) = ExhaustError"
    and "length (mget0 [] (ca_keys c) (live_key (lb_go lb) (ca_match c) req body)) \<le>
         mget0 0 (ca_cursor c) (live_key (lb_go lb) (ca_match c) req body)"
  shows "snd (RoundTrip lb c False req (BodyBytes body) up) = Inl (CNoMatch (hr_method req) (hr_path req))"
  using assms(4,5) unfolding replay_one [OF assms(1-3)]
  by (auto simp: nextIndexLocked_def Let_def)

lemma exhausted_is_no_match_witness:
  "snd (RoundTrip one_libs (one_recorder\<lparr>ca_mode := ModeReplay\<rparr>) False (ex_req one_exchange)
     (BodyBytes (ex_body one_exchange)) None) = Inl (CNoMatch ''GET'' ''/p'')"
proof -
  have "keyable (lb_go one_libs) (ca_match (one_recorder\<lparr>ca_mode := ModeReplay\<rparr>)) (ex_req one_exchange) (ex_body one_exchange)"
    using one_keyable by (simp add: one_recorder_def newCassette_def toy_options_def)
  from exhausted_is_no_match [OF this] show ?thesis
    by (simp add: one_recorder_def newCassette_def toy_options_def one_exchange_def)
qed

text \<open>
  A response body that cannot be read makes the recorder return an error, yet the interaction stays
  in the cassette without a body, and replay serves it as a complete, empty response.
\<close>

theorem failed_read_stays_recorded:
  assumes "ca_mode c = ModeRecord" "lr_fails resp"
    and "\<not> str_contains (to_lower (hdr_get (lr_header resp) ''Content-Type'')) ''text/event-stream''"
    and "RoundTrip lb c cancelled req (BodyBytes body) (Some resp) = (c', r)"
  shows "r = Inl CResponseBody \<and> length (wf_its (ca_file c')) = Suc (length (wf_its (ca_file c))) \<and>
    ho_body (synthesize opts (it_response (last (wf_its (ca_file c'))))) = RBytes []"
  using assms
  by (auto simp: RoundTrip_def bufferRequestBody_def record_http_def captureResponseMeta_def readDecoded_def
      appendInteraction_def synthesize_def Let_def Bytes_def)

lemma failed_read_stays_recorded_witness:
  "snd (RoundTrip one_libs one_recorder False (ex_req one_exchange) (BodyBytes ''x'')
      (Some (ex_resp one_exchange\<lparr>lr_fails := True\<rparr>))) = Inl CResponseBody"
proof -
  let ?r = "RoundTrip one_libs one_recorder False (ex_req one_exchange) (BodyBytes ''x'') (Some (ex_resp one_exchange\<lparr>lr_fails := True\<rparr>))"
  have p: "?r = (fst ?r, snd ?r)" by simp
  show ?thesis
    using failed_read_stays_recorded [OF _ _ _ p]
    by (simp add: one_recorder_def newCassette_def one_exchange_def to_lower_def str_contains_def)
qed



end
