(* ===== verification/Mcp.thy ===== *)
theory Mcp
  imports Transport
begin

text \<open>
  mcp.go: the wrapper around an MCP client.  The result types of the MCP SDK and their JSON coding
  are parameters: \<open>mar\<close> is json.Marshal and \<open>unm\<close> json.Unmarshal of a result.
\<close>

section \<open>Arguments\<close>

text \<open>A Go value handed to marshalArgs: nil, or a value with the outcome of json.Marshal.\<close>

datatype go_arg = ArgNil | ArgValue "bytes option"

definition marshalArgs :: "go_arg \<Rightarrow> bytes" where
  "marshalArgs v = (case v of ArgNil \<Rightarrow> ''null'' | ArgValue None \<Rightarrow> ''null'' | ArgValue (Some b) \<Rightarrow> b)"

section \<open>Recording and replaying\<close>

definition mcp_request :: "string \<Rightarrow> string \<Rightarrow> bytes \<Rightarrow> string \<Rightarrow> wrequest" where
  "mcp_request meth tool reqBody key =
     \<lparr>rq_method = [], rq_url = [], rq_headers = [], rq_mcp_method = meth, rq_mcp_tool = tool,
      rq_body = NewBody reqBody, rq_body_sha = (if reqBody \<noteq> [] then Digest reqBody else []),
      rq_match_key = key\<rparr>"

definition mcp_record :: "string \<Rightarrow> string \<Rightarrow> bytes \<Rightarrow> bytes \<Rightarrow> string \<Rightarrow> cassette \<Rightarrow> cassette" where
  "mcp_record meth tool reqBody respBody key c =
     fst (appendInteraction
       \<lparr>it_kind = ''mcp'', it_request = mcp_request meth tool reqBody key,
        it_response = \<lparr>rs_status = 0, rs_headers = [], rs_streaming = False, rs_body = NewBody respBody,
                       rs_error = [], rs_timing = []\<rparr>\<rparr> c)"

definition mcp_replay :: "cassette \<Rightarrow> bool \<Rightarrow> string \<Rightarrow> cassette \<times> (cas_error + bytes)" where
  "mcp_replay c cancelled key =
     (if cancelled then (c, Inl CCancelled)
      else
        let (cur, idx) = nextIndexLocked (op_exhaust (ca_opts c)) (ca_keys c) (ca_cursor c) key;
            c = c\<lparr>ca_cursor := cur\<rparr>
        in (case idx of
              None \<Rightarrow> (c, Inl (CNoMatchMCP key))
            | Some i \<Rightarrow> (c\<lparr>ca_consumed := insert i (ca_consumed c)\<rparr>,
                        Inr (Bytes (rs_body (it_response (wf_its (ca_file c) ! i)))))))"

text \<open>\<open>real\<close> is what the wrapped session answers, None for an error.\<close>

definition CallTool :: "('r \<Rightarrow> bytes option) \<Rightarrow> (bytes \<Rightarrow> 'r option) \<Rightarrow> cassette \<Rightarrow> bool \<Rightarrow> string \<Rightarrow> go_arg \<Rightarrow>
    'r option \<Rightarrow> cassette \<times> (cas_error + 'r)" where
  "CallTool mar unm c cancelled tool args real =
     (let argsJSON = marshalArgs args; key = CallKey tool argsJSON (ca_match c) in
      if ca_mode c = ModeRecord then
        (case real of
           None \<Rightarrow> (c, Inl CUpstream)
         | Some res \<Rightarrow> (case mar res of
             None \<Rightarrow> (c, Inl CMarshal)
           | Some body \<Rightarrow> (mcp_record ''tools/call'' tool argsJSON body key c, Inr res)))
      else (case mcp_replay c cancelled key of
          (c, Inl e) \<Rightarrow> (c, Inl e)
        | (c, Inr body) \<Rightarrow> (case unm body of None \<Rightarrow> (c, Inl CUnmarshal) | Some out \<Rightarrow> (c, Inr out))))"

definition ListTools :: "('r \<Rightarrow> bytes option) \<Rightarrow> (bytes \<Rightarrow> 'r option) \<Rightarrow> cassette \<Rightarrow> bool \<Rightarrow> go_arg \<Rightarrow>
    'r option \<Rightarrow> cassette \<times> (cas_error + 'r)" where
  "ListTools mar unm c cancelled params real =
     (let paramsJSON = marshalArgs params; key = ListKey paramsJSON (ca_match c) in
      if ca_mode c = ModeRecord then
        (case real of
           None \<Rightarrow> (c, Inl CUpstream)
         | Some res \<Rightarrow> (case mar res of
             None \<Rightarrow> (c, Inl CMarshal)
           | Some body \<Rightarrow> (mcp_record ''tools/list'' [] paramsJSON body key c, Inr res)))
      else (case mcp_replay c cancelled key of
          (c, Inl e) \<Rightarrow> (c, Inl e)
        | (c, Inr body) \<Rightarrow> (case unm body of None \<Rightarrow> (c, Inl CUnmarshal) | Some out \<Rightarrow> (c, Inr out))))"

section \<open>Lemmas\<close>

text \<open>The recorder keeps the store's contract, with the persisted key and with the derived one.\<close>

interpretation mcp_recording: record_replay "\<lambda>(tool, args). CallKey tool args cfg"
  "\<lambda>r. Some (MCPKey r cfg)" "\<lambda>(tool, args). mcp_request ''tools/call'' tool args key"
  for cfg key
  by unfold_locales (auto simp: mcp_request_def MCPKey_def Bytes_def NewBody_def)

text \<open>Calls as a client makes them: tool, arguments, and what the live session answered.\<close>

definition mcp_it :: "match_config \<Rightarrow> ('r \<Rightarrow> bytes option) \<Rightarrow> string \<times> go_arg \<times> 'r \<Rightarrow> interaction" where
  "mcp_it cfg mar call =
     (case call of (tool, args, res) \<Rightarrow>
        \<lparr>it_kind = ''mcp'', it_request = mcp_request ''tools/call'' tool (marshalArgs args) (CallKey tool (marshalArgs args) cfg),
         it_response = \<lparr>rs_status = 0, rs_headers = [], rs_streaming = False, rs_body = NewBody (the (mar res)),
                        rs_error = [], rs_timing = []\<rparr>\<rparr>)"

fun call_run :: "('r \<Rightarrow> bytes option) \<Rightarrow> (bytes \<Rightarrow> 'r option) \<Rightarrow> cassette \<Rightarrow> (string \<times> go_arg \<times> 'r) list \<Rightarrow>
    (cas_error + 'r) list \<times> cassette" where
  "call_run mar unm c [] = ([], c)"
| "call_run mar unm c ((tool, args, res) # calls) =
     (let (c', r) = CallTool mar unm c False tool args (if ca_mode c = ModeRecord then Some res else None);
          (rs, c'') = call_run mar unm c' calls
      in (r # rs, c''))"

lemma call_run_record:
  assumes "ca_mode c = ModeRecord" "\<forall>(tool, args, res) \<in> set calls. mar res \<noteq> None"
  shows "call_run mar unm c calls = (map (\<lambda>(tool, args, res). Inr res) calls,
    c\<lparr>ca_file := (ca_file c)\<lparr>wf_its := wf_its (ca_file c) @ map (mcp_it (ca_match c) mar) calls\<rparr>\<rparr>)"
  using assms
proof (induction calls arbitrary: c)
  case (Cons call calls)
  obtain tool args res where call: "call = (tool, args, res)" by (cases call)
  obtain body where "mar res = Some body" using Cons.prems call by auto
  then show ?case
    using Cons.IH [of "append_it (mcp_it (ca_match c) mar call) c"] Cons.prems call
    by (simp add: CallTool_def Let_def mcp_record_def appendInteraction_def mcp_it_def)
qed simp

lemma call_run_serve:
  assumes "ca_mode c = ModeReplay" "\<And>r b. mar r = Some b \<Longrightarrow> unm b = Some r"
    and "\<forall>(tool, args, res) \<in> set calls. mar res \<noteq> None"
    and "\<forall>i < length calls. it_response (wf_its (ca_file c) ! (n + i)) = it_response (mcp_it (ca_match c) mar (calls ! i))"
    and "serve (op_exhaust (ca_opts c)) (ca_keys c) (ca_cursor c)
      (map (\<lambda>(tool, args, res). CallKey tool (marshalArgs args) (ca_match c)) calls) = map Some [n ..< n + length calls]"
  shows "\<exists>cur. call_run mar unm c calls = (map (\<lambda>(tool, args, res). Inr res) calls,
    c\<lparr>ca_cursor := cur, ca_consumed := ca_consumed c \<union> {n ..< n + length calls}\<rparr>)"
  using assms
proof (induction calls arbitrary: c n)
  case Nil
  have "c = c\<lparr>ca_cursor := ca_cursor c, ca_consumed := ca_consumed c \<union> {}\<rparr>" by simp
  then show ?case by (intro exI [of _ "ca_cursor c"]) simp
next
  case (Cons call calls)
  obtain tool args res where call: "call = (tool, args, res)" by (cases call)
  obtain body where body: "mar res = Some body" using Cons.prems(3) call by auto
  let ?k = "CallKey tool (marshalArgs args) (ca_match c)"
  have u: "[n ..< n + length (call # calls)] = n # [Suc n ..< Suc n + length calls]"
    by (simp add: upt_conv_Cons del: upt_Suc)
  obtain cur idx where nx: "nextIndexLocked (op_exhaust (ca_opts c)) (ca_keys c) (ca_cursor c) ?k = (cur, idx)"
    by fastforce
  have s: "idx = Some n" "serve (op_exhaust (ca_opts c)) (ca_keys c) cur
      (map (\<lambda>(tool, args, res). CallKey tool (marshalArgs args) (ca_match c)) calls) = map Some [Suc n ..< Suc n + length calls]"
    using Cons.prems(5) [unfolded u] nx call by (simp_all del: upt_Suc)
  let ?c = "c\<lparr>ca_cursor := cur, ca_consumed := insert n (ca_consumed c)\<rparr>"
  have "it_response (wf_its (ca_file c) ! n) = it_response (mcp_it (ca_match c) mar call)"
    using Cons.prems(4) [rule_format, of 0] by simp
  then have "Bytes (rs_body (it_response (wf_its (ca_file c) ! n))) = body"
    by (simp add: mcp_it_def call body Bytes_def NewBody_def)
  then have ct: "CallTool mar unm c False tool args None = (?c, Inr res)"
    using Cons.prems(1) Cons.prems(2) [OF body] nx s(1)
    by (simp add: CallTool_def Let_def mcp_replay_def)
  have "\<exists>cur. call_run mar unm ?c calls = (map (\<lambda>(tool, args, res). Inr res) calls,
      ?c\<lparr>ca_cursor := cur, ca_consumed := ca_consumed ?c \<union> {Suc n ..< Suc n + length calls}\<rparr>)"
  proof (rule Cons.IH)
    show "\<forall>i < length calls. it_response (wf_its (ca_file ?c) ! (Suc n + i)) = it_response (mcp_it (ca_match ?c) mar (calls ! i))"
      using Cons.prems(4) [rule_format, of "Suc i" for i] by simp
  qed (use Cons.prems(1-3) s in \<open>auto simp del: upt_Suc\<close>)
  then obtain cur' where r: "call_run mar unm ?c calls = (map (\<lambda>(tool, args, res). Inr res) calls,
      ?c\<lparr>ca_cursor := cur', ca_consumed := ca_consumed ?c \<union> {Suc n ..< Suc n + length calls}\<rparr>)" by blast
  have "insert n (ca_consumed c) \<union> {Suc n ..< Suc n + length calls} = ca_consumed c \<union> {n ..< n + length (call # calls)}"
    by auto
  then show ?case
    using ct r Cons.prems(1) by (intro exI [of _ cur']) (simp add: call Let_def)
qed



text \<open>
  Against the purpose of verification, a fault overlay that matches every request hides MCP
  interactions that were never replayed: faults are never applied to MCP calls, but the exemption is
  computed from the empty method and path of an MCP request.
\<close>

theorem fault_hides_unplayed_mcp:
  assumes "ca_mode c = ModeReplay" "ca_dials c = 0"
    and "\<forall>it \<in> set (wf_its (ca_file c)). it_kind it = ''mcp'' \<and> rq_method (it_request it) = [] \<and> rq_url (it_request it) = []"
    and "f \<in> set (op_faults (ca_opts c))" "fl_status f > 0" "fl_attempt f = 0" "fl_method f = []" "fl_path f = []"
  shows "snd (snd (VerifyError lb env files c)) = None \<and>
    fst (mcp_replay c cancelled key) = fst (mcp_replay (c\<lparr>ca_opts := (ca_opts c)\<lparr>op_faults := []\<rparr>\<rparr>) cancelled key)
      \<lparr>ca_opts := ca_opts c\<rparr>"
proof -
  have "shadowsEveryAttempt (op_faults (ca_opts c)) [] []"
    using assms(4-8) by (auto simp: shadowsEveryAttempt_def list_ex_iff synthetic_def fault_matches_def)
  then have "unconsumed c = []"
    using assms(3) by (auto simp: unconsumed_def filter_empty_conv Let_def)
  then show ?thesis
    using assms(1,2) by (simp add: VerifyError_def mcp_replay_def Let_def case_prod_beta split: option.split)
qed

definition any_fault :: fault where
  "any_fault = \<lparr>fl_method = [], fl_path = [], fl_attempt = 0, fl_status = 500, fl_retry_after = [], fl_body = [],
     fl_truncate = None, fl_drop_terminal = False\<rparr>"

lemma fault_hides_unplayed_mcp_witness:
  "snd (snd (VerifyError toy_libs working_env [] (toy_cassette\<lparr>ca_mode := ModeReplay,
      ca_opts := toy_options\<lparr>op_faults := [any_fault]\<rparr>,
      ca_file := (ca_file toy_cassette)\<lparr>wf_its := [mcp_it zero_config Some (''t'', ArgNil, ''1'')]\<rparr>\<rparr>))) = None"
  by (rule conjunct1 [OF fault_hides_unplayed_mcp [where f = any_fault]])
    (simp_all add: toy_cassette_def newCassette_def any_fault_def mcp_it_def mcp_request_def)

end
