(* ===== verification/Runes.thy ===== *)
theory Runes
  imports Json
begin

text \<open>Go's range over a string: the runes with the bytes they were decoded from, and strconv.Quote.\<close>

fun rune_val :: "string \<Rightarrow> nat" where
  "rune_val [a] = byte_of a"
| "rune_val [a, b] = (byte_of a - 192) * 64 + (byte_of b - 128)"
| "rune_val [a, b, c] = (byte_of a - 224) * 4096 + (byte_of b - 128) * 64 + (byte_of c - 128)"
| "rune_val [a, b, c, d] =
     (byte_of a - 240) * 262144 + (byte_of b - 128) * 4096 + (byte_of c - 128) * 64 + (byte_of d - 128)"
| "rune_val _ = 65533"

text \<open>Each rune with its bytes; a byte that starts no valid sequence is RuneError, width 1.\<close>

function runes_of :: "string \<Rightarrow> (nat \<times> string) list" where
  "runes_of [] = []"
| "runes_of (c # s) =
     (let n = rune_len (c # s) in
      if n = 0 then (65533, [c]) # runes_of s
      else (rune_val (take n (c # s)), take n (c # s)) # runes_of (drop (n - 1) s))"
  by pat_completeness auto
termination
  by (relation "measure length") auto

text \<open>The same equations in a form that evaluates the width of a rune before anything else.\<close>

lemma runes_of_code [code]:
  "runes_of [] = []"
  "runes_of (c # s) = (case rune_len (c # s) of
      0 \<Rightarrow> (65533, [c]) # runes_of s
    | Suc k \<Rightarrow> (rune_val (c # take k s), c # take k s) # runes_of (drop k s))"
  by (auto simp: Let_def split: nat.split)

lemma runes_of_bytes: "concat (map snd (runes_of s)) = s"
proof (induction s rule: runes_of.induct)
  case (2 c s)
  show ?case
  proof (cases "rune_len (c # s)")
    case 0
    then show ?thesis using 2(1) by (simp add: Let_def)
  next
    case (Suc k)
    have "take (Suc k) (c # s) @ drop k s = c # s" by simp
    then show ?thesis using 2(2) Suc by (simp add: Let_def)
  qed
qed simp

section \<open>strconv.Quote\<close>

definition hex_digit :: "nat \<Rightarrow> char" where
  "hex_digit n = (if n < 10 then char_of (48 + n) else char_of (87 + n))"

definition hex_pad :: "nat \<Rightarrow> nat \<Rightarrow> string" where
  "hex_pad w n = map (\<lambda>i. hex_digit (n div 16 ^ (w - 1 - i) mod 16)) [0 ..< w]"

text \<open>\<open>printable\<close> is strconv.IsPrint above ASCII.\<close>

definition quote_rune :: "(nat \<Rightarrow> bool) \<Rightarrow> nat \<times> string \<Rightarrow> string" where
  "quote_rune printable rb =
     (let (r, b) = rb; bs = CHR 0x5C in
      if r = 65533 \<and> length b = 1 then bs # ''x'' @ hex_pad 2 (byte_of (hd b))
      else if r = 34 \<or> r = 92 then bs # b
      else if (if r < 128 then 32 \<le> r \<and> r < 127 else printable r) then b
      else if r = 7 then bs # ''a''
      else if r = 8 then bs # ''b''
      else if r = 12 then bs # ''f''
      else if r = 10 then bs # ''n''
      else if r = 13 then bs # ''r''
      else if r = 9 then bs # ''t''
      else if r = 11 then bs # ''v''
      else if r < 32 \<or> r = 127 then bs # ''x'' @ hex_pad 2 r
      else if r < 65536 then bs # ''u'' @ hex_pad 4 r
      else bs # ''U'' @ hex_pad 8 r)"

definition go_quote :: "(nat \<Rightarrow> bool) \<Rightarrow> string \<Rightarrow> string" where
  "go_quote printable s = CHR 0x22 # concat (map (quote_rune printable) (runes_of s)) @ [CHR 0x22]"


lemma runes_of_ascii: "list_all (\<lambda>c. byte_of c < (128::nat)) s \<Longrightarrow> runes_of s = map (\<lambda>c. (byte_of c, [c])) s"
  by (induction s) (auto simp: rune_len_ascii Let_def)

text \<open>Plain ASCII text is quoted as it stands.\<close>

definition quote_plain :: "char \<Rightarrow> bool" where
  "quote_plain c = (32 \<le> byte_of c \<and> byte_of c < (127::nat) \<and> byte_of c \<noteq> (34::nat) \<and> byte_of c \<noteq> (92::nat))"

lemma quote_rune_plain: "quote_plain c \<Longrightarrow> quote_rune p (byte_of c, [c]) = [c]"
  by (auto simp: quote_rune_def quote_plain_def Let_def)

lemma quote_plain_map:
  "list_all quote_plain s \<Longrightarrow> concat (map (quote_rune p) (map (\<lambda>c. (byte_of c, [c])) s)) = s"
  by (induction s) (auto simp: quote_rune_plain)

lemma quote_plain_ascii: "list_all quote_plain s \<Longrightarrow> list_all (\<lambda>c. byte_of c < (128::nat)) s"
  by (auto simp: list_all_iff quote_plain_def)

lemma go_quote_plain_then:
  assumes "list_all quote_plain s" "byte_of c < (128::nat)"
  shows "go_quote p (s @ [c]) = CHR 0x22 # s @ quote_rune p (byte_of c, [c]) @ [CHR 0x22]"
proof -
  have "runes_of (s @ [c]) = map (\<lambda>c. (byte_of c, [c])) (s @ [c])"
    using assms quote_plain_ascii by (intro runes_of_ascii) auto
  then show ?thesis using quote_plain_map [OF assms(1), of p] by (simp add: go_quote_def)
qed

section \<open>strings.TrimSpace and bytes.TrimSpace\<close>

text \<open>unicode.IsSpace.\<close>

definition rune_space :: "nat \<Rightarrow> bool" where
  "rune_space r =
     (if r < 256 then (9 \<le> r \<and> r \<le> 13) \<or> r = 32 \<or> r = 133 \<or> r = 160
      else r = 5760 \<or> (8192 \<le> r \<and> r \<le> 8202) \<or> r = 8232 \<or> r = 8233 \<or> r = 8239 \<or> r = 8287 \<or> r = 12288)"

definition TrimSpace :: "string \<Rightarrow> string" where
  "TrimSpace s = (let sp = (\<lambda>rb. rune_space (fst rb)) in
     concat (map snd (rev (dropWhile sp (rev (dropWhile sp (runes_of s)))))))"

lemma rune_lead_low: "rune_lead c = (n, lo, hi) \<Longrightarrow> 1 < n \<Longrightarrow> 128 \<le> lo"
  by (auto simp: rune_lead_def lead_info_def split: if_splits)

lemma rune_len_ascii_after:
  assumes "byte_of c < (128::nat)" "rune_len (x # s) = 0"
  shows "rune_len (x # s @ c # t) = 0"
proof -
  obtain n lo hi where l: "rune_lead x = (n, lo, hi)" by (cases "rune_lead x")
  show ?thesis
  proof (cases "n - 1 \<le> length s")
    case True
    then have "take (n - 1) (s @ c # t) = take (n - 1) s" by simp
    then show ?thesis using assms l by (simp add: rune_len.simps(2))
  next
    case False
    then obtain k where k: "n - 1 - length s = Suc k" by (cases "n - 1 - length s") auto
    have lo: "128 \<le> lo" using l False rune_lead_low by (metis diff_is_0_eq' le0 not_le)
    have "\<not> rune_tail (n - 1) lo hi (take (n - 1) (s @ c # t))"
    proof
      assume "rune_tail (n - 1) lo hi (take (n - 1) (s @ c # t))"
      then have "rune_tail (n - 1) lo hi (s @ c # take k t)" using False k by simp
      then show False using lo assms(1)
        by (cases s) (auto simp: rune_tail_def in_bytes_def cont_byte_def)
    qed
    then show ?thesis using l by (simp add: rune_len.simps(2))
  qed
qed

lemma runes_of_snoc_ascii:
  "byte_of c < (128::nat) \<Longrightarrow> runes_of (s @ [c]) = runes_of s @ [(byte_of c, [c])]"
proof (induction s rule: runes_of.induct)
  case 1
  then show ?case by (simp add: rune_len_ascii Let_def)
next
  case (2 x s)
  show ?case
  proof (cases "rune_len (x # s)")
    case 0
    then show ?thesis using 2 rune_len_ascii_after [of c x s "[]"] by (simp add: Let_def)
  next
    case (Suc k)
    then have "rune_len (x # s @ [c]) = Suc k" "k \<le> length s"
      using rune_len_append [of "x # s" "[c]"] rune_len_le [of "x # s"] by auto
    then show ?thesis using 2 Suc by (simp add: Let_def)
  qed
qed

lemma TrimSpace_line:
  assumes "s \<noteq> []" "\<forall>c \<in> {hd s, last s}. 33 \<le> byte_of c \<and> byte_of c < (127::nat)"
  shows "TrimSpace (s @ [CHR 0x0A]) = s" and "TrimSpace s = s"
proof -
  obtain x s' where x: "s = x # s'" using assms(1) by (cases s) auto
  have h: "\<exists>rs. runes_of s = (byte_of x, [x]) # rs"
    using assms x by (simp add: rune_len_ascii Let_def)
  have l: "\<exists>rs. runes_of s = rs @ [(byte_of (last s), [last s])]"
    using assms runes_of_snoc_ascii [of "last s" "butlast s"] by auto
  have sp: "\<not> rune_space (byte_of x)" "\<not> rune_space (byte_of (last s))"
    using assms x by (auto simp: rune_space_def)
  have n: "runes_of (s @ [CHR 0x0A]) = runes_of s @ [(10, [CHR 0x0A])]"
    using runes_of_snoc_ascii [of "CHR 0x0A" s] by simp
  have 10: "rune_space 10" by (simp add: rune_space_def)
  have c: "concat (map snd (runes_of s)) = s" by (rule runes_of_bytes)
  from h l obtain rs rs' where r: "runes_of s = (byte_of x, [x]) # rs"
    "runes_of s = rs' @ [(byte_of (last s), [last s])]" by auto
  have d: "dropWhile (\<lambda>rb. rune_space (fst rb)) (runes_of s @ z) = runes_of s @ z" for z
    by (subst (1 2) r(1)) (simp add: sp)
  have e: "dropWhile (\<lambda>rb. rune_space (fst rb)) (rev (runes_of s)) = rev (runes_of s)"
    by (subst (1 2) r(2)) (simp add: sp)
  show "TrimSpace (s @ [CHR 0x0A]) = s" using d [of "[(10, [CHR 0x0A])]"] e 10 c
    by (simp add: TrimSpace_def n)
  show "TrimSpace s = s" using d [of "[]"] e c by (simp add: TrimSpace_def)
qed

end
