(* ===== verification/Serve.thy ===== *)
theory Serve
  imports Transport Runes
begin

text \<open>
  serve.go: the HTTP handler over a cassette, and canary.go: the search of the recorded requests for
  planted tokens.  A response writer is the record of what was written to it.
\<close>

section \<open>The response writer\<close>

record writer =
  rw_header :: http_header
  rw_status :: "int option"
  rw_chunks :: "bytes list"

text \<open>What interrupts a stream: the frame before which the sleep or the context fails, or whose write fails.\<close>

record serve_env =
  sv_stop :: "nat option"
  sv_write_fails :: "nat option"

definition new_writer :: writer where
  "new_writer = \<lparr>rw_header = [], rw_status = None, rw_chunks = []\<rparr>"

definition add_all :: "string \<Rightarrow> string list \<Rightarrow> http_header \<Rightarrow> http_header" where
  "add_all name vals h = foldl (\<lambda>h v. header_add name v h) h vals"

fun write_headers :: "(string \<times> string list) list \<Rightarrow> http_header \<Rightarrow> http_header" where
  "write_headers [] h = h"
| "write_headers ((name, vals) # rest) h =
     (if CanonicalHeaderKey name = ''Content-Encoding'' \<or> CanonicalHeaderKey name = ''Content-Length''
      then write_headers rest h
      else write_headers rest (add_all name vals h))"

text \<open>The frame loop: frames in order until something stops it.\<close>

fun write_frames :: "serve_env \<Rightarrow> nat \<Rightarrow> bytes list \<Rightarrow> bytes list" where
  "write_frames env i [] = []"
| "write_frames env i (f # frames) =
     (if sv_stop env = Some i \<or> sv_write_fails env = Some i then []
      else f # write_frames env (Suc i) frames)"

text \<open>The sleeps the loop asks for, one per delivered frame that has a recorded delay.\<close>

fun frame_sleeps :: "bool \<Rightarrow> serve_env \<Rightarrow> nat \<Rightarrow> bytes list \<Rightarrow> int list \<Rightarrow> int list" where
  "frame_sleeps pace env i [] delays = []"
| "frame_sleeps pace env i (f # frames) delays =
     (if pace \<and> i < length delays then [delays ! i * 1000000] else []) @
     (if sv_stop env = Some i \<or> sv_write_fails env = Some i then []
      else frame_sleeps pace env (Suc i) frames delays)"

definition writeStored :: "serve_env \<Rightarrow> writer \<Rightarrow> wresponse \<Rightarrow> writer" where
  "writeStored env w stored =
     (let h = write_headers (ToHTTP (rs_headers stored)) (rw_header w);
          status = (if rs_status stored = 0 then 200 else rs_status stored);
          body = Bytes (rs_body stored)
      in if \<not> rs_streaming stored then \<lparr>rw_header = h, rw_status = Some status, rw_chunks = rw_chunks w @ [body]\<rparr>
         else
           let h = (if header_get h ''Content-Type'' = [] then header_set ''Content-Type'' ''text/event-stream'' h else h)
           in \<lparr>rw_header = h, rw_status = Some status,
               rw_chunks = rw_chunks w @ write_frames env 0 (splitSSEFrames body)\<rparr>)"

text \<open>
  The handler.  \<open>on_miss\<close> is the optional hook, \<open>err_text\<close> the text of an error, \<open>isprint\<close> the
  Unicode table behind the verb %q.
\<close>

definition miss_body :: "(nat \<Rightarrow> bool) \<Rightarrow> string \<Rightarrow> string \<Rightarrow> bytes" where
  "miss_body isprint meth path =
     ''{'' @ quote_json ''error'' @ '':{'' @ quote_json ''type'' @ '':'' @ quote_json ''cassette_miss'' @ '','' @
     quote_json ''message'' @ '':'' @
     go_quote isprint (''no recorded interaction matches '' @ meth @ '' '' @ path) @ ''}}'' @ [newline]"

definition Handler :: "libs \<Rightarrow> (writer \<Rightarrow> writer) option \<Rightarrow> (cas_error \<Rightarrow> string) \<Rightarrow> (nat \<Rightarrow> bool) \<Rightarrow> serve_env \<Rightarrow>
    cassette \<Rightarrow> bool \<Rightarrow> http_request \<Rightarrow> bytes \<Rightarrow> cassette \<times> writer" where
  "Handler lb on_miss err_text isprint env c cancelled req body =
     (case matchResponse lb c cancelled req body of
        (c, Inl e) \<Rightarrow>
          (c, \<lparr>rw_header = header_set ''X-Content-Type-Options'' ''nosniff''
                 (header_set ''Content-Type'' ''text/plain; charset=utf-8'' []),
               rw_status = Some 502, rw_chunks = [''cassette: '' @ err_text e @ [newline]]\<rparr>)
      | (c, Inr None) \<Rightarrow>
          (case on_miss of
             Some f \<Rightarrow> (c, f new_writer)
           | None \<Rightarrow>
               (c, \<lparr>rw_header = header_set ''Content-Type'' ''application/json'' [], rw_status = Some 404,
                    rw_chunks = [miss_body isprint (hr_method req) (hr_path req)]\<rparr>))
      | (c, Inr (Some stored)) \<Rightarrow> (c, writeStored env new_writer stored))"

section \<open>Canary hits\<close>

definition request_meta :: "wrequest \<Rightarrow> string" where
  "request_meta rq =
     rq_url rq @ [newline] @
     concat (map (\<lambda>f. hf_name f @ [newline] @ concat (map (\<lambda>v. v @ [newline]) (hf_values f))) (rq_headers rq))"

definition canary_in :: "wrequest \<Rightarrow> string \<Rightarrow> bool" where
  "canary_in rq can =
     (can \<noteq> [] \<and> (str_contains (Bytes (rq_body rq)) can \<or> str_contains (request_meta rq) can))"

fun canary_loop :: "nat \<Rightarrow> interaction list \<Rightarrow> string list \<Rightarrow> (string \<times> nat list) list \<Rightarrow> (string \<times> nat list) list" where
  "canary_loop i [] cans hits = hits"
| "canary_loop i (it # its) cans hits =
     canary_loop (Suc i) its cans
       (foldl (\<lambda>hits can. if canary_in (it_request it) can then mput can (mget0 [] hits can @ [i]) hits else hits)
          hits cans)"

definition CanaryHits :: "cassette \<Rightarrow> string list \<Rightarrow> (string \<times> nat list) list" where
  "CanaryHits c cans = canary_loop 0 (wf_its (ca_file c)) cans []"

section \<open>Lemmas\<close>

lemma write_frames_all: "sv_stop env = None \<Longrightarrow> sv_write_fails env = None \<Longrightarrow> write_frames env i frames = frames"
  by (induction env i frames rule: write_frames.induct) auto

lemma write_frames_prefix: "prefix (write_frames env i frames) frames"
  by (induction env i frames rule: write_frames.induct) auto

lemma concat_prefix: "prefix xs ys \<Longrightarrow> prefix (concat xs) (concat ys)"
  by (auto simp: prefix_def)

text \<open>The bytes a client of the transport reads from a synthesized response.\<close>

definition reader_bytes :: "body_reader \<Rightarrow> bytes" where
  "reader_bytes r = (case r of RBytes b \<Rightarrow> b | RPaced p \<Rightarrow> pr_left p | RCapture s \<Rightarrow> [])"

lemma synthesize_bytes: "reader_bytes (ho_body (synthesize opts stored)) = Bytes (rs_body stored)"
  by (simp add: synthesize_def Let_def reader_bytes_def pr_left_def splitSSEFrames_concat_aux)

text \<open>
  The two replay front ends agree: for a recorded response the listener writes the status and the
  body bytes that the in-process transport synthesizes, whether or not the response streams; if the
  client goes away it has received a prefix cut at a frame boundary.
\<close>

theorem serve_agrees_with_transport:
  "rw_status (writeStored env new_writer stored) = Some (ho_status (synthesize opts stored)) \<and>
   prefix (concat (rw_chunks (writeStored env new_writer stored))) (reader_bytes (ho_body (synthesize opts stored))) \<and>
   (sv_stop env = None \<and> sv_write_fails env = None \<longrightarrow>
      concat (rw_chunks (writeStored env new_writer stored)) = reader_bytes (ho_body (synthesize opts stored)))"
proof -
  let ?body = "Bytes (rs_body stored)"
  have s: "rw_status (writeStored env new_writer stored) = Some (ho_status (synthesize opts stored))"
    by (simp add: writeStored_def synthesize_def Let_def)
  have c: "concat (rw_chunks (writeStored env new_writer stored)) =
      (if rs_streaming stored then concat (write_frames env 0 (splitSSEFrames ?body)) else ?body)"
    by (simp add: writeStored_def Let_def new_writer_def)
  have "prefix (concat (write_frames env 0 (splitSSEFrames ?body))) ?body"
    using concat_prefix [OF write_frames_prefix, of env 0 "splitSSEFrames ?body"]
    by (simp add: splitSSEFrames_concat_aux)
  then show ?thesis
    using s c write_frames_all [of env 0 "splitSSEFrames ?body"]
    by (auto simp: synthesize_bytes splitSSEFrames_concat_aux)
qed

lemma serve_agrees_with_transport_witness:
  "concat (rw_chunks (writeStored \<lparr>sv_stop = None, sv_write_fails = None\<rparr> new_writer
     (empty_response\<lparr>rs_streaming := True, rs_body := Some ''data''\<rparr>))) = ''data''"
  using serve_agrees_with_transport [of "\<lparr>sv_stop = None, sv_write_fails = None\<rparr>"
      "empty_response\<lparr>rs_streaming := True, rs_body := Some ''data''\<rparr>" toy_options]
  by (simp add: synthesize_bytes Bytes_def)

text \<open>
  The error body of a miss is not always JSON: the message is quoted by the Go verb %q, whose escape
  for a control byte in the request path is no JSON escape.
\<close>

theorem miss_body_not_json:
  "\<not> json_valid (miss_body isprint ''GET'' [CHR ''/'', CHR 0x07])"
proof -
  let ?s = "''no recorded interaction matches '' @ ''GET'' @ '' '' @ ''/''"
  have "list_all quote_plain ?s" by code_simp
  then have "go_quote isprint (?s @ [CHR 0x07]) = CHR 0x22 # ?s @ quote_rune isprint (byte_of (CHR 0x07), [CHR 0x07]) @ [CHR 0x22]"
    by (rule go_quote_plain_then) simp
  moreover have "quote_rune isprint (byte_of (CHR 0x07), [CHR 0x07]) = [CHR 0x5C, CHR ''a'']"
    by (simp add: quote_rune_def)
  ultimately have "go_quote isprint (''no recorded interaction matches '' @ ''GET'' @ '' '' @ [CHR ''/'', CHR 0x07]) =
      quote_json (''no recorded interaction matches GET /'' @ [CHR 0x5C, CHR ''a''])"
    by (simp add: quote_json_def)
  then have "miss_body isprint ''GET'' [CHR ''/'', CHR 0x07] =
     ''{'' @ quote_json ''error'' @ '':{'' @ quote_json ''type'' @ '':'' @ quote_json ''cassette_miss'' @ '','' @
     quote_json ''message'' @ '':'' @ quote_json (''no recorded interaction matches GET /'' @ [CHR 0x5C, CHR ''a'']) @
     ''}}'' @ [newline]"
    unfolding miss_body_def by (simp only: append_assoc)
  moreover have "\<not> json_valid (''{'' @ quote_json ''error'' @ '':{'' @ quote_json ''type'' @ '':'' @ quote_json ''cassette_miss'' @ '','' @
     quote_json ''message'' @ '':'' @ quote_json (''no recorded interaction matches GET /'' @ [CHR 0x5C, CHR ''a'']) @
     ''}}'' @ [newline])"
    by code_simp
  ultimately show ?thesis by simp
qed

lemma canary_foldl:
  "mget0 [] (foldl (\<lambda>hits can. if canary_in rq can then mput can (mget0 [] hits can @ [i]) hits else hits) hits cans) k =
   mget0 [] hits k @ (if canary_in rq k then replicate (count_list cans k) i else [])"
  by (induction cans arbitrary: hits) (auto simp: replicate_app_Cons_same)

lemma canary_loop_spec:
  "mget0 [] (canary_loop i its cans hits) k =
   mget0 [] hits k @ concat (map (\<lambda>j. if canary_in (it_request (its ! (j - i))) k then replicate (count_list cans k) j else [])
     [i ..< i + length its])"
proof (induction i its cans hits rule: canary_loop.induct)
  case (2 i it its cans hits)
  have u: "[i ..< i + length (it # its)] = i # [Suc i ..< Suc i + length its]"
    by (simp add: upt_conv_Cons del: upt_Suc)
  have m: "map (\<lambda>j. if canary_in (it_request ((it # its) ! (j - i))) k then replicate (count_list cans k) j else []) [Suc i ..< Suc i + length its] =
      map (\<lambda>j. if canary_in (it_request (its ! (j - Suc i))) k then replicate (count_list cans k) j else []) [Suc i ..< Suc i + length its]"
    by (rule map_cong) (auto simp: nth_Cons' Suc_diff_le)
  show ?case
    unfolding canary_loop.simps 2 canary_foldl u list.map m by simp
qed simp

text \<open>
  A canary is reported exactly at the interactions whose stored request carries it, in its body, its
  path or its headers, in the order of the recording; a token that was not planted is not reported.
\<close>

theorem CanaryHits_exact:
  assumes "distinct cans" "can \<in> set cans"
  shows "mget0 [] (CanaryHits c cans) can =
    filter (\<lambda>i. canary_in (it_request (wf_its (ca_file c) ! i)) can) [0 ..< length (wf_its (ca_file c))]"
proof -
  have n: "count_list cans can = 1" using assms by (induction cans) (auto simp: count_list_0_iff)
  have "concat (map (\<lambda>j. if P j then replicate 1 j else []) js) = filter P js" for P and js :: "nat list"
    by (induction js) auto
  then show ?thesis unfolding CanaryHits_def canary_loop_spec n by simp
qed


lemma CanaryHits_exact_witness:
  "mget0 [] (CanaryHits (toy_cassette\<lparr>ca_file := empty_file\<lparr>wf_its :=
     [\<lparr>it_kind = ''http'', it_request = empty_request\<lparr>rq_url := ''/k1''\<rparr>, it_response = empty_response\<rparr>]\<rparr>\<rparr>) [''k1'']) ''k1'' = [0]"
proof -
  let ?rq = "empty_request\<lparr>rq_url := ''/k1''\<rparr>"
  have "canary_in ?rq ''k1''" by code_simp
  then show ?thesis
    by (subst CanaryHits_exact) simp_all
qed

end
