(* ===== verification/Egress.thy ===== *)
theory Egress
  imports Complex_Main Scrub Runes
begin

text \<open>
  internal/egress: detectors for sensitive values in outgoing bodies, the Luhn check, the masking of
  a finding.  The Shannon entropy is taken over the real numbers where the code computes in float64.
\<close>

section \<open>Findings\<close>

record finding =
  fi_kind :: string
  fi_redacted :: string
  fi_fingerprint :: string

definition fingerprint :: "string \<Rightarrow> string" where
  "fingerprint s = hex_encode (take 8 (sha256 s))"

record detector =
  dt_kind :: string
  dt_find :: "bytes \<Rightarrow> string list"

section \<open>Expressions\<close>

definition any_of :: "string \<Rightarrow> char \<Rightarrow> bool" where
  "any_of s c = (c \<in> set s)"

abbreviation rdigits :: "nat \<Rightarrow> regex" where
  "rdigits n \<equiv> RRep n (Some n) (RSet is_digit)"

fun rseq :: "regex list \<Rightarrow> regex" where
  "rseq [] = REmpty"
| "rseq [r] = r"
| "rseq (r # s # rs) = RSeq r (rseq (s # rs))"

definition reEmail :: regex where
  "reEmail = rseq [rplus (RSet (\<lambda>c. is_alnum c \<or> any_of ''._%+-'' c)), rlit ''@'',
     rplus (RSet (\<lambda>c. is_alnum c \<or> any_of ''.-'' c)), rlit ''.'', RRep 2 None (RSet is_alpha)]"

definition reSSN :: regex where
  "reSSN = rseq [RWord, rdigits 3, rlit ''-'', rdigits 2, rlit ''-'', rdigits 4, RWord]"

definition phone_sep :: regex where
  "phone_sep = ropt (RSet (\<lambda>c. rx_space c \<or> any_of ''-.'' c))"

definition rePhone :: regex where
  "rePhone = rseq [RWord, ropt (rlit ''+''), RRep 1 (Some 2) (RSet is_digit), phone_sep, ropt (rlit ''(''),
     rdigits 3, ropt (rlit '')''), phone_sep, rdigits 3, phone_sep, rdigits 4, RWord]"

definition reCard :: regex where
  "reCard = rseq [RWord, RRep 13 (Some 19) (RSeq (RSet is_digit) (ropt (RSet (any_of '' -'')))), RWord]"

definition reEntropy :: regex where
  "reEntropy = RRep 32 None (RSet (\<lambda>c. is_alnum c \<or> any_of ''+/_-'' c))"

section \<open>The Luhn check\<close>

definition luhn_digit :: "bool \<Rightarrow> nat \<Rightarrow> nat" where
  "luhn_digit alt d = (if alt then (if d * 2 > 9 then d * 2 - 9 else d * 2) else d)"

text \<open>The loop runs from the last digit to the first.\<close>

fun luhn_sum :: "bool \<Rightarrow> string \<Rightarrow> nat" where
  "luhn_sum alt [] = 0"
| "luhn_sum alt (c # cs) = luhn_digit alt (digit_val c) + luhn_sum (\<not> alt) cs"

definition luhn :: "string \<Rightarrow> bool" where
  "luhn digits = (luhn_sum False (rev digits) mod 10 = 0)"

definition findCard :: "bytes \<Rightarrow> string list" where
  "findCard b =
     filter (\<lambda>m. let digits = filter is_digit m
                 in 13 \<le> length digits \<and> length digits \<le> 19 \<and> luhn digits) (rx_find_all reCard b)"

section \<open>Entropy\<close>

definition shannon :: "string \<Rightarrow> real" where
  "shannon s =
     (if s = [] then 0
      else \<Sum>r \<in> set (map fst (runes_of s)).
        - (real (count_list (map fst (runes_of s)) r) / real (length s)) *
          log 2 (real (count_list (map fst (runes_of s)) r) / real (length s)))"

definition findHighEntropy :: "bytes \<Rightarrow> string list" where
  "findHighEntropy b = filter (\<lambda>m. shannon m \<ge> 4) (rx_find_all reEntropy b)"

section \<open>Scanning\<close>

definition reMatch :: "regex \<Rightarrow> bytes \<Rightarrow> string list" where
  "reMatch re b = rx_find_all re b"

definition egress_Default :: "detector list" where
  "egress_Default =
     [\<lparr>dt_kind = ''email'', dt_find = reMatch reEmail\<rparr>,
      \<lparr>dt_kind = ''ssn'', dt_find = reMatch reSSN\<rparr>,
      \<lparr>dt_kind = ''phone'', dt_find = reMatch rePhone\<rparr>,
      \<lparr>dt_kind = ''jwt'', dt_find = reMatch reJWT\<rparr>,
      \<lparr>dt_kind = ''aws_key'', dt_find = reMatch reAKIA\<rparr>,
      \<lparr>dt_kind = ''github_token'', dt_find = reMatch reGitHub\<rparr>,
      \<lparr>dt_kind = ''creditcard'', dt_find = findCard\<rparr>,
      \<lparr>dt_kind = ''high_entropy'', dt_find = findHighEntropy\<rparr>]"

definition bullet :: string where "bullet = encode_rune 8226"
definition ellipsis :: string where "ellipsis = encode_rune 8230"

definition mask :: "string \<Rightarrow> string" where
  "mask s =
     (let r = map fst (runes_of s) in
      if length r \<le> 4 then concat (replicate (length r) bullet)
      else concat (map encode_rune (take 2 r)) @ ellipsis @ concat (map encode_rune (drop (length r - 2) r)))"

definition Scan :: "bytes \<Rightarrow> detector list \<Rightarrow> finding list" where
  "Scan b dets =
     concat (map (\<lambda>d. map (\<lambda>m. \<lparr>fi_kind = dt_kind d, fi_redacted = mask m, fi_fingerprint = fingerprint m\<rparr>)
                          (dt_find d b)) dets)"

section \<open>Lemmas\<close>

lemma luhn_digit_inj:
  assumes "d < 10" "e < 10" "luhn_digit alt d mod 10 = luhn_digit alt e mod 10"
  shows "d = e"
proof -
  have "luhn_digit alt x < 10" if "x < 10" for x using that by (auto simp: luhn_digit_def)
  then have eq: "luhn_digit alt d = luhn_digit alt e" using assms by simp
  have odd: "2 * x \<noteq> 2 * y + 9" for x y :: nat by presburger
  show ?thesis
  proof (cases alt)
    case True
    consider "9 < 2 * d" "9 < 2 * e" | "9 < 2 * d" "\<not> 9 < 2 * e" | "\<not> 9 < 2 * d" "9 < 2 * e" | "\<not> 9 < 2 * d" "\<not> 9 < 2 * e"
      by blast
    then show ?thesis
    proof cases
      case 1
      then have "2 * d - 9 = 2 * e - 9" using eq True by (simp add: luhn_digit_def mult.commute)
      then show ?thesis using 1 by linarith
    next
      case 2
      then have "2 * d - 9 = 2 * e" using eq True by (simp add: luhn_digit_def mult.commute)
      then have "2 * d = 2 * e + 9" using 2 by linarith
      then show ?thesis using odd by blast
    next
      case 3
      then have "2 * e - 9 = 2 * d" using eq True by (simp add: luhn_digit_def mult.commute)
      then have "2 * e = 2 * d + 9" using 3 by linarith
      then show ?thesis using odd by blast
    next
      case 4
      then show ?thesis using eq True by (simp add: luhn_digit_def mult.commute)
    qed
  qed (use eq in \<open>simp add: luhn_digit_def\<close>)
qed

lemma luhn_sum_append: "luhn_sum alt (a @ b) = luhn_sum alt a + luhn_sum (if even (length a) then alt else \<not> alt) b"
  by (induction alt a rule: luhn_sum.induct) auto

lemma digit_val_inj: "is_digit c \<Longrightarrow> is_digit d \<Longrightarrow> digit_val c = digit_val d \<Longrightarrow> c = d"
proof -
  assume "is_digit c" "is_digit d" "digit_val c = digit_val d"
  then have "byte_of c = (byte_of d :: nat)" unfolding is_digit_def digit_val_def by arith
  then show "c = d" by simp
qed

lemma mod_cancel: "((x::nat) + k) mod 10 = (y + k) mod 10 \<Longrightarrow> x mod 10 = y mod 10"
proof -
  assume "(x + k) mod 10 = (y + k) mod 10"
  then have "(x + k + 9 * k) mod 10 = (y + k + 9 * k) mod 10" by (metis mod_add_left_eq)
  moreover have "x + k + 9 * k = x + k * 10" "y + k + 9 * k = y + k * 10" by simp_all
  ultimately show ?thesis by (simp only: mod_mult_self1)
qed

lemma digit_val_less: "is_digit c \<Longrightarrow> digit_val c < 10"
  by (auto simp: is_digit_def digit_val_def)

text \<open>
  The Luhn check catches every single mistyped digit: a card number that passes no longer passes
  when one digit is replaced by another.
\<close>

theorem luhn_single_error:
  assumes "luhn (a @ c # b)" "is_digit c" "is_digit d" "c \<noteq> d"
  shows "\<not> luhn (a @ d # b)"
proof
  assume l: "luhn (a @ d # b)"
  let ?alt = "if even (length b) then False else True"
  have s: "luhn_sum False (rev (a @ x # b)) =
      luhn_sum False (rev b) + luhn_digit ?alt (digit_val x) + luhn_sum (\<not> ?alt) (rev a)" for x
    by (simp add: luhn_sum_append)
  let ?k = "luhn_sum False (rev b) + luhn_sum (\<not> ?alt) (rev a)"
  have "(luhn_digit ?alt (digit_val c) + ?k) mod 10 = (luhn_digit ?alt (digit_val d) + ?k) mod 10"
    using assms(1) l unfolding luhn_def s by (simp add: add.commute add.left_commute)
  then have "luhn_digit ?alt (digit_val c) mod 10 = luhn_digit ?alt (digit_val d) mod 10"
    by (rule mod_cancel)
  then have "digit_val c = digit_val d"
    using luhn_digit_inj digit_val_less assms(2,3) by blast
  then show False using digit_val_inj assms(2-4) by blast
qed

lemma luhn_single_error_witness: "\<not> luhn (''7992739871'' @ CHR ''4'' # [])"
proof -
  have "luhn (''7992739871'' @ CHR ''3'' # [])" by code_simp
  from luhn_single_error [OF this, of "CHR ''4''"] show ?thesis by (simp add: is_digit_def)
qed

text \<open>
  A finding is safe to print: its masked form is determined by the first and the last two runes of
  a value of five or more, and by the length alone of a shorter one.
\<close>

theorem mask_hides_middle:
  assumes "map fst (runes_of s) = [a, b] @ m @ [c, d]" "map fst (runes_of t) = [a, b] @ m' @ [c, d]"
    and "m \<noteq> []" "m' \<noteq> []"
  shows "mask s = mask t"
  using assms by (cases m; cases m') (simp_all add: mask_def Let_def)

lemma mask_hides_middle_witness: "mask ''secret'' = mask ''seXXXXet''"
proof -
  have "map fst (runes_of ''secret'') = [115, 101] @ [99, 114] @ [101, 116]"
    "map fst (runes_of ''seXXXXet'') = [115, 101] @ [88, 88, 88, 88] @ [101, 116]"
    by (simp_all add: runes_of_ascii del: runes_of.simps)
  then show ?thesis by (rule mask_hides_middle) simp_all
qed

end
