(* ===== verification/Unmarshal.thy ===== *)
theory Unmarshal
  imports Canon
begin

text \<open>
  json.Unmarshal into Go types.  A decoder of a type takes a parsed value and the variable's
  current content and gives its new content, with True where Go records a type error; the
  first type error does not stop the decoding (the variable keeps everything decoded after it),
  it only makes Unmarshal return an error.  Struct members are found by their exact name, else by
  their folded name; a later duplicate decodes into what an earlier one left behind.
\<close>

type_synonym 'a jdec = "jval \<Rightarrow> 'a \<Rightarrow> 'a \<times> bool"

section \<open>Scalars\<close>

fun dec_string :: "string jdec" where
  "dec_string (JStr s) x = (s, False)"
| "dec_string JNull x = (x, False)"
| "dec_string _ x = (x, True)"

fun dec_bool :: "bool jdec" where
  "dec_bool (JBool b) x = (b, False)"
| "dec_bool JNull x = (x, False)"
| "dec_bool _ x = (x, True)"

text \<open>int and int64: strconv.ParseInt of the literal, so a fraction or an exponent is an error.\<close>

fun dec_int :: "int jdec" where
  "dec_int (JNum n) x = (case atoi n of Some i \<Rightarrow> (i, False) | None \<Rightarrow> (x, True))"
| "dec_int JNull x = (x, False)"
| "dec_int _ x = (x, True)"

text \<open>
  json.RawMessage takes any value, null included.  The raw text is represented by the value it
  parses to: the program only canonicalizes or re-parses it.  None is the nil message.
\<close>

definition dec_raw :: "jval option jdec" where
  "dec_raw v x = (Some v, False)"

section \<open>Pointers, slices and structs\<close>

definition dec_ptr :: "'a \<Rightarrow> 'a jdec \<Rightarrow> 'a option jdec" where
  "dec_ptr zero d v x = (case v of JNull \<Rightarrow> (None, False)
     | _ \<Rightarrow> (case d v (case x of None \<Rightarrow> zero | Some y \<Rightarrow> y) of (y, e) \<Rightarrow> (Some y, e)))"

text \<open>
  A slice with the elements its backing array still holds behind its length: decoding a second
  array into the variable reuses them.
\<close>

datatype 'a slice = Slice (elems: "'a list") (stale: "'a list")

abbreviation nil_slice :: "'a slice" where
  "nil_slice \<equiv> Slice [] []"

fun dec_elems :: "'a \<Rightarrow> 'a jdec \<Rightarrow> jval list \<Rightarrow> 'a list \<Rightarrow> 'a list \<times> 'a list \<times> bool" where
  "dec_elems zero d [] old = ([], old, False)"
| "dec_elems zero d (v # vs) old =
     (case d v (case old of [] \<Rightarrow> zero | y # _ \<Rightarrow> y) of (y, e) \<Rightarrow>
      case dec_elems zero d vs (drop 1 old) of (ys, rest, e') \<Rightarrow> (y # ys, rest, e \<or> e'))"

fun dec_slice :: "'a \<Rightarrow> 'a jdec \<Rightarrow> 'a slice jdec" where
  "dec_slice zero d (JArr vs) x =
     (if vs = [] then (nil_slice, False)
      else case dec_elems zero d vs (elems x @ stale x) of (ys, rest, e) \<Rightarrow> (Slice ys rest, e))"
| "dec_slice zero d JNull x = (nil_slice, False)"
| "dec_slice zero d _ x = (x, True)"

text \<open>
  foldName on names that are compared with ASCII field names: ASCII letters are folded to upper
  case, and the two other runes whose fold is an ASCII letter (U+017F and U+212A) with them.
\<close>

fun fold_name :: "string \<Rightarrow> string" where
  "fold_name (a # b # c # s) =
     (if a = CHR 0xC5 \<and> b = CHR 0xBF then CHR ''S'' # fold_name (c # s)
      else if a = CHR 0xE2 \<and> b = CHR 0x84 \<and> c = CHR 0xAA then CHR ''K'' # fold_name s
      else to_upper_byte a # fold_name (b # c # s))"
| "fold_name [a, b] = (if a = CHR 0xC5 \<and> b = CHR 0xBF then ''S'' else [to_upper_byte a, to_upper_byte b])"
| "fold_name [a] = [to_upper_byte a]"
| "fold_name [] = []"

definition find_field :: "(string \<times> 'f) list \<Rightarrow> string \<Rightarrow> 'f option" where
  "find_field fs k = (case map_of fs k of Some f \<Rightarrow> Some f
     | None \<Rightarrow> map_option snd (find (\<lambda>(n, f). fold_name n = fold_name k) fs))"

fun dec_members :: "(string \<times> 'r jdec) list \<Rightarrow> (string \<times> jval) list \<Rightarrow> 'r \<Rightarrow> 'r \<times> bool" where
  "dec_members fs [] r = (r, False)"
| "dec_members fs ((k, v) # kvs) r =
     (case (case find_field fs k of None \<Rightarrow> (r, False) | Some d \<Rightarrow> d v r) of
        (r', e) \<Rightarrow> (case dec_members fs kvs r' of (r'', e') \<Rightarrow> (r'', e \<or> e')))"

fun dec_struct :: "(string \<times> 'r jdec) list \<Rightarrow> 'r jdec" where
  "dec_struct fs (JObj kvs) r = dec_members fs kvs r"
| "dec_struct fs JNull r = (r, False)"
| "dec_struct fs _ r = (r, True)"

text \<open>The decoder of one field, from its selector and update.\<close>

definition dec_field :: "('r \<Rightarrow> 'a) \<Rightarrow> ('a \<Rightarrow> 'r \<Rightarrow> 'r) \<Rightarrow> 'a jdec \<Rightarrow> 'r jdec" where
  "dec_field get put d v r = (case d v (get r) of (x, e) \<Rightarrow> (put x r, e))"

section \<open>Unmarshal\<close>

text \<open>The new content of the variable, and whether an error is returned.\<close>

definition Unmarshal :: "'a jdec \<Rightarrow> bytes \<Rightarrow> 'a \<Rightarrow> 'a \<times> bool" where
  "Unmarshal d b x = (case jparse b of None \<Rightarrow> (x, True) | Some v \<Rightarrow> d v x)"

text \<open>The common use: the decoded value, where no error is returned.\<close>

definition unmarshal_ok :: "'a jdec \<Rightarrow> bytes \<Rightarrow> 'a \<Rightarrow> 'a option" where
  "unmarshal_ok d b x = (case Unmarshal d b x of (y, e) \<Rightarrow> if e then None else Some y)"

section \<open>Decoding encoded values\<close>

lemma Unmarshal_jencode:
  "jwf v \<Longrightarrow> jdepth v \<le> max_nesting \<Longrightarrow> Unmarshal d (jencode h v) x = d v x"
  by (simp add: Unmarshal_def jparse_jencode)

lemma unmarshal_ok_jencode:
  "jwf v \<Longrightarrow> jdepth v \<le> max_nesting \<Longrightarrow>
   unmarshal_ok d (jencode h v) x = (case d v x of (y, e) \<Rightarrow> if e then None else Some y)"
  by (simp add: unmarshal_ok_def Unmarshal_jencode)

text \<open>Canonicalizing a RawMessage: a nil message is no JSON document and is kept as it is.\<close>

definition raw_canon :: "jval option \<Rightarrow> string" where
  "raw_canon r = (case r of None \<Rightarrow> [] | Some v \<Rightarrow> jencode False (jany v))"

lemma Canonicalize_parsed:
  assumes "jparse b = Some v"
  shows "Canonicalize b = Some (raw_canon (Some v))"
proof -
  obtain r where "jprefix b = Some (v, r)" "skip_ws r = []"
    using assms by (auto simp: jparse_def simp del: dropWhile_eq_Nil_conv split: option.splits if_splits)
  then show ?thesis
    by (simp add: Canonicalize_eq canon_decode_def dec_more_def raw_canon_def del: dropWhile_eq_Nil_conv)
qed

section \<open>Properties that decoding keeps\<close>

text \<open>Every parsed value has these two, and so have the values inside it.\<close>

definition jgood :: "jval \<Rightarrow> bool" where
  "jgood v = (jwf v \<and> jdepth v \<le> max_nesting)"

lemma jgood_arr: "jgood (JArr vs) \<Longrightarrow> v \<in> set vs \<Longrightarrow> jgood v"
  using jdepth_arr_le [of vs 0 max_nesting] by (auto simp: jgood_def simp del: jdepth.simps)

lemma jgood_obj: "jgood (JObj kvs) \<Longrightarrow> (k, v) \<in> set kvs \<Longrightarrow> jgood v"
  using jdepth_obj_le [of kvs 0 max_nesting] by (fastforce simp: jgood_def simp del: jdepth.simps)

lemma jparse_good: "jparse b = Some v \<Longrightarrow> jgood v"
  by (auto simp: jparse_def jgood_def simp del: dropWhile_eq_Nil_conv dest: jprefix_wf split: option.splits if_splits)

definition dec_keeps :: "('a \<Rightarrow> bool) \<Rightarrow> 'a jdec \<Rightarrow> bool" where
  "dec_keeps Q d = (\<forall>v x. jgood v \<and> Q x \<longrightarrow> Q (fst (d v x)))"

lemma dec_keepsD: "dec_keeps Q d \<Longrightarrow> jgood v \<Longrightarrow> Q x \<Longrightarrow> Q (fst (d v x))"
  by (simp add: dec_keeps_def)

named_theorems keeps "decoders that keep a property"

lemma keeps_string [keeps]: "dec_keeps valid_utf8 dec_string"
  unfolding dec_keeps_def
proof safe
  fix v x assume "jgood v" "valid_utf8 x"
  then show "valid_utf8 (fst (dec_string v x))" by (cases v) (auto simp: jgood_def simp del: valid_utf8.simps)
qed

lemma keeps_any [keeps]: "dec_keeps (\<lambda>_. True) d"
  by (simp add: dec_keeps_def)

definition raw_good :: "jval option \<Rightarrow> bool" where
  "raw_good r = (case r of None \<Rightarrow> True | Some v \<Rightarrow> jgood v)"

lemma keeps_raw [keeps]: "dec_keeps raw_good dec_raw"
  by (simp add: dec_keeps_def dec_raw_def raw_good_def)

lemma keeps_ptr [keeps]: "dec_keeps Q d \<Longrightarrow> Q zero \<Longrightarrow> dec_keeps (pred_option Q) (dec_ptr zero d)"
  unfolding dec_keeps_def
proof safe
  fix v :: jval and x
  assume a: "\<forall>v x. jgood v \<and> Q x \<longrightarrow> Q (fst (d v x))" "Q zero" "jgood v" "pred_option Q x"
  then have "Q (fst (d v (case x of None \<Rightarrow> zero | Some y \<Rightarrow> y)))" by (cases x) auto
  then show "pred_option Q (fst (dec_ptr zero d v x))"
    by (auto simp: dec_ptr_def split: jval.split prod.split)
qed

definition all_slice :: "('a \<Rightarrow> bool) \<Rightarrow> 'a slice \<Rightarrow> bool" where
  "all_slice Q s = (list_all Q (elems s) \<and> list_all Q (stale s))"

lemma keeps_elems:
  assumes "dec_keeps Q d" "Q zero"
  shows "list_all jgood vs \<Longrightarrow> list_all Q old \<Longrightarrow> dec_elems zero d vs old = (ys, rest, e) \<Longrightarrow>
    list_all Q ys \<and> list_all Q rest"
proof (induction vs arbitrary: old ys rest e)
  case (Cons v vs)
  let ?x = "case old of [] \<Rightarrow> zero | y # _ \<Rightarrow> y"
  obtain y e1 where y: "d v ?x = (y, e1)" by (cases "d v ?x")
  obtain zs r e2 where z: "dec_elems zero d vs (drop 1 old) = (zs, r, e2)"
    by (cases "dec_elems zero d vs (drop 1 old)") auto
  have "Q ?x" using assms(2) Cons.prems(2) by (cases old) auto
  then have "Q y" using dec_keepsD [OF assms(1), of v ?x] Cons.prems(1) y by simp
  moreover have "list_all Q (drop 1 old)" using Cons.prems(2) by (cases old) auto
  then have "list_all Q zs \<and> list_all Q r" using Cons.IH [OF _ _ z] Cons.prems(1) by simp
  ultimately show ?case using Cons.prems(3) y z by auto
qed simp

lemma keeps_slice [keeps]:
  assumes "dec_keeps Q d" "Q zero"
  shows "dec_keeps (all_slice Q) (dec_slice zero d)"
  unfolding dec_keeps_def
proof safe
  fix v x assume v: "jgood v" and x: "all_slice Q x"
  show "all_slice Q (fst (dec_slice zero d v x))"
  proof (cases v)
    case (JArr vs)
    obtain ys rest e where y: "dec_elems zero d vs (elems x @ stale x) = (ys, rest, e)"
      by (cases "dec_elems zero d vs (elems x @ stale x)") auto
    have "list_all jgood vs" using v JArr jgood_arr by (auto simp: list_all_iff)
    then have "list_all Q ys \<and> list_all Q rest"
      using keeps_elems [OF assms _ _ y] x by (simp add: all_slice_def)
    then show ?thesis using JArr y by (simp add: all_slice_def)
  qed (use x in \<open>simp_all add: all_slice_def\<close>)
qed

lemma find_field_in: "find_field fs k = Some d \<Longrightarrow> d \<in> snd ` set fs"
proof -
  have f: "find P fs = Some x \<Longrightarrow> x \<in> set fs" for P x
    by (induction fs) (auto split: if_splits)
  show "find_field fs k = Some d \<Longrightarrow> d \<in> snd ` set fs"
    using f by (force simp: find_field_def split: option.splits dest: map_of_SomeD)
qed

lemma keeps_members:
  assumes "\<forall>d \<in> snd ` set fs. dec_keeps Q d"
  shows "list_all (\<lambda>kv. jgood (snd kv)) kvs \<Longrightarrow> Q r \<Longrightarrow> Q (fst (dec_members fs kvs r))"
proof (induction kvs arbitrary: r)
  case (Cons kv kvs)
  obtain k v where kv: "kv = (k, v)" by (cases kv)
  let ?r = "case find_field fs k of None \<Rightarrow> (r, False) | Some d \<Rightarrow> d v r"
  have "Q (fst ?r)"
    using Cons.prems kv assms find_field_in [of fs k] dec_keepsD [of Q _ v r] by (auto split: option.split)
  moreover obtain r' e where "?r = (r', e)" by (cases ?r)
  ultimately have "dec_members fs (kv # kvs) r = (case dec_members fs kvs r' of (r'', e') \<Rightarrow> (r'', e \<or> e'))" "Q r'"
    using kv by simp_all
  then show ?case using Cons.IH [of r'] Cons.prems(1) by (simp add: case_prod_unfold)
qed simp

lemma keeps_struct [keeps]:
  assumes "\<And>d. d \<in> snd ` set fs \<Longrightarrow> dec_keeps Q d"
  shows "dec_keeps Q (dec_struct fs)"
  unfolding dec_keeps_def
proof safe
  fix v x assume v: "jgood v" and x: "Q x"
  show "Q (fst (dec_struct fs v x))"
  proof (cases v)
    case (JObj kvs)
    then have "list_all (\<lambda>kv. jgood (snd kv)) kvs" using v jgood_obj by (fastforce simp: list_all_iff)
    then show ?thesis using JObj keeps_members [of fs Q kvs x] assms x by simp
  qed (use x in simp_all)
qed

lemma keeps_field [keeps]:
  assumes "dec_keeps P d" "\<And>r. Q r \<Longrightarrow> P (get r)" "\<And>x r. Q r \<Longrightarrow> P x \<Longrightarrow> Q (put x r)"
  shows "dec_keeps Q (dec_field get put d)"
  unfolding dec_keeps_def
proof safe
  fix v r assume "jgood v" "Q r"
  then show "Q (fst (dec_field get put d v r))"
    using assms dec_keepsD [OF assms(1), of v "get r"] by (auto simp: dec_field_def split: prod.split)
qed

lemma unmarshal_keeps:
  assumes "unmarshal_ok d b x = Some y" "dec_keeps Q d" "Q x"
  shows "Q y"
  using assms dec_keepsD [OF assms(2)] jparse_good [of b]
  by (fastforce simp: unmarshal_ok_def Unmarshal_def split: option.splits prod.splits if_splits)

text \<open>The canonical text of a raw message is canonical.\<close>

lemma raw_canon_canonical:
  assumes "jgood v"
  shows "Canonicalize (raw_canon (Some v)) = Some (raw_canon (Some v))"
  using assms jany_jwf [of v] jany_depth [of v max_nesting] jany_canon [of v]
  by (simp add: jgood_def raw_canon_def Canonicalize_eq canon_decode_jencode)

end
