(* ===== verification/Semequal.thy ===== *)
theory Semequal
  imports Unmarshal Runes "HOL-Library.Product_Lexorder"
begin

text \<open>
  Package semequal, semequal.go: the normalized transcript of a model turn, its digest and its
  text form, and the five decoders that assemble a transcript from the bytes on the wire.
\<close>

section \<open>Transcripts\<close>

record tool_call =
  tc_Name :: string
  tc_Args :: string

record transcript =
  t_Role :: string
  t_Text :: string
  t_ToolCalls :: "tool_call list"
  t_FinishReason :: string

text \<open>
  sort.Slice by name and arguments.  Two calls that compare equal are equal, so the order is
  determined although the sort is not stable.
\<close>

definition tc_key :: "tool_call \<Rightarrow> string \<times> string" where
  "tc_key c = (tc_Name c, tc_Args c)"

definition Normalize :: "transcript \<Rightarrow> transcript" where
  "Normalize t = t\<lparr>t_Role := (if t_Role t = [] then ''assistant'' else t_Role t),
                   t_ToolCalls := sort_key tc_key (t_ToolCalls t)\<rparr>"

text \<open>json.Marshal of the structs; a nil slice is null.\<close>

definition tool_call_json :: "tool_call \<Rightarrow> jval" where
  "tool_call_json c = JObj [(''name'', JStr (tc_Name c)), (''args'', JStr (tc_Args c))]"

definition transcript_json :: "transcript \<Rightarrow> jval" where
  "transcript_json t = JObj
     [(''role'', JStr (t_Role t)), (''text'', JStr (t_Text t)),
      (''tool_calls'', if t_ToolCalls t = [] then JNull else JArr (map tool_call_json (t_ToolCalls t))),
      (''finish_reason'', JStr (t_FinishReason t))]"

definition canon_text :: "bytes \<Rightarrow> bytes" where
  "canon_text raw = (case Canonicalize raw of Some c \<Rightarrow> c | None \<Rightarrow> raw)"

definition canon_sum :: "bytes \<Rightarrow> string" where
  "canon_sum raw = SumHex (canon_text raw)"

definition t_Digest :: "transcript \<Rightarrow> string" where
  "t_Digest t = canon_sum (jencode True (transcript_json (Normalize t)))"

definition CombinedDigest :: "transcript list \<Rightarrow> string" where
  "CombinedDigest turns =
     canon_sum (jencode True (JArr (map (\<lambda>t. transcript_json (Normalize t)) turns)))"

definition t_Equal :: "transcript \<Rightarrow> transcript \<Rightarrow> bool" where
  "t_Equal a b = (t_Digest a = t_Digest b)"

text \<open>\<open>isprint\<close> is strconv.IsPrint above ASCII, which the verb q of fmt consults.\<close>

definition t_String :: "(nat \<Rightarrow> bool) \<Rightarrow> transcript \<Rightarrow> string" where
  "t_String isprint t0 = (let t = Normalize t0 in
     ''role: '' @ t_Role t @ ''\<newline>'' @
     ''finish_reason: '' @ t_FinishReason t @ ''\<newline>'' @
     ''text: '' @ go_quote isprint (t_Text t) @ ''\<newline>'' @
     concat (map (\<lambda>c. ''tool_call: '' @ tc_Name c @ '' '' @ tc_Args c @ ''\<newline>'') (t_ToolCalls t)))"

fun diff_lines :: "string list \<Rightarrow> string list \<Rightarrow> string" where
  "diff_lines [] [] = []"
| "diff_lines al bl =
     (let x = (case al of [] \<Rightarrow> [] | x # _ \<Rightarrow> x); y = (case bl of [] \<Rightarrow> [] | y # _ \<Rightarrow> y) in
      (if x = y then ''  '' @ x @ ''\<newline>''
       else (if x \<noteq> [] then ''- '' @ x @ ''\<newline>'' else []) @ (if y \<noteq> [] then ''+ '' @ y @ ''\<newline>'' else []))
      @ diff_lines (drop 1 al) (drop 1 bl))"

definition t_Diff :: "(nat \<Rightarrow> bool) \<Rightarrow> transcript \<Rightarrow> transcript \<Rightarrow> string" where
  "t_Diff isprint a b =
     (if t_Equal a b then []
      else let lines = (\<lambda>t. split_byte CHR 0x0A (trim_right (\<lambda>c. c = CHR 0x0A) (t_String isprint t)))
           in diff_lines (lines a) (lines b))"

section \<open>Server-sent events\<close>

text \<open>
  bufio.Scanner with ScanLines and the buffer limit of parseSSE: a trailing carriage return
  is dropped, and a line that does not fit into 16 MB ends the scan.
\<close>

definition max_token :: nat where "max_token = 16777216"

definition too_long :: "bytes \<Rightarrow> bool" where
  "too_long line = (16777216 \<le> int (length line))"

lemma too_long_iff: "too_long line \<longleftrightarrow> max_token \<le> length line"
  by (auto simp: too_long_def max_token_def)

definition drop_cr :: "string \<Rightarrow> string" where
  "drop_cr l = (if l \<noteq> [] \<and> last l = CHR 0x0D then butlast l else l)"

function scan_lines :: "bytes \<Rightarrow> bytes list" where
  "scan_lines [] = []"
| "scan_lines (c # s) =
     (let line = takeWhile (\<lambda>x. x \<noteq> CHR 0x0A) (c # s) in
      if too_long line then []
      else drop_cr line # scan_lines (drop (Suc (length line)) (c # s)))"
  by pat_completeness auto
termination
  by (relation "measure length") auto

declare scan_lines.simps(2) [simp del]

type_synonym sse_event = "string \<times> bytes"

record sse_state =
  ss_event :: string
  ss_data :: bytes
  ss_events :: "sse_event list"

definition sse_flush :: "sse_state \<Rightarrow> sse_state" where
  "sse_flush s =
     (if ss_event s = [] \<and> ss_data s = [] then s
      else s\<lparr>ss_events := ss_events s @ [(ss_event s, ss_data s)], ss_event := [], ss_data := []\<rparr>)"

definition sse_line :: "bytes \<Rightarrow> sse_state \<Rightarrow> sse_state" where
  "sse_line line s =
     (if line = [] then sse_flush s
      else
        let (name, v) = cut_byte CHR '':'' line;
            value = (case v of c # r \<Rightarrow> (if c = CHR '' '' then r else v) | [] \<Rightarrow> v) in
        if name = ''event'' then s\<lparr>ss_event := value\<rparr>
        else if name = ''data'' then s\<lparr>ss_data := ss_data s @ value @ ''\<newline>''\<rparr>
        else s)"

definition parseSSE :: "bytes \<Rightarrow> sse_event list" where
  "parseSSE raw = ss_events (sse_flush (fold sse_line (scan_lines raw) \<lparr>ss_event = [], ss_data = [], ss_events = []\<rparr>))"

section \<open>The Anthropic decoder\<close>

record ablock =
  ab_typ :: string
  ab_name :: string
  ab_text :: string
  ab_args :: string

record start_ev =
  se_index :: int
  se_type :: string
  se_name :: string

definition dec_start :: "start_ev jdec" where
  "dec_start = dec_struct
     [(''index'', dec_field se_index (\<lambda>x r. r\<lparr>se_index := x\<rparr>) dec_int),
      (''content_block'', dec_struct
        [(''type'', dec_field se_type (\<lambda>x r. r\<lparr>se_type := x\<rparr>) dec_string),
         (''name'', dec_field se_name (\<lambda>x r. r\<lparr>se_name := x\<rparr>) dec_string)])]"

record delta_ev =
  de_index :: int
  de_type :: string
  de_text :: string
  de_partial :: string

definition dec_delta :: "delta_ev jdec" where
  "dec_delta = dec_struct
     [(''index'', dec_field de_index (\<lambda>x r. r\<lparr>de_index := x\<rparr>) dec_int),
      (''delta'', dec_struct
        [(''type'', dec_field de_type (\<lambda>x r. r\<lparr>de_type := x\<rparr>) dec_string),
         (''text'', dec_field de_text (\<lambda>x r. r\<lparr>de_text := x\<rparr>) dec_string),
         (''partial_json'', dec_field de_partial (\<lambda>x r. r\<lparr>de_partial := x\<rparr>) dec_string)])]"

definition dec_stop :: "string jdec" where
  "dec_stop = dec_struct [(''delta'', dec_struct [(''stop_reason'', dec_string)])]"

definition dec_error :: "(string \<times> string) jdec" where
  "dec_error = dec_struct [(''error'', dec_struct
     [(''type'', dec_field fst (\<lambda>x r. (x, snd r)) dec_string),
      (''message'', dec_field snd (\<lambda>x r. (fst r, x)) dec_string)])]"

text \<open>The locals of the loop; \<open>an_err\<close> is the text of streamErr.\<close>

record anthropic_state =
  an_blocks :: "(int \<times> ablock) list"
  an_order :: "int list"
  an_finish :: string
  an_err :: "string option"

definition anthropic_step :: "sse_event \<Rightarrow> anthropic_state \<Rightarrow> anthropic_state" where
  "anthropic_step ev s = (case ev of (typ, data) \<Rightarrow>
     if typ = ''content_block_start'' then
       (case unmarshal_ok dec_start data \<lparr>se_index = 0, se_type = [], se_name = []\<rparr> of
          None \<Rightarrow> s
        | Some d \<Rightarrow> s\<lparr>an_blocks := mput (se_index d)
                        \<lparr>ab_typ = se_type d, ab_name = se_name d, ab_text = [], ab_args = []\<rparr> (an_blocks s),
                      an_order := an_order s @ [se_index d]\<rparr>)
     else if typ = ''content_block_delta'' then
       (case unmarshal_ok dec_delta data \<lparr>de_index = 0, de_type = [], de_text = [], de_partial = []\<rparr> of
          None \<Rightarrow> s
        | Some d \<Rightarrow>
            (case mget (an_blocks s) (de_index d) of
               None \<Rightarrow> s
             | Some b \<Rightarrow>
                 s\<lparr>an_blocks := mput (de_index d)
                     (if de_type d = ''text_delta'' then b\<lparr>ab_text := ab_text b @ de_text d\<rparr>
                      else if de_type d = ''input_json_delta'' then b\<lparr>ab_args := ab_args b @ de_partial d\<rparr>
                      else b) (an_blocks s)\<rparr>))
     else if typ = ''message_delta'' then
       (case unmarshal_ok dec_stop data [] of
          None \<Rightarrow> s
        | Some r \<Rightarrow> if r = [] then s else s\<lparr>an_finish := r\<rparr>)
     else if typ = ''error'' then
       (case fst (Unmarshal dec_error data ([], [])) of (t, m) \<Rightarrow>
          s\<lparr>an_err := Some (''anthropic stream error: '' @ t @ '': '' @ m)\<rparr>)
     else s)"

definition canon_or_raw :: "string \<Rightarrow> string" where
  "canon_or_raw a = (case Canonicalize a of Some c \<Rightarrow> c | None \<Rightarrow> a)"

text \<open>The last loop: every started block, in the order of the start events.\<close>

definition anthropic_block :: "(int \<times> ablock) list \<Rightarrow> int \<Rightarrow> transcript \<Rightarrow> transcript" where
  "anthropic_block bs i t = (case mget bs i of
     None \<Rightarrow> t
   | Some b \<Rightarrow>
       if ab_typ b = ''text'' then t\<lparr>t_Text := t_Text t @ ab_text b\<rparr>
       else if ab_typ b = ''tool_use'' then
         t\<lparr>t_ToolCalls := t_ToolCalls t @ [\<lparr>tc_Name = ab_name b, tc_Args = canon_or_raw (ab_args b)\<rparr>]\<rparr>
       else t)"

definition anthropic_finish :: "anthropic_state \<Rightarrow> transcript \<times> string option" where
  "anthropic_finish s =
     (Normalize (fold (anthropic_block (an_blocks s)) (an_order s)
        \<lparr>t_Role = ''assistant'', t_Text = [], t_ToolCalls = [], t_FinishReason = an_finish s\<rparr>), an_err s)"

definition DecodeAnthropicSSE :: "bytes \<Rightarrow> transcript \<times> string option" where
  "DecodeAnthropicSSE raw = anthropic_finish (fold anthropic_step (parseSSE raw)
     \<lparr>an_blocks = [], an_order = [], an_finish = [], an_err = None\<rparr>)"

section \<open>The OpenAI decoders\<close>

record tool_delta =
  td_index :: int
  td_id :: string
  td_name :: string
  td_args :: string

abbreviation tool_delta0 :: tool_delta where
  "tool_delta0 \<equiv> \<lparr>td_index = 0, td_id = [], td_name = [], td_args = []\<rparr>"

definition dec_tool_delta :: "tool_delta jdec" where
  "dec_tool_delta = dec_struct
     [(''index'', dec_field td_index (\<lambda>x r. r\<lparr>td_index := x\<rparr>) dec_int),
      (''id'', dec_field td_id (\<lambda>x r. r\<lparr>td_id := x\<rparr>) dec_string),
      (''function'', dec_struct
        [(''name'', dec_field td_name (\<lambda>x r. r\<lparr>td_name := x\<rparr>) dec_string),
         (''arguments'', dec_field td_args (\<lambda>x r. r\<lparr>td_args := x\<rparr>) dec_string)])]"

record oa_choice =
  oc_role :: string
  oc_content :: string
  oc_tools :: "tool_delta slice"
  oc_finish :: string

abbreviation oa_choice0 :: oa_choice where
  "oa_choice0 \<equiv> \<lparr>oc_role = [], oc_content = [], oc_tools = nil_slice, oc_finish = []\<rparr>"

definition dec_choice :: "oa_choice jdec" where
  "dec_choice = dec_struct
     [(''delta'', dec_struct
        [(''role'', dec_field oc_role (\<lambda>x r. r\<lparr>oc_role := x\<rparr>) dec_string),
         (''content'', dec_field oc_content (\<lambda>x r. r\<lparr>oc_content := x\<rparr>) dec_string),
         (''tool_calls'', dec_field oc_tools (\<lambda>x r. r\<lparr>oc_tools := x\<rparr>) (dec_slice tool_delta0 dec_tool_delta))]),
      (''finish_reason'', dec_field oc_finish (\<lambda>x r. r\<lparr>oc_finish := x\<rparr>) dec_string)]"

definition dec_chunk :: "oa_choice slice jdec" where
  "dec_chunk = dec_struct [(''choices'', dec_slice oa_choice0 dec_choice)]"

text \<open>
  The locals of the loops.  An accumulator is a name and the argument text so far, kept in a map
  by index, and \<open>oa_order\<close> the indices in the order of their first appearance.
\<close>

record openai_state =
  oa_text :: string
  oa_tools :: "(int \<times> string \<times> string) list"
  oa_order :: "int list"
  oa_finish :: string

abbreviation openai_state0 :: openai_state where
  "openai_state0 \<equiv> \<lparr>oa_text = [], oa_tools = [], oa_order = [], oa_finish = []\<rparr>"

definition openai_tool :: "tool_delta \<Rightarrow> openai_state \<Rightarrow> openai_state" where
  "openai_tool tc s =
     (let s1 = (case mget (oa_tools s) (td_index tc) of
                  None \<Rightarrow> s\<lparr>oa_tools := mput (td_index tc) ([], []) (oa_tools s),
                            oa_order := oa_order s @ [td_index tc]\<rparr>
                | Some _ \<Rightarrow> s);
          (n, a) = mget0 ([], []) (oa_tools s1) (td_index tc)
      in s1\<lparr>oa_tools := mput (td_index tc)
              (if td_name tc = [] then n else td_name tc, a @ td_args tc) (oa_tools s1)\<rparr>)"

definition openai_step :: "sse_event \<Rightarrow> openai_state \<Rightarrow> openai_state" where
  "openai_step ev s =
     (let data = TrimSpace (snd ev) in
      if data = [] \<or> data = ''[DONE]'' then s
      else case unmarshal_ok dec_chunk data nil_slice of
        None \<Rightarrow> s
      | Some c \<Rightarrow>
          (case elems c of
             [] \<Rightarrow> s
           | ch # _ \<Rightarrow>
               let s1 = fold openai_tool (elems (oc_tools ch)) (s\<lparr>oa_text := oa_text s @ oc_content ch\<rparr>)
               in if oc_finish ch = [] then s1 else s1\<lparr>oa_finish := oc_finish ch\<rparr>))"

definition openai_finish :: "openai_state \<Rightarrow> transcript" where
  "openai_finish s = Normalize
     \<lparr>t_Role = ''assistant'', t_Text = oa_text s,
      t_ToolCalls = map (\<lambda>i. case mget0 ([], []) (oa_tools s) i of
          (n, a) \<Rightarrow> \<lparr>tc_Name = n, tc_Args = canon_or_raw a\<rparr>) (oa_order s),
      t_FinishReason = oa_finish s\<rparr>"

definition DecodeOpenAISSE :: "bytes \<Rightarrow> transcript" where
  "DecodeOpenAISSE raw = openai_finish (fold openai_step (parseSSE raw) openai_state0)"

record resp_ev =
  re_type :: string
  re_delta :: string
  re_index :: int
  re_item_type :: string
  re_item_name :: string
  re_status :: string

abbreviation resp_ev0 :: resp_ev where
  "resp_ev0 \<equiv> \<lparr>re_type = [], re_delta = [], re_index = 0, re_item_type = [], re_item_name = [], re_status = []\<rparr>"

definition dec_resp :: "resp_ev jdec" where
  "dec_resp = dec_struct
     [(''type'', dec_field re_type (\<lambda>x r. r\<lparr>re_type := x\<rparr>) dec_string),
      (''delta'', dec_field re_delta (\<lambda>x r. r\<lparr>re_delta := x\<rparr>) dec_string),
      (''output_index'', dec_field re_index (\<lambda>x r. r\<lparr>re_index := x\<rparr>) dec_int),
      (''item'', dec_struct
        [(''type'', dec_field re_item_type (\<lambda>x r. r\<lparr>re_item_type := x\<rparr>) dec_string),
         (''name'', dec_field re_item_name (\<lambda>x r. r\<lparr>re_item_name := x\<rparr>) dec_string)]),
      (''response'', dec_struct
        [(''status'', dec_field re_status (\<lambda>x r. r\<lparr>re_status := x\<rparr>) dec_string)])]"

definition responses_step :: "sse_event \<Rightarrow> openai_state \<Rightarrow> openai_state" where
  "responses_step ev s =
     (let data = TrimSpace (snd ev) in
      if data = [] then s
      else case unmarshal_ok dec_resp data resp_ev0 of
        None \<Rightarrow> s
      | Some m \<Rightarrow>
          if re_type m = ''response.output_text.delta'' then s\<lparr>oa_text := oa_text s @ re_delta m\<rparr>
          else if re_type m = ''response.output_item.added'' then
            (if re_item_type m = ''function_call'' then
               s\<lparr>oa_tools := mput (re_index m) (re_item_name m, []) (oa_tools s),
                 oa_order := oa_order s @ [re_index m]\<rparr>
             else s)
          else if re_type m = ''response.function_call_arguments.delta'' then
            (case mget (oa_tools s) (re_index m) of
               None \<Rightarrow> s
             | Some (n, a) \<Rightarrow> s\<lparr>oa_tools := mput (re_index m) (n, a @ re_delta m) (oa_tools s)\<rparr>)
          else if re_type m = ''response.completed'' then
            (if re_status m = [] then s else s\<lparr>oa_finish := re_status m\<rparr>)
          else s)"

definition DecodeOpenAIResponsesSSE :: "bytes \<Rightarrow> transcript" where
  "DecodeOpenAIResponsesSSE raw = openai_finish (fold responses_step (parseSSE raw) openai_state0)"

section \<open>The Gemini decoder\<close>

record g_call =
  gc_name :: string
  gc_args :: "jval option"

record g_part =
  gp_text :: string
  gp_thought :: bool
  gp_call :: "g_call option"

abbreviation g_call0 :: g_call where "g_call0 \<equiv> \<lparr>gc_name = [], gc_args = None\<rparr>"
abbreviation g_part0 :: g_part where "g_part0 \<equiv> \<lparr>gp_text = [], gp_thought = False, gp_call = None\<rparr>"

record g_cand =
  gd_parts :: "g_part slice"
  gd_finish :: string

definition dec_call :: "g_call jdec" where
  "dec_call = dec_struct
     [(''name'', dec_field gc_name (\<lambda>x r. r\<lparr>gc_name := x\<rparr>) dec_string),
      (''args'', dec_field gc_args (\<lambda>x r. r\<lparr>gc_args := x\<rparr>) dec_raw)]"

definition dec_part :: "g_part jdec" where
  "dec_part = dec_struct
     [(''text'', dec_field gp_text (\<lambda>x r. r\<lparr>gp_text := x\<rparr>) dec_string),
      (''thought'', dec_field gp_thought (\<lambda>x r. r\<lparr>gp_thought := x\<rparr>) dec_bool),
      (''functionCall'', dec_field gp_call (\<lambda>x r. r\<lparr>gp_call := x\<rparr>) (dec_ptr g_call0 dec_call))]"

definition dec_cand :: "g_cand jdec" where
  "dec_cand = dec_struct
     [(''content'', dec_struct
        [(''parts'', dec_field gd_parts (\<lambda>x r. r\<lparr>gd_parts := x\<rparr>) (dec_slice g_part0 dec_part))]),
      (''finishReason'', dec_field gd_finish (\<lambda>x r. r\<lparr>gd_finish := x\<rparr>) dec_string)]"

definition dec_gemini :: "g_cand slice jdec" where
  "dec_gemini = dec_struct [(''candidates'', dec_slice \<lparr>gd_parts = nil_slice, gd_finish = []\<rparr> dec_cand)]"

text \<open>
  splitTopLevelJSONObjects: the scan with its nesting depth, the bytes of the object being read
  (None outside one) and the two flags of the string state.
\<close>

fun split_objects :: "bytes \<Rightarrow> nat \<Rightarrow> bytes option \<Rightarrow> bool \<Rightarrow> bool \<Rightarrow> bytes list" where
  "split_objects [] depth cur inStr esc = []"
| "split_objects (c # s) depth cur inStr esc =
     (let cur' = map_option (\<lambda>o'. o' @ [c]) cur in
      if inStr then
        (if esc then split_objects s depth cur' True False
         else if c = backslash then split_objects s depth cur' True True
         else if c = dquote then split_objects s depth cur' False False
         else split_objects s depth cur' True False)
      else if c = dquote then split_objects s depth cur' True esc
      else if c = CHR ''{'' then
        split_objects s (Suc depth) (if depth = 0 then Some [c] else cur') inStr esc
      else if c = CHR ''}'' then
        (case depth of
           0 \<Rightarrow> split_objects s 0 cur' inStr esc
         | Suc 0 \<Rightarrow> (case cur' of Some o' \<Rightarrow> o' # split_objects s 0 None inStr esc
                     | None \<Rightarrow> split_objects s 0 None inStr esc)
         | Suc d \<Rightarrow> split_objects s d cur' inStr esc)
      else split_objects s depth cur' inStr esc)"

definition splitTopLevelJSONObjects :: "bytes \<Rightarrow> bytes list" where
  "splitTopLevelJSONObjects raw = split_objects raw 0 None False False"

definition gemini_part :: "g_part \<Rightarrow> transcript \<Rightarrow> transcript" where
  "gemini_part p t = (case gp_call p of
     Some fc \<Rightarrow> t\<lparr>t_ToolCalls := t_ToolCalls t @ [\<lparr>tc_Name = gc_name fc, tc_Args = raw_canon (gc_args fc)\<rparr>]\<rparr>
   | None \<Rightarrow> if gp_text p \<noteq> [] \<and> \<not> gp_thought p then t\<lparr>t_Text := t_Text t @ gp_text p\<rparr> else t)"

definition gemini_step :: "bytes \<Rightarrow> transcript \<Rightarrow> transcript" where
  "gemini_step o' t =
     (case unmarshal_ok dec_gemini o' nil_slice of
        None \<Rightarrow> t
      | Some g \<Rightarrow>
          (case elems g of
             [] \<Rightarrow> t
           | c # _ \<Rightarrow>
               let t1 = fold gemini_part (elems (gd_parts c)) t in
               if gd_finish c = [] then t1 else t1\<lparr>t_FinishReason := gd_finish c\<rparr>))"

definition gemini_objects :: "bytes \<Rightarrow> bytes list" where
  "gemini_objects raw =
     (if take 1 (trim_left is_ws raw) = ''['' then splitTopLevelJSONObjects raw
      else filter (\<lambda>d. d \<noteq> []) (map (\<lambda>ev. TrimSpace (snd ev)) (parseSSE raw)))"

abbreviation transcript0 :: transcript where
  "transcript0 \<equiv> \<lparr>t_Role = ''assistant'', t_Text = [], t_ToolCalls = [], t_FinishReason = []\<rparr>"

definition DecodeGeminiSSE :: "bytes \<Rightarrow> transcript" where
  "DecodeGeminiSSE raw = Normalize (fold gemini_step (gemini_objects raw) transcript0)"

section \<open>The Ollama decoder\<close>

record ol_line =
  ol_content :: string
  ol_tools :: "g_call slice"
  ol_done :: string

definition dec_ol_tool :: "g_call jdec" where
  "dec_ol_tool = dec_struct [(''function'', dec_struct
     [(''name'', dec_field gc_name (\<lambda>x r. r\<lparr>gc_name := x\<rparr>) dec_string),
      (''arguments'', dec_field gc_args (\<lambda>x r. r\<lparr>gc_args := x\<rparr>) dec_raw)])]"

definition dec_ollama :: "ol_line jdec" where
  "dec_ollama = dec_struct
     [(''message'', dec_struct
        [(''content'', dec_field ol_content (\<lambda>x r. r\<lparr>ol_content := x\<rparr>) dec_string),
         (''tool_calls'', dec_field ol_tools (\<lambda>x r. r\<lparr>ol_tools := x\<rparr>) (dec_slice g_call0 dec_ol_tool))]),
      (''done_reason'', dec_field ol_done (\<lambda>x r. r\<lparr>ol_done := x\<rparr>) dec_string)]"

definition ollama_step :: "bytes \<Rightarrow> transcript \<Rightarrow> transcript" where
  "ollama_step l t =
     (let line = TrimSpace l in
      if line = [] then t
      else case unmarshal_ok dec_ollama line \<lparr>ol_content = [], ol_tools = nil_slice, ol_done = []\<rparr> of
        None \<Rightarrow> t
      | Some o' \<Rightarrow>
          let t1 = t\<lparr>t_Text := t_Text t @ ol_content o',
                     t_ToolCalls := t_ToolCalls t @ map (\<lambda>tc.
                       \<lparr>tc_Name = gc_name tc, tc_Args = raw_canon (gc_args tc)\<rparr>) (elems (ol_tools o'))\<rparr>
          in if ol_done o' = [] then t1 else t1\<lparr>t_FinishReason := ol_done o'\<rparr>)"

definition DecodeOllamaNDJSON :: "bytes \<Rightarrow> transcript" where
  "DecodeOllamaNDJSON raw = Normalize (fold ollama_step (split_byte CHR 0x0A raw) transcript0)"

end
