(* ===== verification/Wireenc.thy ===== *)
theory Wireenc
  imports Semequal
begin

text \<open>
  Package internal/wireenc, wireenc.go: the wire dialects, their registry, and the encoders that
  write a transcript back as a stream.  A Go map[string]any is a \<open>jmap\<close>, whose members the
  encoder writes sorted by key.  The random numbers of Reframe come from a generator that is a
  parameter: \<open>intn\<close> is Intn of math/rand on the generator's state.
\<close>

section \<open>Envelopes and frames\<close>

datatype provider = Anthropic | OpenAIChat | OpenAIResponses | Gemini | Ollama | OtherProvider int

record envelope =
  e_MessageID :: string
  e_ModelID :: string
  e_ToolCallIDs :: "string list"
  e_InputTokens :: int
  e_OutputTokens :: int

abbreviation envelope0 :: envelope where
  "envelope0 \<equiv> \<lparr>e_MessageID = [], e_ModelID = [], e_ToolCallIDs = [], e_InputTokens = 0, e_OutputTokens = 0\<rparr>"

definition msgID :: "envelope \<Rightarrow> string \<Rightarrow> string" where
  "msgID e def = (if e_MessageID e \<noteq> [] then e_MessageID e else def)"

definition e_model :: "envelope \<Rightarrow> string" where
  "e_model e = (if e_ModelID e \<noteq> [] then e_ModelID e else ''model'')"

definition toolID :: "envelope \<Rightarrow> nat \<Rightarrow> string \<Rightarrow> string" where
  "toolID e i pre =
     (if i < length (e_ToolCallIDs e) \<and> e_ToolCallIDs e ! i \<noteq> [] then e_ToolCallIDs e ! i
      else pre @ itoa (int i))"

definition go_j :: "jval \<Rightarrow> string" where
  "go_j v = trim_right (\<lambda>c. c = CHR 0x0A) (jencode False v @ ''\<newline>'')"

definition frame :: "string \<Rightarrow> string \<Rightarrow> bytes" where
  "frame event data =
     (if event \<noteq> [] then ''event: '' @ event @ ''\<newline>'' else []) @ ''data: '' @ data @ ''\<newline>\<newline>''"

text \<open>A Go int literal, and addition on a 64-bit int.\<close>

abbreviation jint :: "int \<Rightarrow> jval" where
  "jint i \<equiv> JNum (itoa i)"

definition add64 :: "int \<Rightarrow> int \<Rightarrow> int" where
  "add64 a b = (a + b + 2 ^ 63) mod 2 ^ 64 - 2 ^ 63"

definition canonArgs :: "string \<Rightarrow> string" where
  "canonArgs s = (case Canonicalize s of Some c \<Rightarrow> c | None \<Rightarrow> s)"

text \<open>
  argsRaw: the RawMessage is represented by the value of its text; the encoder writes a raw message
  compacted, and canonical text is compact already.
\<close>

definition argsRaw :: "string \<Rightarrow> jval" where
  "argsRaw s = (let c = canonArgs s in
     if c = [] then JObj [] else (case jparse c of None \<Rightarrow> JObj [] | Some v \<Rightarrow> v))"

section \<open>The encoders\<close>

definition message_start :: "envelope \<Rightarrow> jval" where
  "message_start env = jmap
     [(''type'', JStr ''message_start''),
      (''message'', jmap
        [(''id'', JStr (msgID env ''msg_0000'')), (''type'', JStr ''message''), (''role'', JStr ''assistant''),
         (''model'', JStr (e_model env)), (''content'', JArr []), (''stop_reason'', JNull), (''stop_sequence'', JNull),
         (''usage'', jmap [(''input_tokens'', jint (e_InputTokens env)), (''output_tokens'', jint 1)])])]"

definition block_start :: "nat \<Rightarrow> jval \<Rightarrow> jval" where
  "block_start idx b = jmap
     [(''type'', JStr ''content_block_start''), (''index'', jint (int idx)), (''content_block'', b)]"

definition block_delta :: "nat \<Rightarrow> jval \<Rightarrow> jval" where
  "block_delta idx d = jmap
     [(''type'', JStr ''content_block_delta''), (''index'', jint (int idx)), (''delta'', d)]"

definition block_stop :: "nat \<Rightarrow> jval" where
  "block_stop idx = jmap [(''type'', JStr ''content_block_stop''), (''index'', jint (int idx))]"

text \<open>The frames of a text block whose text arrives in the given chunks.\<close>

definition text_frames :: "nat \<Rightarrow> string list \<Rightarrow> (string \<times> jval) list" where
  "text_frames idx pieces =
     (''content_block_start'', block_start idx (jmap [(''type'', JStr ''text''), (''text'', JStr [])])) #
     map (\<lambda>c. (''content_block_delta'', block_delta idx (jmap [(''type'', JStr ''text_delta''), (''text'', JStr c)]))) pieces
     @ [(''content_block_stop'', block_stop idx)]"

text \<open>The frames of the tool call \<open>i\<close> of the transcript as block \<open>idx\<close>.\<close>

definition tool_frames :: "envelope \<Rightarrow> nat \<Rightarrow> nat \<Rightarrow> tool_call \<Rightarrow> (string \<times> jval) list" where
  "tool_frames env idx i tc =
     [(''content_block_start'', block_start idx (jmap
         [(''type'', JStr ''tool_use''), (''id'', JStr (toolID env i ''toolu_'')), (''name'', JStr (tc_Name tc)),
          (''input'', jmap [])])),
      (''content_block_delta'', block_delta idx (jmap
         [(''type'', JStr ''input_json_delta''), (''partial_json'', JStr (canonArgs (tc_Args tc)))])),
      (''content_block_stop'', block_stop idx)]"

fun tools_frames :: "envelope \<Rightarrow> nat \<Rightarrow> (nat \<times> tool_call) list \<Rightarrow> (string \<times> jval) list" where
  "tools_frames env idx [] = []"
| "tools_frames env idx ((i, tc) # tcs) = tool_frames env idx i tc @ tools_frames env (Suc idx) tcs"

definition message_end :: "envelope \<Rightarrow> transcript \<Rightarrow> (string \<times> jval) list" where
  "message_end env t =
     [(''message_delta'', jmap
         [(''type'', JStr ''message_delta''),
          (''delta'', jmap ((''stop_sequence'', JNull) #
             (if t_FinishReason t \<noteq> [] then [(''stop_reason'', JStr (t_FinishReason t))] else []))),
          (''usage'', jmap [(''output_tokens'', jint (e_OutputTokens env))])]),
      (''message_stop'', jmap [(''type'', JStr ''message_stop'')])]"

definition write_frames_j :: "(string \<times> jval) list \<Rightarrow> bytes" where
  "write_frames_j fs = concat (map (\<lambda>(e, v). frame e (go_j v)) fs)"

text \<open>The frames of an Anthropic stream, from the text chunks and the tool calls with their numbers.\<close>

definition anthropic_frames :: "envelope \<Rightarrow> transcript \<Rightarrow> string list \<Rightarrow> (nat \<times> tool_call) list \<Rightarrow> (string \<times> jval) list" where
  "anthropic_frames env t pieces calls =
     [(''message_start'', message_start env)] @
     (if t_Text t \<noteq> [] then text_frames 0 pieces else []) @
     tools_frames env (if t_Text t \<noteq> [] then 1 else 0) calls @
     message_end env t"

definition EncodeAnthropicSSE :: "transcript \<Rightarrow> envelope \<Rightarrow> bytes" where
  "EncodeAnthropicSSE t0 env = (let t = Normalize t0 in
     write_frames_j (anthropic_frames env t [t_Text t] (enumerate 0 (t_ToolCalls t))))"

definition oa_chunk :: "envelope \<Rightarrow> jval \<Rightarrow> jval \<Rightarrow> string \<times> jval" where
  "oa_chunk env delta finish = ([], jmap
     [(''id'', JStr (msgID env ''chatcmpl_0000'')), (''object'', JStr ''chat.completion.chunk''), (''created'', jint 0),
      (''model'', JStr (e_model env)),
      (''choices'', JArr [jmap [(''index'', jint 0), (''delta'', delta), (''finish_reason'', finish)]])])"

definition oa_tool_frames :: "envelope \<Rightarrow> nat \<times> tool_call \<Rightarrow> (string \<times> jval) list" where
  "oa_tool_frames env itc = (case itc of (i, tc) \<Rightarrow>
     [oa_chunk env (jmap [(''tool_calls'', JArr [jmap
        [(''index'', jint (int i)), (''id'', JStr (toolID env i ''call_'')), (''type'', JStr ''function''),
         (''function'', jmap [(''name'', JStr (tc_Name tc)), (''arguments'', JStr [])])]])]) JNull,
      oa_chunk env (jmap [(''tool_calls'', JArr [jmap
        [(''index'', jint (int i)),
         (''function'', jmap [(''arguments'', JStr (canonArgs (tc_Args tc)))])]])]) JNull])"

definition oa_usage :: "envelope \<Rightarrow> (string \<times> jval) list" where
  "oa_usage env =
     (if 0 < e_InputTokens env \<or> 0 < e_OutputTokens env then
        [([], jmap
          [(''id'', JStr (msgID env ''chatcmpl_0000'')), (''object'', JStr ''chat.completion.chunk''), (''created'', jint 0),
           (''model'', JStr (e_model env)), (''choices'', JArr []),
           (''usage'', jmap
             [(''prompt_tokens'', jint (e_InputTokens env)), (''completion_tokens'', jint (e_OutputTokens env)),
              (''total_tokens'', jint (add64 (e_InputTokens env) (e_OutputTokens env)))])])]
      else [])"

definition openai_frames :: "envelope \<Rightarrow> transcript \<Rightarrow> (string \<times> jval) list" where
  "openai_frames env t =
     [oa_chunk env (jmap [(''role'', JStr ''assistant''), (''content'', JStr [])]) JNull] @
     (if t_Text t \<noteq> [] then [oa_chunk env (jmap [(''content'', JStr (t_Text t))]) JNull] else []) @
     concat (map (oa_tool_frames env) (enumerate 0 (t_ToolCalls t))) @
     [oa_chunk env (jmap []) (if t_FinishReason t \<noteq> [] then JStr (t_FinishReason t) else JNull)] @
     oa_usage env"

definition EncodeOpenAISSE :: "transcript \<Rightarrow> envelope \<Rightarrow> bytes" where
  "EncodeOpenAISSE t0 env = write_frames_j (openai_frames env (Normalize t0)) @ ''data: [DONE]\<newline>\<newline>''"

definition resp_text_frames :: "string \<Rightarrow> (string \<times> jval) list" where
  "resp_text_frames txt =
     [(''response.output_item.added'', jmap
        [(''type'', JStr ''response.output_item.added''), (''output_index'', jint 0),
         (''item'', jmap [(''type'', JStr ''message''), (''id'', JStr ''msg_0''), (''role'', JStr ''assistant''),
                           (''content'', JArr [])])]),
      (''response.output_text.delta'', jmap
        [(''type'', JStr ''response.output_text.delta''), (''item_id'', JStr ''msg_0''), (''output_index'', jint 0),
         (''delta'', JStr txt)])]"

fun resp_tools_frames :: "envelope \<Rightarrow> nat \<Rightarrow> (nat \<times> tool_call) list \<Rightarrow> (string \<times> jval) list" where
  "resp_tools_frames env oi [] = []"
| "resp_tools_frames env oi ((i, tc) # tcs) =
     [(''response.output_item.added'', jmap
        [(''type'', JStr ''response.output_item.added''), (''output_index'', jint (int oi)),
         (''item'', jmap [(''type'', JStr ''function_call''), (''id'', JStr (toolID env i ''fc_'')),
            (''call_id'', JStr (''call_'' @ itoa (int i))), (''name'', JStr (tc_Name tc)), (''arguments'', JStr [])])]),
      (''response.function_call_arguments.delta'', jmap
        [(''type'', JStr ''response.function_call_arguments.delta''), (''item_id'', JStr (toolID env i ''fc_'')),
         (''output_index'', jint (int oi)), (''delta'', JStr (canonArgs (tc_Args tc)))])]
     @ resp_tools_frames env (Suc oi) tcs"

definition resp_completed :: "envelope \<Rightarrow> transcript \<Rightarrow> jval" where
  "resp_completed env t = jmap
     [(''type'', JStr ''response.completed''),
      (''response'', jmap
        ([(''id'', JStr (msgID env ''resp_0000'')), (''status'', JStr (t_FinishReason t))] @
         (if 0 < e_InputTokens env \<or> 0 < e_OutputTokens env then
            [(''usage'', jmap
               [(''input_tokens'', jint (e_InputTokens env)), (''output_tokens'', jint (e_OutputTokens env)),
                (''total_tokens'', jint (add64 (e_InputTokens env) (e_OutputTokens env)))])]
          else [])))]"

definition responses_frames :: "envelope \<Rightarrow> transcript \<Rightarrow> (string \<times> jval) list" where
  "responses_frames env t =
     [(''response.created'', jmap [(''type'', JStr ''response.created''),
        (''response'', jmap [(''id'', JStr (msgID env ''resp_0000'')), (''status'', JStr ''in_progress'')])])] @
     (if t_Text t \<noteq> [] then resp_text_frames (t_Text t) else []) @
     resp_tools_frames env (if t_Text t \<noteq> [] then 1 else 0) (enumerate 0 (t_ToolCalls t)) @
     [(''response.completed'', resp_completed env t)]"

definition EncodeOpenAIResponsesSSE :: "transcript \<Rightarrow> envelope \<Rightarrow> bytes" where
  "EncodeOpenAIResponsesSSE t0 env = write_frames_j (responses_frames env (Normalize t0))"

definition ollama_msg :: "transcript \<Rightarrow> jval" where
  "ollama_msg t = jmap
     ([(''role'', JStr ''assistant''), (''content'', JStr (t_Text t))] @
      (if t_ToolCalls t \<noteq> [] then
         [(''tool_calls'', JArr (map (\<lambda>tc. jmap [(''function'', jmap
            [(''name'', JStr (tc_Name tc)), (''arguments'', argsRaw (tc_Args tc))])]) (t_ToolCalls t)))]
       else []))"

definition ollama_done :: "envelope \<Rightarrow> transcript \<Rightarrow> jval" where
  "ollama_done env t = jmap
     ([(''model'', JStr (e_model env)),
       (''message'', jmap [(''role'', JStr ''assistant''), (''content'', JStr [])]), (''done'', JBool True)] @
      (if t_FinishReason t \<noteq> [] then [(''done_reason'', JStr (t_FinishReason t))] else []))"

definition EncodeOllamaNDJSON :: "transcript \<Rightarrow> envelope \<Rightarrow> bytes" where
  "EncodeOllamaNDJSON t0 env = (let t = Normalize t0 in
     go_j (jmap [(''model'', JStr (e_model env)), (''message'', ollama_msg t), (''done'', JBool False)]) @ ''\<newline>'' @
     go_j (ollama_done env t) @ ''\<newline>'')"

definition gemini_parts :: "transcript \<Rightarrow> jval list" where
  "gemini_parts t =
     (if t_Text t \<noteq> [] then [jmap [(''text'', JStr (t_Text t))]] else []) @
     map (\<lambda>tc. jmap [(''functionCall'', jmap
       [(''name'', JStr (tc_Name tc)), (''args'', argsRaw (tc_Args tc))])]) (t_ToolCalls t)"

definition gemini_json :: "envelope \<Rightarrow> transcript \<Rightarrow> jval" where
  "gemini_json env t = jmap
     [(''candidates'', JArr [jmap
        ([(''content'', jmap [(''role'', JStr ''model''),
            (''parts'', if gemini_parts t = [] then JNull else JArr (gemini_parts t))]),
          (''index'', jint 0)] @
         (if t_FinishReason t \<noteq> [] then [(''finishReason'', JStr (t_FinishReason t))] else []))]),
      (''modelVersion'', JStr (e_model env)), (''responseId'', JStr (msgID env ''gemini_0000'')),
      (''usageMetadata'', jmap
        [(''promptTokenCount'', jint (e_InputTokens env)), (''candidatesTokenCount'', jint (e_OutputTokens env))])]"

definition EncodeGeminiSSE :: "transcript \<Rightarrow> envelope \<Rightarrow> bytes" where
  "EncodeGeminiSSE t0 env = frame [] (go_j (gemini_json env (Normalize t0)))"

section \<open>The registry of dialects\<close>

text \<open>
  The response side of a registry entry (the request side is in Wirereq).  A decoder gives the
  transcript and the text of its error, which only the Anthropic one has.
\<close>

record dialect =
  d_provider :: provider
  d_name :: string
  d_seedSupported :: bool
  d_urlMarkers :: "string list"
  d_requestPath :: string
  d_defaultUpstream :: string
  d_decode :: "bytes \<Rightarrow> transcript \<times> string option"
  d_encode :: "transcript \<Rightarrow> envelope \<Rightarrow> bytes"

definition dialects :: "dialect list" where
  "dialects =
     [\<lparr>d_provider = Gemini, d_name = ''gemini'', d_seedSupported = False,
       d_urlMarkers = ['':streamGenerateContent'', '':generateContent''],
       d_requestPath = ''/v1beta/models/gemini:streamGenerateContent'',
       d_defaultUpstream = ''https://generativelanguage.googleapis.com'',
       d_decode = (\<lambda>b. (DecodeGeminiSSE b, None)), d_encode = EncodeGeminiSSE\<rparr>,
      \<lparr>d_provider = Ollama, d_name = ''ollama'', d_seedSupported = False,
       d_urlMarkers = [''/api/chat''], d_requestPath = ''/api/chat'',
       d_defaultUpstream = ''http://localhost:11434'',
       d_decode = (\<lambda>b. (DecodeOllamaNDJSON b, None)), d_encode = EncodeOllamaNDJSON\<rparr>,
      \<lparr>d_provider = OpenAIResponses, d_name = ''openai-responses'', d_seedSupported = False,
       d_urlMarkers = [''/responses''], d_requestPath = ''/v1/responses'',
       d_defaultUpstream = ''https://api.openai.com'',
       d_decode = (\<lambda>b. (DecodeOpenAIResponsesSSE b, None)), d_encode = EncodeOpenAIResponsesSSE\<rparr>,
      \<lparr>d_provider = OpenAIChat, d_name = ''openai-chat'', d_seedSupported = True,
       d_urlMarkers = [''/chat/completions''], d_requestPath = ''/v1/chat/completions'',
       d_defaultUpstream = [],
       d_decode = (\<lambda>b. (DecodeOpenAISSE b, None)), d_encode = EncodeOpenAISSE\<rparr>,
      \<lparr>d_provider = Anthropic, d_name = ''anthropic'', d_seedSupported = False,
       d_urlMarkers = [], d_requestPath = ''/v1/messages'',
       d_defaultUpstream = ''https://api.anthropic.com'',
       d_decode = DecodeAnthropicSSE, d_encode = EncodeAnthropicSSE\<rparr>]"

definition dialectFor :: "provider \<Rightarrow> dialect" where
  "dialectFor p = (case find (\<lambda>d. d_provider d = p) dialects of Some d \<Rightarrow> d | None \<Rightarrow> last dialects)"

definition ProviderForURL :: "string \<Rightarrow> provider" where
  "ProviderForURL url =
     (case find (\<lambda>d. list_ex (str_contains url) (d_urlMarkers d)) dialects of
        Some d \<Rightarrow> d_provider d | None \<Rightarrow> Anthropic)"

definition p_Name :: "provider \<Rightarrow> string" where
  "p_Name p = d_name (dialectFor p)"

definition SeedSupported :: "provider \<Rightarrow> bool" where
  "SeedSupported p = d_seedSupported (dialectFor p)"

definition RequestPath :: "provider \<Rightarrow> string" where
  "RequestPath p = d_requestPath (dialectFor p)"

definition UpstreamForURL :: "string \<Rightarrow> string option" where
  "UpstreamForURL url =
     (case find (\<lambda>d. d_defaultUpstream d \<noteq> [] \<and> list_ex (str_contains url) (d_urlMarkers d)) dialects of
        Some d \<Rightarrow> Some (d_defaultUpstream d)
      | None \<Rightarrow> if str_contains url ''/v1/messages'' then Some (d_defaultUpstream (dialectFor Anthropic)) else None)"

definition ProviderByName :: "string \<Rightarrow> provider option" where
  "ProviderByName n = map_option d_provider (find (\<lambda>d. d_name d = n) dialects)"

definition ProviderNames :: "string list" where
  "ProviderNames = map d_name dialects"

definition w_Encode :: "provider \<Rightarrow> transcript \<Rightarrow> envelope \<Rightarrow> bytes" where
  "w_Encode p t env = d_encode (dialectFor p) t env"

definition w_Decode :: "provider \<Rightarrow> bytes \<Rightarrow> transcript \<times> string option" where
  "w_Decode p raw = d_decode (dialectFor p) raw"

record round_trip =
  rt_Decoded :: transcript
  rt_Redecoded :: transcript
  rt_Stable :: bool
  rt_Deterministic :: bool

text \<open>The zero transcript that a result holds when the loop is not run.\<close>

abbreviation no_transcript :: transcript where
  "no_transcript \<equiv> \<lparr>t_Role = [], t_Text = [], t_ToolCalls = [], t_FinishReason = []\<rparr>"

definition RoundTrip_codec :: "provider \<Rightarrow> bytes \<Rightarrow> round_trip \<times> string option" where
  "RoundTrip_codec p raw =
     (case w_Decode p raw of
        (t1, Some err) \<Rightarrow>
          (\<lparr>rt_Decoded = t1, rt_Redecoded = no_transcript, rt_Stable = False, rt_Deterministic = False\<rparr>, Some err)
      | (t1, None) \<Rightarrow>
          (let a = w_Encode p t1 envelope0; b = w_Encode p t1 envelope0 in
           case w_Decode p a of
             (t2, err2) \<Rightarrow> (\<lparr>rt_Decoded = t1, rt_Redecoded = t2, rt_Stable = t_Equal t1 t2, rt_Deterministic = (a = b)\<rparr>, err2)))"

section \<open>Reframing\<close>

text \<open>\<open>intn g n\<close>: a random number below \<open>n\<close> and the generator's next state.\<close>

type_synonym 'g rng = "'g \<Rightarrow> nat \<Rightarrow> nat \<times> 'g"

text \<open>Rand.Perm.\<close>

fun rng_perm :: "'g rng \<Rightarrow> nat \<Rightarrow> 'g \<Rightarrow> nat list \<times> 'g" where
  "rng_perm intn 0 g = ([], g)"
| "rng_perm intn (Suc i) g =
     (case rng_perm intn i g of
        (m, g') \<Rightarrow> (case intn g' (Suc i) of
          (j, g'') \<Rightarrow> ((m @ [i])[i := (m @ [i]) ! j, j := i], g'')))"

fun draw_points :: "'g rng \<Rightarrow> nat \<Rightarrow> nat \<Rightarrow> 'g \<Rightarrow> nat list \<times> 'g" where
  "draw_points intn 0 n g = ([], g)"
| "draw_points intn (Suc k) n g =
     (case intn g (n - 1) of (x, g') \<Rightarrow>
      case draw_points intn k n g' of (ps, g'') \<Rightarrow> ((1 + x) # ps, g''))"

text \<open>string(r[a:b]) of a rune slice, cut at the points.\<close>

definition enc_runes :: "nat list \<Rightarrow> string" where
  "enc_runes rs = concat (map encode_rune rs)"

fun cut_at :: "nat list \<Rightarrow> nat list \<Rightarrow> nat \<Rightarrow> nat list \<Rightarrow> string list" where
  "cut_at points [] p cur = [enc_runes cur]"
| "cut_at points (r # rs) p cur =
     (if 0 < p \<and> p \<in> set points then enc_runes cur # cut_at points rs (Suc p) [r]
      else cut_at points rs (Suc p) (cur @ [r]))"

definition splitRunes :: "'g rng \<Rightarrow> string \<Rightarrow> 'g \<Rightarrow> string list \<times> 'g" where
  "splitRunes intn s g =
     (let r = map fst (runes_of s) in
      if length r < 2 then ([s], g)
      else case intn g 3 of (c, g') \<Rightarrow>
           case draw_points intn (c + 1) (length r) g' of (ps, g'') \<Rightarrow> (cut_at ps r 0 [], g''))"

definition reframeAnthropic :: "'g rng \<Rightarrow> transcript \<Rightarrow> envelope \<Rightarrow> 'g \<Rightarrow> bytes \<times> 'g" where
  "reframeAnthropic intn t env g =
     (case (if t_Text t \<noteq> [] then splitRunes intn (t_Text t) g else ([], g)) of (pieces, g1) \<Rightarrow>
      case rng_perm intn (length (t_ToolCalls t)) g1 of (order, g2) \<Rightarrow>
        (write_frames_j (anthropic_frames env t pieces (map (\<lambda>ti. (ti, t_ToolCalls t ! ti)) order)), g2))"

fun reframe_loop :: "'g rng \<Rightarrow> provider \<Rightarrow> transcript \<Rightarrow> nat \<Rightarrow> 'g \<Rightarrow> bytes list" where
  "reframe_loop intn p t 0 g = []"
| "reframe_loop intn p t (Suc n) g =
     (case intn g (2 ^ 30) of (m, g1) \<Rightarrow>
      case intn g1 500 of (o', g2) \<Rightarrow>
      let env = envelope0\<lparr>e_MessageID := ''msg_reframe_'' @ itoa (int m), e_OutputTokens := int o'\<rparr> in
      if p = Anthropic then
        (case reframeAnthropic intn t env g2 of (b, g3) \<Rightarrow> b # reframe_loop intn p t n g3)
      else w_Encode p t env # reframe_loop intn p t n g2)"

text \<open>\<open>g\<close> is the state of the generator after seeding.\<close>

definition Reframe :: "'g rng \<Rightarrow> provider \<Rightarrow> transcript \<Rightarrow> 'g \<Rightarrow> nat \<Rightarrow> bytes list" where
  "Reframe intn p t g n = reframe_loop intn p (Normalize t) n g"

end
