(* ===== verification/Codec.thy ===== *)
theory Codec
  imports Wireenc
begin

text \<open>
  The codec of the wire dialects: what every encoder of Wireenc writes, the decoder of the same
  dialect reads back.  The first part reads numbers and frames back, the second the documents of
  each encoder, the third follows the decoders over the frames.
\<close>

section \<open>Numbers\<close>

lemma digit_char: "d < 10 \<Longrightarrow> is_digit (digit_char d) \<and> digit_val (digit_char d) = d"
  by (simp add: is_digit_def digit_val_def digit_char_def byte_of_char_of)

lemma nat_dec_digits: "list_all is_digit (nat_dec n) \<and> nat_dec n \<noteq> []"
proof (induction n rule: nat_dec.induct)
  case (1 n)
  then show ?case using digit_char [of n] digit_char [of "n mod 10"]
    by (subst (1 2) nat_dec.simps) auto
qed

lemma dec_val_snoc: "dec_val (s @ [c]) = 10 * dec_val s + digit_val c"
  by (simp add: dec_val_def)

lemma dec_val_nat_dec: "dec_val (nat_dec n) = n"
proof (induction n rule: nat_dec.induct)
  case (1 n)
  show ?case
  proof (cases "n < 10")
    case True
    then show ?thesis using digit_char [of n] by (subst nat_dec.simps) (simp add: dec_val_def)
  next
    case False
    then show ?thesis using 1 digit_char [of "n mod 10"]
      by (subst nat_dec.simps) (simp add: dec_val_snoc)
  qed
qed

lemma hd_nat_dec: "0 < n \<Longrightarrow> hd (nat_dec n) \<noteq> CHR ''0''"
proof (induction n rule: nat_dec.induct)
  case (1 n)
  have d: "0 < m \<Longrightarrow> m < 10 \<Longrightarrow> digit_char m \<noteq> CHR ''0''" for m
    using digit_char [of m] by (auto simp: digit_val_def)
  show ?case
  proof (cases "n < 10")
    case True
    then show ?thesis using 1 d by (subst nat_dec.simps) simp
  next
    case False
    then have "hd (nat_dec (n div 10)) \<noteq> CHR ''0''" using 1 by simp
    then show ?thesis using False nat_dec_digits [of "n div 10"] by (subst nat_dec.simps) simp
  qed
qed

lemma digits_only: "list_all is_digit s \<Longrightarrow> takeWhile is_digit s = s \<and> dropWhile is_digit s = []"
  by (induction s) auto

lemma jnum_int_nat_dec: "jnum_int (nat_dec n) = Some (nat_dec n, [])"
proof (cases n)
  case 0
  then have "nat_dec n = ''0''" by (simp add: nat_dec.simps digit_char_def char_of_def bit_0)
  then show ?thesis by (simp add: jnum_int_def)
next
  case (Suc k)
  obtain c t where "nat_dec n = c # t" using nat_dec_digits [of n] by (cases "nat_dec n") auto
  then show ?thesis using nat_dec_digits [of n] hd_nat_dec [of n] digits_only [of "nat_dec n"] Suc
    by (auto simp: jnum_int_def jdigits_def)
qed

lemma jnum_itoa [simp]: "jnum (itoa i) = Some (itoa i, [])"
proof -
  have m: "jnum_minus (nat_dec n) = ([], nat_dec n)" for n
    using nat_dec_digits [of n] by (cases "nat_dec n") (auto simp: jnum_minus_def is_digit_def)
  have m': "jnum_minus (CHR ''-'' # x) = (''-'', x)" for x
    by (simp add: jnum_minus_def)
  show ?thesis
    by (simp add: itoa_def jnum_def m m' jnum_int_nat_dec jnum_frac_def jnum_exp_def)
qed

lemma atoi_itoa:
  assumes "- (2 ^ 63) \<le> i" "i < 2 ^ 63"
  shows "atoi (itoa i) = Some i"
proof (cases "i < 0")
  case True
  then show ?thesis using assms nat_dec_digits [of "nat (- i)"]
    by (simp add: itoa_def atoi_def dec_val_nat_dec Let_def)
next
  case False
  obtain c t where n: "nat_dec (nat i) = c # t" "is_digit c"
    using nat_dec_digits [of "nat i"] by (cases "nat_dec (nat i)") auto
  then have "c \<noteq> CHR ''-''" "c \<noteq> CHR ''+''" by (auto simp: is_digit_def)
  then show ?thesis using False assms n nat_dec_digits [of "nat i"] dec_val_nat_dec [of "nat i"]
    by (simp add: itoa_def atoi_def Let_def)
qed

lemma valid_utf8_append_ascii:
  "\<forall>c \<in> set s. byte_of c < (128::nat) \<Longrightarrow> valid_utf8 (s @ t) = valid_utf8 t"
  by (induction s) (auto simp: valid_utf8_ascii simp del: valid_utf8.simps(2))

lemma itoa_ascii: "c \<in> set (itoa i) \<Longrightarrow> byte_of c < (128::nat)"
  using nat_dec_digits [of "nat i"] nat_dec_digits [of "nat (- i)"]
  by (auto simp: itoa_def is_digit_def list_all_iff split: if_splits)

lemma valid_utf8_itoa [simp]: "valid_utf8 (itoa i)"
  using valid_utf8_all_ascii itoa_ascii by blast

section \<open>Reading frames back\<close>

lemma go_j_eq: "jwf v \<Longrightarrow> go_j v = jencode False v"
  using canon_encode_eq [of v] by (simp add: go_j_def canon_encode_def)

lemma unmarshal_line:
  assumes "jwf v" "jdepth v \<le> max_nesting"
  shows "unmarshal_ok d (go_j v @ ''\<newline>'') x = (case d v x of (y, e) \<Rightarrow> if e then None else Some y)"
proof -
  have "jprefix (jencode False v @ ''\<newline>'') = Some (v, ''\<newline>'')"
    using assms by (intro jprefix_jencode) (auto simp: ndelim_def is_digit_def)
  then have "jparse (jencode False v @ ''\<newline>'') = Some v" by (simp add: jparse_def is_ws_def)
  then show ?thesis using assms by (simp add: unmarshal_ok_def Unmarshal_def go_j_eq)
qed

lemma scan_lines_line:
  assumes "CHR 0x0A \<notin> set l" "length l < max_token"
  shows "scan_lines (l @ CHR 0x0A # r) = drop_cr l # scan_lines r"
proof -
  have t: "takeWhile (\<lambda>x. x \<noteq> CHR 0x0A) (l @ CHR 0x0A # r) = l" using assms(1)
    by (subst takeWhile_append2) auto
  obtain c s where c: "l @ CHR 0x0A # r = c # s" by (cases l) auto
  have "scan_lines (c # s) = drop_cr l # scan_lines (drop (Suc (length l)) (c # s))"
    using t assms(2) unfolding c by (subst scan_lines.simps(2)) (simp add: Let_def too_long_iff del: takeWhile.simps)
  moreover have "drop (Suc (length l)) (c # s) = r" unfolding c [symmetric] by simp
  ultimately show ?thesis unfolding c by simp
qed

text \<open>What a frame must be for the line reader: plain text, and lines that fit the buffer.\<close>

definition plain_line :: "nat \<Rightarrow> string \<Rightarrow> bool" where
  "plain_line n s = ((\<forall>c \<in> set s. (32::nat) \<le> byte_of c) \<and> n + length s < max_token)"

lemma plain_lineD: "plain_line n s \<Longrightarrow> CHR 0x0A \<notin> set s \<and> CHR 0x0D \<notin> set s \<and> n + length s < max_token"
  by (auto simp: plain_line_def)

definition sse_run :: "bytes \<Rightarrow> sse_state \<Rightarrow> sse_state" where
  "sse_run raw s = fold sse_line (scan_lines raw) s"

lemma sse_run_line:
  assumes "plain_line 0 l"
  shows "sse_run (l @ CHR 0x0A # r) s = sse_run r (sse_line l s)"
proof -
  have "l \<noteq> [] \<Longrightarrow> last l \<noteq> CHR 0x0D" using plain_lineD [OF assms] last_in_set [of l] by metis
  then have "drop_cr l = l" by (auto simp: drop_cr_def)
  then show ?thesis using plain_lineD [OF assms] by (simp add: sse_run_def scan_lines_line)
qed

lemma sse_line_event: "sse_line (''event: '' @ e) s = s\<lparr>ss_event := e\<rparr>"
  by (simp add: sse_line_def cut_byte_def)

lemma sse_line_data: "sse_line (''data: '' @ d) s = s\<lparr>ss_data := ss_data s @ d @ ''\<newline>''\<rparr>"
  by (simp add: sse_line_def cut_byte_def)

abbreviation sse0 :: "sse_event list \<Rightarrow> sse_state" where
  "sse0 evs \<equiv> \<lparr>ss_event = [], ss_data = [], ss_events = evs\<rparr>"

lemma sse_run_frame:
  assumes "plain_line 6 d" "plain_line 7 e"
  shows "sse_run (frame e d @ r) (sse0 evs) = sse_run r (sse0 (evs @ [(e, d @ ''\<newline>'')]))"
proof -
  have p: "plain_line 0 (''data: '' @ d)" "plain_line 0 (''event: '' @ e)" "plain_line 0 []"
    using assms by (auto simp: plain_line_def max_token_def)
  have d: "sse_run (''data: '' @ d @ CHR 0x0A # CHR 0x0A # r) s =
      sse_run r (sse_line [] (sse_line (''data: '' @ d) s))" for s
    using sse_run_line [OF p(1), of "CHR 0x0A # r"] sse_run_line [OF p(3), of r] by simp
  have e: "sse_run (''event: '' @ e @ CHR 0x0A # r') s = sse_run r' (s\<lparr>ss_event := e\<rparr>)" for r' s
    using sse_run_line [OF p(2), of r'] by (simp add: sse_line_event [simplified])
  have f: "sse_line [] (sse_line (''data: '' @ d) (\<lparr>ss_event = e, ss_data = [], ss_events = evs\<rparr>)) =
      sse0 (evs @ [(e, d @ ''\<newline>'')])"
    unfolding sse_line_data by (simp add: sse_line_def sse_flush_def)
  show ?thesis
    using d e f by (cases "e = []") (simp_all add: frame_def)
qed

lemma sse_run_frames:
  assumes "\<forall>(e, d) \<in> set fs. plain_line 6 d \<and> plain_line 7 e"
  shows "sse_run (concat (map (\<lambda>(e, d). frame e d) fs) @ r) (sse0 evs) =
    sse_run r (sse0 (evs @ map (\<lambda>(e, d). (e, d @ ''\<newline>'')) fs))"
  using assms
proof (induction fs arbitrary: evs)
  case (Cons f fs)
  then show ?case by (cases f) (auto simp: sse_run_frame)
qed simp

lemma parseSSE_frames:
  assumes "\<forall>(e, d) \<in> set fs. plain_line 6 d \<and> plain_line 7 e"
  shows "parseSSE (concat (map (\<lambda>(e, d). frame e d) fs)) = map (\<lambda>(e, d). (e, d @ ''\<newline>'')) fs"
  using sse_run_frames [OF assms, of "[]" "[]"]
  by (simp add: parseSSE_def sse_run_def [symmetric]) (simp add: sse_run_def sse_flush_def)

section \<open>Text that is valid UTF-8\<close>

lemma valid_utf8_append: "valid_utf8 x \<Longrightarrow> valid_utf8 (x @ y) = valid_utf8 y"
proof (induction x rule: valid_utf8.induct)
  case (2 c s)
  let ?n = "rune_len (c # s)"
  have n: "?n \<noteq> 0" "valid_utf8 (drop (?n - 1) s)" using 2 by auto
  then have "rune_len ((c # s) @ y) = ?n" by (intro rune_len_append)
  moreover have "?n - 1 \<le> length s" using rune_len_le [of "c # s"] by simp
  ultimately show ?case using 2 n by simp
qed simp

lemma hexd_ascii: "n < 16 \<Longrightarrow> byte_of (hexd n) < (128::nat)"
  by (simp add: hexd_def byte_of_char_of)

lemma valid_utf8_quote_ascii:
  assumes "byte_of c < (128::nat)"
  shows "valid_utf8 (quote_ascii h c)"
proof -
  have "byte_of c div 16 < (16::nat)" using assms by linarith
  then have "byte_of (hexd (byte_of c div 16)) < (128::nat)" "byte_of (hexd (byte_of c mod 16)) < (128::nat)"
    by (auto intro: hexd_ascii)
  then have "list_all (\<lambda>c. byte_of c < (128::nat)) (quote_ascii h c)"
    using assms by (simp add: quote_ascii_def)
  then show ?thesis by (intro valid_utf8_all_ascii) (simp add: list_all_iff)
qed

lemma valid_utf8_quote_body: "valid_utf8 (quote_body h s)"
proof (induction h s rule: quote_body.induct)
  case (2 h c s)
  let ?n = "rune_len (c # s)" and ?x = "c # take (rune_len (c # s) - 1) s"
  have n: "?n \<noteq> 0 \<Longrightarrow> valid_utf8 ?x"
  proof -
    assume "?n \<noteq> 0"
    then have "rune_len ?x = length ?x"
      using rune_len_take [of "c # s"] rune_len_le [of "c # s"] by (simp add: take_Cons')
    then show "valid_utf8 ?x" using valid_utf8_rune [of ?x "[]"] by simp
  qed
  have u: "valid_utf8 ([backslash] @ ''u202'' @ [hexd (k mod 16)])" for k
    by (rule valid_utf8_all_ascii) (use hexd_ascii [of "k mod 16"] in auto)
  have u': "valid_utf8 ([backslash] @ ''ufffd'')" by (rule valid_utf8_all_ascii) auto
  show ?case
  proof (cases "byte_of c < (128::nat)")
    case True
    then show ?thesis using 2 by (simp add: quote_body.simps(2) valid_utf8_append valid_utf8_quote_ascii)
  next
    case False
    show ?thesis
    proof (cases "?n = 0")
      case True
      then show ?thesis using 2 False valid_utf8_append [OF u', of "quote_body h s"]
        by (simp add: quote_body.simps(2))
    next
      case n0: False
      have IH: "valid_utf8 (quote_body h (drop (?n - 1) s))" using 2 False n0 by simp
      show ?thesis using False n0 IH n valid_utf8_append [OF n, of "quote_body h (drop (?n - 1) s)"]
          valid_utf8_append [OF u, of "byte_of (last ?x)" "quote_body h (drop (?n - 1) s)"]
        by (auto simp: quote_body.simps(2) simp del: valid_utf8.simps)
    qed
  qed
qed simp

lemma valid_utf8_jquote: "valid_utf8 (jquote h s)"
  using valid_utf8_append [OF valid_utf8_quote_body, of h s "[dquote]"]
  by (simp add: jquote_def valid_utf8_ascii del: valid_utf8.simps(2))

lemma valid_utf8_join: "valid_utf8 sep \<Longrightarrow> (\<And>x. x \<in> set xs \<Longrightarrow> valid_utf8 x) \<Longrightarrow> valid_utf8 (str_join sep xs)"
  by (induction sep xs rule: str_join.induct) (simp_all add: valid_utf8_append)

definition all_ascii :: "string \<Rightarrow> bool" where
  "all_ascii s = (\<forall>c \<in> set s. byte_of c < (128::nat))"

lemma all_ascii_simps [simp]:
  "all_ascii []"
  "all_ascii (c # s) \<longleftrightarrow> byte_of c < (128::nat) \<and> all_ascii s"
  "all_ascii (s @ t) \<longleftrightarrow> all_ascii s \<and> all_ascii t"
  by (auto simp: all_ascii_def)

lemma all_ascii_digits: "\<forall>c \<in> set s. is_digit c \<Longrightarrow> all_ascii s"
  by (auto simp: is_digit_def all_ascii_def)

lemma jnum_ascii:
  assumes "jnum s = Some (n, t)"
  shows "all_ascii n"
proof -
  have tw: "all_ascii (takeWhile is_digit x)" for x
    by (rule all_ascii_digits) (auto dest: set_takeWhileD)
  obtain m s0 i s1 f s2 e where p: "jnum_minus s = (m, s0)" "jnum_int s0 = Some (i, s1)"
      "jnum_frac s1 = Some (f, s2)" "jnum_exp s2 = Some (e, t)" "n = m @ i @ f @ e"
    using assms by (rule jnumE)
  have "all_ascii m" using p(1) by (cases s) (auto simp: jnum_minus_def split: if_splits)
  moreover have "all_ascii i" using p(2) tw
    by (cases s0) (auto simp: jnum_int_def jdigits_def is_digit_def split: if_splits)
  moreover have "all_ascii f"
    using jnum_frac_split [OF p(3)] all_ascii_digits by fastforce
  moreover have "all_ascii e"
  proof (cases s2)
    case (Cons c u)
    obtain sg u' where u: "jnum_sign u = (sg, u')" by (cases "jnum_sign u")
    then have "all_ascii sg" by (cases u) (auto simp: jnum_sign_def split: if_splits)
    then show ?thesis using p(4) Cons u tw [of u']
      by (auto simp: jnum_exp_def split: if_splits)
  qed (use p(4) in \<open>simp add: jnum_exp_def\<close>)
  ultimately show ?thesis using p(5) by auto
qed

lemma valid_utf8_jencode: "jwf v \<Longrightarrow> valid_utf8 (jencode h v)"
proof (induction v)
  case (JNum n)
  then show ?case using jnum_ascii [of n n "[]"] valid_utf8_all_ascii [of n] by (simp add: all_ascii_def)
next
  case (JArr vs)
  then have "valid_utf8 (str_join '','' (map (jencode h) vs))"
    by (intro valid_utf8_join) (auto simp: valid_utf8_ascii simp del: valid_utf8.simps(2))
  then show ?case by (simp add: valid_utf8_append valid_utf8_ascii del: valid_utf8.simps(2))
next
  case (JObj kvs)
  have "valid_utf8 (str_join '','' (map (\<lambda>(k, v). jquote h k @ '':'' @ jencode h v) kvs))"
    using JObj by (intro valid_utf8_join)
      (auto simp: valid_utf8_ascii valid_utf8_append valid_utf8_jquote snds.simps simp del: valid_utf8.simps(2))
  then show ?case by (simp add: valid_utf8_append valid_utf8_ascii del: valid_utf8.simps(2))
qed (auto simp: valid_utf8_ascii valid_utf8_jquote simp del: valid_utf8.simps(2))

section \<open>Canonical arguments and transcripts\<close>

lemma canonArgs_idem: "canonArgs (canonArgs a) = canonArgs a"
proof (cases "canon_decode a")
  case None
  then show ?thesis by (simp add: canonArgs_def Canonicalize_eq)
next
  case (Some v)
  then show ?thesis using canon_decode_wf [OF Some]
    by (simp add: canonArgs_def Canonicalize_eq canon_decode_jencode)
qed

lemma canon_or_raw_eq: "canon_or_raw a = canonArgs a"
  by (simp add: canon_or_raw_def canonArgs_def)

lemma valid_utf8_canonArgs: "valid_utf8 a \<Longrightarrow> valid_utf8 (canonArgs a)"
  using canon_decode_wf [of a] valid_utf8_jencode
  by (auto simp: canonArgs_def Canonicalize_eq split: option.split)

lemma argsRaw_eq:
  "argsRaw a = (case canon_decode a of None \<Rightarrow> JObj [] | Some v \<Rightarrow> v)"
proof (cases "canon_decode a")
  case None
  then have "jparse a = None" using Canonicalize_parsed [of a] by (cases "jparse a") (auto simp: Canonicalize_eq)
  then show ?thesis using None by (simp add: argsRaw_def canonArgs_def Canonicalize_eq)
next
  case (Some v)
  then have v: "jwf v" "jdepth v \<le> max_nesting" using canon_decode_wf [OF Some] by auto
  show ?thesis using Some v jencode_ne [OF v(1), of False]
    by (simp add: argsRaw_def canonArgs_def Canonicalize_eq jparse_jencode)
qed

text \<open>The arguments as they come back: canonical, and an empty object where the wire demands JSON.\<close>

definition wire_args :: "provider \<Rightarrow> string \<Rightarrow> string" where
  "wire_args p a =
     (if p = Gemini \<or> p = Ollama then (case Canonicalize a of None \<Rightarrow> ''{}'' | Some c \<Rightarrow> c) else canonArgs a)"

lemma raw_canon_argsRaw: "p = Gemini \<or> p = Ollama \<Longrightarrow> raw_canon (Some (argsRaw a)) = wire_args p a"
  using canon_decode_wf [of a]
  by (auto simp: wire_args_def raw_canon_def argsRaw_eq Canonicalize_eq jany_id obj_of_def split: option.split)

text \<open>The transcript a stream of \<open>t\<close> stands for in a dialect.\<close>

definition wire_turn :: "provider \<Rightarrow> transcript \<Rightarrow> transcript" where
  "wire_turn p t = Normalize (t\<lparr>t_Role := ''assistant'',
     t_ToolCalls := map (\<lambda>c. c\<lparr>tc_Args := wire_args p (tc_Args c)\<rparr>) (t_ToolCalls t)\<rparr>)"

definition utf8_turn :: "transcript \<Rightarrow> bool" where
  "utf8_turn t = (valid_utf8 (t_Text t) \<and> valid_utf8 (t_FinishReason t) \<and>
     list_all (\<lambda>c. valid_utf8 (tc_Name c) \<and> valid_utf8 (tc_Args c)) (t_ToolCalls t))"

definition utf8_env :: "envelope \<Rightarrow> bool" where
  "utf8_env env = (valid_utf8 (e_MessageID env) \<and> valid_utf8 (e_ModelID env) \<and> list_all valid_utf8 (e_ToolCallIDs env))"

lemma inj_tc_key: "inj tc_key"
  by (rule injI) (auto simp: tc_key_def intro: tool_call.equality)

lemma sort_calls_mset: "mset xs = mset ys \<Longrightarrow> sort_key tc_key xs = sort_key tc_key ys"
proof -
  assume "mset xs = mset ys"
  then have m: "mset (map tc_key xs) = mset (map tc_key ys)" by simp
  have s: "map tc_key (sort_key tc_key zs) = sort (map tc_key zs)" for zs
    by (rule properties_for_sort [symmetric]) (auto simp: mset_map)
  have "sort (map tc_key xs) = sort (map tc_key ys)"
    using m by (intro properties_for_sort) auto
  then show ?thesis using s inj_tc_key by (metis inj_map_eq_map)
qed

lemma sort_calls_map_sort:
  "sort_key tc_key (map f (sort_key tc_key xs)) = sort_key tc_key (map f xs)"
  by (rule sort_calls_mset) (simp add: mset_map)

text \<open>A decoder's result from the calls of the normalized transcript.\<close>

lemma wire_turn_normalized:
  assumes "calls = map (\<lambda>c. \<lparr>tc_Name = tc_Name c, tc_Args = wire_args p (tc_Args c)\<rparr>) (t_ToolCalls (Normalize t))"
  shows "Normalize \<lparr>t_Role = ''assistant'', t_Text = t_Text (Normalize t), t_ToolCalls = calls,
      t_FinishReason = t_FinishReason (Normalize t)\<rparr> = wire_turn p t"
proof -
  have "(\<lambda>c. \<lparr>tc_Name = tc_Name c, tc_Args = wire_args p (tc_Args c)\<rparr>) = (\<lambda>c. c\<lparr>tc_Args := wire_args p (tc_Args c)\<rparr>)"
    by (rule ext) (auto intro: tool_call.equality)
  then have "calls = map (\<lambda>c. c\<lparr>tc_Args := wire_args p (tc_Args c)\<rparr>) (sort_key tc_key (t_ToolCalls t))"
    using assms by (simp add: Normalize_def)
  then show ?thesis
    by (intro transcript.equality) (simp_all add: wire_turn_def Normalize_def sort_calls_map_sort)
qed

lemma utf8_turn_normalize: "utf8_turn t \<Longrightarrow> utf8_turn (Normalize t)"
  by (simp add: utf8_turn_def Normalize_def list_all_iff)

lemma utf8_envD:
  assumes "utf8_env env"
  shows "valid_utf8 d \<Longrightarrow> valid_utf8 (msgID env d)" "valid_utf8 (e_model env)"
    "\<forall>c \<in> set pre. byte_of c < (128::nat) \<Longrightarrow> valid_utf8 (toolID env i pre)"
  using assms
  by (auto simp: utf8_env_def msgID_def e_model_def toolID_def list_all_length valid_utf8_append_ascii
      valid_utf8_ascii simp del: valid_utf8.simps(2))

section \<open>Written frames\<close>

definition frames_ok :: "(string \<times> jval) list \<Rightarrow> bool" where
  "frames_ok fs = list_all (\<lambda>(e, v). printable e \<and> jwf v \<and> jdepth v \<le> max_nesting) fs"

lemma frames_ok_simps [simp]:
  "frames_ok []"
  "frames_ok ((e, v) # fs) \<longleftrightarrow> printable e \<and> jwf v \<and> jdepth v \<le> max_nesting \<and> frames_ok fs"
  "frames_ok (fs @ gs) \<longleftrightarrow> frames_ok fs \<and> frames_ok gs"
  by (auto simp: frames_ok_def)

lemma frame_len: "length (frame e d) \<ge> length d + 8" "e \<noteq> [] \<Longrightarrow> length (frame e d) \<ge> length d + length e + 8"
  by (auto simp: frame_def)

lemma write_frames_len: "(e, v) \<in> set fs \<Longrightarrow> length (frame e (go_j v)) \<le> length (write_frames_j fs)"
  by (induction fs) (auto simp: write_frames_j_def)

lemma written_plain:
  assumes "frames_ok fs" "length (write_frames_j fs @ r) < max_token" "(e, v) \<in> set fs"
  shows "plain_line 6 (go_j v) \<and> plain_line 7 e"
proof -
  have "length (frame e (go_j v)) < max_token" using write_frames_len [OF assms(3)] assms(2) by simp
  then have "length (go_j v) + 8 < max_token" "e \<noteq> [] \<Longrightarrow> length e + 8 < max_token"
    using frame_len [where e = e and d = "go_j v"] by auto
  moreover have "7 < max_token" by (simp add: max_token_def)
  ultimately show ?thesis
    using assms(1,3) jencode_printable [of v False] go_j_eq [of v]
    by (cases "e = []") (auto simp: plain_line_def frames_ok_def list_all_iff printable_def)
qed

lemma parse_written:
  assumes "frames_ok fs" "length (write_frames_j fs) < max_token"
  shows "parseSSE (write_frames_j fs) = map (\<lambda>(e, v). (e, go_j v @ ''\<newline>'')) fs"
proof -
  have "write_frames_j fs = concat (map (\<lambda>(e, d). frame e d) (map (\<lambda>(e, v). (e, go_j v)) fs))"
    by (simp add: write_frames_j_def comp_def case_prod_unfold)
  moreover have "\<forall>(e, d) \<in> set (map (\<lambda>(e, v). (e, go_j v)) fs). plain_line 6 d \<and> plain_line 7 e"
    using written_plain [OF assms(1), of "[]"] assms(2) by auto
  ultimately show ?thesis
    by (simp only: parseSSE_frames) (simp add: case_prod_unfold)
qed

section \<open>Documents and maps\<close>

lemmas jmap_eval = jmap_def obj_of_def less_char_def

lemma upper_letters:
  "to_upper_byte CHR ''a'' = CHR ''A''" "to_upper_byte CHR ''b'' = CHR ''B''" "to_upper_byte CHR ''c'' = CHR ''C''" "to_upper_byte CHR ''d'' = CHR ''D''" "to_upper_byte CHR ''e'' = CHR ''E''" "to_upper_byte CHR ''f'' = CHR ''F''" "to_upper_byte CHR ''g'' = CHR ''G''" "to_upper_byte CHR ''h'' = CHR ''H''" "to_upper_byte CHR ''i'' = CHR ''I''" "to_upper_byte CHR ''j'' = CHR ''J''" "to_upper_byte CHR ''k'' = CHR ''K''" "to_upper_byte CHR ''l'' = CHR ''L''" "to_upper_byte CHR ''m'' = CHR ''M''"
  "to_upper_byte CHR ''n'' = CHR ''N''" "to_upper_byte CHR ''o'' = CHR ''O''" "to_upper_byte CHR ''p'' = CHR ''P''" "to_upper_byte CHR ''q'' = CHR ''Q''" "to_upper_byte CHR ''r'' = CHR ''R''" "to_upper_byte CHR ''s'' = CHR ''S''" "to_upper_byte CHR ''t'' = CHR ''T''" "to_upper_byte CHR ''u'' = CHR ''U''" "to_upper_byte CHR ''v'' = CHR ''V''" "to_upper_byte CHR ''w'' = CHR ''W''" "to_upper_byte CHR ''x'' = CHR ''X''" "to_upper_byte CHR ''y'' = CHR ''Y''" "to_upper_byte CHR ''z'' = CHR ''Z''"
  by code_simp+

lemma upper_other: "byte_of c < 97 \<or> (122::nat) < byte_of c \<Longrightarrow> to_upper_byte c = c"
  by (auto simp: to_upper_byte_def)

lemmas dec_eval = find_field_def dec_field_def upper_letters upper_other

lemma mput_new: "k \<notin> fst ` set m \<Longrightarrow> mput k v m = m @ [(k, v)]"
  by (induction m) auto

lemma mput_last: "k \<notin> fst ` set m \<Longrightarrow> mput k v (m @ [(k, w)]) = m @ [(k, v)]"
  by (induction m) auto

lemma mget_last: "k \<notin> fst ` set m \<Longrightarrow> mget (m @ [(k, w)]) k = Some w"
  by (induction m) auto

text \<open>An object on a data line, as the decoders that trim the data see it.\<close>

lemma obj_text:
  assumes "jwf v" "v = JObj kvs"
  shows "go_j v \<noteq> []" "hd (go_j v) = CHR ''{''" "last (go_j v) = CHR ''}''"
  using go_j_eq [OF assms(1)] assms(2) by simp_all

lemma obj_line:
  assumes "jwf v" "v = JObj kvs"
  shows "TrimSpace (go_j v @ ''\<newline>'') = go_j v" "TrimSpace (go_j v) = go_j v"
    "go_j v \<noteq> []" "go_j v \<noteq> ''[DONE]''"
  using obj_text [OF assms] TrimSpace_line [of "go_j v"] by auto

lemma unmarshal_obj:
  assumes "jwf v" "jdepth v \<le> max_nesting"
  shows "unmarshal_ok d (go_j v) x = (case d v x of (y, e) \<Rightarrow> if e then None else Some y)"
  using assms by (simp add: go_j_eq unmarshal_ok_jencode)

end
