(* ===== verification/Codec_Anthropic.thy ===== *)
theory Codec_Anthropic
  imports Codec
begin

text \<open>
  The Anthropic dialect: the decoder followed over the frames the encoder writes, for any division
  of the text into chunks and any order of the tool blocks, so that both the encoder and the
  reframer are covered.
\<close>

section \<open>The documents\<close>

lemma message_start_ok: "utf8_env env \<Longrightarrow> jwf (message_start env) \<and> jdepth (message_start env) \<le> 10"
  using utf8_envD(1) [of env "''msg_0000''"] utf8_envD(2) [of env]
  by (simp add: message_start_def jmap_eval valid_utf8_ascii del: valid_utf8.simps(2))

lemma block_ok:
  "jwf b \<Longrightarrow> jdepth b \<le> 5 \<Longrightarrow> jwf (block_start idx b) \<and> jdepth (block_start idx b) \<le> 10"
  "jwf b \<Longrightarrow> jdepth b \<le> 5 \<Longrightarrow> jwf (block_delta idx b) \<and> jdepth (block_delta idx b) \<le> 10"
  "jwf (block_stop idx) \<and> jdepth (block_stop idx) \<le> 10"
  by (simp_all add: block_start_def block_delta_def block_stop_def jmap_eval valid_utf8_ascii del: valid_utf8.simps(2))

lemma text_frames_ok: "list_all valid_utf8 pieces \<Longrightarrow> frames_ok (text_frames idx pieces)"
proof -
  assume a: "list_all valid_utf8 pieces"
  have n: "10 \<le> max_nesting" by (simp add: max_nesting_def)
  have t: "jwf (jmap [(''type'', JStr ''text''), (''text'', JStr [])]) \<and>
      jdepth (jmap [(''type'', JStr ''text''), (''text'', JStr [])]) \<le> 5"
    by (simp add: jmap_eval valid_utf8_ascii del: valid_utf8.simps(2))
  have d: "valid_utf8 c \<Longrightarrow> jwf (jmap [(''type'', JStr ''text_delta''), (''text'', JStr c)]) \<and>
      jdepth (jmap [(''type'', JStr ''text_delta''), (''text'', JStr c)]) \<le> 5" for c
    by (simp add: jmap_eval valid_utf8_ascii del: valid_utf8.simps(2))
  have "frames_ok (map (\<lambda>c. (''content_block_delta'', block_delta idx
      (jmap [(''type'', JStr ''text_delta''), (''text'', JStr c)]))) pieces)"
    using a
  proof (induction pieces)
    case (Cons c cs)
    then show ?case using d [of c] block_ok(2) [of "jmap [(''type'', JStr ''text_delta''), (''text'', JStr c)]" idx] n
      by simp
  qed simp
  then show ?thesis
    using t block_ok(1) [of "jmap [(''type'', JStr ''text''), (''text'', JStr [])]" idx] block_ok(3) [of idx] n
    by (simp add: text_frames_def)
qed

lemma tool_frames_ok:
  assumes "utf8_env env" "valid_utf8 (tc_Name tc)" "valid_utf8 (tc_Args tc)"
  shows "frames_ok (tool_frames env idx i tc)"
proof -
  have n: "10 \<le> max_nesting" by (simp add: max_nesting_def)
  have i: "valid_utf8 (toolID env i ''toolu_'')" using assms(1) by (intro utf8_envD) auto
  let ?t = "jmap [(''type'', JStr ''tool_use''), (''id'', JStr (toolID env i ''toolu_'')),
      (''name'', JStr (tc_Name tc)), (''input'', jmap [])]"
  let ?d = "jmap [(''type'', JStr ''input_json_delta''), (''partial_json'', JStr (canonArgs (tc_Args tc)))]"
  have "jwf ?t \<and> jdepth ?t \<le> 5" "jwf ?d \<and> jdepth ?d \<le> 5"
    using assms i valid_utf8_canonArgs [OF assms(3)]
    by (simp_all add: jmap_eval valid_utf8_ascii del: valid_utf8.simps(2))
  then show ?thesis using block_ok(1) [of ?t idx] block_ok(2) [of ?d idx] block_ok(3) [of idx] n
    by (simp add: tool_frames_def)
qed

lemma tools_frames_ok:
  "utf8_env env \<Longrightarrow> list_all (\<lambda>(i, tc). valid_utf8 (tc_Name tc) \<and> valid_utf8 (tc_Args tc)) calls \<Longrightarrow>
   frames_ok (tools_frames env idx calls)"
  by (induction env idx calls rule: tools_frames.induct) (auto simp: tool_frames_ok)

lemma message_end_ok: "valid_utf8 (t_FinishReason t) \<Longrightarrow> frames_ok (message_end env t)"
  by (simp add: message_end_def jmap_eval valid_utf8_ascii max_nesting_def del: valid_utf8.simps(2))

lemma anthropic_frames_ok:
  assumes "utf8_env env" "valid_utf8 (t_FinishReason t)" "list_all valid_utf8 pieces"
    "list_all (\<lambda>(i, tc). valid_utf8 (tc_Name tc) \<and> valid_utf8 (tc_Args tc)) calls"
  shows "frames_ok (anthropic_frames env t pieces calls)"
proof -
  have "frames_ok [(''message_start'', message_start env)]"
    using message_start_ok [OF assms(1)] by (simp add: max_nesting_def)
  then show ?thesis
    using text_frames_ok [OF assms(3)] tools_frames_ok [OF assms(1,4)] message_end_ok [OF assms(2)]
    by (simp add: anthropic_frames_def)
qed

section \<open>The decoder over the frames\<close>

text \<open>One step of the decoder on a written frame.\<close>

definition an_frame :: "string \<times> jval \<Rightarrow> anthropic_state \<Rightarrow> anthropic_state" where
  "an_frame f s = anthropic_step (fst f, go_j (snd f) @ ''\<newline>'') s"

lemma an_skip:
  "e \<notin> {''content_block_start'', ''content_block_delta'', ''message_delta'', ''error''} \<Longrightarrow> an_frame (e, v) s = s"
  by (simp add: an_frame_def anthropic_step_def)

lemma an_start:
  assumes "jwf (block_start idx b)" "jdepth (block_start idx b) \<le> 10"
    "dec_start (block_start idx b) \<lparr>se_index = 0, se_type = [], se_name = []\<rparr> =
       (\<lparr>se_index = int idx, se_type = ty, se_name = nm\<rparr>, False)"
  shows "an_frame (''content_block_start'', block_start idx b) s =
    s\<lparr>an_blocks := mput (int idx) \<lparr>ab_typ = ty, ab_name = nm, ab_text = [], ab_args = []\<rparr> (an_blocks s),
      an_order := an_order s @ [int idx]\<rparr>"
proof -
  have "jdepth (block_start idx b) \<le> max_nesting" using assms(2) by (simp add: max_nesting_def)
  then show ?thesis using assms(1,3) by (simp add: an_frame_def anthropic_step_def unmarshal_line)
qed

lemma an_delta:
  assumes "jwf (block_delta idx b)" "jdepth (block_delta idx b) \<le> 10"
    "dec_delta (block_delta idx b) \<lparr>de_index = 0, de_type = [], de_text = [], de_partial = []\<rparr> =
       (\<lparr>de_index = int idx, de_type = ty, de_text = tx, de_partial = pj\<rparr>, False)"
    "mget (an_blocks s) (int idx) = Some blk"
  shows "an_frame (''content_block_delta'', block_delta idx b) s =
    s\<lparr>an_blocks := mput (int idx)
        (if ty = ''text_delta'' then blk\<lparr>ab_text := ab_text blk @ tx\<rparr>
         else if ty = ''input_json_delta'' then blk\<lparr>ab_args := ab_args blk @ pj\<rparr> else blk) (an_blocks s)\<rparr>"
proof -
  have "jdepth (block_delta idx b) \<le> max_nesting" using assms(2) by (simp add: max_nesting_def)
  then show ?thesis using assms(1,3,4) by (simp add: an_frame_def anthropic_step_def unmarshal_line)
qed

text \<open>The effect of a text block and of a tool block on a state that has no block of that index.\<close>

definition push_block :: "nat \<Rightarrow> ablock \<Rightarrow> anthropic_state \<Rightarrow> anthropic_state" where
  "push_block idx b s = s\<lparr>an_blocks := an_blocks s @ [(int idx, b)], an_order := an_order s @ [int idx]\<rparr>"

definition below :: "nat \<Rightarrow> anthropic_state \<Rightarrow> bool" where
  "below idx s = (\<forall>k \<in> fst ` set (an_blocks s). k < int idx)"

lemma below_notin: "below idx s \<Longrightarrow> int idx \<notin> fst ` set (an_blocks s)"
  by (auto simp: below_def)

lemma below_push: "below idx s \<Longrightarrow> below (Suc idx) (push_block idx b s)"
  by (fastforce simp: below_def push_block_def)

lemma an_start_push:
  assumes "below idx s" "jwf (block_start idx b)" "jdepth (block_start idx b) \<le> 10"
    "dec_start (block_start idx b) \<lparr>se_index = 0, se_type = [], se_name = []\<rparr> =
       (\<lparr>se_index = int idx, se_type = ty, se_name = nm\<rparr>, False)"
  shows "an_frame (''content_block_start'', block_start idx b) s =
    push_block idx \<lparr>ab_typ = ty, ab_name = nm, ab_text = [], ab_args = []\<rparr> s"
  using an_start [OF assms(2-4), of s] below_notin [OF assms(1)] by (simp add: push_block_def mput_new)

lemma an_delta_push:
  assumes "below idx s" "jwf (block_delta idx b)" "jdepth (block_delta idx b) \<le> 10"
    "dec_delta (block_delta idx b) \<lparr>de_index = 0, de_type = [], de_text = [], de_partial = []\<rparr> =
       (\<lparr>de_index = int idx, de_type = ty, de_text = tx, de_partial = pj\<rparr>, False)"
  shows "an_frame (''content_block_delta'', block_delta idx b) (push_block idx blk s) =
    push_block idx (if ty = ''text_delta'' then blk\<lparr>ab_text := ab_text blk @ tx\<rparr>
         else if ty = ''input_json_delta'' then blk\<lparr>ab_args := ab_args blk @ pj\<rparr> else blk) s"
proof -
  have n: "int idx \<notin> fst ` set (an_blocks s)" using below_notin [OF assms(1)] .
  have "mget (an_blocks (push_block idx blk s)) (int idx) = Some blk"
    using mget_last [OF n] by (simp add: push_block_def)
  from an_delta [OF assms(2-4) this] show ?thesis
    unfolding push_block_def by (simp add: mput_last [OF n])
qed

lemma text_chunks_run:
  assumes "int idx < 2 ^ 63" "below idx s" "list_all valid_utf8 pieces"
  shows "fold an_frame (map (\<lambda>c. (''content_block_delta'', block_delta idx
      (jmap [(''type'', JStr ''text_delta''), (''text'', JStr c)]))) pieces)
      (push_block idx \<lparr>ab_typ = ''text'', ab_name = [], ab_text = acc, ab_args = []\<rparr> s) =
    push_block idx \<lparr>ab_typ = ''text'', ab_name = [], ab_text = acc @ concat pieces, ab_args = []\<rparr> s"
  using assms(3)
proof (induction pieces arbitrary: acc)
  case (Cons c cs)
  let ?b = "jmap [(''type'', JStr ''text_delta''), (''text'', JStr c)]"
  have b: "jwf ?b \<and> jdepth ?b \<le> 5" using Cons
    by (simp add: jmap_eval valid_utf8_ascii del: valid_utf8.simps(2))
  have d: "dec_delta (block_delta idx ?b) \<lparr>de_index = 0, de_type = [], de_text = [], de_partial = []\<rparr> =
      (\<lparr>de_index = int idx, de_type = ''text_delta'', de_text = c, de_partial = []\<rparr>, False)"
    using assms(1) by (simp add: block_delta_def jmap_eval dec_delta_def dec_eval atoi_itoa)
  have step: "an_frame (''content_block_delta'', block_delta idx ?b)
      (push_block idx \<lparr>ab_typ = ''text'', ab_name = [], ab_text = acc, ab_args = []\<rparr> s) =
    push_block idx \<lparr>ab_typ = ''text'', ab_name = [], ab_text = acc @ c, ab_args = []\<rparr> s"
    using an_delta_push [OF assms(2) _ _ d] block_ok(2) [of ?b idx] b by simp
  show ?case using Cons step by simp
qed simp

lemma text_frames_run:
  assumes "int idx < 2 ^ 63" "below idx s" "list_all valid_utf8 pieces"
  shows "fold an_frame (text_frames idx pieces) s =
    push_block idx \<lparr>ab_typ = ''text'', ab_name = [], ab_text = concat pieces, ab_args = []\<rparr> s"
proof -
  let ?b = "jmap [(''type'', JStr ''text''), (''text'', JStr [])]"
  have b: "jwf ?b \<and> jdepth ?b \<le> 5"
    by (simp add: jmap_eval valid_utf8_ascii del: valid_utf8.simps(2))
  have d: "dec_start (block_start idx ?b) \<lparr>se_index = 0, se_type = [], se_name = []\<rparr> =
      (\<lparr>se_index = int idx, se_type = ''text'', se_name = []\<rparr>, False)"
    using assms(1) by (simp add: block_start_def jmap_eval dec_start_def dec_eval atoi_itoa)
  have "an_frame (''content_block_start'', block_start idx ?b) s =
      push_block idx \<lparr>ab_typ = ''text'', ab_name = [], ab_text = [], ab_args = []\<rparr> s"
    using an_start_push [OF assms(2) _ _ d] block_ok(1) [of ?b idx] b by simp
  then show ?thesis using text_chunks_run [OF assms, of "[]"]
    by (simp add: text_frames_def an_skip)
qed

definition tool_block :: "tool_call \<Rightarrow> ablock" where
  "tool_block tc = \<lparr>ab_typ = ''tool_use'', ab_name = tc_Name tc, ab_text = [], ab_args = canonArgs (tc_Args tc)\<rparr>"

lemma tool_frames_run:
  assumes "int idx < 2 ^ 63" "below idx s" "utf8_env env" "valid_utf8 (tc_Name tc)" "valid_utf8 (tc_Args tc)"
  shows "fold an_frame (tool_frames env idx i tc) s = push_block idx (tool_block tc) s"
proof -
  have i: "valid_utf8 (toolID env i ''toolu_'')" using assms(3) by (intro utf8_envD) auto
  let ?t = "jmap [(''type'', JStr ''tool_use''), (''id'', JStr (toolID env i ''toolu_'')),
      (''name'', JStr (tc_Name tc)), (''input'', jmap [])]"
  let ?d = "jmap [(''type'', JStr ''input_json_delta''), (''partial_json'', JStr (canonArgs (tc_Args tc)))]"
  have w: "jwf ?t \<and> jdepth ?t \<le> 5" "jwf ?d \<and> jdepth ?d \<le> 5"
    using assms i valid_utf8_canonArgs [OF assms(5)]
    by (simp_all add: jmap_eval valid_utf8_ascii del: valid_utf8.simps(2))
  have ds: "dec_start (block_start idx ?t) \<lparr>se_index = 0, se_type = [], se_name = []\<rparr> =
      (\<lparr>se_index = int idx, se_type = ''tool_use'', se_name = tc_Name tc\<rparr>, False)"
    using assms(1) by (simp add: block_start_def jmap_eval dec_start_def dec_eval atoi_itoa)
  have dd: "dec_delta (block_delta idx ?d) \<lparr>de_index = 0, de_type = [], de_text = [], de_partial = []\<rparr> =
      (\<lparr>de_index = int idx, de_type = ''input_json_delta'', de_text = [], de_partial = canonArgs (tc_Args tc)\<rparr>, False)"
    using assms(1) by (simp add: block_delta_def jmap_eval dec_delta_def dec_eval atoi_itoa)
  have "an_frame (''content_block_start'', block_start idx ?t) s =
      push_block idx \<lparr>ab_typ = ''tool_use'', ab_name = tc_Name tc, ab_text = [], ab_args = []\<rparr> s"
    using an_start_push [OF assms(2) _ _ ds] block_ok(1) [of ?t idx] w by simp
  then show ?thesis
    using an_delta_push [OF assms(2) _ _ dd] block_ok(2) [of ?d idx] w
    by (simp add: tool_frames_def an_skip tool_block_def)
qed

text \<open>Pushing the blocks one after the other, numbered from \<open>idx\<close>.\<close>

fun push_blocks :: "nat \<Rightarrow> ablock list \<Rightarrow> anthropic_state \<Rightarrow> anthropic_state" where
  "push_blocks idx [] s = s"
| "push_blocks idx (b # bs) s = push_blocks (Suc idx) bs (push_block idx b s)"

lemma tools_frames_run:
  assumes "int (idx + length calls) < 2 ^ 63" "below idx s" "utf8_env env"
    "list_all (\<lambda>(i, tc). valid_utf8 (tc_Name tc) \<and> valid_utf8 (tc_Args tc)) calls"
  shows "fold an_frame (tools_frames env idx calls) s = push_blocks idx (map (\<lambda>(i, tc). tool_block tc) calls) s"
  using assms
proof (induction env idx calls arbitrary: s rule: tools_frames.induct)
  case (2 env idx i tc tcs)
  have "fold an_frame (tool_frames env idx i tc) s = push_block idx (tool_block tc) s"
    by (rule tool_frames_run) (use 2 in auto)
  then show ?case using 2 below_push [of idx s "tool_block tc"] by simp
qed simp

lemma push_blocks_state:
  "push_blocks idx bs s = s\<lparr>an_blocks := an_blocks s @ map (\<lambda>(k, b). (int k, b)) (enumerate idx bs),
     an_order := an_order s @ map int [idx ..< idx + length bs]\<rparr>"
proof (induction bs arbitrary: idx s)
  case (Cons b bs)
  then show ?case by (simp add: push_block_def upt_conv_Cons del: upt_Suc)
qed simp

lemma message_end_run:
  assumes "valid_utf8 (t_FinishReason t)"
  shows "fold an_frame (message_end env t) s =
    (if t_FinishReason t = [] then s else s\<lparr>an_finish := t_FinishReason t\<rparr>)"
proof -
  let ?v = "snd (hd (message_end env t))"
  have ok: "jwf ?v \<and> jdepth ?v \<le> max_nesting" using message_end_ok [OF assms, of env]
    by (simp add: message_end_def)
  have d: "dec_stop ?v [] = (t_FinishReason t, False)"
    by (simp add: message_end_def jmap_eval dec_stop_def dec_eval)
  have "an_frame (''message_delta'', ?v) s = (if t_FinishReason t = [] then s else s\<lparr>an_finish := t_FinishReason t\<rparr>)"
    using ok d by (simp add: an_frame_def anthropic_step_def unmarshal_line)
  then show ?thesis by (simp add: message_end_def an_skip)
qed

lemma anthropic_frames_run:
  assumes "utf8_env env" "valid_utf8 (t_FinishReason t)" "list_all valid_utf8 pieces"
    "list_all (\<lambda>(i, tc). valid_utf8 (tc_Name tc) \<and> valid_utf8 (tc_Args tc)) calls"
    "int (length calls) < 2 ^ 62" "concat pieces = t_Text t"
  shows "fold an_frame (anthropic_frames env t pieces calls)
      \<lparr>an_blocks = [], an_order = [], an_finish = [], an_err = None\<rparr> =
    (push_blocks 0
      ((if t_Text t = [] then [] else [\<lparr>ab_typ = ''text'', ab_name = [], ab_text = t_Text t, ab_args = []\<rparr>]) @
       map (\<lambda>(i, tc). tool_block tc) calls)
      \<lparr>an_blocks = [], an_order = [], an_finish = [], an_err = None\<rparr>)\<lparr>an_finish := t_FinishReason t\<rparr>"
proof -
  let ?s0 = "\<lparr>an_blocks = [], an_order = [], an_finish = [], an_err = None\<rparr> :: anthropic_state"
  let ?tb = "\<lparr>ab_typ = ''text'', ab_name = [], ab_text = t_Text t, ab_args = []\<rparr>"
  have b0: "below 0 ?s0" by (simp add: below_def)
  have e: "fold an_frame (message_end env t) (push_blocks 0 bs ?s0) =
      (push_blocks 0 bs ?s0)\<lparr>an_finish := t_FinishReason t\<rparr>" for bs
    using message_end_run [OF assms(2)] by (simp add: push_blocks_state)
  show ?thesis
  proof (cases "t_Text t = []")
    case True
    have "fold an_frame (tools_frames env 0 calls) ?s0 = push_blocks 0 (map (\<lambda>(i, tc). tool_block tc) calls) ?s0"
      using assms b0 by (intro tools_frames_run) auto
    then show ?thesis using True e by (simp add: anthropic_frames_def an_skip)
  next
    case False
    have t: "fold an_frame (text_frames 0 pieces) ?s0 = push_block 0 ?tb ?s0"
      using text_frames_run [OF _ b0 assms(3)] assms(6) by simp
    have "fold an_frame (tools_frames env 1 calls) (push_block 0 ?tb ?s0) =
        push_blocks 1 (map (\<lambda>(i, tc). tool_block tc) calls) (push_block 0 ?tb ?s0)"
      using assms below_push [OF b0, of ?tb] by (intro tools_frames_run) auto
    then have "fold an_frame (tools_frames env 1 calls) (push_block 0 ?tb ?s0) =
        push_blocks 0 (?tb # map (\<lambda>(i, tc). tool_block tc) calls) ?s0" by simp
    with e [of "?tb # map (\<lambda>(i, tc). tool_block tc) calls"] t False show ?thesis
      by (simp add: anthropic_frames_def an_skip del: push_blocks.simps)
  qed
qed

text \<open>The last loop of the decoder over numbered blocks.\<close>

definition add_block :: "ablock \<Rightarrow> transcript \<Rightarrow> transcript" where
  "add_block b t =
     (if ab_typ b = ''text'' then t\<lparr>t_Text := t_Text t @ ab_text b\<rparr>
      else if ab_typ b = ''tool_use'' then
        t\<lparr>t_ToolCalls := t_ToolCalls t @ [\<lparr>tc_Name = ab_name b, tc_Args = canon_or_raw (ab_args b)\<rparr>]\<rparr>
      else t)"

lemma numbered_loop:
  assumes "set ks \<subseteq> set m" "distinct (map fst m)"
  shows "fold (anthropic_block m) (map fst ks) t = fold add_block (map snd ks) t"
  using assms(1)
proof (induction ks arbitrary: t)
  case (Cons kb ks)
  then have "mget m (fst kb) = Some (snd kb)" using assms(2) by auto
  then show ?case using Cons by (simp add: anthropic_block_def add_block_def)
qed simp

lemma add_tools:
  "fold add_block (map (\<lambda>(i, tc). tool_block tc) calls) t =
   t\<lparr>t_ToolCalls := t_ToolCalls t @ map (\<lambda>(i, tc). \<lparr>tc_Name = tc_Name tc, tc_Args = canonArgs (tc_Args tc)\<rparr>) calls\<rparr>"
  by (induction calls arbitrary: t) (auto simp: add_block_def tool_block_def canon_or_raw_eq canonArgs_idem)

lemma anthropic_decode_frames:
  assumes "utf8_env env" "valid_utf8 (t_FinishReason t)" "list_all valid_utf8 pieces"
    "list_all (\<lambda>(i, tc). valid_utf8 (tc_Name tc) \<and> valid_utf8 (tc_Args tc)) calls"
    "int (length calls) < 2 ^ 62" "concat pieces = t_Text t"
    "length (write_frames_j (anthropic_frames env t pieces calls)) < max_token"
  shows "DecodeAnthropicSSE (write_frames_j (anthropic_frames env t pieces calls)) =
    (Normalize \<lparr>t_Role = ''assistant'', t_Text = t_Text t,
       t_ToolCalls = map (\<lambda>(i, tc). \<lparr>tc_Name = tc_Name tc, tc_Args = canonArgs (tc_Args tc)\<rparr>) calls,
       t_FinishReason = t_FinishReason t\<rparr>, None)"
proof -
  let ?fs = "anthropic_frames env t pieces calls"
  let ?s0 = "\<lparr>an_blocks = [], an_order = [], an_finish = [], an_err = None\<rparr> :: anthropic_state"
  let ?bs = "(if t_Text t = [] then [] else [\<lparr>ab_typ = ''text'', ab_name = [], ab_text = t_Text t, ab_args = []\<rparr>]) @
       map (\<lambda>(i, tc). tool_block tc) calls"
  let ?m = "map (\<lambda>(k, b). (int k, b)) (enumerate 0 ?bs)"
  have "fold anthropic_step (parseSSE (write_frames_j ?fs)) ?s0 = fold an_frame ?fs ?s0"
    using parse_written [OF anthropic_frames_ok [OF assms(1-4)] assms(7)]
    by (simp add: fold_map comp_def case_prod_unfold an_frame_def [abs_def])
  then have run: "fold anthropic_step (parseSSE (write_frames_j ?fs)) ?s0 =
      (push_blocks 0 ?bs ?s0)\<lparr>an_finish := t_FinishReason t\<rparr>"
    using anthropic_frames_run [OF assms(1-6)] by simp
  have kk: "map fst (map (\<lambda>(k, b). (int k, b)) xs) = map int (map fst xs)" for xs :: "(nat \<times> ablock) list"
    by (induction xs) auto
  have k: "map fst ?m = map int [0 ..< length ?bs]"
    by (simp only: kk map_fst_enumerate) (simp del: length_append)
  have d: "distinct (map fst ?m)" unfolding k by (simp add: distinct_map inj_on_def)
  have s: "map snd ?m = ?bs" by (simp add: comp_def case_prod_unfold)
  have "fold (anthropic_block ?m) (map int [0 ..< length ?bs]) u = fold add_block ?bs u" for u
    using numbered_loop [OF subset_refl d, of u] unfolding k s by simp
  then show ?thesis
    using run by (simp add: DecodeAnthropicSSE_def anthropic_finish_def push_blocks_state add_block_def add_tools
        del: map_append length_append enumerate_append_eq)
qed

end
