(* ===== verification/Codec_OpenAI.thy ===== *)
theory Codec_OpenAI
  imports Codec
begin

text \<open>
  The two OpenAI dialects: the chat completion chunks and the typed events of the Responses API,
  whose decoders share their accumulators.
\<close>

section \<open>Chat completion chunks\<close>

definition oa_frame :: "string \<times> jval \<Rightarrow> openai_state \<Rightarrow> openai_state" where
  "oa_frame f s = openai_step (fst f, go_j (snd f) @ ''\<newline>'') s"

lemma oa_chunk_ok:
  assumes "utf8_env env" "jwf d" "jdepth d \<le> 6" "jwf f" "jdepth f \<le> 6"
  shows "frames_ok [oa_chunk env d f]"
proof -
  have "valid_utf8 (msgID env ''chatcmpl_0000'')" by (intro utf8_envD assms valid_utf8_all_ascii) auto
  then show ?thesis using assms utf8_envD(2) [OF assms(1)]
    by (simp add: oa_chunk_def jmap_eval valid_utf8_ascii max_nesting_def del: valid_utf8.simps(2))
qed

lemma oa_chunk_step:
  assumes "utf8_env env" "jwf d" "jdepth d \<le> 6" "jwf f" "jdepth f \<le> 6"
    "dec_chunk (snd (oa_chunk env d f)) nil_slice = (Slice [ch] [], False)"
  shows "oa_frame (oa_chunk env d f) s =
    (let s1 = fold openai_tool (elems (oc_tools ch)) (s\<lparr>oa_text := oa_text s @ oc_content ch\<rparr>)
     in if oc_finish ch = [] then s1 else s1\<lparr>oa_finish := oc_finish ch\<rparr>)"
proof -
  let ?v = "snd (oa_chunk env d f)"
  have ok: "jwf ?v" "jdepth ?v \<le> max_nesting" using oa_chunk_ok [OF assms(1-5)]
    by (auto simp: frames_ok_def case_prod_unfold)
  obtain kvs where "?v = JObj kvs" by (simp add: oa_chunk_def jmap_def)
  note l = obj_line [OF ok(1) this]
  show ?thesis using l ok assms(6)
    by (simp add: oa_frame_def openai_step_def unmarshal_obj)
qed

abbreviation content_chunk :: "envelope \<Rightarrow> string \<Rightarrow> string \<times> jval" where
  "content_chunk env t \<equiv> oa_chunk env (jmap [(''content'', JStr t)]) JNull"

lemma oa_role_run:
  assumes "utf8_env env"
  shows "oa_frame (oa_chunk env (jmap [(''role'', JStr ''assistant''), (''content'', JStr [])]) JNull) s = s"
proof -
  have d: "dec_chunk (snd (oa_chunk env (jmap [(''role'', JStr ''assistant''), (''content'', JStr [])]) JNull)) nil_slice =
      (Slice [oa_choice0\<lparr>oc_role := ''assistant''\<rparr>] [], False)"
    by (simp add: oa_chunk_def jmap_eval dec_chunk_def dec_choice_def dec_eval)
  show ?thesis
    by (subst oa_chunk_step [OF assms _ _ _ _ d])
      (simp_all add: jmap_eval valid_utf8_ascii del: valid_utf8.simps(2))
qed

lemma oa_content_run:
  assumes "utf8_env env" "valid_utf8 t"
  shows "oa_frame (content_chunk env t) s = s\<lparr>oa_text := oa_text s @ t\<rparr>"
proof -
  have d: "dec_chunk (snd (content_chunk env t)) nil_slice = (Slice [oa_choice0\<lparr>oc_content := t\<rparr>] [], False)"
    by (simp add: oa_chunk_def jmap_eval dec_chunk_def dec_choice_def dec_eval)
  show ?thesis
    by (subst oa_chunk_step [OF assms(1) _ _ _ _ d])
      (use assms in \<open>simp_all add: jmap_eval valid_utf8_ascii del: valid_utf8.simps(2)\<close>)
qed

lemma oa_finish_run:
  assumes "utf8_env env" "valid_utf8 r"
  shows "oa_frame (oa_chunk env (jmap []) (if r \<noteq> [] then JStr r else JNull)) s =
    (if r = [] then s else s\<lparr>oa_finish := r\<rparr>)"
proof -
  have d: "dec_chunk (snd (oa_chunk env (jmap []) (if r \<noteq> [] then JStr r else JNull))) nil_slice =
      (Slice [oa_choice0\<lparr>oc_finish := r\<rparr>] [], False)"
    by (cases "r = []") (simp_all add: oa_chunk_def jmap_eval dec_chunk_def dec_choice_def dec_eval)
  show ?thesis
    by (subst oa_chunk_step [OF assms(1) _ _ _ _ d])
      (use assms in \<open>simp_all add: jmap_eval\<close>)
qed

lemma oa_usage_ok: "utf8_env env \<Longrightarrow> frames_ok (oa_usage env)"
proof -
  assume e: "utf8_env env"
  have "valid_utf8 (msgID env ''chatcmpl_0000'')" by (intro utf8_envD e valid_utf8_all_ascii) auto
  then show ?thesis using utf8_envD(2) [OF e]
    by (simp add: oa_usage_def jmap_eval valid_utf8_ascii max_nesting_def del: valid_utf8.simps(2))
qed

lemma oa_usage_run:
  assumes "utf8_env env"
  shows "fold oa_frame (oa_usage env) s = s"
proof (cases "oa_usage env")
  case (Cons f fs)
  then have u: "oa_usage env = [f]" by (auto simp: oa_usage_def split: if_splits)
  have ok: "jwf (snd f)" "jdepth (snd f) \<le> max_nesting" using oa_usage_ok [OF assms] u
    by (auto simp: frames_ok_def case_prod_unfold)
  have d: "dec_chunk (snd f) nil_slice = (nil_slice, False)" using Cons
    by (auto simp: oa_usage_def jmap_eval dec_chunk_def dec_eval split: if_splits)
  obtain kvs where "snd f = JObj kvs" using Cons by (auto simp: oa_usage_def jmap_def split: if_splits)
  note l = obj_line [OF ok(1) this]
  show ?thesis using u l ok d by (simp add: oa_frame_def openai_step_def unmarshal_obj)
qed simp

text \<open>The accumulators with a further tool call, and the state of several.\<close>

definition push_tool :: "nat \<Rightarrow> tool_call \<Rightarrow> openai_state \<Rightarrow> openai_state" where
  "push_tool idx tc s = s\<lparr>oa_tools := oa_tools s @ [(int idx, tc_Name tc, canonArgs (tc_Args tc))],
     oa_order := oa_order s @ [int idx]\<rparr>"

definition tools_below :: "nat \<Rightarrow> openai_state \<Rightarrow> bool" where
  "tools_below idx s = (\<forall>k \<in> fst ` set (oa_tools s). k < int idx)"

lemma tools_below_notin: "tools_below idx s \<Longrightarrow> int idx \<notin> fst ` set (oa_tools s)"
  by (auto simp: tools_below_def)

lemma tools_below_push: "tools_below idx s \<Longrightarrow> tools_below (Suc idx) (push_tool idx tc s)"
  by (fastforce simp: tools_below_def push_tool_def)

fun push_tools :: "nat \<Rightarrow> tool_call list \<Rightarrow> openai_state \<Rightarrow> openai_state" where
  "push_tools idx [] s = s"
| "push_tools idx (tc # tcs) s = push_tools (Suc idx) tcs (push_tool idx tc s)"

lemma push_tools_state:
  "push_tools idx tcs s = s\<lparr>oa_tools := oa_tools s @ map (\<lambda>(k, tc). (int k, tc_Name tc, canonArgs (tc_Args tc))) (enumerate idx tcs),
     oa_order := oa_order s @ map int [idx ..< idx + length tcs]\<rparr>"
proof (induction tcs arbitrary: idx s)
  case (Cons tc tcs)
  then show ?case by (simp add: push_tool_def upt_conv_Cons del: upt_Suc)
qed simp

definition tool_ok :: "tool_call \<Rightarrow> bool" where
  "tool_ok tc = (valid_utf8 (tc_Name tc) \<and> valid_utf8 (tc_Args tc))"

lemma oa_tool_json:
  fixes env i tc
  defines "a \<equiv> jmap [(''tool_calls'', JArr [jmap
        [(''index'', jint (int i)), (''id'', JStr (toolID env i ''call_'')), (''type'', JStr ''function''),
         (''function'', jmap [(''name'', JStr (tc_Name tc)), (''arguments'', JStr [])])]])]"
    and "b \<equiv> jmap [(''tool_calls'', JArr [jmap
        [(''index'', jint (int i)),
         (''function'', jmap [(''arguments'', JStr (canonArgs (tc_Args tc)))])]])]"
  assumes "utf8_env env" "tool_ok tc" "int i < 2 ^ 63"
  shows "jwf a" "jdepth a \<le> 6" "jwf b" "jdepth b \<le> 6"
    "dec_chunk (snd (oa_chunk env a JNull)) nil_slice =
      (Slice [oa_choice0\<lparr>oc_tools := Slice [\<lparr>td_index = int i, td_id = toolID env i ''call_'', td_name = tc_Name tc, td_args = []\<rparr>] []\<rparr>] [], False)"
    "dec_chunk (snd (oa_chunk env b JNull)) nil_slice =
      (Slice [oa_choice0\<lparr>oc_tools := Slice [\<lparr>td_index = int i, td_id = [], td_name = [], td_args = canonArgs (tc_Args tc)\<rparr>] []\<rparr>] [], False)"
proof -
  have i: "valid_utf8 (toolID env i ''call_'')" using assms(3) by (intro utf8_envD) auto
  have c: "valid_utf8 (canonArgs (tc_Args tc))" "valid_utf8 (tc_Name tc)"
    using assms(4) valid_utf8_canonArgs by (auto simp: tool_ok_def)
  show "jwf a" "jdepth a \<le> 6" "jwf b" "jdepth b \<le> 6" using i c
    by (simp_all add: a_def b_def jmap_eval valid_utf8_ascii del: valid_utf8.simps(2))
  show "dec_chunk (snd (oa_chunk env a JNull)) nil_slice =
      (Slice [oa_choice0\<lparr>oc_tools := Slice [\<lparr>td_index = int i, td_id = toolID env i ''call_'', td_name = tc_Name tc, td_args = []\<rparr>] []\<rparr>] [], False)"
    using assms(5)
    by (simp add: a_def oa_chunk_def jmap_eval dec_chunk_def dec_choice_def dec_tool_delta_def dec_eval atoi_itoa)
  show "dec_chunk (snd (oa_chunk env b JNull)) nil_slice =
      (Slice [oa_choice0\<lparr>oc_tools := Slice [\<lparr>td_index = int i, td_id = [], td_name = [], td_args = canonArgs (tc_Args tc)\<rparr>] []\<rparr>] [], False)"
    using assms(5)
    by (simp add: b_def oa_chunk_def jmap_eval dec_chunk_def dec_choice_def dec_tool_delta_def dec_eval atoi_itoa)
qed

lemma openai_tool_new:
  assumes "k \<notin> fst ` set (oa_tools s)"
  shows "openai_tool \<lparr>td_index = k, td_id = x, td_name = n, td_args = a\<rparr> s =
    s\<lparr>oa_tools := oa_tools s @ [(k, n, a)], oa_order := oa_order s @ [k]\<rparr>"
proof -
  have "mget (oa_tools s) k = None" using assms by (simp add: map_of_eq_None_iff)
  then show ?thesis
    by (simp add: openai_tool_def mput_new [OF assms] mput_last [OF assms] mget_last [OF assms] mget0_def Let_def
        del: map_of_append)
qed

lemma openai_tool_args:
  assumes "k \<notin> fst ` set (oa_tools s)"
  shows "openai_tool \<lparr>td_index = k, td_id = x, td_name = [], td_args = a\<rparr>
      (s\<lparr>oa_tools := oa_tools s @ [(k, n, b)], oa_order := ord\<rparr>) =
    s\<lparr>oa_tools := oa_tools s @ [(k, n, b @ a)], oa_order := ord\<rparr>"
  by (simp add: openai_tool_def mput_last [OF assms] mget_last [OF assms] mget0_def Let_def del: map_of_append)

lemma oa_tool_run:
  assumes "utf8_env env" "tool_ok tc" "int i < 2 ^ 63" "tools_below i s"
  shows "fold oa_frame (oa_tool_frames env (i, tc)) s = push_tool i tc s"
proof -
  note j = oa_tool_json [OF assms(1-3)]
  have n: "int i \<notin> fst ` set (oa_tools s)" using tools_below_notin [OF assms(4)] .
  have n': "jwf JNull" "jdepth JNull \<le> 6" by simp_all
  show ?thesis
    unfolding oa_tool_frames_def
    by (simp add: oa_chunk_step [OF assms(1) j(1,2) n' j(5)] oa_chunk_step [OF assms(1) j(3,4) n' j(6)]
        openai_tool_new [OF n] openai_tool_args [OF n] push_tool_def)
qed

lemma oa_tools_run:
  assumes "utf8_env env" "list_all tool_ok tcs" "int (idx + length tcs) < 2 ^ 63" "tools_below idx s"
  shows "fold oa_frame (concat (map (oa_tool_frames env) (enumerate idx tcs))) s = push_tools idx tcs s"
  using assms(2-4)
proof (induction tcs arbitrary: idx s)
  case (Cons tc tcs)
  have "fold oa_frame (oa_tool_frames env (idx, tc)) s = push_tool idx tc s"
    by (rule oa_tool_run) (use Cons assms(1) in auto)
  then show ?case using Cons tools_below_push [of idx s tc] by simp
qed simp

lemma oa_tools_ok:
  assumes "utf8_env env" "list_all tool_ok tcs" "int (idx + length tcs) < 2 ^ 63"
  shows "frames_ok (concat (map (oa_tool_frames env) (enumerate idx tcs)))"
  using assms(2,3)
proof (induction tcs arbitrary: idx)
  case (Cons tc tcs)
  have "int idx < 2 ^ 63" "tool_ok tc" using Cons by auto
  note j = oa_tool_json [OF assms(1) this(2,1)]
  have n': "jwf JNull" "jdepth JNull \<le> 6" by simp_all
  have "frames_ok (oa_tool_frames env (idx, tc))"
    using oa_chunk_ok [OF assms(1) j(1,2) n'] oa_chunk_ok [OF assms(1) j(3,4) n']
    by (auto simp: oa_tool_frames_def frames_ok_def)
  then show ?case using Cons by simp
qed simp

lemma push_tools_finish:
  assumes "oa_tools s = []" "oa_order s = []"
  shows "openai_finish (push_tools k tcs s) = Normalize
    \<lparr>t_Role = ''assistant'', t_Text = oa_text s,
     t_ToolCalls = map (\<lambda>tc. \<lparr>tc_Name = tc_Name tc, tc_Args = canonArgs (tc_Args tc)\<rparr>) tcs,
     t_FinishReason = oa_finish s\<rparr>"
proof -
  let ?m = "map (\<lambda>(k, tc). (int k, tc_Name tc, canonArgs (tc_Args tc))) (enumerate k tcs)"
  have kk: "map fst (map (\<lambda>(k, tc). (int k, tc_Name tc, canonArgs (tc_Args tc))) xs) = map int (map fst xs)"
    for xs :: "(nat \<times> tool_call) list" by (induction xs) auto
  have fk: "map fst ?m = map int [k ..< k + length tcs]" by (simp only: kk map_fst_enumerate)
  have d: "distinct (map fst ?m)" unfolding fk by (simp add: distinct_map inj_on_def)
  have "map (\<lambda>i. mget0 ([], []) ?m i) (map fst ks) = map snd ks" if "set ks \<subseteq> set ?m" for ks
    using that
  proof (induction ks)
    case (Cons kv ks)
    then have "mget ?m (fst kv) = Some (snd kv)" using d by auto
    then show ?case using Cons by (simp add: mget0_def)
  qed simp
  from this [OF subset_refl] have g: "map (\<lambda>i. mget0 ([], []) ?m i) (map int [k ..< k + length tcs]) = map snd ?m"
    unfolding fk .
  have "map (\<lambda>i. case mget0 ([], []) ?m i of (n, a) \<Rightarrow> \<lparr>tc_Name = n, tc_Args = canon_or_raw a\<rparr>)
      (map int [k ..< k + length tcs]) =
    map (\<lambda>(n, a). \<lparr>tc_Name = n, tc_Args = canon_or_raw a\<rparr>) (map (\<lambda>i. mget0 ([], []) ?m i) (map int [k ..< k + length tcs]))"
    by simp
  also have "\<dots> = map (\<lambda>(n, a). \<lparr>tc_Name = n, tc_Args = canon_or_raw a\<rparr>) (map snd ?m)" unfolding g ..
  also have "\<dots> = map (\<lambda>tc. \<lparr>tc_Name = tc_Name tc, tc_Args = canonArgs (tc_Args tc)\<rparr>) (map snd (enumerate k tcs))"
    by (simp add: case_prod_unfold canon_or_raw_eq canonArgs_idem del: map_snd_enumerate)
  finally show ?thesis using assms by (simp add: openai_finish_def push_tools_state)
qed

lemma fold_frames:
  "fold f (map (\<lambda>(e, v). (e, go_j v @ ''\<newline>'')) fs) s = fold (\<lambda>fv. f (fst fv, go_j (snd fv) @ ''\<newline>'')) fs s"
proof (induction fs arbitrary: s)
  case (Cons x xs)
  then show ?case by (cases x) simp
qed simp

lemma openai_frames_ok:
  assumes "utf8_env env" "utf8_turn t" "length (t_ToolCalls t) < 2 ^ 62"
  shows "frames_ok (openai_frames env t)"
proof -
  have n: "jwf JNull" "jdepth JNull \<le> 6" by simp_all
  have t: "list_all tool_ok (t_ToolCalls t)" "valid_utf8 (t_Text t)" "valid_utf8 (t_FinishReason t)"
    using assms(2) by (auto simp: utf8_turn_def tool_ok_def list_all_iff)
  have r: "frames_ok [oa_chunk env (jmap [(''role'', JStr ''assistant''), (''content'', JStr [])]) JNull]"
    by (rule oa_chunk_ok [OF assms(1) _ _ n]) (simp_all add: jmap_eval valid_utf8_ascii del: valid_utf8.simps(2))
  have c: "frames_ok [content_chunk env (t_Text t)]"
    by (rule oa_chunk_ok [OF assms(1) _ _ n]) (use t in \<open>simp_all add: jmap_eval valid_utf8_ascii del: valid_utf8.simps(2)\<close>)
  have f: "frames_ok [oa_chunk env (jmap []) (if t_FinishReason t \<noteq> [] then JStr (t_FinishReason t) else JNull)]"
    by (rule oa_chunk_ok [OF assms(1)]) (use t in \<open>simp_all add: jmap_eval\<close>)
  have k: "frames_ok (concat (map (oa_tool_frames env) (enumerate 0 (t_ToolCalls t))))"
    by (rule oa_tools_ok [OF assms(1) t(1)]) (use assms(3) in simp)
  have c': "frames_ok (if t_Text t \<noteq> [] then [content_chunk env (t_Text t)] else [])"
    using c by (cases "t_Text t = []") (simp_all del: frames_ok_simps(2))
  show ?thesis unfolding openai_frames_def frames_ok_simps(3)
    using r c' f k oa_usage_ok [OF assms(1)] by blast
qed

lemma openai_frames_run:
  assumes "utf8_env env" "utf8_turn t" "length (t_ToolCalls t) < 2 ^ 62"
  shows "fold oa_frame (openai_frames env t) openai_state0 =
    (push_tools 0 (t_ToolCalls t) (openai_state0\<lparr>oa_text := t_Text t\<rparr>))\<lparr>oa_finish := t_FinishReason t\<rparr>"
proof -
  have t: "list_all tool_ok (t_ToolCalls t)" "valid_utf8 (t_Text t)" "valid_utf8 (t_FinishReason t)"
    using assms(2) by (auto simp: utf8_turn_def tool_ok_def list_all_iff)
  let ?s = "openai_state0\<lparr>oa_text := t_Text t\<rparr>"
  have "tools_below 0 ?s" by (simp add: tools_below_def)
  then have k: "fold oa_frame (concat (map (oa_tool_frames env) (enumerate 0 (t_ToolCalls t)))) ?s =
      push_tools 0 (t_ToolCalls t) ?s"
    by (intro oa_tools_run assms t) (use assms(3) in simp)
  show ?thesis
    using k oa_role_run [OF assms(1)] oa_content_run [OF assms(1) t(2)] oa_usage_run [OF assms(1)]
      oa_finish_run [OF assms(1) t(3)]
    by (cases "t_Text t = []"; cases "t_FinishReason t = []") (simp_all add: openai_frames_def push_tools_state)
qed

lemma openai_decode_encode:
  assumes "utf8_env env" "utf8_turn t" "length (t_ToolCalls t) < 2 ^ 62"
    "length (EncodeOpenAISSE t env) < max_token"
  shows "DecodeOpenAISSE (EncodeOpenAISSE t env) = wire_turn OpenAIChat t"
proof -
  let ?t = "Normalize t"
  let ?fs = "openai_frames env ?t"
  have a: "utf8_turn ?t" "length (t_ToolCalls ?t) < 2 ^ 62"
    using assms utf8_turn_normalize by (simp_all add: Normalize_def)
  have fin: "''data: [DONE]\<newline>\<newline>'' = frame [] ''[DONE]''" by (simp add: frame_def)
  have enc: "EncodeOpenAISSE t env = concat (map (\<lambda>(e, d). frame e d)
      (map (\<lambda>(e, v). (e, go_j v)) ?fs @ [([], ''[DONE]'')]))"
    unfolding EncodeOpenAISSE_def write_frames_j_def fin by (simp add: comp_def case_prod_unfold)
  have "plain_line 6 (go_j v) \<and> plain_line 7 e" if "(e, v) \<in> set ?fs" for e v
    using written_plain [OF openai_frames_ok [OF assms(1) a] _ that, of "''data: [DONE]\<newline>\<newline>''"] assms(4)
    by (simp add: EncodeOpenAISSE_def)
  then have "\<forall>(e, d) \<in> set (map (\<lambda>(e, v). (e, go_j v)) ?fs @ [([], ''[DONE]'')]). plain_line 6 d \<and> plain_line 7 e"
    by (auto simp: plain_line_def max_token_def)
  then have p: "parseSSE (EncodeOpenAISSE t env) = map (\<lambda>(e, v). (e, go_j v @ ''\<newline>'')) ?fs @ [([], ''[DONE]\<newline>'')]"
    unfolding enc by (simp only: parseSSE_frames) (simp add: case_prod_unfold)
  have skip: "openai_step ([], ''[DONE]\<newline>'') s = s" for s
  proof -
    have "TrimSpace ''[DONE]\<newline>'' = ''[DONE]''" using TrimSpace_line(1) [of "''[DONE]''"] by simp
    then show ?thesis by (simp add: openai_step_def)
  qed
  have "fold openai_step (parseSSE (EncodeOpenAISSE t env)) openai_state0 = fold oa_frame ?fs openai_state0"
    unfolding p by (simp add: skip fold_frames oa_frame_def [abs_def])
  then have "DecodeOpenAISSE (EncodeOpenAISSE t env) =
      openai_finish ((push_tools 0 (t_ToolCalls ?t) (openai_state0\<lparr>oa_text := t_Text ?t\<rparr>))\<lparr>oa_finish := t_FinishReason ?t\<rparr>)"
    using openai_frames_run [OF assms(1) a] by (simp add: DecodeOpenAISSE_def)
  also have "(push_tools 0 (t_ToolCalls ?t) (openai_state0\<lparr>oa_text := t_Text ?t\<rparr>))\<lparr>oa_finish := t_FinishReason ?t\<rparr> =
      push_tools 0 (t_ToolCalls ?t) (openai_state0\<lparr>oa_text := t_Text ?t, oa_finish := t_FinishReason ?t\<rparr>)"
    by (simp add: push_tools_state)
  also have "openai_finish \<dots> = wire_turn OpenAIChat t"
    by (subst push_tools_finish) (simp_all add: wire_turn_normalized wire_args_def)
  finally show ?thesis .
qed

section \<open>The Responses API\<close>

definition re_frame :: "string \<times> jval \<Rightarrow> openai_state \<Rightarrow> openai_state" where
  "re_frame f s = responses_step (fst f, go_j (snd f) @ ''\<newline>'') s"

lemma re_frame_step:
  assumes "jwf v" "jdepth v \<le> 10" "v = JObj kvs" "dec_resp v resp_ev0 = (m, False)"
  shows "re_frame (e, v) s =
      (if re_type m = ''response.output_text.delta'' then s\<lparr>oa_text := oa_text s @ re_delta m\<rparr>
       else if re_type m = ''response.output_item.added'' then
         (if re_item_type m = ''function_call'' then
            s\<lparr>oa_tools := mput (re_index m) (re_item_name m, []) (oa_tools s),
              oa_order := oa_order s @ [re_index m]\<rparr>
          else s)
       else if re_type m = ''response.function_call_arguments.delta'' then
         (case mget (oa_tools s) (re_index m) of
            None \<Rightarrow> s
          | Some (n, a) \<Rightarrow> s\<lparr>oa_tools := mput (re_index m) (n, a @ re_delta m) (oa_tools s)\<rparr>)
       else if re_type m = ''response.completed'' then
         (if re_status m = [] then s else s\<lparr>oa_finish := re_status m\<rparr>)
       else s)"
proof -
  note l = obj_line [OF assms(1,3)]
  have "jdepth v \<le> max_nesting" using assms(2) by (simp add: max_nesting_def)
  then have "unmarshal_ok dec_resp (go_j v) resp_ev0 = Some m"
    using assms(1,4) by (simp add: unmarshal_obj)
  then show ?thesis using l by (simp only: re_frame_def responses_step_def fst_conv snd_conv Let_def if_False option.case)
qed

lemma resp_text_run:
  assumes "valid_utf8 txt"
  shows "frames_ok (resp_text_frames txt)"
    and "fold re_frame (resp_text_frames txt) s = s\<lparr>oa_text := oa_text s @ txt\<rparr>"
proof -
  obtain a b where f: "resp_text_frames txt = [(''response.output_item.added'', a), (''response.output_text.delta'', b)]"
    by (simp add: resp_text_frames_def)
  have w: "jwf a" "jdepth a \<le> 10" "jwf b" "jdepth b \<le> 10" using f assms
    by (auto simp: resp_text_frames_def jmap_eval valid_utf8_ascii simp del: valid_utf8.simps(2))
  obtain k k' where o: "a = JObj k" "b = JObj k'" using f by (auto simp: resp_text_frames_def jmap_def)
  have d: "dec_resp a resp_ev0 = (resp_ev0\<lparr>re_type := ''response.output_item.added'', re_item_type := ''message''\<rparr>, False)"
    "dec_resp b resp_ev0 = (resp_ev0\<lparr>re_type := ''response.output_text.delta'', re_delta := txt\<rparr>, False)"
    using f by (auto simp: resp_text_frames_def jmap_eval dec_resp_def dec_eval atoi_itoa)
  show "frames_ok (resp_text_frames txt)" using w by (simp add: f max_nesting_def)
  show "fold re_frame (resp_text_frames txt) s = s\<lparr>oa_text := oa_text s @ txt\<rparr>"
    by (simp add: f re_frame_step [OF w(1,2) o(1) d(1)] re_frame_step [OF w(3,4) o(2) d(2)])
qed

lemma resp_tool_run:
  assumes "utf8_env env" "tool_ok tc" "int oi < 2 ^ 63" "tools_below oi s"
  shows "frames_ok (resp_tools_frames env oi [(i, tc)])"
    and "fold re_frame (resp_tools_frames env oi [(i, tc)]) s = push_tool oi tc s"
proof -
  obtain a b where f: "resp_tools_frames env oi [(i, tc)] =
      [(''response.output_item.added'', a), (''response.function_call_arguments.delta'', b)]"
    by simp
  have i: "valid_utf8 (toolID env i ''fc_'')" using assms(1) by (intro utf8_envD) auto
  have c: "valid_utf8 (canonArgs (tc_Args tc))" "valid_utf8 (tc_Name tc)"
    using assms(2) valid_utf8_canonArgs by (auto simp: tool_ok_def)
  have w: "jwf a" "jdepth a \<le> 10" "jwf b" "jdepth b \<le> 10" using f i c
    by (auto simp: jmap_eval valid_utf8_ascii simp del: valid_utf8.simps(2))
  obtain k k' where o: "a = JObj k" "b = JObj k'" using f by (auto simp: jmap_def)
  have d: "dec_resp a resp_ev0 = (resp_ev0\<lparr>re_type := ''response.output_item.added'', re_item_type := ''function_call'',
        re_item_name := tc_Name tc, re_index := int oi\<rparr>, False)"
    "dec_resp b resp_ev0 = (resp_ev0\<lparr>re_type := ''response.function_call_arguments.delta'',
        re_delta := canonArgs (tc_Args tc), re_index := int oi\<rparr>, False)"
    using f assms(3) by (auto simp: jmap_eval dec_resp_def dec_eval atoi_itoa)
  have n: "int oi \<notin> fst ` set (oa_tools s)" using tools_below_notin [OF assms(4)] .
  show "frames_ok (resp_tools_frames env oi [(i, tc)])" using w f by (simp add: max_nesting_def)
  show "fold re_frame (resp_tools_frames env oi [(i, tc)]) s = push_tool oi tc s"
    unfolding f
    by (simp add: re_frame_step [OF w(1,2) o(1) d(1)] re_frame_step [OF w(3,4) o(2) d(2)]
        mput_new [OF n] mput_last [OF n] mget_last [OF n] push_tool_def del: map_of_append)
qed

lemma resp_tools_Cons:
  "resp_tools_frames env oi ((i, tc) # tcs) =
   resp_tools_frames env oi [(i, tc)] @ resp_tools_frames env (Suc oi) tcs"
  by simp

lemma resp_tools_run:
  assumes "utf8_env env" "list_all tool_ok tcs" "int (oi + length tcs) < 2 ^ 63" "tools_below oi s"
  shows "frames_ok (resp_tools_frames env oi (enumerate k tcs)) \<and>
    fold re_frame (resp_tools_frames env oi (enumerate k tcs)) s = push_tools oi tcs s"
  using assms(2-4)
proof (induction tcs arbitrary: oi k s)
  case (Cons tc tcs)
  have "frames_ok (resp_tools_frames env oi [(k, tc)])"
    "fold re_frame (resp_tools_frames env oi [(k, tc)]) s = push_tool oi tc s"
    by (rule resp_tool_run [OF assms(1)]; use Cons in simp)+
  moreover have "frames_ok (resp_tools_frames env (Suc oi) (enumerate (Suc k) tcs)) \<and>
    fold re_frame (resp_tools_frames env (Suc oi) (enumerate (Suc k) tcs)) (push_tool oi tc s) =
      push_tools (Suc oi) tcs (push_tool oi tc s)"
    using Cons tools_below_push [of oi s tc] by (intro Cons.IH) auto
  ultimately show ?case
    by (simp only: enumerate_simps resp_tools_Cons [of env oi k tc "enumerate (Suc k) tcs"]
        frames_ok_simps(3) fold_append comp_apply push_tools.simps)
qed simp

lemma resp_end_run:
  assumes "utf8_env env" "valid_utf8 (t_FinishReason t)"
  shows "frames_ok [(''response.completed'', resp_completed env t)]"
    and "re_frame (''response.completed'', resp_completed env t) s =
      (if t_FinishReason t = [] then s else s\<lparr>oa_finish := t_FinishReason t\<rparr>)"
proof -
  have i: "valid_utf8 (msgID env ''resp_0000'')" by (intro utf8_envD assms valid_utf8_all_ascii) auto
  have w: "jwf (resp_completed env t)" "jdepth (resp_completed env t) \<le> 10" using assms(2) i
    by (auto simp: resp_completed_def jmap_eval valid_utf8_ascii simp del: valid_utf8.simps(2))
  have d: "dec_resp (resp_completed env t) resp_ev0 =
      (resp_ev0\<lparr>re_type := ''response.completed'', re_status := t_FinishReason t\<rparr>, False)"
    by (simp add: resp_completed_def jmap_eval dec_resp_def dec_eval)
  obtain kvs where o: "resp_completed env t = JObj kvs" by (simp add: resp_completed_def jmap_def)
  show "frames_ok [(''response.completed'', resp_completed env t)]" using w by (simp add: max_nesting_def)
  show "re_frame (''response.completed'', resp_completed env t) s =
      (if t_FinishReason t = [] then s else s\<lparr>oa_finish := t_FinishReason t\<rparr>)"
    by (simp add: re_frame_step [OF w o d])
qed

lemma resp_begin_run:
  assumes "utf8_env env"
  defines "v \<equiv> jmap [(''type'', JStr ''response.created''),
        (''response'', jmap [(''id'', JStr (msgID env ''resp_0000'')), (''status'', JStr ''in_progress'')])]"
  shows "frames_ok [(''response.created'', v)]" "re_frame (''response.created'', v) s = s"
proof -
  have i: "valid_utf8 (msgID env ''resp_0000'')" by (intro utf8_envD assms valid_utf8_all_ascii) auto
  have w: "jwf v" "jdepth v \<le> 10" using i
    by (simp_all add: v_def jmap_eval valid_utf8_ascii del: valid_utf8.simps(2))
  have d: "dec_resp v resp_ev0 = (resp_ev0\<lparr>re_type := ''response.created'', re_status := ''in_progress''\<rparr>, False)"
    by (simp add: v_def jmap_eval dec_resp_def dec_eval)
  obtain kvs where o: "v = JObj kvs" by (simp add: v_def jmap_def)
  show "frames_ok [(''response.created'', v)]" using w by (simp add: max_nesting_def)
  show "re_frame (''response.created'', v) s = s" by (simp add: re_frame_step [OF w o d])
qed

lemma responses_frames_run:
  assumes "utf8_env env" "utf8_turn t" "length (t_ToolCalls t) < 2 ^ 62"
  shows "frames_ok (responses_frames env t)"
    and "\<exists>k. fold re_frame (responses_frames env t) openai_state0 =
      (push_tools k (t_ToolCalls t) (openai_state0\<lparr>oa_text := t_Text t\<rparr>))\<lparr>oa_finish := t_FinishReason t\<rparr>"
proof -
  have t: "list_all tool_ok (t_ToolCalls t)" "valid_utf8 (t_Text t)" "valid_utf8 (t_FinishReason t)"
    using assms(2) by (auto simp: utf8_turn_def tool_ok_def list_all_iff)
  let ?s = "openai_state0\<lparr>oa_text := t_Text t\<rparr>" and ?k = "if t_Text t \<noteq> [] then 1 else 0"
  have "tools_below ?k ?s" by (simp add: tools_below_def)
  then have k: "frames_ok (resp_tools_frames env ?k (enumerate 0 (t_ToolCalls t))) \<and>
      fold re_frame (resp_tools_frames env ?k (enumerate 0 (t_ToolCalls t))) ?s = push_tools ?k (t_ToolCalls t) ?s"
    by (intro resp_tools_run assms t) (use assms(3) in simp_all)
  have x: "frames_ok (if t_Text t \<noteq> [] then resp_text_frames (t_Text t) else [])"
    "fold re_frame (if t_Text t \<noteq> [] then resp_text_frames (t_Text t) else []) openai_state0 = ?s"
    using resp_text_run [OF t(2)] by (cases "t_Text t = []"; simp)+
  show "frames_ok (responses_frames env t)" unfolding responses_frames_def frames_ok_simps(3)
    using resp_begin_run(1) [OF assms(1)] resp_end_run(1) [OF assms(1) t(3)] x k by blast
  have "fold re_frame (responses_frames env t) openai_state0 =
      (push_tools ?k (t_ToolCalls t) ?s)\<lparr>oa_finish := t_FinishReason t\<rparr>"
    unfolding responses_frames_def fold_append comp_apply fold.simps id_apply
    using x k resp_begin_run(2) [OF assms(1), of openai_state0] resp_end_run(2) [OF assms(1) t(3)]
    by (cases "t_FinishReason t = []") (simp_all add: push_tools_state)
  then show "\<exists>k. fold re_frame (responses_frames env t) openai_state0 =
      (push_tools k (t_ToolCalls t) (openai_state0\<lparr>oa_text := t_Text t\<rparr>))\<lparr>oa_finish := t_FinishReason t\<rparr>"
    by blast
qed

lemma responses_decode_encode:
  assumes "utf8_env env" "utf8_turn t" "length (t_ToolCalls t) < 2 ^ 62"
    "length (EncodeOpenAIResponsesSSE t env) < max_token"
  shows "DecodeOpenAIResponsesSSE (EncodeOpenAIResponsesSSE t env) = wire_turn OpenAIResponses t"
proof -
  let ?t = "Normalize t"
  let ?fs = "responses_frames env ?t"
  have a: "utf8_turn ?t" "length (t_ToolCalls ?t) < 2 ^ 62"
    using assms utf8_turn_normalize by (simp_all add: Normalize_def)
  have p: "parseSSE (EncodeOpenAIResponsesSSE t env) = map (\<lambda>(e, v). (e, go_j v @ ''\<newline>'')) ?fs"
    using parse_written [OF responses_frames_run(1) [OF assms(1) a]] assms(4)
    by (simp add: EncodeOpenAIResponsesSSE_def)
  obtain k where "fold re_frame ?fs openai_state0 =
      (push_tools k (t_ToolCalls ?t) (openai_state0\<lparr>oa_text := t_Text ?t\<rparr>))\<lparr>oa_finish := t_FinishReason ?t\<rparr>"
    using responses_frames_run(2) [OF assms(1) a] by blast
  then have "fold responses_step (parseSSE (EncodeOpenAIResponsesSSE t env)) openai_state0 =
      push_tools k (t_ToolCalls ?t) (openai_state0\<lparr>oa_text := t_Text ?t, oa_finish := t_FinishReason ?t\<rparr>)"
    unfolding p fold_frames re_frame_def [abs_def] by (simp add: push_tools_state)
  then show ?thesis unfolding DecodeOpenAIResponsesSSE_def
    by (simp only: push_tools_finish openai_state.simps) (simp add: wire_turn_normalized wire_args_def)
qed


end
