(* ===== verification/Codec_Json.thy ===== *)
theory Codec_Json
  imports Codec
begin

text \<open>The dialects with one document per turn: Gemini's single frame and Ollama's two lines.\<close>

lemma argsRaw_ok: "jwf (argsRaw a) \<and> jcanon (argsRaw a) \<and> jdepth (argsRaw a) \<le> max_nesting"
  using canon_decode_wf [of a] by (auto simp: argsRaw_eq max_nesting_def split: option.split)

text \<open>Nested arguments must leave room for the levels of the envelope around them.\<close>

definition args_shallow :: "transcript \<Rightarrow> bool" where
  "args_shallow t = list_all (\<lambda>c. jdepth (argsRaw (tc_Args c)) + 20 \<le> max_nesting) (t_ToolCalls t)"

lemma foldr_max_bound: "(\<And>v. v \<in> set vs \<Longrightarrow> g v \<le> n) \<Longrightarrow> foldr (\<lambda>v. max (g v)) vs 0 \<le> (n::nat)"
  by (induction vs) auto

section \<open>Gemini\<close>

abbreviation g_text :: "string \<Rightarrow> jval" where
  "g_text t \<equiv> jmap [(''text'', JStr t)]"

abbreviation g_fun :: "tool_call \<Rightarrow> jval" where
  "g_fun tc \<equiv> jmap [(''functionCall'', jmap [(''name'', JStr (tc_Name tc)), (''args'', argsRaw (tc_Args tc))])]"

definition g_part_of :: "tool_call \<Rightarrow> g_part" where
  "g_part_of tc = \<lparr>gp_text = [], gp_thought = False,
     gp_call = Some \<lparr>gc_name = tc_Name tc, gc_args = Some (argsRaw (tc_Args tc))\<rparr>\<rparr>"

lemma g_dec_part:
  "dec_part (g_text x) g_part0 = (g_part0\<lparr>gp_text := x\<rparr>, False)"
  "dec_part (g_fun tc) g_part0 = (g_part_of tc, False)"
  by (simp_all add: jmap_eval dec_part_def dec_call_def dec_eval dec_ptr_def dec_raw_def g_part_of_def)

lemma g_dec_funs: "dec_elems g_part0 dec_part (map g_fun tcs) [] = (map g_part_of tcs, [], False)"
  by (induction tcs) (simp_all add: g_dec_part)

lemma g_dec_parts:
  "dec_elems g_part0 dec_part (gemini_parts t) [] =
   ((if t_Text t \<noteq> [] then [g_part0\<lparr>gp_text := t_Text t\<rparr>] else []) @ map g_part_of (t_ToolCalls t), [], False)"
  using g_dec_funs [of "t_ToolCalls t"]
  by (cases "t_Text t = []") (simp_all add: gemini_parts_def g_dec_part)

lemma g_parts_run:
  "fold gemini_part ((if t_Text t \<noteq> [] then [g_part0\<lparr>gp_text := t_Text t\<rparr>] else []) @ map g_part_of (t_ToolCalls t)) transcript0 =
   transcript0\<lparr>t_Text := t_Text t,
     t_ToolCalls := map (\<lambda>tc. \<lparr>tc_Name = tc_Name tc, tc_Args = wire_args Gemini (tc_Args tc)\<rparr>) (t_ToolCalls t)\<rparr>"
proof -
  have "fold gemini_part (map g_part_of tcs) u = u\<lparr>t_ToolCalls := t_ToolCalls u @
      map (\<lambda>tc. \<lparr>tc_Name = tc_Name tc, tc_Args = wire_args Gemini (tc_Args tc)\<rparr>) tcs\<rparr>" for tcs u
    by (induction tcs arbitrary: u)
      (simp_all add: gemini_part_def g_part_of_def raw_canon_argsRaw [of Gemini])
  then show ?thesis by (cases "t_Text t = []") (simp_all add: gemini_part_def)
qed

lemma g_json_ok:
  assumes "utf8_env env" "utf8_turn t" "args_shallow t"
  shows "jwf (gemini_json env t)" "jdepth (gemini_json env t) \<le> max_nesting"
proof -
  have p: "jwf p \<and> jdepth p \<le> max_nesting - 10" if "p \<in> set (gemini_parts t)" for p
  proof -
    have "jwf (g_text (t_Text t)) \<and> jdepth (g_text (t_Text t)) \<le> max_nesting - 10"
      using assms(2) by (simp add: jmap_eval utf8_turn_def valid_utf8_ascii max_nesting_def del: valid_utf8.simps(2))
    moreover have "jwf (g_fun tc) \<and> jdepth (g_fun tc) \<le> max_nesting - 10" if "tc \<in> set (t_ToolCalls t)" for tc
      using assms(2,3) that argsRaw_ok [of "tc_Args tc"]
      by (simp add: jmap_eval utf8_turn_def args_shallow_def list_all_iff valid_utf8_ascii del: valid_utf8.simps(2))
        fastforce
    ultimately show ?thesis using that by (auto simp: gemini_parts_def split: if_splits)
  qed
  have i: "valid_utf8 (msgID env ''gemini_0000'')" by (intro utf8_envD assms valid_utf8_all_ascii) auto
  have pw: "\<forall>p \<in> set (gemini_parts t). jwf p" using p by blast
  have pd: "foldr (\<lambda>v. max (jdepth v)) (gemini_parts t) 0 \<le> max_nesting - 10"
    by (rule foldr_max_bound) (use p in blast)
  show "jwf (gemini_json env t)"
    using pw i assms(2) utf8_envD(2) [OF assms(1)]
    by (simp add: gemini_json_def jmap_eval utf8_turn_def valid_utf8_ascii del: valid_utf8.simps(2))
  show "jdepth (gemini_json env t) \<le> max_nesting"
    using pd by (simp add: gemini_json_def jmap_eval max_nesting_def)
qed

lemma g_json_dec:
  "dec_gemini (gemini_json env t) nil_slice =
   (Slice [\<lparr>gd_parts = Slice ((if t_Text t \<noteq> [] then [g_part0\<lparr>gp_text := t_Text t\<rparr>] else []) @
      map g_part_of (t_ToolCalls t)) [], gd_finish = t_FinishReason t\<rparr>] [], False)"
proof -
  have "gemini_parts t = [] \<longleftrightarrow> t_Text t = [] \<and> t_ToolCalls t = []" by (simp add: gemini_parts_def)
  then show ?thesis using g_dec_parts [of t]
    by (cases "gemini_parts t = []")
      (simp_all add: gemini_json_def jmap_eval dec_gemini_def dec_cand_def dec_eval)
qed

lemma gemini_decode_encode:
  assumes "utf8_env env" "utf8_turn t" "args_shallow t" "length (EncodeGeminiSSE t env) < max_token"
  shows "DecodeGeminiSSE (EncodeGeminiSSE t env) = wire_turn Gemini t"
proof -
  let ?t = "Normalize t" and ?v = "gemini_json env (Normalize t)"
  have a: "utf8_turn ?t" "args_shallow ?t" using assms utf8_turn_normalize
    by (simp_all add: Normalize_def args_shallow_def list_all_iff)
  note ok = g_json_ok [OF assms(1) a]
  have f: "frames_ok [([], ?v)]" using ok by simp
  have w: "EncodeGeminiSSE t env = write_frames_j [([], ?v)]" by (simp add: EncodeGeminiSSE_def write_frames_j_def)
  have p: "parseSSE (EncodeGeminiSSE t env) = [([], go_j ?v @ ''\<newline>'')]"
    using parse_written [OF f] assms(4) w by simp
  obtain kvs where o: "?v = JObj kvs" by (simp add: gemini_json_def jmap_def)
  note l = obj_line [OF ok(1) o]
  have "take 1 (trim_left is_ws (EncodeGeminiSSE t env)) \<noteq> ''[''"
    by (simp add: EncodeGeminiSSE_def frame_def trim_left_def is_ws_def)
  then have ob: "gemini_objects (EncodeGeminiSSE t env) = [go_j ?v]"
    using p l by (simp add: gemini_objects_def)
  have "unmarshal_ok dec_gemini (go_j ?v) nil_slice =
      Some (Slice [\<lparr>gd_parts = Slice ((if t_Text ?t \<noteq> [] then [g_part0\<lparr>gp_text := t_Text ?t\<rparr>] else []) @
        map g_part_of (t_ToolCalls ?t)) [], gd_finish = t_FinishReason ?t\<rparr>] [])"
    using ok by (simp add: unmarshal_obj g_json_dec)
  then have "gemini_step (go_j ?v) transcript0 = transcript0\<lparr>t_Text := t_Text ?t,
      t_ToolCalls := map (\<lambda>tc. \<lparr>tc_Name = tc_Name tc, tc_Args = wire_args Gemini (tc_Args tc)\<rparr>) (t_ToolCalls ?t),
      t_FinishReason := t_FinishReason ?t\<rparr>"
    using g_parts_run [of ?t] by (simp add: gemini_step_def Let_def del: fold_append)
  then show ?thesis using ob
    by (simp add: DecodeGeminiSSE_def wire_turn_normalized)
qed

section \<open>Ollama\<close>

lemma split_byte_line: "c \<notin> set l \<Longrightarrow> split_byte c (l @ c # r) = l # split_byte c r"
  by (induction l) auto

abbreviation ol_tool :: "tool_call \<Rightarrow> jval" where
  "ol_tool tc \<equiv> jmap [(''function'', jmap [(''name'', JStr (tc_Name tc)), (''arguments'', argsRaw (tc_Args tc))])]"

abbreviation ol_line0 :: ol_line where
  "ol_line0 \<equiv> \<lparr>ol_content = [], ol_tools = nil_slice, ol_done = []\<rparr>"

definition ol_first :: "envelope \<Rightarrow> transcript \<Rightarrow> jval" where
  "ol_first env t = jmap [(''model'', JStr (e_model env)), (''message'', ollama_msg t), (''done'', JBool False)]"

lemma ol_tools_dec:
  "dec_elems g_call0 dec_ol_tool (map ol_tool tcs) [] =
   (map (\<lambda>tc. \<lparr>gc_name = tc_Name tc, gc_args = Some (argsRaw (tc_Args tc))\<rparr>) tcs, [], False)"
  by (induction tcs) (simp_all add: jmap_eval dec_ol_tool_def dec_eval dec_raw_def)

lemma ol_first_dec:
  "dec_ollama (ol_first env t) ol_line0 =
   (ol_line0\<lparr>ol_content := t_Text t, ol_tools := Slice
     (map (\<lambda>tc. \<lparr>gc_name = tc_Name tc, gc_args = Some (argsRaw (tc_Args tc))\<rparr>) (t_ToolCalls t)) []\<rparr>, False)"
  using ol_tools_dec [of "t_ToolCalls t"]
  by (cases "t_ToolCalls t = []")
    (simp_all add: ol_first_def ollama_msg_def jmap_eval dec_ollama_def dec_eval)

lemma ol_done_dec:
  "dec_ollama (ollama_done env t) ol_line0 = (ol_line0\<lparr>ol_done := t_FinishReason t\<rparr>, False)"
  by (simp add: ollama_done_def jmap_eval dec_ollama_def dec_eval)

lemma ol_ok:
  assumes "utf8_env env" "utf8_turn t" "args_shallow t"
  shows "jwf (ol_first env t)" "jdepth (ol_first env t) \<le> max_nesting"
    "jwf (ollama_done env t)" "jdepth (ollama_done env t) \<le> max_nesting"
proof -
  have p: "jwf (ol_tool tc) \<and> jdepth (ol_tool tc) \<le> max_nesting - 10" if "tc \<in> set (t_ToolCalls t)" for tc
    using assms(2,3) that argsRaw_ok [of "tc_Args tc"]
    by (simp add: jmap_eval utf8_turn_def args_shallow_def list_all_iff valid_utf8_ascii del: valid_utf8.simps(2))
      fastforce
  have pw: "\<forall>v \<in> set (map ol_tool (t_ToolCalls t)). jwf v" using p by auto
  have pd: "foldr (\<lambda>v. max (jdepth v)) (map ol_tool (t_ToolCalls t)) 0 \<le> max_nesting - 10"
    by (rule foldr_max_bound) (use p in auto)
  show "jwf (ol_first env t)" using pw assms(2) utf8_envD(2) [OF assms(1)]
    by (simp add: ol_first_def ollama_msg_def jmap_def [of "_ # _ # _"] jmap_eval utf8_turn_def valid_utf8_ascii
        del: valid_utf8.simps(2))
  show "jdepth (ol_first env t) \<le> max_nesting" using pd
    by (simp add: ol_first_def ollama_msg_def jmap_eval max_nesting_def)
  show "jwf (ollama_done env t)" using assms(2) utf8_envD(2) [OF assms(1)]
    by (simp add: ollama_done_def jmap_eval utf8_turn_def valid_utf8_ascii del: valid_utf8.simps(2))
  show "jdepth (ollama_done env t) \<le> max_nesting" by (simp add: ollama_done_def jmap_eval max_nesting_def)
qed

lemma ollama_step_obj:
  assumes "jwf v" "jdepth v \<le> max_nesting" "v = JObj kvs" "dec_ollama v ol_line0 = (l, False)"
  shows "ollama_step (go_j v) t =
    (let t1 = t\<lparr>t_Text := t_Text t @ ol_content l,
        t_ToolCalls := t_ToolCalls t @ map (\<lambda>tc. \<lparr>tc_Name = gc_name tc, tc_Args = raw_canon (gc_args tc)\<rparr>) (elems (ol_tools l))\<rparr>
     in if ol_done l = [] then t1 else t1\<lparr>t_FinishReason := ol_done l\<rparr>)"
proof -
  have "unmarshal_ok dec_ollama (go_j v) ol_line0 = Some l" using assms(1,2,4) by (simp add: unmarshal_obj)
  then show ?thesis using obj_line [OF assms(1,3)] by (simp add: ollama_step_def)
qed

lemma ollama_decode_encode:
  assumes "utf8_env env" "utf8_turn t" "args_shallow t"
  shows "DecodeOllamaNDJSON (EncodeOllamaNDJSON t env) = wire_turn Ollama t"
proof -
  let ?t = "Normalize t"
  have a: "utf8_turn ?t" "args_shallow ?t" using assms utf8_turn_normalize
    by (simp_all add: Normalize_def args_shallow_def list_all_iff)
  note ok = ol_ok [OF assms(1) a]
  have nl: "CHR 0x0A \<notin> set (go_j v)" if "jwf v" for v
    using jencode_printable [OF that, of False] go_j_eq [OF that] by (auto simp: printable_def)
  have s: "split_byte CHR 0x0A (EncodeOllamaNDJSON t env) = [go_j (ol_first env ?t), go_j (ollama_done env ?t), []]"
    using split_byte_line [OF nl [OF ok(1)]] split_byte_line [OF nl [OF ok(3)], of "[]"]
    by (simp add: EncodeOllamaNDJSON_def ol_first_def Let_def)
  obtain k k' where o: "ol_first env ?t = JObj k" "ollama_done env ?t = JObj k'"
    by (simp add: ol_first_def ollama_done_def jmap_def)
  have e: "ollama_step [] u = u" for u by (simp add: ollama_step_def TrimSpace_def)
  have "fold ollama_step (split_byte CHR 0x0A (EncodeOllamaNDJSON t env)) transcript0 =
      \<lparr>t_Role = ''assistant'', t_Text = t_Text ?t,
        t_ToolCalls = map (\<lambda>tc. \<lparr>tc_Name = tc_Name tc, tc_Args = wire_args Ollama (tc_Args tc)\<rparr>) (t_ToolCalls ?t),
        t_FinishReason = t_FinishReason ?t\<rparr>" unfolding s
    using e ollama_step_obj [OF ok(1,2) o(1) ol_first_dec] ollama_step_obj [OF ok(3,4) o(2) ol_done_dec]
    by (cases "t_FinishReason ?t = []") (simp_all add: raw_canon_argsRaw [of Ollama])
  then show ?thesis by (simp add: DecodeOllamaNDJSON_def wire_turn_normalized)
qed

end
