(* ===== verification/Decoded.thy ===== *)
theory Decoded
  imports Codec
begin

text \<open>
  What every decoder guarantees of the transcript it returns, whatever the bytes: it is normalized,
  its role is the assistant's, its strings are valid UTF-8 and the arguments of its tool calls are
  canonical where they are JSON at all.  The proof follows the decoded variables through the
  combinators of Unmarshal.
\<close>

lemmas keeps_int = keeps_any [where d = dec_int]
lemmas keeps_bool = keeps_any [where d = dec_bool]

lemmas keeps_fields =
  keeps_field [OF keeps_string] keeps_field [OF keeps_int] keeps_field [OF keeps_bool] keeps_field [OF keeps_raw]

section \<open>Transcripts\<close>

definition call_good :: "tool_call \<Rightarrow> bool" where
  "call_good c = (valid_utf8 (tc_Name c) \<and> valid_utf8 (tc_Args c) \<and> canonArgs (tc_Args c) = tc_Args c)"

definition turn_good :: "transcript \<Rightarrow> bool" where
  "turn_good t = (t_Role t = ''assistant'' \<and> valid_utf8 (t_Text t) \<and> valid_utf8 (t_FinishReason t) \<and>
     list_all call_good (t_ToolCalls t))"

lemma turn_good_Normalize: "turn_good t \<Longrightarrow> turn_good (Normalize t)"
  by (simp add: turn_good_def Normalize_def list_all_iff)

lemma Normalize_idem: "Normalize (Normalize t) = Normalize t"
  by (intro transcript.equality) (simp_all add: Normalize_def sort_calls_mset [of "sort_key tc_key xs" xs for xs])

lemma turn_good_init: "turn_good transcript0"
  by (simp add: turn_good_def)

lemma valid_utf8_cat: "valid_utf8 x \<Longrightarrow> valid_utf8 y \<Longrightarrow> valid_utf8 (x @ y)"
  by (simp add: valid_utf8_append)

lemma call_good_canon: "valid_utf8 n \<Longrightarrow> valid_utf8 a \<Longrightarrow> call_good \<lparr>tc_Name = n, tc_Args = canon_or_raw a\<rparr>"
  by (simp add: call_good_def canon_or_raw_eq canonArgs_idem valid_utf8_canonArgs)

lemma call_good_raw: "valid_utf8 n \<Longrightarrow> raw_good r \<Longrightarrow> call_good \<lparr>tc_Name = n, tc_Args = raw_canon r\<rparr>"
proof (cases r)
  case None
  have "canon_decode [] = None" by code_simp
  moreover assume "valid_utf8 n"
  ultimately show ?thesis using None
    by (simp add: call_good_def raw_canon_def canonArgs_def Canonicalize_eq)
next
  case (Some v)
  assume "valid_utf8 n" "raw_good r"
  then have g: "jgood v" using Some by (simp add: raw_good_def)
  then have "valid_utf8 (raw_canon (Some v))"
    using jany_jwf [of v] by (auto simp: raw_canon_def jgood_def intro: valid_utf8_jencode)
  then show ?thesis using raw_canon_canonical [OF g] Some \<open>valid_utf8 n\<close>
    by (simp add: call_good_def canonArgs_def)
qed

lemma set_mput: "set (mput k v m) \<subseteq> insert (k, v) (set m)"
  by (induction k v m rule: mput.induct) auto

lemma fold_inv: "(\<And>x s. P s \<Longrightarrow> P (f x s)) \<Longrightarrow> P s \<Longrightarrow> P (fold f xs s)"
  by (induction xs arbitrary: s) auto

section \<open>The Anthropic decoder\<close>

lemma start_keeps: "dec_keeps (\<lambda>r. valid_utf8 (se_type r) \<and> valid_utf8 (se_name r)) dec_start"
  unfolding dec_start_def by (auto intro!: keeps_struct keeps_fields)

lemma delta_keeps: "dec_keeps (\<lambda>r. valid_utf8 (de_type r) \<and> valid_utf8 (de_text r) \<and> valid_utf8 (de_partial r)) dec_delta"
  unfolding dec_delta_def by (auto intro!: keeps_struct keeps_fields)

lemma stop_keeps: "dec_keeps valid_utf8 dec_stop"
  unfolding dec_stop_def by (auto intro!: keeps_struct keeps_string)

definition ablock_good :: "ablock \<Rightarrow> bool" where
  "ablock_good b = (valid_utf8 (ab_name b) \<and> valid_utf8 (ab_text b) \<and> valid_utf8 (ab_args b))"

definition an_good :: "anthropic_state \<Rightarrow> bool" where
  "an_good s = (list_all (\<lambda>kb. ablock_good (snd kb)) (an_blocks s) \<and> valid_utf8 (an_finish s))"

lemma an_good_put: "an_good s \<Longrightarrow> ablock_good b \<Longrightarrow> an_good (s\<lparr>an_blocks := mput k b (an_blocks s)\<rparr>)"
  using set_mput [of k b "an_blocks s"] by (fastforce simp: an_good_def list_all_iff)

lemma anthropic_step_good: "an_good s \<Longrightarrow> an_good (anthropic_step ev s)"
proof -
  assume s: "an_good s"
  obtain ty data where ev: "ev = (ty, data)" by (cases ev)
  have hs: "valid_utf8 (se_name d)" if "unmarshal_ok dec_start data \<lparr>se_index = 0, se_type = [], se_name = []\<rparr> = Some d" for d
    using unmarshal_keeps [OF that start_keeps] by simp
  have hd: "valid_utf8 (de_text d) \<and> valid_utf8 (de_partial d)"
    if "unmarshal_ok dec_delta data \<lparr>de_index = 0, de_type = [], de_text = [], de_partial = []\<rparr> = Some d" for d
    using unmarshal_keeps [OF that delta_keeps] by simp
  have hr: "valid_utf8 r" if "unmarshal_ok dec_stop data [] = Some r" for r
    using unmarshal_keeps [OF that stop_keeps] by simp
  have b: "ablock_good b" if "mget (an_blocks s) k = Some b" for k b
    using s map_of_SomeD [OF that] by (auto simp: an_good_def list_all_iff)
  consider "ty = ''content_block_start''" | "ty = ''content_block_delta''" | "ty = ''message_delta''"
    | "ty = ''error''" | "ty \<notin> {''content_block_start'', ''content_block_delta'', ''message_delta'', ''error''}" by blast
  then show ?thesis
  proof cases
    case 1
    then show ?thesis using s ev hs an_good_put [OF s]
      by (auto simp: anthropic_step_def ablock_good_def an_good_def split: option.split)
  next
    case 2
    show ?thesis
    proof (cases "unmarshal_ok dec_delta data \<lparr>de_index = 0, de_type = [], de_text = [], de_partial = []\<rparr>")
      case (Some d)
      show ?thesis
      proof (cases "mget (an_blocks s) (de_index d)")
        case (Some blk)
        have "ablock_good (if de_type d = ''text_delta'' then blk\<lparr>ab_text := ab_text blk @ de_text d\<rparr>
            else if de_type d = ''input_json_delta'' then blk\<lparr>ab_args := ab_args blk @ de_partial d\<rparr> else blk)"
          using b [OF Some] hd [OF \<open>unmarshal_ok dec_delta data _ = Some d\<close>]
          by (simp add: ablock_good_def valid_utf8_cat)
        then show ?thesis using 2 ev Some \<open>unmarshal_ok dec_delta data _ = Some d\<close> an_good_put [OF s]
          by (simp add: anthropic_step_def)
      qed (use s 2 ev Some in \<open>simp add: anthropic_step_def\<close>)
    qed (use s 2 ev in \<open>simp add: anthropic_step_def\<close>)
  next
    case 3
    then show ?thesis using s ev hr
      by (auto simp: anthropic_step_def an_good_def split: option.split)
  next
    case 4
    then show ?thesis using s ev by (simp add: anthropic_step_def an_good_def split: prod.split)
  next
    case 5
    then show ?thesis using s ev by (simp add: anthropic_step_def)
  qed
qed

lemma anthropic_block_good:
  assumes "list_all (\<lambda>kb. ablock_good (snd kb)) bs" "turn_good t"
  shows "turn_good (anthropic_block bs i t)"
proof (cases "mget bs i")
  case (Some b)
  then have "ablock_good b" using assms(1) map_of_SomeD [OF Some] by (auto simp: list_all_iff)
  then show ?thesis using assms(2) Some
    by (simp add: anthropic_block_def turn_good_def ablock_good_def call_good_canon valid_utf8_cat)
qed (use assms in \<open>simp add: anthropic_block_def\<close>)

lemma anthropic_good: "turn_good (fst (DecodeAnthropicSSE raw)) \<and> Normalize (fst (DecodeAnthropicSSE raw)) = fst (DecodeAnthropicSSE raw)"
proof -
  define S where "S = fold anthropic_step (parseSSE raw) \<lparr>an_blocks = [], an_order = [], an_finish = [], an_err = None\<rparr>"
  have "an_good S" unfolding S_def
  proof (rule fold_inv)
    show "an_good \<lparr>an_blocks = [], an_order = [], an_finish = [], an_err = None\<rparr>" by (simp add: an_good_def)
  qed (rule anthropic_step_good)
  then have s: "list_all (\<lambda>kb. ablock_good (snd kb)) (an_blocks S)" "valid_utf8 (an_finish S)"
    by (simp_all add: an_good_def)
  have "turn_good (fold (anthropic_block (an_blocks S)) (an_order S)
      \<lparr>t_Role = ''assistant'', t_Text = [], t_ToolCalls = [], t_FinishReason = an_finish S\<rparr>)"
    by (rule fold_inv [of turn_good, OF anthropic_block_good [OF s(1)]]) (use s in \<open>simp_all add: turn_good_def\<close>)
  then show ?thesis
    by (simp add: DecodeAnthropicSSE_def anthropic_finish_def turn_good_Normalize Normalize_idem S_def [symmetric])
qed

section \<open>The OpenAI decoders\<close>

definition td_good :: "tool_delta \<Rightarrow> bool" where
  "td_good r = (valid_utf8 (td_id r) \<and> valid_utf8 (td_name r) \<and> valid_utf8 (td_args r))"

definition oc_good :: "oa_choice \<Rightarrow> bool" where
  "oc_good r = (valid_utf8 (oc_role r) \<and> valid_utf8 (oc_content r) \<and> valid_utf8 (oc_finish r) \<and> all_slice td_good (oc_tools r))"

lemma all_slice_nil [simp]: "all_slice Q nil_slice"
  by (simp add: all_slice_def)

lemma td_keeps: "dec_keeps td_good dec_tool_delta"
  unfolding dec_tool_delta_def by (auto intro!: keeps_struct keeps_fields simp: td_good_def)

lemma oc_keeps: "dec_keeps oc_good dec_choice"
  unfolding dec_choice_def
  by (auto intro!: keeps_struct keeps_fields keeps_field [OF keeps_slice [OF td_keeps]] simp: oc_good_def td_good_def)

lemma chunk_keeps: "dec_keeps (all_slice oc_good) dec_chunk"
  unfolding dec_chunk_def
  by (auto intro!: keeps_struct keeps_slice [OF oc_keeps] simp: oc_good_def)

definition oa_good :: "openai_state \<Rightarrow> bool" where
  "oa_good s = (valid_utf8 (oa_text s) \<and> valid_utf8 (oa_finish s) \<and>
     list_all (\<lambda>(i, n, a). valid_utf8 n \<and> valid_utf8 a) (oa_tools s))"

lemma oa_good_put: "oa_good s \<Longrightarrow> valid_utf8 n \<Longrightarrow> valid_utf8 a \<Longrightarrow> oa_good (s\<lparr>oa_tools := mput k (n, a) (oa_tools s), oa_order := ord\<rparr>)"
  using set_mput [of k "(n, a)" "oa_tools s"] by (fastforce simp: oa_good_def list_all_iff)

lemma oa_good_put': "oa_good s \<Longrightarrow> valid_utf8 n \<Longrightarrow> valid_utf8 a \<Longrightarrow> oa_good (s\<lparr>oa_tools := mput k (n, a) (oa_tools s)\<rparr>)"
  using oa_good_put [where s = s and k = k and n = n and a = a and ord = "oa_order s"] by simp

lemma oa_good_get: "oa_good s \<Longrightarrow> mget0 ([], []) (oa_tools s) k = (n, a) \<Longrightarrow> valid_utf8 n \<and> valid_utf8 a"
  by (auto simp: oa_good_def mget0_def list_all_iff split: option.splits dest!: map_of_SomeD)

lemma openai_tool_good:
  assumes "oa_good s" "td_good tc"
  shows "oa_good (openai_tool tc s)"
proof -
  define s1 where "s1 = (case mget (oa_tools s) (td_index tc) of
      None \<Rightarrow> s\<lparr>oa_tools := mput (td_index tc) ([], []) (oa_tools s), oa_order := oa_order s @ [td_index tc]\<rparr>
    | Some _ \<Rightarrow> s)"
  obtain n a where na: "mget0 ([], []) (oa_tools s1) (td_index tc) = (n, a)"
    by (cases "mget0 ([], []) (oa_tools s1) (td_index tc)")
  have s1: "oa_good s1" using assms(1) by (auto simp: s1_def intro!: oa_good_put split: option.split)
  have "valid_utf8 n \<and> valid_utf8 a" using oa_good_get [OF s1 na] .
  then have "oa_good (s1\<lparr>oa_tools := mput (td_index tc) (if td_name tc = [] then n else td_name tc, a @ td_args tc) (oa_tools s1)\<rparr>)"
    using s1 assms(2) by (intro oa_good_put') (auto simp: td_good_def valid_utf8_append)
  then show ?thesis using na by (simp add: openai_tool_def s1_def [symmetric] Let_def)
qed

lemma oa_good_text: "oa_good s \<Longrightarrow> valid_utf8 x \<Longrightarrow> oa_good (s\<lparr>oa_text := oa_text s @ x\<rparr>)"
  by (simp add: oa_good_def valid_utf8_append)

lemma oa_good_finish: "oa_good s \<Longrightarrow> valid_utf8 x \<Longrightarrow> oa_good (s\<lparr>oa_finish := x\<rparr>)"
  by (simp add: oa_good_def)

lemma fold_good: "(\<And>x s. x \<in> set xs \<Longrightarrow> P s \<Longrightarrow> P (f x s)) \<Longrightarrow> P s \<Longrightarrow> P (fold f xs s)"
  by (induction xs arbitrary: s) auto

lemma openai_step_good: "oa_good s \<Longrightarrow> oa_good (openai_step ev s)"
proof -
  assume s: "oa_good s"
  let ?d = "TrimSpace (snd ev)"
  show ?thesis
  proof (cases "unmarshal_ok dec_chunk ?d nil_slice")
    case (Some c)
    have c: "all_slice oc_good c" using unmarshal_keeps [OF Some chunk_keeps] by simp
    show ?thesis
    proof (cases "elems c")
      case (Cons ch chs)
      then have ch: "oc_good ch" using c by (simp add: all_slice_def)
      have "oa_good (fold openai_tool (elems (oc_tools ch)) (s\<lparr>oa_text := oa_text s @ oc_content ch\<rparr>))"
        by (rule fold_good)
          (use s ch in \<open>auto intro: openai_tool_good oa_good_text simp: oc_good_def all_slice_def list_all_iff\<close>)
      then show ?thesis using s Some Cons ch
        by (auto simp: openai_step_def Let_def oc_good_def intro: oa_good_finish)
    qed (use s Some in \<open>simp add: openai_step_def Let_def\<close>)
  qed (use s in \<open>simp add: openai_step_def Let_def\<close>)
qed

lemma resp_keeps: "dec_keeps (\<lambda>r. valid_utf8 (re_type r) \<and> valid_utf8 (re_delta r) \<and> valid_utf8 (re_item_type r) \<and>
    valid_utf8 (re_item_name r) \<and> valid_utf8 (re_status r)) dec_resp"
  unfolding dec_resp_def by (auto intro!: keeps_struct keeps_fields)

lemma responses_step_good: "oa_good s \<Longrightarrow> oa_good (responses_step ev s)"
proof -
  assume s: "oa_good s"
  let ?d = "TrimSpace (snd ev)"
  show ?thesis
  proof (cases "unmarshal_ok dec_resp ?d resp_ev0")
    case (Some m)
    have m: "valid_utf8 (re_delta m)" "valid_utf8 (re_item_name m)" "valid_utf8 (re_status m)"
      using unmarshal_keeps [OF Some resp_keeps] by simp_all
    have t: "oa_good (case mget (oa_tools s) k of None \<Rightarrow> s
        | Some (n, a) \<Rightarrow> s\<lparr>oa_tools := mput k (n, a @ re_delta m) (oa_tools s)\<rparr>)" for k
    proof (cases "mget (oa_tools s) k")
      case (Some na)
      then have "valid_utf8 (fst na) \<and> valid_utf8 (snd na)" using oa_good_get [OF s, of k "fst na" "snd na"]
        by (simp add: mget0_def)
      then show ?thesis using s m Some
        by (auto intro!: oa_good_put' simp: valid_utf8_append split: prod.split)
    qed (use s in simp)
    show ?thesis using s Some m t [of "re_index m"]
      by (simp add: responses_step_def Let_def oa_good_put oa_good_text oa_good_finish)
  qed (use s in \<open>simp add: responses_step_def Let_def\<close>)
qed

lemma openai_finish_good: "oa_good s \<Longrightarrow> turn_good (openai_finish s) \<and> Normalize (openai_finish s) = openai_finish s"
proof -
  assume s: "oa_good s"
  have "list_all call_good (map (\<lambda>i. case mget0 ([], []) (oa_tools s) i of
          (n, a) \<Rightarrow> \<lparr>tc_Name = n, tc_Args = canon_or_raw a\<rparr>) (oa_order s))"
    using oa_good_get [OF s] call_good_canon by (auto simp: list_all_iff split: prod.split)
  then have "turn_good \<lparr>t_Role = ''assistant'', t_Text = oa_text s,
      t_ToolCalls = map (\<lambda>i. case mget0 ([], []) (oa_tools s) i of
          (n, a) \<Rightarrow> \<lparr>tc_Name = n, tc_Args = canon_or_raw a\<rparr>) (oa_order s),
      t_FinishReason = oa_finish s\<rparr>" using s by (simp add: turn_good_def oa_good_def)
  then show ?thesis by (simp only: openai_finish_def turn_good_Normalize Normalize_idem simp_thms)
qed

lemma oa_good_init: "oa_good openai_state0"
  by (simp add: oa_good_def)

section \<open>Gemini and Ollama\<close>

definition gc_good :: "g_call \<Rightarrow> bool" where
  "gc_good r = (valid_utf8 (gc_name r) \<and> raw_good (gc_args r))"

definition gp_good :: "g_part \<Rightarrow> bool" where
  "gp_good r = (valid_utf8 (gp_text r) \<and> pred_option gc_good (gp_call r))"

definition gd_good :: "g_cand \<Rightarrow> bool" where
  "gd_good r = (all_slice gp_good (gd_parts r) \<and> valid_utf8 (gd_finish r))"

lemma raw_good_None [simp]: "raw_good None"
  by (simp add: raw_good_def)

lemma call_keeps: "dec_keeps gc_good dec_call"
  unfolding dec_call_def by (auto intro!: keeps_struct keeps_fields simp: gc_good_def)

lemma part_keeps: "dec_keeps gp_good dec_part"
  unfolding dec_part_def
  by (auto intro!: keeps_struct keeps_fields keeps_field [OF keeps_ptr [OF call_keeps]] simp: gp_good_def gc_good_def)

lemma cand_keeps: "dec_keeps gd_good dec_cand"
  unfolding dec_cand_def
  by (auto intro!: keeps_struct keeps_fields keeps_field [OF keeps_slice [OF part_keeps]] simp: gd_good_def gp_good_def)

lemma gemini_keeps: "dec_keeps (all_slice gd_good) dec_gemini"
  unfolding dec_gemini_def by (auto intro!: keeps_struct keeps_slice [OF cand_keeps] simp: gd_good_def)

lemma gemini_part_good: "turn_good t \<Longrightarrow> gp_good p \<Longrightarrow> turn_good (gemini_part p t)"
  by (auto simp: gemini_part_def turn_good_def gp_good_def gc_good_def call_good_raw valid_utf8_cat split: option.split)

lemma gemini_step_good: "turn_good t \<Longrightarrow> turn_good (gemini_step o' t)"
proof -
  assume t: "turn_good t"
  show ?thesis
  proof (cases "unmarshal_ok dec_gemini o' nil_slice")
    case (Some g)
    have g: "all_slice gd_good g" using unmarshal_keeps [OF Some gemini_keeps] by simp
    show ?thesis
    proof (cases "elems g")
      case (Cons c cs)
      then have c: "gd_good c" using g by (simp add: all_slice_def)
      have "turn_good (fold gemini_part (elems (gd_parts c)) t)"
        by (rule fold_good) (use t c in \<open>auto intro: gemini_part_good simp: gd_good_def all_slice_def list_all_iff\<close>)
      then show ?thesis using Some Cons c by (simp add: gemini_step_def Let_def gd_good_def turn_good_def)
    qed (use t Some in \<open>simp add: gemini_step_def\<close>)
  qed (use t in \<open>simp add: gemini_step_def\<close>)
qed

lemma ol_tool_keeps: "dec_keeps gc_good dec_ol_tool"
  unfolding dec_ol_tool_def by (auto intro!: keeps_struct keeps_fields simp: gc_good_def)

lemma ollama_keeps: "dec_keeps (\<lambda>r. valid_utf8 (ol_content r) \<and> all_slice gc_good (ol_tools r) \<and> valid_utf8 (ol_done r)) dec_ollama"
  unfolding dec_ollama_def
  by (auto intro!: keeps_struct keeps_fields keeps_field [OF keeps_slice [OF ol_tool_keeps]] simp: gc_good_def)

lemma ollama_step_good: "turn_good t \<Longrightarrow> turn_good (ollama_step l t)"
proof -
  assume t: "turn_good t"
  show ?thesis
  proof (cases "unmarshal_ok dec_ollama (TrimSpace l) \<lparr>ol_content = [], ol_tools = nil_slice, ol_done = []\<rparr>")
    case (Some r)
    have r: "valid_utf8 (ol_content r)" "all_slice gc_good (ol_tools r)" "valid_utf8 (ol_done r)"
      using unmarshal_keeps [OF Some ollama_keeps] by simp_all
    have "list_all call_good (map (\<lambda>tc. \<lparr>tc_Name = gc_name tc, tc_Args = raw_canon (gc_args tc)\<rparr>) (elems (ol_tools r)))"
      using r(2) call_good_raw by (auto simp: list_all_iff all_slice_def gc_good_def)
    then show ?thesis using t Some r by (simp add: ollama_step_def Let_def turn_good_def valid_utf8_append)
  qed (use t in \<open>simp add: ollama_step_def Let_def\<close>)
qed

lemma decoded_good_all:
  "turn_good (fst (w_Decode p raw)) \<and> Normalize (fst (w_Decode p raw)) = fst (w_Decode p raw)"
proof -
  have c: "turn_good (DecodeOpenAISSE raw) \<and> Normalize (DecodeOpenAISSE raw) = DecodeOpenAISSE raw"
    unfolding DecodeOpenAISSE_def
    by (rule openai_finish_good [OF fold_inv [of oa_good, OF openai_step_good oa_good_init]])
  have r: "turn_good (DecodeOpenAIResponsesSSE raw) \<and> Normalize (DecodeOpenAIResponsesSSE raw) = DecodeOpenAIResponsesSSE raw"
    unfolding DecodeOpenAIResponsesSSE_def
    by (rule openai_finish_good [OF fold_inv [of oa_good, OF responses_step_good oa_good_init]])
  have g: "turn_good (DecodeGeminiSSE raw) \<and> Normalize (DecodeGeminiSSE raw) = DecodeGeminiSSE raw"
    unfolding DecodeGeminiSSE_def Normalize_idem
    using turn_good_Normalize [OF fold_inv [of turn_good, OF gemini_step_good turn_good_init]] by simp
  have o': "turn_good (DecodeOllamaNDJSON raw) \<and> Normalize (DecodeOllamaNDJSON raw) = DecodeOllamaNDJSON raw"
    unfolding DecodeOllamaNDJSON_def Normalize_idem
    using turn_good_Normalize [OF fold_inv [of turn_good, OF ollama_step_good turn_good_init]] by simp
  have "fst (w_Decode p raw) \<in> {DecodeOpenAISSE raw, DecodeOpenAIResponsesSSE raw, DecodeGeminiSSE raw,
      DecodeOllamaNDJSON raw, fst (DecodeAnthropicSSE raw)}"
    by (cases p) (simp_all add: w_Decode_def dialectFor_def dialects_def)
  then show ?thesis by (elim insertE emptyE) (simp_all only: c r g o' anthropic_good simp_thms)
qed

end
