(* ===== verification/Codec_Laws.thy ===== *)
theory Codec_Laws
  imports Codec_Anthropic Codec_OpenAI Codec_Json Decoded
begin

text \<open>
  What the codec as a whole guarantees: reading back what was written, for every dialect; the
  fixpoint that the codec check reports; and the reframer, whose streams all stand for the same
  transcript whatever numbers the generator draws.
\<close>

section \<open>Runes written back\<close>

lemma cont_val:
  assumes "128 \<le> byte_of b" "byte_of b \<le> (191::nat)"
  obtains y where "byte_of b = 128 + y" "y < (64::nat)" "b = char_of (128 + y)"
proof -
  have "byte_of b = 128 + (byte_of b - 128)" "byte_of b - 128 < (64::nat)" using assms by linarith+
  then show ?thesis using that [of "byte_of b - 128"] by (metis char_of_char)
qed

lemma lead_val:
  assumes "k \<le> byte_of a" "byte_of a < (k + m::nat)"
  obtains x where "byte_of a = k + x" "x < m" "a = char_of (k + x)"
proof -
  have "byte_of a = k + (byte_of a - k)" "byte_of a - k < m" using assms by linarith+
  then show ?thesis using that [of "byte_of a - k"] by (metis char_of_char)
qed

lemma mod64: "u = 64 * k + z \<Longrightarrow> z < 64 \<Longrightarrow> u mod 64 = (z::nat)"
  by simp

lemma rune_val_2:
  assumes "194 \<le> byte_of a" "byte_of a < (224::nat)" "128 \<le> byte_of b" "byte_of b \<le> (191::nat)"
  shows "encode_rune (rune_val [a, b]) = [a, b]"
proof -
  obtain x where x: "byte_of a = 192 + x" "x < 32" "a = char_of (192 + x)"
    using lead_val [of 192 a 32] assms by auto
  obtain y where y: "byte_of b = 128 + y" "y < (64::nat)" "b = char_of (128 + y)" using cont_val assms by blast
  have v: "rune_val [a, b] = x * 64 + y" using x y by simp
  have "(x * 64 + y) div 64 = x" "(x * 64 + y) mod 64 = y" using y by auto
  moreover have "\<not> x * 64 + y < 128" "x * 64 + y < 2048" using x y assms by linarith+
  ultimately show ?thesis using x y unfolding v by (simp add: encode_rune_def)
qed

lemma rune_val_3:
  assumes "224 \<le> byte_of a" "byte_of a < (240::nat)"
    "(if byte_of a = (224::nat) then 160 else 128) \<le> byte_of b" "byte_of b \<le> (if byte_of a = (237::nat) then 159 else (191::nat))"
    "128 \<le> byte_of c" "byte_of c \<le> (191::nat)"
  shows "encode_rune (rune_val [a, b, c]) = [a, b, c]"
proof -
  obtain x where x: "byte_of a = 224 + x" "x < 16" "a = char_of (224 + x)"
    using lead_val [of 224 a 16] assms by auto
  have b: "128 \<le> byte_of b" "byte_of b \<le> (191::nat)" using assms(3,4) by (auto split: if_splits)
  obtain y where y: "byte_of b = 128 + y" "y < (64::nat)" "b = char_of (128 + y)" using cont_val b by blast
  obtain z where z: "byte_of c = 128 + z" "z < (64::nat)" "c = char_of (128 + z)" using cont_val assms by blast
  let ?u = "x * 4096 + y * 64 + z"
  have v: "rune_val [a, b, c] = ?u" using x y z by simp
  have d: "?u div 64 = x * 64 + y" using z by simp
  moreover have "?u div 64 mod 64 = y" by (subst d) (rule mod64 [of _ x], use y in simp_all)
  moreover have "?u div 4096 = x" using y z by (intro div_nat_eqI) auto
  moreover have "?u mod 64 = z" by (rule mod64 [of _ "x * 64 + y"]) (use z in simp_all)
  moreover have "\<not> ?u < 2048" using assms(3) x y by (cases "x = 0") auto
  moreover have "?u < 65536" using x y z by linarith
  moreover have "\<not> is_surrogate ?u"
  proof (cases "x = 13")
    case True
    then have "y < 32" using assms(4) x y by simp
    then show ?thesis using True z by (simp add: is_surrogate_def)
  next
    case False
    then have "x \<le> 12 \<or> 14 \<le> x" by linarith
    then show ?thesis using y z by (auto simp: is_surrogate_def)
  qed
  ultimately show ?thesis using x y z unfolding v by (simp add: encode_rune_def)
qed

lemma rune_val_4:
  assumes "240 \<le> byte_of a" "byte_of a \<le> (244::nat)"
    "(if byte_of a = (240::nat) then 144 else 128) \<le> byte_of b" "byte_of b \<le> (if byte_of a = (244::nat) then 143 else (191::nat))"
    "128 \<le> byte_of c" "byte_of c \<le> (191::nat)" "128 \<le> byte_of d" "byte_of d \<le> (191::nat)"
  shows "encode_rune (rune_val [a, b, c, d]) = [a, b, c, d]"
proof -
  obtain x where x: "byte_of a = 240 + x" "x < 5" "a = char_of (240 + x)"
    using lead_val [of 240 a 5] assms by auto
  have b: "128 \<le> byte_of b" "byte_of b \<le> (191::nat)" using assms(3,4) by (auto split: if_splits)
  obtain y where y: "byte_of b = 128 + y" "y < (64::nat)" "b = char_of (128 + y)" using cont_val b by blast
  obtain z where z: "byte_of c = 128 + z" "z < (64::nat)" "c = char_of (128 + z)" using cont_val assms by blast
  obtain w where w: "byte_of d = 128 + w" "w < (64::nat)" "d = char_of (128 + w)" using cont_val assms by blast
  let ?u = "x * 262144 + y * 4096 + z * 64 + w"
  have v: "rune_val [a, b, c, d] = ?u" using x y z w by simp
  have d: "?u div 64 = x * 4096 + y * 64 + z" using w by simp
  moreover have "?u div 64 mod 64 = z" by (subst d) (rule mod64 [of _ "x * 64 + y"], use z in simp_all)
  moreover have d2: "?u div 4096 = x * 64 + y" using z w by (intro div_nat_eqI) auto
  moreover have "?u div 4096 mod 64 = y" by (subst d2) (rule mod64 [of _ x], use y in simp_all)
  moreover have "?u div 262144 = x" using y z w by (intro div_nat_eqI) auto
  moreover have "?u mod 64 = w" by (rule mod64 [of _ "x * 4096 + y * 64 + z"]) (use w in simp_all)
  moreover have "\<not> ?u < 65536" using assms(3) x y by (cases "x = 0") auto
  moreover have "\<not> 1114111 < ?u"
  proof (cases "x = 4")
    case True
    then have "y < 16" using assms(4) x y by simp
    then show ?thesis using True z w by simp
  next
    case False
    then show ?thesis using x y z w by simp
  qed
  ultimately show ?thesis using x y z w unfolding v by (simp add: encode_rune_def is_surrogate_def)
qed

lemma encode_rune_val:
  assumes "rune_len s \<noteq> 0"
  shows "encode_rune (rune_val (take (rune_len s) s)) = take (rune_len s) s"
proof (cases s)
  case (Cons a t)
  obtain n lo hi where l: "rune_lead a = (n, lo, hi)" by (cases "rune_lead a")
  have r: "rune_len s = n" "n \<noteq> 0" "rune_tail (n - 1) lo hi (take (n - 1) t)"
    using assms l Cons by (auto simp: rune_len.simps(2) split: if_splits)
  have i: "lead_info (byte_of a) = (n, lo, hi)" using l by (simp add: rune_lead_def)
  have t: "take n s = a # take (n - 1) t" using Cons r(2) by (cases n) auto
  consider "n = 1" | "n = 2" | "n = 3" | "n = 4"
    using i r(2) by (auto simp: lead_info_def split: if_splits)
  then show ?thesis
  proof cases
    case 1
    then have "byte_of a < (128::nat)" using i by (auto simp: lead_info_def split: if_splits)
    then show ?thesis using r(1) t 1 by (simp add: encode_rune_def)
  next
    case 2
    then obtain b where b: "take (n - 1) t = [b]" using r(3) by (cases t) (auto simp: rune_tail_def)
    then show ?thesis using r t rune_val_2 [of a b] i 2
      by (auto simp: rune_tail_def in_bytes_def lead_info_def split: if_splits)
  next
    case 3
    then obtain b c where b: "take (n - 1) t = [b, c]"
      using r(3) by (cases "take (n - 1) t"; cases "tl (take (n - 1) t)") (auto simp: rune_tail_def)
    have "224 \<le> byte_of a" "byte_of a < (240::nat)" "lo = (if byte_of a = (224::nat) then 160 else 128)"
      "hi = (if byte_of a = (237::nat) then 159 else 191)"
      using i 3 by (auto simp: lead_info_def split: if_splits)
    then show ?thesis using r t b rune_val_3 [of a b c]
      by (auto simp: rune_tail_def in_bytes_def cont_byte_def)
  next
    case 4
    then obtain b c d where b: "take (n - 1) t = [b, c, d]"
      using r(3) by (cases "take (n - 1) t"; cases "tl (take (n - 1) t)"; cases "tl (tl (take (n - 1) t))") (auto simp: rune_tail_def)
    have "240 \<le> byte_of a" "byte_of a \<le> (244::nat)" "lo = (if byte_of a = (240::nat) then 144 else 128)"
      "hi = (if byte_of a = (244::nat) then 143 else 191)"
      using i 4 by (auto simp: lead_info_def split: if_splits)
    then show ?thesis using r t b rune_val_4 [of a b c d]
      by (auto simp: rune_tail_def in_bytes_def cont_byte_def)
  qed
qed (use assms in simp)

lemma enc_runes_of: "valid_utf8 s \<Longrightarrow> enc_runes (map fst (runes_of s)) = s"
proof (induction s rule: runes_of.induct)
  case (2 c s)
  let ?n = "rune_len (c # s)"
  have n: "?n \<noteq> 0" using 2 by simp
  have "enc_runes (map fst (runes_of (drop (?n - 1) s))) = drop (?n - 1) s" using 2 n by simp
  moreover have "take ?n (c # s) @ drop (?n - 1) s = c # s" using n by (cases ?n) auto
  ultimately show ?case using n encode_rune_val [OF n] by (simp add: enc_runes_def Let_def)
qed (simp add: enc_runes_def)

lemma valid_enc_runes: "valid_utf8 (enc_runes rs)"
proof (induction rs)
  case (Cons r rs)
  then show ?case using valid_utf8_rune [of "encode_rune r" "enc_runes rs"]
    by (simp add: enc_runes_def rune_len_encode_rune encode_rune_ne)
qed (simp add: enc_runes_def)

section \<open>Splitting and shuffling\<close>

lemma concat_cut_at: "concat (cut_at ps rs p cur) = enc_runes (cur @ rs)"
proof (induction ps rs p cur rule: cut_at.induct)
  case (2 ps r rs p cur)
  then show ?case by (simp add: enc_runes_def)
qed simp

lemma cut_at_valid: "list_all valid_utf8 (cut_at ps rs p cur)"
  by (induction ps rs p cur rule: cut_at.induct) (simp_all add: valid_enc_runes)

lemma splitRunes_pieces:
  assumes "valid_utf8 s"
  shows "concat (fst (splitRunes intn s g)) = s \<and> list_all valid_utf8 (fst (splitRunes intn s g))"
proof -
  have "fst (splitRunes intn s g) = [s] \<or> (\<exists>ps. fst (splitRunes intn s g) = cut_at ps (map fst (runes_of s)) 0 [])"
    by (auto simp: splitRunes_def Let_def split: prod.split)
  then show ?thesis using assms enc_runes_of [OF assms] concat_cut_at cut_at_valid by fastforce
qed

text \<open>The generator's numbers are below the bound they were asked for.\<close>

definition intn_ok :: "'g rng \<Rightarrow> bool" where
  "intn_ok intn = (\<forall>g n. 0 < n \<longrightarrow> fst (intn g n) < n)"

lemma rng_perm_perm: "intn_ok intn \<Longrightarrow> mset (fst (rng_perm intn n g)) = mset [0 ..< n]"
proof (induction n)
  case (Suc i)
  obtain m g' where m: "rng_perm intn i g = (m, g')" by (cases "rng_perm intn i g")
  obtain j g'' where j: "intn g' (Suc i) = (j, g'')" by (cases "intn g' (Suc i)")
  have l: "mset m = mset [0 ..< i]" using Suc m by simp
  then have len: "length m = i" using mset_eq_length by fastforce
  have jb: "j < Suc i" using Suc.prems j unfolding intn_ok_def by (metis fst_conv zero_less_Suc)
  have "(m @ [i]) ! i = i" using nth_append_length [of m i] len by simp
  then have "fst (rng_perm intn (Suc i) g) = (m @ [i])[i := (m @ [i]) ! j, j := (m @ [i]) ! i]"
    using m j by simp
  then have "mset (fst (rng_perm intn (Suc i) g)) = mset (m @ [i])"
    using mset_swap [of j "m @ [i]" i] jb len by simp
  then show ?case using l by simp
qed simp

lemma rng_perm_calls:
  assumes "intn_ok intn"
  shows "mset (map snd (map (\<lambda>ti. (ti, xs ! ti)) (fst (rng_perm intn (length xs) g)))) = mset xs"
proof -
  have "mset (map (\<lambda>ti. xs ! ti) (fst (rng_perm intn (length xs) g))) = image_mset (\<lambda>ti. xs ! ti) (mset [0 ..< length xs])"
    using rng_perm_perm [OF assms] by (simp add: mset_map)
  also have "\<dots> = mset (map (\<lambda>ti. xs ! ti) [0 ..< length xs])" by (simp add: mset_map)
  finally show ?thesis by (simp add: comp_def map_nth)
qed

lemma shuffled_turn:
  assumes "mset (map snd calls) = mset (t_ToolCalls (Normalize t))"
  shows "Normalize \<lparr>t_Role = ''assistant'', t_Text = t_Text (Normalize t),
      t_ToolCalls = map (\<lambda>(i, tc). \<lparr>tc_Name = tc_Name tc, tc_Args = canonArgs (tc_Args tc)\<rparr>) calls,
      t_FinishReason = t_FinishReason (Normalize t)\<rparr> = wire_turn Anthropic t"
proof -
  let ?f = "\<lambda>tc. \<lparr>tc_Name = tc_Name tc, tc_Args = wire_args Anthropic (tc_Args tc)\<rparr>"
  have m: "map (\<lambda>(i, tc). \<lparr>tc_Name = tc_Name tc, tc_Args = canonArgs (tc_Args tc)\<rparr>) calls = map ?f (map snd calls)"
    by (simp add: case_prod_unfold comp_def wire_args_def)
  have m2: "mset (map ?f (map snd calls)) = mset (map ?f (t_ToolCalls (Normalize t)))"
    unfolding mset_map [of ?f] assms ..
  have "sort_key tc_key (map (\<lambda>(i, tc). \<lparr>tc_Name = tc_Name tc, tc_Args = canonArgs (tc_Args tc)\<rparr>) calls) =
      sort_key tc_key (map ?f (t_ToolCalls (Normalize t)))"
    unfolding m by (rule sort_calls_mset [OF m2])
  then have "Normalize \<lparr>t_Role = ''assistant'', t_Text = t_Text (Normalize t),
      t_ToolCalls = map (\<lambda>(i, tc). \<lparr>tc_Name = tc_Name tc, tc_Args = canonArgs (tc_Args tc)\<rparr>) calls,
      t_FinishReason = t_FinishReason (Normalize t)\<rparr> =
    Normalize \<lparr>t_Role = ''assistant'', t_Text = t_Text (Normalize t), t_ToolCalls = map ?f (t_ToolCalls (Normalize t)),
      t_FinishReason = t_FinishReason (Normalize t)\<rparr>"
    by (simp add: Normalize_def)
  then show ?thesis by (simp only: wire_turn_normalized [OF refl])
qed

section \<open>Decoding what was encoded\<close>

lemma anthropic_decode_calls:
  assumes "utf8_env env" "utf8_turn t" "length (t_ToolCalls t) < 2 ^ 62"
    "list_all valid_utf8 pieces" "t_Text t \<noteq> [] \<Longrightarrow> concat pieces = t_Text t"
    "mset (map snd calls) = mset (t_ToolCalls (Normalize t))"
    "length (write_frames_j (anthropic_frames env (Normalize t) pieces calls)) < max_token"
  shows "DecodeAnthropicSSE (write_frames_j (anthropic_frames env (Normalize t) pieces calls)) = (wire_turn Anthropic t, None)"
proof -
  let ?t = "Normalize t" and ?p = "if t_Text t \<noteq> [] then pieces else []"
  have u: "utf8_turn ?t" using assms(2) by (rule utf8_turn_normalize)
  have x: "t_Text ?t = t_Text t" by (simp add: Normalize_def)
  have s: "set (map snd calls) = set (t_ToolCalls ?t)" using assms(6) by (metis set_mset_mset)
  have l: "length (map snd calls) = length (t_ToolCalls ?t)" using assms(6) mset_eq_length by blast
  have c: "list_all (\<lambda>(i, tc). valid_utf8 (tc_Name tc) \<and> valid_utf8 (tc_Args tc)) calls"
  proof -
    have "tc \<in> set (t_ToolCalls ?t)" if "(i, tc) \<in> set calls" for i tc using that s by force
    then show ?thesis using u by (auto simp: utf8_turn_def list_all_iff)
  qed
  have e: "anthropic_frames env ?t pieces calls = anthropic_frames env ?t ?p calls"
    by (simp add: anthropic_frames_def x)
  have "DecodeAnthropicSSE (write_frames_j (anthropic_frames env ?t ?p calls)) =
    (Normalize \<lparr>t_Role = ''assistant'', t_Text = t_Text ?t,
       t_ToolCalls = map (\<lambda>(i, tc). \<lparr>tc_Name = tc_Name tc, tc_Args = canonArgs (tc_Args tc)\<rparr>) calls,
       t_FinishReason = t_FinishReason ?t\<rparr>, None)"
  proof (rule anthropic_decode_frames [OF assms(1) _ _ c])
    show "valid_utf8 (t_FinishReason ?t)" using u by (simp add: utf8_turn_def)
    show "list_all valid_utf8 ?p" using assms(4) by simp
    show "int (length calls) < 2 ^ 62" using l assms(3) by (simp add: Normalize_def)
    show "concat ?p = t_Text ?t" using assms(5) x by auto
    show "length (write_frames_j (anthropic_frames env ?t ?p calls)) < max_token" using assms(7) e by simp
  qed
  then show ?thesis unfolding e shuffled_turn [OF assms(6)] .
qed

text \<open>
  What a transcript must satisfy to be written and read back: valid UTF-8, fewer calls than an
  int counts, and, where the arguments are embedded as JSON, room for their nesting.
\<close>

definition codec_ok :: "provider \<Rightarrow> transcript \<Rightarrow> envelope \<Rightarrow> bool" where
  "codec_ok p t env = (utf8_env env \<and> utf8_turn t \<and> (p = Gemini \<or> p = Ollama \<longrightarrow> args_shallow t) \<and>
     length (t_ToolCalls t) < 2 ^ 62)"

lemma decode_of_encode_all:
  assumes "codec_ok p t env" "length (w_Encode p t env) < max_token"
  shows "w_Decode p (w_Encode p t env) = (wire_turn (d_provider (dialectFor p)) t, None)"
proof -
  have c: "utf8_env env" "utf8_turn t" "p = Gemini \<or> p = Ollama \<Longrightarrow> args_shallow t" "length (t_ToolCalls t) < 2 ^ 62"
    using assms(1) by (auto simp: codec_ok_def)
  have a: "DecodeAnthropicSSE (EncodeAnthropicSSE t env) = (wire_turn Anthropic t, None)"
    if "length (EncodeAnthropicSSE t env) < max_token"
  proof -
    have "utf8_turn (Normalize t)" using c(2) by (rule utf8_turn_normalize)
    then have "valid_utf8 (t_Text (Normalize t))" by (simp add: utf8_turn_def)
    then show ?thesis
      using anthropic_decode_calls [OF c(1,2,4), of "[t_Text (Normalize t)]" "enumerate 0 (t_ToolCalls (Normalize t))"] that
      by (simp add: EncodeAnthropicSSE_def Let_def Normalize_def)
  qed
  show ?thesis
    using a openai_decode_encode [OF c(1,2,4)] responses_decode_encode [OF c(1,2,4)]
      gemini_decode_encode [OF c(1,2)] ollama_decode_encode [OF c(1,2)] c(3) assms(2)
    by (cases p) (simp_all add: w_Encode_def w_Decode_def dialectFor_def dialects_def)
qed

section \<open>The guarantees\<close>

lemma codec_dispatch:
  "w_Decode Ollama raw = (DecodeOllamaNDJSON raw, None)"
  "w_Decode Gemini raw = (DecodeGeminiSSE raw, None)"
  "w_Decode OpenAIChat raw = (DecodeOpenAISSE raw, None)"
  "w_Decode OpenAIResponses raw = (DecodeOpenAIResponsesSSE raw, None)"
  "w_Decode Anthropic raw = DecodeAnthropicSSE raw"
  "w_Encode Ollama = EncodeOllamaNDJSON" "w_Encode Gemini = EncodeGeminiSSE"
  "w_Encode OpenAIChat = EncodeOpenAISSE" "w_Encode OpenAIResponses = EncodeOpenAIResponsesSSE"
  "w_Encode Anthropic = EncodeAnthropicSSE"
  by (simp_all add: w_Decode_def w_Encode_def [abs_def] dialectFor_def dialects_def)

lemma decoded_good: "fst (w_Decode p raw) = t \<Longrightarrow> turn_good t \<and> Normalize t = t"
  using decoded_good_all [of p raw] by auto

text \<open>
  C10. For every dialect and every transcript of valid UTF-8, decoding what was encoded gives the
  transcript back, normalized, with the assistant's role and canonical tool arguments, and no
  error, whatever the envelope; the bound is the buffer of the line scanner.
\<close>

theorem decode_of_encode:
  assumes "codec_ok p t env" "length (w_Encode p t env) < max_token"
  shows "w_Decode p (w_Encode p t env) = (wire_turn (d_provider (dialectFor p)) t, None)"
  using assms by (rule decode_of_encode_all)

lemma decode_of_encode_witness:
  "w_Decode Ollama (w_Encode Ollama \<lparr>t_Role = [], t_Text = ''hi'', t_ToolCalls = [\<lparr>tc_Name = ''f'', tc_Args = ''[ ]''\<rparr>],
      t_FinishReason = ''stop''\<rparr> envelope0) =
    (\<lparr>t_Role = ''assistant'', t_Text = ''hi'', t_ToolCalls = [\<lparr>tc_Name = ''f'', tc_Args = ''[]''\<rparr>],
      t_FinishReason = ''stop''\<rparr>, None)"
proof -
  let ?t = "\<lparr>t_Role = [], t_Text = ''hi'', t_ToolCalls = [\<lparr>tc_Name = ''f'', tc_Args = ''[ ]''\<rparr>], t_FinishReason = ''stop''\<rparr>"
  have a: "argsRaw ''[ ]'' = JArr []" by code_simp
  have ok: "codec_ok Ollama ?t envelope0"
    by (simp add: codec_ok_def utf8_env_def utf8_turn_def args_shallow_def a max_nesting_def valid_utf8_ascii
        del: valid_utf8.simps(2))
  have e: "w_Encode Ollama ?t envelope0 =
      ''{\"done\":false,\"message\":{\"content\":\"hi\",\"role\":\"assistant\",\"tool_calls\":[{\"function\":{\"arguments\":[],\"name\":\"f\"}}]},\"model\":\"model\"}\<newline>{\"done\":true,\"done_reason\":\"stop\",\"message\":{\"content\":\"\",\"role\":\"assistant\"},\"model\":\"model\"}\<newline>''"
    by code_simp
  have l: "length (w_Encode Ollama ?t envelope0) < max_token" unfolding e by (simp add: max_token_def)
  have w: "wire_turn (d_provider (dialectFor Ollama)) ?t = \<lparr>t_Role = ''assistant'', t_Text = ''hi'',
      t_ToolCalls = [\<lparr>tc_Name = ''f'', tc_Args = ''[]''\<rparr>], t_FinishReason = ''stop''\<rparr>" by code_simp
  show ?thesis using decode_of_encode [OF ok l] w by simp
qed

text \<open>
  Whatever bytes a decoder is given, the transcript it returns is normalized, has the
  assistant's role, valid UTF-8 throughout, and tool arguments that canonicalization leaves alone.
\<close>

theorem decoded_transcripts_normal:
  "t_Role (fst (w_Decode p raw)) = ''assistant'' \<and>
   Normalize (fst (w_Decode p raw)) = fst (w_Decode p raw) \<and>
   utf8_turn (fst (w_Decode p raw)) \<and>
   list_all (\<lambda>c. canonArgs (tc_Args c) = tc_Args c) (t_ToolCalls (fst (w_Decode p raw)))"
  using decoded_good_all [of p raw]
  by (auto simp: turn_good_def utf8_turn_def list_all_iff call_good_def)

lemma wire_turn_fix:
  assumes "turn_good t" "Normalize t = t" "\<forall>c \<in> set (t_ToolCalls t). wire_args p (tc_Args c) = tc_Args c"
  shows "wire_turn p t = t"
proof -
  have "map (\<lambda>c. c\<lparr>tc_Args := wire_args p (tc_Args c)\<rparr>) (t_ToolCalls t) = t_ToolCalls t"
    using assms(3) by (intro map_idI) auto
  then have "t\<lparr>t_Role := ''assistant'', t_ToolCalls := map (\<lambda>c. c\<lparr>tc_Args := wire_args p (tc_Args c)\<rparr>) (t_ToolCalls t)\<rparr> = t"
    using assms(1) by (intro transcript.equality) (simp_all add: turn_good_def)
  then show ?thesis using assms(2) by (simp only: wire_turn_def)
qed

text \<open>A decoded turn whose embedded arguments are JSON stands for itself on the wire.\<close>

lemma decoded_wire_turn:
  assumes g: "turn_good t" "Normalize t = t"
    and a: "p = Gemini \<or> p = Ollama \<Longrightarrow> args_shallow t \<and> list_all (\<lambda>c. Canonicalize (tc_Args c) \<noteq> None) (t_ToolCalls t)"
    and n: "length (t_ToolCalls t) < 2 ^ 62"
  shows "codec_ok p t envelope0" "wire_turn (d_provider (dialectFor p)) t = t"
proof -
  show "codec_ok p t envelope0" using g(1) a n
    by (auto simp: codec_ok_def utf8_env_def utf8_turn_def turn_good_def call_good_def list_all_iff)
  have "wire_args (d_provider (dialectFor p)) (tc_Args c) = tc_Args c" if "c \<in> set (t_ToolCalls t)" for c
  proof -
    have c: "canonArgs (tc_Args c) = tc_Args c" using g(1) that by (simp add: turn_good_def call_good_def list_all_iff)
    have d: "d_provider (dialectFor p) = (case p of OtherProvider _ \<Rightarrow> Anthropic | _ \<Rightarrow> p)"
      by (cases p) (simp_all add: dialectFor_def dialects_def)
    show ?thesis
    proof (cases "p = Gemini \<or> p = Ollama")
      case True
      then have "Canonicalize (tc_Args c) \<noteq> None" using a that by (simp add: list_all_iff)
      then show ?thesis using c True d by (auto simp: wire_args_def canonArgs_def)
    next
      case False
      then show ?thesis using c d by (cases p) (simp_all add: wire_args_def)
    qed
  qed
  then show "wire_turn (d_provider (dialectFor p)) t = t" using g by (intro wire_turn_fix) auto
qed

lemma round_trip_fix:
  assumes "w_Decode p raw = (t, None)"
    "p = Gemini \<or> p = Ollama \<Longrightarrow> args_shallow t \<and> list_all (\<lambda>c. Canonicalize (tc_Args c) \<noteq> None) (t_ToolCalls t)"
    "length (t_ToolCalls t) < 2 ^ 62" "length (w_Encode p t envelope0) < max_token"
  shows "RoundTrip_codec p raw = (\<lparr>rt_Decoded = t, rt_Redecoded = t, rt_Stable = True, rt_Deterministic = True\<rparr>, None)"
proof -
  have g: "turn_good t" "Normalize t = t" using decoded_good [of p raw t] assms(1) by auto
  note w = decoded_wire_turn [OF g assms(2,3)]
  have "w_Decode p (w_Encode p t envelope0) = (t, None)"
    using decode_of_encode_all [OF w(1) assms(4)] w(2) by simp
  then show ?thesis using assms(1) by (simp add: RoundTrip_codec_def Let_def t_Equal_def)
qed

text \<open>
  The codec check reports a fixpoint for every stream a decoder reads without an error: the
  re-encoded transcript decodes to itself and the encoder is deterministic.  Where arguments are
  embedded as JSON, every tool call must have some.
\<close>

theorem RoundTrip_stable:
  assumes "w_Decode p raw = (t, None)"
    "p = Gemini \<or> p = Ollama \<Longrightarrow> args_shallow t \<and> list_all (\<lambda>c. Canonicalize (tc_Args c) \<noteq> None) (t_ToolCalls t)"
    "length (t_ToolCalls t) < 2 ^ 62" "length (w_Encode p t envelope0) < max_token"
  shows "RoundTrip_codec p raw = (\<lparr>rt_Decoded = t, rt_Redecoded = t, rt_Stable = True, rt_Deterministic = True\<rparr>, None)"
  using assms by (rule round_trip_fix)

lemma RoundTrip_stable_witness:
  "RoundTrip_codec Ollama ''{\"message\":{\"content\":\"a\"}}\<newline>{\"Message\":{\"content\":\"b\"},\"done_reason\":\"stop\"}'' =
     (\<lparr>rt_Decoded = \<lparr>t_Role = ''assistant'', t_Text = ''ab'', t_ToolCalls = [], t_FinishReason = ''stop''\<rparr>,
       rt_Redecoded = \<lparr>t_Role = ''assistant'', t_Text = ''ab'', t_ToolCalls = [], t_FinishReason = ''stop''\<rparr>,
       rt_Stable = True, rt_Deterministic = True\<rparr>, None)"
proof -
  let ?t = "\<lparr>t_Role = ''assistant'', t_Text = ''ab'', t_ToolCalls = [], t_FinishReason = ''stop''\<rparr>"
  have d: "w_Decode Ollama ''{\"message\":{\"content\":\"a\"}}\<newline>{\"Message\":{\"content\":\"b\"},\"done_reason\":\"stop\"}'' = (?t, None)"
    unfolding codec_dispatch by code_simp
  have e: "w_Encode Ollama ?t envelope0 =
      ''{\"done\":false,\"message\":{\"content\":\"ab\",\"role\":\"assistant\"},\"model\":\"model\"}\<newline>{\"done\":true,\"done_reason\":\"stop\",\"message\":{\"content\":\"\",\"role\":\"assistant\"},\"model\":\"model\"}\<newline>''"
    by code_simp
  have l: "length (w_Encode Ollama ?t envelope0) < max_token" unfolding e by (simp add: max_token_def)
  show ?thesis by (rule RoundTrip_stable [OF d _ _ l]) (simp_all add: args_shallow_def)
qed

section \<open>Reframed streams\<close>

lemma encode_normalized: "w_Encode p (Normalize t) env = w_Encode p t env"
  by (cases p) (simp_all add: w_Encode_def dialectFor_def dialects_def EncodeAnthropicSSE_def EncodeOpenAISSE_def
      EncodeOpenAIResponsesSSE_def EncodeGeminiSSE_def EncodeOllamaNDJSON_def Normalize_idem)

lemma reframe_env_ok: "utf8_env (envelope0\<lparr>e_MessageID := ''msg_reframe_'' @ itoa i, e_OutputTokens := k\<rparr>)"
  by (simp add: utf8_env_def valid_utf8_append_ascii valid_utf8_ascii del: valid_utf8.simps(2))

lemma reframeAnthropic_decodes:
  assumes "intn_ok intn" "utf8_env env" "utf8_turn t" "length (t_ToolCalls t) < 2 ^ 62"
    "reframeAnthropic intn (Normalize t) env g = (b, g')" "length b < max_token"
  shows "DecodeAnthropicSSE b = (wire_turn Anthropic t, None)"
proof -
  let ?t = "Normalize t"
  obtain pieces g1 where p: "(if t_Text ?t \<noteq> [] then splitRunes intn (t_Text ?t) g else ([], g)) = (pieces, g1)"
    by (cases "if t_Text ?t \<noteq> [] then splitRunes intn (t_Text ?t) g else ([], g)")
  obtain order g2 where o: "rng_perm intn (length (t_ToolCalls ?t)) g1 = (order, g2)"
    by (cases "rng_perm intn (length (t_ToolCalls ?t)) g1")
  let ?calls = "map (\<lambda>ti. (ti, t_ToolCalls ?t ! ti)) order"
  have b: "b = write_frames_j (anthropic_frames env ?t pieces ?calls)"
    using assms(5) p o by (simp add: reframeAnthropic_def)
  have "utf8_turn ?t" using assms(3) by (rule utf8_turn_normalize)
  then have v: "valid_utf8 (t_Text ?t)" by (simp add: utf8_turn_def)
  have "list_all valid_utf8 pieces \<and> (t_Text ?t \<noteq> [] \<longrightarrow> concat pieces = t_Text ?t)"
    using splitRunes_pieces [OF v, of intn g] p by (cases "t_Text ?t = []") auto
  then have s: "list_all valid_utf8 pieces" "t_Text t \<noteq> [] \<Longrightarrow> concat pieces = t_Text t"
    by (simp_all add: Normalize_def)
  have m: "mset (map snd ?calls) = mset (t_ToolCalls ?t)"
    using rng_perm_calls [OF assms(1), of "t_ToolCalls ?t" g1] o by simp
  show ?thesis unfolding b
    by (rule anthropic_decode_calls [OF assms(2-4) s m]) (use assms(6) b in simp_all)
qed

lemma reframe_loop_decodes:
  assumes "intn_ok intn" "codec_ok p t envelope0"
  shows "b \<in> set (reframe_loop intn p (Normalize t) n g) \<Longrightarrow> length b < max_token \<Longrightarrow>
    w_Decode p b = (wire_turn (d_provider (dialectFor p)) t, None)"
proof (induction n arbitrary: g)
  case (Suc n)
  obtain m g1 where m: "intn g (2 ^ 30) = (m, g1)" by (cases "intn g (2 ^ 30)")
  obtain k g2 where k: "intn g1 500 = (k, g2)" by (cases "intn g1 500")
  let ?env = "envelope0\<lparr>e_MessageID := ''msg_reframe_'' @ itoa (int m), e_OutputTokens := int k\<rparr>"
  have c: "codec_ok p t ?env" using assms(2) reframe_env_ok by (simp add: codec_ok_def)
  have e: "w_Decode p b = (wire_turn (d_provider (dialectFor p)) t, None)" if "b = w_Encode p (Normalize t) ?env"
    using decode_of_encode_all [OF c] Suc.prems(2) that by (simp add: encode_normalized)
  show ?case
  proof (cases "p = Anthropic")
    case True
    obtain b' g3 where r: "reframeAnthropic intn (Normalize t) ?env g2 = (b', g3)"
      by (cases "reframeAnthropic intn (Normalize t) ?env g2")
    have "b = b' \<or> b \<in> set (reframe_loop intn p (Normalize t) n g3)"
      using Suc.prems(1) True m k r by (simp add: Let_def)
    then show ?thesis
    proof
      assume "b = b'"
      have "DecodeAnthropicSSE b' = (wire_turn Anthropic t, None)"
        by (rule reframeAnthropic_decodes [OF assms(1) _ _ _ r])
          (use c \<open>b = b'\<close> Suc.prems(2) in \<open>simp_all add: codec_ok_def\<close>)
      then show ?thesis using \<open>b = b'\<close> True
        by (simp add: codec_dispatch dialectFor_def dialects_def)
    qed (rule Suc.IH [OF _ Suc.prems(2)])
  next
    case False
    have "b = w_Encode p (Normalize t) ?env \<or> b \<in> set (reframe_loop intn p (Normalize t) n g2)"
      using Suc.prems(1) False m k by (simp add: Let_def)
    then show ?thesis using e Suc.IH [OF _ Suc.prems(2)] by blast
  qed
qed simp

text \<open>
  C39. Every stream Reframe makes of a transcript decodes to that transcript, wherever the generator
  cuts the text and however it orders the tool calls, in every dialect.
\<close>

theorem reframe_same_transcript:
  assumes "intn_ok intn" "codec_ok p t envelope0" "b \<in> set (Reframe intn p t g n)" "length b < max_token"
  shows "w_Decode p b = (wire_turn (d_provider (dialectFor p)) t, None)"
  using assms(3,4) unfolding Reframe_def by (rule reframe_loop_decodes [OF assms(1,2)])

definition counter_rng :: "nat rng" where
  "counter_rng g n = (g mod n, Suc g)"

lemma reframe_same_transcript_witness:
  "map (w_Decode Ollama) (Reframe counter_rng Ollama \<lparr>t_Role = [], t_Text = ''hi'', t_ToolCalls = [], t_FinishReason = ''stop''\<rparr> 7 1) =
    [(\<lparr>t_Role = ''assistant'', t_Text = ''hi'', t_ToolCalls = [], t_FinishReason = ''stop''\<rparr>, None)]"
proof -
  let ?t = "\<lparr>t_Role = [], t_Text = ''hi'', t_ToolCalls = [], t_FinishReason = ''stop''\<rparr>"
  have i: "intn_ok counter_rng" by (simp add: intn_ok_def counter_rng_def)
  have ok: "codec_ok Ollama ?t envelope0"
    by (simp add: codec_ok_def utf8_env_def utf8_turn_def args_shallow_def valid_utf8_ascii del: valid_utf8.simps(2))
  obtain b where b: "Reframe counter_rng Ollama ?t 7 1 = [b]"
    "b = w_Encode Ollama ?t (envelope0\<lparr>e_MessageID := ''msg_reframe_'' @ itoa 7, e_OutputTokens := 8\<rparr>)"
    by (simp add: Reframe_def counter_rng_def Let_def encode_normalized)
  have "b = ''{\"done\":false,\"message\":{\"content\":\"hi\",\"role\":\"assistant\"},\"model\":\"model\"}\<newline>{\"done\":true,\"done_reason\":\"stop\",\"message\":{\"content\":\"\",\"role\":\"assistant\"},\"model\":\"model\"}\<newline>''"
    unfolding b(2) codec_dispatch by code_simp
  then have l: "length b < max_token" by (simp add: max_token_def)
  have w: "wire_turn (d_provider (dialectFor Ollama)) ?t = \<lparr>t_Role = ''assistant'', t_Text = ''hi'', t_ToolCalls = [],
      t_FinishReason = ''stop''\<rparr>" by code_simp
  have "b \<in> set (Reframe counter_rng Ollama ?t 7 1)" using b(1) by simp
  from reframe_same_transcript [OF i ok this l] show ?thesis using b(1) w by simp
qed

end
