(* ===== verification/Codec_Edges.thy ===== *)
theory Codec_Edges
  imports Codec_Laws
begin

text \<open>
  What the digest of a transcript identifies, the consistency of the registry of dialects, and the
  behaviour of the decoders at their edges: calls without arguments, lines longer than the scanner's
  buffer, chunks of several choices.
\<close>

section \<open>Digests\<close>

lemma canon_text_jencode:
  assumes "jwf v" "jdepth v \<le> max_nesting"
  shows "canon_text (jencode h v) = jencode False (jany v)"
proof -
  have "jprefix (jencode h v) = Some (v, [])" using jprefix_jencode [OF assms, of "[]" h] by simp
  then show ?thesis by (simp add: canon_text_def Canonicalize_eq canon_decode_def dec_more_def)
qed

lemma transcript_json_ok:
  assumes "utf8_turn t" "valid_utf8 (t_Role t)"
  shows "jwf (transcript_json t) \<and> jdepth (transcript_json t) \<le> max_nesting"
proof -
  have c: "jwf (tool_call_json c) \<and> jdepth (tool_call_json c) \<le> 5" if "c \<in> set (t_ToolCalls t)" for c
    using assms(1) that
    by (simp add: tool_call_json_def utf8_turn_def list_all_iff valid_utf8_ascii del: valid_utf8.simps(2))
  have d: "foldr (\<lambda>v. max (jdepth v)) (map tool_call_json (t_ToolCalls t)) 0 \<le> 5"
    by (rule foldr_max_bound) (use c in auto)
  then show ?thesis using c assms
    by (simp add: transcript_json_def utf8_turn_def valid_utf8_ascii max_nesting_def del: valid_utf8.simps(2))
qed

lemma jany_transcript:
  "jany (transcript_json t) = JObj
     [(''finish_reason'', JStr (t_FinishReason t)), (''role'', JStr (t_Role t)), (''text'', JStr (t_Text t)),
      (''tool_calls'', if t_ToolCalls t = [] then JNull
        else JArr (map (\<lambda>c. JObj [(''args'', JStr (tc_Args c)), (''name'', JStr (tc_Name c))]) (t_ToolCalls t)))]"
  by (simp add: transcript_json_def tool_call_json_def jmap_eval)

lemma jany_transcript_inj:
  assumes "jany (transcript_json a) = jany (transcript_json b)"
  shows "a = b"
proof -
  let ?f = "\<lambda>c :: tool_call. JObj [(''args'', JStr (tc_Args c)), (''name'', JStr (tc_Name c))]"
  have inj: "inj ?f" by (rule injI) (auto intro!: tool_call.equality)
  have "(if t_ToolCalls a = [] then JNull else JArr (map ?f (t_ToolCalls a))) =
      (if t_ToolCalls b = [] then JNull else JArr (map ?f (t_ToolCalls b)))"
    using assms by (simp add: jany_transcript)
  then have "map ?f (t_ToolCalls a) = map ?f (t_ToolCalls b)" by (simp split: if_splits)
  then have "t_ToolCalls a = t_ToolCalls b" using inj by (simp add: inj_map_eq_map)
  then show ?thesis using assms by (intro transcript.equality) (simp_all add: jany_transcript)
qed

lemma digest_text:
  assumes "utf8_turn t" "valid_utf8 (t_Role t)"
  shows "canon_text (jencode True (transcript_json (Normalize t))) = jencode False (jany (transcript_json (Normalize t)))"
    "jwf (jany (transcript_json (Normalize t)))" "jdepth (jany (transcript_json (Normalize t))) \<le> max_nesting"
proof -
  have r: "valid_utf8 (t_Role (Normalize t))" using assms(2)
    by (simp add: Normalize_def valid_utf8_ascii del: valid_utf8.simps(2))
  note ok = transcript_json_ok [OF utf8_turn_normalize [OF assms(1)] r]
  show "canon_text (jencode True (transcript_json (Normalize t))) = jencode False (jany (transcript_json (Normalize t)))"
    using ok by (simp add: canon_text_jencode)
  show "jwf (jany (transcript_json (Normalize t)))" "jdepth (jany (transcript_json (Normalize t))) \<le> max_nesting"
    using ok by (simp_all add: jany_jwf jany_depth)
qed

text \<open>
  What is hashed for a transcript determines its normal form: two transcripts of valid UTF-8
  feed SHA-256 the same text exactly when they are equal up to the order of the tool calls and the
  default role.  The digest is the hash of that text, so equal digests of different turns would be a
  collision.
\<close>

theorem digest_text_iff:
  assumes "utf8_turn a" "valid_utf8 (t_Role a)" "utf8_turn b" "valid_utf8 (t_Role b)"
  shows "canon_text (jencode True (transcript_json (Normalize a))) =
      canon_text (jencode True (transcript_json (Normalize b))) \<longleftrightarrow> Normalize a = Normalize b"
proof
  assume "canon_text (jencode True (transcript_json (Normalize a))) = canon_text (jencode True (transcript_json (Normalize b)))"
  then have "jencode False (jany (transcript_json (Normalize a))) = jencode False (jany (transcript_json (Normalize b)))"
    using digest_text(1) assms by simp
  then have "Some (jany (transcript_json (Normalize a))) = Some (jany (transcript_json (Normalize b)))"
    using jparse_jencode [OF digest_text(2,3), of a] jparse_jencode [OF digest_text(2,3), of b] assms by metis
  then show "Normalize a = Normalize b" using jany_transcript_inj by simp
qed simp

lemma digest_text_iff_witness:
  "canon_text (jencode True (transcript_json (Normalize \<lparr>t_Role = [], t_Text = ''a'',
      t_ToolCalls = [\<lparr>tc_Name = ''g'', tc_Args = ''{}''\<rparr>, \<lparr>tc_Name = ''f'', tc_Args = ''{}''\<rparr>], t_FinishReason = []\<rparr>))) =
   canon_text (jencode True (transcript_json (Normalize \<lparr>t_Role = ''assistant'', t_Text = ''a'',
      t_ToolCalls = [\<lparr>tc_Name = ''f'', tc_Args = ''{}''\<rparr>, \<lparr>tc_Name = ''g'', tc_Args = ''{}''\<rparr>], t_FinishReason = []\<rparr>)))"
proof -
  let ?a = "\<lparr>t_Role = [], t_Text = ''a'',
      t_ToolCalls = [\<lparr>tc_Name = ''g'', tc_Args = ''{}''\<rparr>, \<lparr>tc_Name = ''f'', tc_Args = ''{}''\<rparr>], t_FinishReason = []\<rparr>"
  let ?b = "\<lparr>t_Role = ''assistant'', t_Text = ''a'',
      t_ToolCalls = [\<lparr>tc_Name = ''f'', tc_Args = ''{}''\<rparr>, \<lparr>tc_Name = ''g'', tc_Args = ''{}''\<rparr>], t_FinishReason = []\<rparr>"
  have u: "utf8_turn ?a" "valid_utf8 (t_Role ?a)" "utf8_turn ?b" "valid_utf8 (t_Role ?b)"
    by (simp_all add: utf8_turn_def valid_utf8_ascii del: valid_utf8.simps(2))
  have n: "Normalize ?a = Normalize ?b" by (simp add: Normalize_def tc_key_def less_char_def)
  show ?thesis by (rule digest_text_iff [OF u, THEN iffD2, OF n])
qed

section \<open>The registry\<close>

text \<open>
  The registry is consistent: the canonical path of every dialect routes back to it, every name
  resolves to its dialect, and a path that routes to a dialect with a canonical upstream and is not a
  fallback reports that upstream.
\<close>

theorem registry_consistent:
  "list_all (\<lambda>p. ProviderForURL (RequestPath p) = p \<and> ProviderByName (p_Name p) = Some p \<and>
      UpstreamForURL (RequestPath p) = (if p = OpenAIChat then None else Some (d_defaultUpstream (dialectFor p))))
    [Anthropic, OpenAIChat, OpenAIResponses, Gemini, Ollama]"
  by (simp add: ProviderForURL_def RequestPath_def ProviderByName_def p_Name_def UpstreamForURL_def dialectFor_def
      dialects_def str_contains_def)

section \<open>Behaviour at the edges\<close>

text \<open>
  A function call without arguments does not survive the codec check: Gemini's decoder gives it
  empty arguments, which the encoder writes as an empty object.
\<close>

theorem gemini_call_without_args:
  "fst (w_Decode Gemini ''data: {\"candidates\":[{\"content\":{\"parts\":[{\"functionCall\":{\"name\":\"now\"}}]}}]}\<newline>\<newline>'') =
     transcript0\<lparr>t_ToolCalls := [\<lparr>tc_Name = ''now'', tc_Args = []\<rparr>]\<rparr> \<and>
   fst (w_Decode Gemini (w_Encode Gemini (transcript0\<lparr>t_ToolCalls := [\<lparr>tc_Name = ''now'', tc_Args = []\<rparr>]\<rparr>) envelope0)) =
     transcript0\<lparr>t_ToolCalls := [\<lparr>tc_Name = ''now'', tc_Args = ''{}''\<rparr>]\<rparr>"
proof -
  let ?v = "jmap [(''candidates'', JArr [jmap [(''content'', jmap [(''parts'', JArr [jmap [(''functionCall'',
      jmap [(''name'', JStr ''now'')])]])])]])]"
  let ?t = "transcript0\<lparr>t_ToolCalls := [\<lparr>tc_Name = ''now'', tc_Args = []\<rparr>]\<rparr>"
  let ?b = "''data: {\"candidates\":[{\"content\":{\"parts\":[{\"functionCall\":{\"name\":\"now\"}}]}}]}\<newline>\<newline>''"
  have b: "?b = write_frames_j [([], ?v)]" by code_simp
  have w: "jwf ?v" "jdepth ?v \<le> max_nesting"
    by (simp_all add: jmap_eval valid_utf8_ascii max_nesting_def del: valid_utf8.simps(2))
  have u: "unmarshal_ok dec_gemini (go_j ?v) nil_slice =
      Some (Slice [\<lparr>gd_parts = Slice [g_part0\<lparr>gp_call := Some \<lparr>gc_name = ''now'', gc_args = None\<rparr>\<rparr>] [], gd_finish = []\<rparr>] [])"
    unfolding unmarshal_obj [OF w]
    by (simp add: jmap_eval dec_gemini_def dec_cand_def dec_part_def dec_call_def dec_ptr_def dec_eval)
  have l: "length (write_frames_j [([], ?v)]) < max_token" unfolding b [symmetric] by (simp add: max_token_def)
  have "parseSSE ?b = [([], go_j ?v @ ''\<newline>'')]" unfolding b using parse_written [OF _ l] w by simp
  moreover have o: "?v = JObj [(''candidates'', JArr [jmap [(''content'', jmap [(''parts'', JArr [jmap [(''functionCall'',
      jmap [(''name'', JStr ''now'')])]])])]])]" by (simp add: jmap_def obj_of_def)
  moreover have "take 1 (trim_left is_ws ?b) \<noteq> ''[''" by (simp add: trim_left_def is_ws_def)
  ultimately have "gemini_objects ?b = [go_j ?v]"
    using obj_line [OF w(1) o] by (simp add: gemini_objects_def del: dropWhile.simps)
  then have d: "DecodeGeminiSSE ?b = ?t" using u
    by (simp add: DecodeGeminiSSE_def gemini_step_def gemini_part_def raw_canon_def Normalize_def)
  have "w_Decode Gemini (w_Encode Gemini ?t envelope0) = (wire_turn (d_provider (dialectFor Gemini)) ?t, None)"
  proof (rule decode_of_encode_all)
    have "EncodeGeminiSSE ?t envelope0 =
      ''data: {\"candidates\":[{\"content\":{\"parts\":[{\"functionCall\":{\"args\":{},\"name\":\"now\"}}],\"role\":\"model\"},\"index\":0}],\"modelVersion\":\"model\",\"responseId\":\"gemini_0000\",\"usageMetadata\":{\"candidatesTokenCount\":0,\"promptTokenCount\":0}}\<newline>\<newline>''"
      by code_simp
    then show "length (w_Encode Gemini ?t envelope0) < max_token" by (simp add: codec_dispatch max_token_def)
    have "argsRaw [] = JObj []" by code_simp
    then show "codec_ok Gemini ?t envelope0"
      by (simp add: codec_ok_def utf8_env_def utf8_turn_def args_shallow_def max_nesting_def valid_utf8_ascii
          del: valid_utf8.simps(2))
  qed
  moreover have "wire_turn (d_provider (dialectFor Gemini)) ?t = transcript0\<lparr>t_ToolCalls := [\<lparr>tc_Name = ''now'', tc_Args = ''{}''\<rparr>]\<rparr>"
    by code_simp
  ultimately show ?thesis using d by (simp add: codec_dispatch(2))
qed

text \<open>
  A line that does not fit the scanner's buffer ends the stream: everything from it on is
  dropped and no error is reported.
\<close>

theorem long_line_ends_stream:
  assumes "CHR 0x0A \<notin> set l" "max_token \<le> length l"
  shows "parseSSE (''data: x\<newline>\<newline>'' @ l @ rest) = [([], ''x\<newline>'')]"
proof -
  have t: "takeWhile (\<lambda>x. x \<noteq> CHR 0x0A) (l @ rest) = l @ takeWhile (\<lambda>x. x \<noteq> CHR 0x0A) rest"
    using assms(1) by (subst takeWhile_append2) auto
  obtain c s where c: "l @ rest = c # s" using assms(2) by (cases l) (auto simp: max_token_def)
  have "scan_lines (c # s) = []"
    using t assms(2) unfolding c by (subst scan_lines.simps(2)) (simp add: Let_def too_long_iff del: takeWhile.simps)
  then have "scan_lines (l @ rest) = []" using c by simp
  moreover have "scan_lines (''data: x\<newline>\<newline>'' @ r) = ''data: x'' # [] # scan_lines r" for r
    using scan_lines_line [of "''data: x''" "CHR 0x0A # r"] scan_lines_line [of "[]" r]
    by (simp add: max_token_def drop_cr_def)
  ultimately show ?thesis
    by (simp add: parseSSE_def) (simp add: sse_line_def sse_flush_def cut_byte_def)
qed

lemma long_line_ends_stream_witness:
  "parseSSE (''data: x\<newline>\<newline>'' @ replicate 16777216 CHR ''a'' @ ''\<newline>data: y\<newline>\<newline>'') = [([], ''x\<newline>'')]"
  by (rule long_line_ends_stream) (simp_all add: max_token_def)

text \<open>
  The chat decoder looks at the first element of a chunk's choices whatever its index, so the
  deltas of different choices run together into one text.
\<close>

theorem openai_choices_run_together:
  "t_Text (DecodeOpenAISSE (''data: {\"choices\":[{\"index\":0,\"delta\":{\"content\":\"yes\"}}]}\<newline>\<newline>'' @
     ''data: {\"choices\":[{\"index\":1,\"delta\":{\"content\":\"no\"}}]}\<newline>\<newline>'')) = ''yesno''"
  by code_simp

end
