(* ===== verification/Invariants.thy ===== *)
theory Invariants
  imports Semequal Wirefmt Complex_Main
begin

text \<open>
  Package semequal beside the decoders, wireshape.go, invariants.go and policy.go: the grammar of a
  stream, the assertions over a conversation and the tolerant comparison of two turns; and
  timeline.go of the root package, the ledger of a scenario's digests.  \<open>isprint\<close> is strconv.IsPrint
  above ASCII, which the verb q of fmt consults.  Error values are their texts.
\<close>

section \<open>The shape of a stream\<close>

definition dec_type :: "string jdec" where
  "dec_type = dec_struct [(''type'', dec_string)]"

record shape_choice =
  sc_role :: string
  sc_content :: "string option"
  sc_tools :: "jval option slice"
  sc_finish :: "string option"

definition dec_shape_choice :: "shape_choice jdec" where
  "dec_shape_choice = dec_struct
     [(''delta'', dec_struct
        [(''role'', dec_field sc_role (\<lambda>x r. r\<lparr>sc_role := x\<rparr>) dec_string),
         (''content'', dec_field sc_content (\<lambda>x r. r\<lparr>sc_content := x\<rparr>) (dec_ptr [] dec_string)),
         (''tool_calls'', dec_field sc_tools (\<lambda>x r. r\<lparr>sc_tools := x\<rparr>) (dec_slice None dec_raw))]),
      (''finish_reason'', dec_field sc_finish (\<lambda>x r. r\<lparr>sc_finish := x\<rparr>) (dec_ptr [] dec_string))]"

definition dec_shape_chunk :: "shape_choice slice jdec" where
  "dec_shape_chunk = dec_struct [(''choices'', dec_slice
     \<lparr>sc_role = [], sc_content = None, sc_tools = nil_slice, sc_finish = None\<rparr> dec_shape_choice)]"

definition chatChunkToken :: "bytes \<Rightarrow> string" where
  "chatChunkToken d = (case unmarshal_ok dec_shape_chunk d nil_slice of
     None \<Rightarrow> ''data''
   | Some cs \<Rightarrow>
      (case elems cs of
         [] \<Rightarrow> ''data''
       | ch # _ \<Rightarrow>
           if elems (sc_tools ch) \<noteq> [] then ''delta.tool_calls''
           else if sc_role ch \<noteq> [] then ''delta.role''
           else if sc_finish ch \<noteq> None \<and> sc_finish ch \<noteq> Some [] then ''delta.finish:'' @ the (sc_finish ch)
           else if sc_content ch \<noteq> None then ''delta.content''
           else ''delta''))"

definition event_token :: "sse_event \<Rightarrow> string" where
  "event_token ev =
     (if fst ev \<noteq> [] then fst ev
      else let d = TrimSpace (snd ev) in
        if d = ''[DONE]'' then ''[DONE]''
        else case unmarshal_ok dec_type d [] of
          Some ty \<Rightarrow> if ty \<noteq> [] then ty else chatChunkToken d
        | None \<Rightarrow> chatChunkToken d)"

definition WireEvents :: "bytes \<Rightarrow> string list" where
  "WireEvents raw = map event_token (parseSSE raw)"

definition WireShape :: "bytes \<Rightarrow> string" where
  "WireShape raw = str_join '','' (WireEvents raw)"

definition WireShapeDigest :: "bytes \<Rightarrow> string" where
  "WireShapeDigest raw = SumHex (WireShape raw)"

section \<open>Invariants of a conversation\<close>

text \<open>A nil function in the list is None.\<close>

type_synonym conv_invariant = "transcript list \<Rightarrow> string option"

definition Check :: "transcript list \<Rightarrow> conv_invariant option list \<Rightarrow> string list" where
  "Check turns invs = List.map_filter (\<lambda>inv. case inv of None \<Rightarrow> None | Some f \<Rightarrow> f turns) invs"

text \<open>All calls of a conversation with the index of their turn, in the order of the nested loops.\<close>

definition turn_calls :: "transcript list \<Rightarrow> (nat \<times> tool_call) list" where
  "turn_calls turns = concat (map (\<lambda>(i, tr). map (Pair i) (t_ToolCalls tr)) (enumerate 0 turns))"

fun first_error :: "('a \<Rightarrow> string option) \<Rightarrow> 'a list \<Rightarrow> string option" where
  "first_error f [] = None"
| "first_error f (x # xs) = (case f x of Some e \<Rightarrow> Some e | None \<Rightarrow> first_error f xs)"

definition NoToolCalled :: "(nat \<Rightarrow> bool) \<Rightarrow> string \<Rightarrow> conv_invariant" where
  "NoToolCalled isprint name turns = first_error (\<lambda>(i, tc).
     if tc_Name tc = name
     then Some (''forbidden tool '' @ go_quote isprint name @ '' called in turn '' @ itoa (int i))
     else None) (turn_calls turns)"

definition dup_key :: "tool_call \<Rightarrow> string" where
  "dup_key tc = tc_Name tc @ CHR 0x00 # tc_Args tc"

fun dup_loop :: "(string \<times> nat) list \<Rightarrow> (nat \<times> tool_call) list \<Rightarrow> string option" where
  "dup_loop seen [] = None"
| "dup_loop seen ((i, tc) # rest) =
     (case mget seen (dup_key tc) of
        Some prev \<Rightarrow> Some (''duplicate tool call '' @ tc_Name tc @ ''('' @ tc_Args tc @ '') in turns '' @
          itoa (int prev) @ '' and '' @ itoa (int i))
      | None \<Rightarrow> dup_loop (mput (dup_key tc) i seen) rest)"

definition NoDuplicateToolCall :: conv_invariant where
  "NoDuplicateToolCall turns = dup_loop [] (turn_calls turns)"

definition terminal_reason :: "string \<Rightarrow> bool" where
  "terminal_reason r = mget0 False
     [(''end_turn'', True), (''stop'', True), (''completed'', True), (''stop_sequence'', True), ([], False)] r"

definition FinishesCleanly :: "(nat \<Rightarrow> bool) \<Rightarrow> conv_invariant" where
  "FinishesCleanly isprint turns =
     (if turns = [] then Some ''no turns''
      else if \<not> terminal_reason (t_FinishReason (last turns)) then
        Some (''final turn finished with '' @ go_quote isprint (t_FinishReason (last turns)) @ '', not a terminal reason'')
      else if t_ToolCalls (last turns) \<noteq> [] then
        Some (''final turn has '' @ itoa (int (length (t_ToolCalls (last turns)))) @ '' dangling tool call(s)'')
      else None)"

text \<open>The first turn that calls a tool; None stands for -1.\<close>

definition first_call :: "string \<Rightarrow> transcript list \<Rightarrow> nat option" where
  "first_call name turns = map_option fst (find (\<lambda>(i, tc). tc_Name tc = name) (turn_calls turns))"

definition ToolCalledBefore :: "(nat \<Rightarrow> bool) \<Rightarrow> string \<Rightarrow> string \<Rightarrow> conv_invariant" where
  "ToolCalledBefore isprint a b turns =
     (case first_call a turns of
        None \<Rightarrow> Some (''tool '' @ go_quote isprint a @ '' was never called'')
      | Some ia \<Rightarrow>
          (case first_call b turns of
             None \<Rightarrow> None
           | Some ib \<Rightarrow>
               if ib < ia then Some (''tool '' @ go_quote isprint a @ '' (turn '' @ itoa (int ia) @ '') must be called before '' @
                 go_quote isprint b @ '' (turn '' @ itoa (int ib) @ '')'')
               else None))"

definition AllToolArgsValid :: "(nat \<Rightarrow> bool) \<Rightarrow> (string \<Rightarrow> string \<Rightarrow> string option) \<Rightarrow> conv_invariant" where
  "AllToolArgsValid isprint validate turns = first_error (\<lambda>(i, tc).
     map_option (\<lambda>e. ''turn '' @ itoa (int i) @ '' tool '' @ go_quote isprint (tc_Name tc) @ '' args invalid: '' @ e)
       (validate (tc_Name tc) (tc_Args tc))) (turn_calls turns)"

definition ToolNames :: "transcript list \<Rightarrow> string list" where
  "ToolNames turns = sort (remdups (map (\<lambda>ic. tc_Name (snd ic)) (turn_calls turns)))"

section \<open>Comparison under a policy\<close>

text \<open>A distance is a float64 of the code; reals stand for it, without NaN.\<close>

record tolerance =
  tol_dist :: "(string \<Rightarrow> string \<Rightarrow> real) option"
  tol_budget :: real
  tol_ignore_finish :: bool
  tol_ignore_text :: bool

record drift_report =
  dr_ok :: bool
  dr_fields :: "string list"
  dr_dist :: real

fun sameToolCalls :: "tool_call list \<Rightarrow> tool_call list \<Rightarrow> bool" where
  "sameToolCalls [] [] = True"
| "sameToolCalls (a # as) (b # bs) = (a = b \<and> sameToolCalls as bs)"
| "sameToolCalls _ _ = False"

definition Compare :: "tolerance \<Rightarrow> transcript \<Rightarrow> transcript \<Rightarrow> drift_report" where
  "Compare p want0 got0 =
     (let want = Normalize want0; got = Normalize got0;
          calls = (if sameToolCalls (t_ToolCalls want) (t_ToolCalls got) then [] else [''tool_calls'']);
          fin = (if \<not> tol_ignore_finish p \<and> t_FinishReason want \<noteq> t_FinishReason got then [''finish_reason''] else []);
          (txt, dist) =
            (if tol_ignore_text p then ([], 0)
             else case tol_dist p of
               Some f \<Rightarrow> (let d = f (t_Text want) (t_Text got) in (if tol_budget p < d then [''text''] else [], d))
             | None \<Rightarrow> (if t_Text want \<noteq> t_Text got then [''text''] else [], 0));
          fields = sort (calls @ fin @ txt)
      in \<lparr>dr_ok = (fields = []), dr_fields = fields, dr_dist = dist\<rparr>)"

section \<open>The timeline\<close>

record timeline_entry =
  te_scenario :: string
  te_combined :: string
  te_turns :: "string list"

type_synonym timeline = "timeline_entry list"

text \<open>
  The yaml package's encoder and decoder are parameters.  A failing read other than for a missing
  file is an error of the environment, and a failing write leaves what it wrote (\<open>io_write\<close>).
\<close>

datatype timeline_error = TLRead | TLYaml | TLEncode | TLWrite

record tl_io =
  io_read_fails :: bool
  io_write :: "bytes option"

definition LoadTimeline :: "(bytes \<Rightarrow> timeline option) \<Rightarrow> tl_io \<Rightarrow> fs \<Rightarrow> string \<Rightarrow> timeline_error + timeline" where
  "LoadTimeline ydec io files path =
     (case mget files path of
        None \<Rightarrow> Inr []
      | Some data \<Rightarrow>
          if io_read_fails io then Inl TLRead
          else (case ydec data of None \<Rightarrow> Inl TLYaml | Some led \<Rightarrow> Inr led))"

text \<open>The loop from the last entry back: it stops at the first entry of the scenario.\<close>

fun unchanged :: "string \<Rightarrow> string \<Rightarrow> timeline_entry list \<Rightarrow> bool" where
  "unchanged scenario combined [] = False"
| "unchanged scenario combined (e # es) =
     (if te_scenario e = scenario then te_combined e = combined else unchanged scenario combined es)"

definition new_entry :: "string \<Rightarrow> transcript list \<Rightarrow> timeline_entry" where
  "new_entry scenario turns =
     \<lparr>te_scenario = scenario, te_combined = CombinedDigest turns, te_turns = map t_Digest turns\<rparr>"

definition AppendTimeline :: "(bytes \<Rightarrow> timeline option) \<Rightarrow> (timeline \<Rightarrow> bytes option) \<Rightarrow> tl_io \<Rightarrow> fs \<Rightarrow>
    string \<Rightarrow> string \<Rightarrow> transcript list \<Rightarrow> fs \<times> (timeline_error + bool)" where
  "AppendTimeline ydec yenc io files path scenario turns =
     (case LoadTimeline ydec io files path of
        Inl e \<Rightarrow> (files, Inl e)
      | Inr led \<Rightarrow>
          if unchanged scenario (CombinedDigest turns) (rev led) then (files, Inr False)
          else case yenc (led @ [new_entry scenario turns]) of
            None \<Rightarrow> (files, Inl TLEncode)
          | Some out \<Rightarrow>
              (case io_write io of
                 Some partial \<Rightarrow> (mput path partial files, Inl TLWrite)
               | None \<Rightarrow> (mput path out files, Inr True)))"

section \<open>Lemmas\<close>

lemma snd_turn_calls: "map snd (turn_calls turns) = concat (map t_ToolCalls turns)"
proof -
  have "map snd (concat (map (\<lambda>(i, tr). map (Pair i) (t_ToolCalls tr)) (enumerate n turns))) = concat (map t_ToolCalls turns)" for n
    by (induction turns arbitrary: n) (simp_all add: comp_def)
  then show ?thesis by (simp add: turn_calls_def)
qed

lemma first_error_None: "first_error f xs = None \<longleftrightarrow> list_all (\<lambda>x. f x = None) xs"
  by (induction xs) (auto split: option.splits)

lemma dup_loop_None:
  "dup_loop seen xs = None \<longleftrightarrow>
   distinct (map (dup_key \<circ> snd) xs) \<and> (\<forall>x \<in> set xs. dup_key (snd x) \<notin> dom (map_of seen))"
proof (induction xs arbitrary: seen)
  case (Cons x xs)
  obtain i tc where x: "x = (i, tc)" by (cases x)
  show ?case
  proof (cases "mget seen (dup_key tc)")
    case None
    have "dom (map_of (mput (dup_key tc) i seen)) = insert (dup_key tc) (dom (map_of seen))"
      by (simp add: map_of_mput del: fun_upd_apply)
    then show ?thesis using None Cons.IH [of "mput (dup_key tc) i seen"]
      by (simp add: x comp_def) (blast dest: sym)
  qed (auto simp: x)
qed simp

lemma dup_key_eq:
  assumes "CHR 0x00 \<notin> set (tc_Name a)" "CHR 0x00 \<notin> set (tc_Name b)" "dup_key a = dup_key b"
  shows "a = b"
proof -
  have split: "takeWhile (\<lambda>c. c \<noteq> CHR 0x00) (dup_key t) = tc_Name t" "dropWhile (\<lambda>c. c \<noteq> CHR 0x00) (dup_key t) = CHR 0x00 # tc_Args t"
    if "CHR 0x00 \<notin> set (tc_Name t)" for t
  proof -
    have "\<And>c. c \<in> set (tc_Name t) \<Longrightarrow> c \<noteq> CHR 0x00" using that by blast
    then show "takeWhile (\<lambda>c. c \<noteq> CHR 0x00) (dup_key t) = tc_Name t"
      "dropWhile (\<lambda>c. c \<noteq> CHR 0x00) (dup_key t) = CHR 0x00 # tc_Args t"
      by (simp_all add: dup_key_def takeWhile_append2 dropWhile_append2)
  qed
  have "tc_Name a = tc_Name b" using split(1) [OF assms(1)] split(1) [OF assms(2)] assms(3) by simp
  moreover have "tc_Args a = tc_Args b" using split(2) [OF assms(1)] split(2) [OF assms(2)] assms(3) by simp
  ultimately show ?thesis by (cases a, cases b) simp
qed

lemma sameToolCalls_eq: "sameToolCalls a b \<longleftrightarrow> a = b"
  by (induction a b rule: sameToolCalls.induct) auto

lemma sort_Nil_iff: "sort xs = [] \<longleftrightarrow> xs = ([] :: string list)"
  by (metis length_0_conv length_sort)

text \<open>
  The duplicate check is exact: a conversation passes when no two of its tool calls, in any
  turns, have the same name and arguments.  The check compares the name and the arguments joined by
  a zero byte, so names must not hold one.
\<close>

theorem NoDuplicateToolCall_exact:
  assumes "list_all (\<lambda>t. list_all (\<lambda>c. CHR 0x00 \<notin> set (tc_Name c)) (t_ToolCalls t)) turns"
  shows "NoDuplicateToolCall turns = None \<longleftrightarrow> distinct (concat (map t_ToolCalls turns))"
proof -
  have "inj_on dup_key (set (concat (map t_ToolCalls turns)))"
    using assms by (intro inj_onI dup_key_eq) (auto simp: list_all_iff)
  moreover have "map (dup_key \<circ> snd) (turn_calls turns) = map dup_key (concat (map t_ToolCalls turns))"
    by (simp only: snd_turn_calls [symmetric] map_map)
  ultimately show ?thesis
    by (simp add: NoDuplicateToolCall_def dup_loop_None distinct_map)
qed

lemma NoDuplicateToolCall_exact_witness:
  "NoDuplicateToolCall
     [\<lparr>t_Role = ''assistant'', t_Text = [], t_ToolCalls = [\<lparr>tc_Name = ''f'', tc_Args = ''{}''\<rparr>], t_FinishReason = []\<rparr>,
      \<lparr>t_Role = ''assistant'', t_Text = [], t_ToolCalls = [\<lparr>tc_Name = ''f'', tc_Args = ''[]''\<rparr>], t_FinishReason = []\<rparr>] = None"
  by (subst NoDuplicateToolCall_exact) simp_all

text \<open>
  Under the zero policy a comparison passes exactly when the two turns agree in text, finish
  reason and the collection of tool calls; the roles are not compared.
\<close>

theorem Compare_default:
  "dr_ok (Compare \<lparr>tol_dist = None, tol_budget = 0, tol_ignore_finish = False, tol_ignore_text = False\<rparr> a b) \<longleftrightarrow>
     (Normalize a)\<lparr>t_Role := []\<rparr> = (Normalize b)\<lparr>t_Role := []\<rparr>"
proof -
  have eq: "(x\<lparr>t_Role := []\<rparr> = y\<lparr>t_Role := []\<rparr>) \<longleftrightarrow>
      t_Text x = t_Text y \<and> t_ToolCalls x = t_ToolCalls y \<and> t_FinishReason x = t_FinishReason y" for x y :: transcript
    by (cases x, cases y) simp
  show ?thesis unfolding eq
    by (auto simp: Compare_def Let_def sameToolCalls_eq sort_Nil_iff)
qed

lemma unchanged_last:
  "unchanged s d es \<longleftrightarrow> (\<exists>e. find (\<lambda>e. te_scenario e = s) es = Some e \<and> te_combined e = d)"
  by (induction es) auto

text \<open>
  Recording the same behaviour again never changes the ledger: after a successful append, a
  second one for the scenario and the same turns reports no addition and writes nothing.
\<close>

theorem AppendTimeline_idempotent:
  assumes "AppendTimeline ydec yenc io files path scenario turns = (files', Inr added)"
    and "\<And>led out. yenc led = Some out \<Longrightarrow> ydec out = Some led" "\<not> io_read_fails io"
  shows "AppendTimeline ydec yenc io files' path scenario turns = (files', Inr False)"
proof (cases added)
  case False
  then show ?thesis using assms(1)
    by (auto simp: AppendTimeline_def split: sum.splits if_splits option.splits)
next
  case True
  then obtain led out where o: "LoadTimeline ydec io files path = Inr led"
      "yenc (led @ [new_entry scenario turns]) = Some out" "files' = mput path out files"
    using assms(1) by (auto simp: AppendTimeline_def split: sum.splits if_splits option.splits)
  have "LoadTimeline ydec io files' path = Inr (led @ [new_entry scenario turns])"
    using o assms(2,3) by (simp add: LoadTimeline_def map_of_mput)
  then show ?thesis by (simp add: AppendTimeline_def new_entry_def)
qed

lemma AppendTimeline_idempotent_witness:
  "(let e = new_entry ''s'' []; dec = (\<lambda>b. if b = ''x'' then Some [e] else None);
        enc = (\<lambda>led. if led = [e] then Some ''x'' else None); io = \<lparr>io_read_fails = False, io_write = None\<rparr>
    in AppendTimeline dec enc io [(''l'', ''x'')] ''l'' ''s'' [] = ([(''l'', ''x'')], Inr False))"
  unfolding Let_def
  by (rule AppendTimeline_idempotent [where files = "[]" and added = True])
    (simp_all add: AppendTimeline_def LoadTimeline_def split: if_splits)

end
