(* ===== verification/Engine.thy ===== *)
theory Engine
  imports Invariants Wireenc Stream
begin

text \<open>
  internal/analysis, the shared engine: engine.go, mcp.go, mcpsteps.go, refusal.go, usage.go,
  seeds.go, bisect.go and diffrec.go.  A stored interaction becomes a transcript, two request bodies
  are compared by axis, and two recordings turn by turn.
\<close>

section \<open>The gjson package\<close>

text \<open>
  gjson is a third-party path reader over JSON text.  Its Result is the type \<open>'r\<close>, the operations
  the program uses are the fields: Get and GetBytes on a text, Get on a result, the accessors, the
  members ForEach visits (key and value) and Valid.
\<close>

record 'r gjson =
  gj_get :: "bytes \<Rightarrow> string \<Rightarrow> 'r"
  gj_sub :: "'r \<Rightarrow> string \<Rightarrow> 'r"
  gj_exists :: "'r \<Rightarrow> bool"
  gj_raw :: "'r \<Rightarrow> string"
  gj_string :: "'r \<Rightarrow> string"
  gj_int :: "'r \<Rightarrow> int"
  gj_float :: "'r \<Rightarrow> real"
  gj_bool :: "'r \<Rightarrow> bool"
  gj_is_string :: "'r \<Rightarrow> bool"
  gj_is_false :: "'r \<Rightarrow> bool"
  gj_is_array :: "'r \<Rightarrow> bool"
  gj_each :: "'r \<Rightarrow> ('r \<times> 'r) list"
  gj_valid :: "bytes \<Rightarrow> bool"

text \<open>An instance for examples: a reader that finds nothing.\<close>

definition null_gjson :: "unit gjson" where
  "null_gjson = \<lparr>gj_get = (\<lambda>_ _. ()), gj_sub = (\<lambda>_ _. ()), gj_exists = (\<lambda>_. False), gj_raw = (\<lambda>_. []),
     gj_string = (\<lambda>_. []), gj_int = (\<lambda>_. 0), gj_float = (\<lambda>_. 0), gj_bool = (\<lambda>_. False), gj_is_string = (\<lambda>_. False),
     gj_is_false = (\<lambda>_. False), gj_is_array = (\<lambda>_. False), gj_each = (\<lambda>_. []), gj_valid = (\<lambda>_. False)\<rparr>"

section \<open>MCP results\<close>

definition mcpIsError :: "'r gjson \<Rightarrow> bytes \<Rightarrow> bool" where
  "mcpIsError G body = (gj_bool G (gj_get G body ''isError'') \<or> gj_exists G (gj_get G body ''error''))"

definition mcpResultText :: "'r gjson \<Rightarrow> bytes \<Rightarrow> string" where
  "mcpResultText G body = concat (map (\<lambda>(_, c).
     let t = gj_sub G c ''text'' in if gj_exists G t then gj_string G t else [])
     (gj_each G (gj_get G body ''content'')))"

definition tool_roster :: "'r gjson \<Rightarrow> bytes \<Rightarrow> string list" where
  "tool_roster G body = map (\<lambda>(_, b). gj_string G (gj_sub G b ''name'')) (gj_each G (gj_get G body ''tools''))"

section \<open>Decoding an interaction\<close>

definition decodeMCP :: "'r gjson \<Rightarrow> interaction \<Rightarrow> transcript" where
  "decodeMCP G it =
     (let rq = it_request it; body = Bytes (rs_body (it_response it));
          name = (if rq_mcp_tool rq = [] then rq_mcp_method rq else rq_mcp_tool rq);
          (txt, fin) =
            (if rq_mcp_method rq = ''tools/call'' then
               (mcpResultText G body, if mcpIsError G body then ''tool_error'' else ''tool_result'')
             else if rq_mcp_method rq = ''tools/list'' then (str_join '','' (tool_roster G body), ''tool_list'')
             else ([], ''mcp''))
      in Normalize \<lparr>t_Role = ''tool'', t_Text = txt,
           t_ToolCalls = [\<lparr>tc_Name = name, tc_Args = canon_text (Bytes (rq_body rq))\<rparr>], t_FinishReason = fin\<rparr>)"

text \<open>The transcript, whether it stands for a unary answer, whether it can be rendered.\<close>

definition DecodeInteraction :: "'r gjson \<Rightarrow> interaction \<Rightarrow> transcript \<times> bool \<times> bool" where
  "DecodeInteraction G it =
     (let rs = it_response it in
      if it_kind it = ''mcp'' then (decodeMCP G it, False, True)
      else if it_kind it \<noteq> ''http'' \<or> rs_body rs = None then (no_transcript, False, False)
      else if \<not> rs_streaming rs then
        (no_transcript\<lparr>t_Role := ''assistant'', t_Text := ''unary:'' @ canon_sum (Bytes (rs_body rs))\<rparr>, True, False)
      else (fst (w_Decode (ProviderForURL (rq_url (it_request it))) (Bytes (rs_body rs))), False, True))"

definition CollectTurns :: "'r gjson \<Rightarrow> wfile \<Rightarrow> transcript list" where
  "CollectTurns G f = List.map_filter (\<lambda>it. case DecodeInteraction G it of
     (tr, _, ok) \<Rightarrow> if ok then Some tr else None) (wf_its f)"

definition httpTurns :: "wfile \<Rightarrow> interaction list" where
  "httpTurns f = filter (\<lambda>it. it_kind it = ''http'') (wf_its f)"

definition decodeResponse :: "'r gjson \<Rightarrow> interaction \<Rightarrow> transcript" where
  "decodeResponse G it = fst (DecodeInteraction G it)"

section \<open>Request axes\<close>

definition requestAxisKeys :: "string list" where
  "requestAxisKeys = [''model'', ''system'', ''tools'', ''messages'', ''temperature'', ''top_p'', ''max_tokens'']"

definition axis_of :: "string \<Rightarrow> string" where
  "axis_of k = (if k \<in> {''temperature'', ''top_p'', ''max_tokens''} then ''sampling'' else k)"

fun containsStr :: "string list \<Rightarrow> string \<Rightarrow> bool" where
  "containsStr [] v = False"
| "containsStr (x # s) v = (x = v \<or> containsStr s v)"

definition axis_step :: "'r gjson \<Rightarrow> bytes \<Rightarrow> bytes \<Rightarrow> string \<Rightarrow> string list \<Rightarrow> string list" where
  "axis_step G a b k diff =
     (if gj_raw G (gj_get G a k) \<noteq> gj_raw G (gj_get G b k) \<and> \<not> containsStr diff (axis_of k)
      then diff @ [axis_of k] else diff)"

definition AxisDiff :: "'r gjson \<Rightarrow> bytes \<Rightarrow> bytes \<Rightarrow> string list" where
  "AxisDiff G a b = sort (fold (axis_step G a b) requestAxisKeys [])"

section \<open>Bisection\<close>

record divergence =
  dv_turn :: int
  dv_a :: string
  dv_b :: string
  dv_axes :: "string list"

definition dv_Diverged :: "divergence \<Rightarrow> bool" where
  "dv_Diverged d = (0 \<le> dv_turn d)"

text \<open>The loop over the first \<open>n\<close> turns, at turn \<open>i\<close>.\<close>

fun bisect_loop :: "'r gjson \<Rightarrow> nat \<Rightarrow> interaction list \<Rightarrow> interaction list \<Rightarrow> divergence option" where
  "bisect_loop G i (x # xs) (y # ys) =
     (let da = decodeResponse G x; db = decodeResponse G y in
      if t_Digest da \<noteq> t_Digest db then
        Some \<lparr>dv_turn = int i, dv_a = t_Digest da, dv_b = t_Digest db,
              dv_axes = AxisDiff G (Bytes (rq_body (it_request x))) (Bytes (rq_body (it_request y)))\<rparr>
      else bisect_loop G (Suc i) xs ys)"
| "bisect_loop G i _ _ = None"

definition Bisect :: "'r gjson \<Rightarrow> wfile \<Rightarrow> wfile \<Rightarrow> divergence" where
  "Bisect G a b =
     (let ta = httpTurns a; tb = httpTurns b in
      case bisect_loop G 0 ta tb of
        Some d \<Rightarrow> d
      | None \<Rightarrow>
          if length ta \<noteq> length tb
          then \<lparr>dv_turn = int (min (length ta) (length tb)), dv_a = [], dv_b = [], dv_axes = [''length'']\<rparr>
          else \<lparr>dv_turn = -1, dv_a = [], dv_b = [], dv_axes = []\<rparr>)"

section \<open>The accumulated difference\<close>

record tool_change =
  tch_kind :: string
  tch_name :: string
  tch_a :: string
  tch_b :: string

record turn_diff =
  tdf_turn :: nat
  tdf_root :: bool
  tdf_text_changed :: bool
  tdf_text_a :: string
  tdf_text_b :: string
  tdf_tools :: "tool_change list"
  tdf_finish_a :: string
  tdf_finish_b :: string
  tdf_axes :: "string list"

record recording_diff =
  rd_turns :: "turn_diff list"
  rd_extra_a :: nat
  rd_extra_b :: nat

definition rd_Diverged :: "recording_diff \<Rightarrow> bool" where
  "rd_Diverged d = (rd_turns d \<noteq> [] \<or> rd_extra_a d \<noteq> 0 \<or> rd_extra_b d \<noteq> 0)"

text \<open>
  The maps of diffTools: the names in the order they are first seen, and for each name the
  arguments of its calls on the two sides.
\<close>

record tool_lists =
  tl_map :: "(string \<times> string list \<times> string list) list"
  tl_order :: "string list"

definition tl_add :: "string \<Rightarrow> tool_lists \<Rightarrow> tool_lists" where
  "tl_add n s = (if n \<in> set (tl_order s) then s else s\<lparr>tl_order := tl_order s @ [n]\<rparr>)"

definition tl_put :: "(string \<Rightarrow> string list \<times> string list \<Rightarrow> string list \<times> string list) \<Rightarrow> tool_call \<Rightarrow> tool_lists \<Rightarrow> tool_lists" where
  "tl_put upd tc s = (let s1 = tl_add (tc_Name tc) s in
     s1\<lparr>tl_map := mput (tc_Name tc) (upd (tc_Args tc) (mget0 ([], []) (tl_map s1) (tc_Name tc))) (tl_map s1)\<rparr>)"

definition tool_maps :: "tool_call list \<Rightarrow> tool_call list \<Rightarrow> tool_lists" where
  "tool_maps a b =
     fold (tl_put (\<lambda>x (p, q). (p, q @ [x]))) b (fold (tl_put (\<lambda>x (p, q). (p @ [x], q))) a \<lparr>tl_map = [], tl_order = []\<rparr>)"

fun args_changes :: "string \<Rightarrow> string list \<Rightarrow> string list \<Rightarrow> tool_change list" where
  "args_changes n (x # xs) (y # ys) =
     (if x \<noteq> y then [\<lparr>tch_kind = ''args'', tch_name = n, tch_a = x, tch_b = y\<rparr>] else []) @ args_changes n xs ys"
| "args_changes n xs [] = map (\<lambda>x. \<lparr>tch_kind = ''removed'', tch_name = n, tch_a = x, tch_b = []\<rparr>) xs"
| "args_changes n [] ys = map (\<lambda>y. \<lparr>tch_kind = ''added'', tch_name = n, tch_a = [], tch_b = y\<rparr>) ys"

definition diffTools :: "tool_call list \<Rightarrow> tool_call list \<Rightarrow> tool_change list" where
  "diffTools a b = (let s = tool_maps a b in
     concat (map (\<lambda>n. case mget0 ([], []) (tl_map s) n of (la, lb) \<Rightarrow> args_changes n la lb) (tl_order s)))"

definition turn_diff_of :: "'r gjson \<Rightarrow> nat \<Rightarrow> bool \<Rightarrow> interaction \<Rightarrow> interaction \<Rightarrow> turn_diff" where
  "turn_diff_of G i isroot x y =
     (let da = decodeResponse G x; db = decodeResponse G y;
          tc = (t_Text da \<noteq> t_Text db); fc = (t_FinishReason da \<noteq> t_FinishReason db)
      in \<lparr>tdf_turn = i, tdf_root = isroot, tdf_text_changed = tc,
          tdf_text_a = (if tc then t_Text da else []), tdf_text_b = (if tc then t_Text db else []),
          tdf_tools = diffTools (t_ToolCalls da) (t_ToolCalls db),
          tdf_finish_a = (if fc then t_FinishReason da else []), tdf_finish_b = (if fc then t_FinishReason db else []),
          tdf_axes = AxisDiff G (Bytes (rq_body (it_request x))) (Bytes (rq_body (it_request y)))\<rparr>)"

fun diff_loop :: "'r gjson \<Rightarrow> nat \<Rightarrow> bool \<Rightarrow> interaction list \<Rightarrow> interaction list \<Rightarrow> turn_diff list" where
  "diff_loop G i first (x # xs) (y # ys) =
     (if t_Digest (decodeResponse G x) = t_Digest (decodeResponse G y) then diff_loop G (Suc i) first xs ys
      else turn_diff_of G i first x y # diff_loop G (Suc i) False xs ys)"
| "diff_loop G i first _ _ = []"

definition DiffRecordings :: "'r gjson \<Rightarrow> wfile \<Rightarrow> wfile \<Rightarrow> recording_diff" where
  "DiffRecordings G a b =
     (let ta = httpTurns a; tb = httpTurns b; n = min (length ta) (length tb)
      in \<lparr>rd_turns = diff_loop G 0 True ta tb, rd_extra_a = length ta - n, rd_extra_b = length tb - n\<rparr>)"

section \<open>Bisection finds the first difference\<close>

definition turn_digests :: "'r gjson \<Rightarrow> wfile \<Rightarrow> string list" where
  "turn_digests G f = map (\<lambda>it. t_Digest (decodeResponse G it)) (httpTurns f)"

abbreviation digests_of :: "'r gjson \<Rightarrow> interaction list \<Rightarrow> string list" where
  "digests_of G its \<equiv> map (\<lambda>it. t_Digest (decodeResponse G it)) its"

lemma bisect_loop_lcp:
  "case bisect_loop G i xs ys of
     None \<Rightarrow> length (longest_common_prefix (digests_of G xs) (digests_of G ys)) = min (length xs) (length ys)
   | Some d \<Rightarrow> dv_turn d = int (i + length (longest_common_prefix (digests_of G xs) (digests_of G ys))) \<and>
       length (longest_common_prefix (digests_of G xs) (digests_of G ys)) < min (length xs) (length ys)"
proof (induction G i xs ys rule: bisect_loop.induct)
  case (1 G i x xs y ys)
  show ?case
  proof (cases "t_Digest (decodeResponse G x) = t_Digest (decodeResponse G y)")
    case True
    then show ?thesis using 1 [OF refl refl] by (cases "bisect_loop G (Suc i) xs ys") (simp_all add: Let_def)
  next
    case False
    then show ?thesis by (simp add: Let_def)
  qed
qed simp_all

lemma lcp_same: "longest_common_prefix xs xs = xs"
  by (induction xs) auto

lemma lcp_full: "length (longest_common_prefix xs ys) = min (length xs) (length ys) \<Longrightarrow> length xs = length ys \<Longrightarrow> xs = ys"
  by (induction xs ys rule: longest_common_prefix.induct) (auto split: if_splits)

text \<open>
  C32. Bisection reports the first turn at which the semantic digests of two recordings differ,
  which is the length of their longest common prefix, and no divergence exactly when the recordings
  have the same digests.
\<close>

theorem Bisect_first_divergence:
  "dv_turn (Bisect G a b) =
     (if turn_digests G a = turn_digests G b then -1
      else int (length (longest_common_prefix (turn_digests G a) (turn_digests G b))))"
proof -
  let ?da = "turn_digests G a" and ?db = "turn_digests G b"
  have len: "length ?da = length (httpTurns a)" "length ?db = length (httpTurns b)"
    by (simp_all add: turn_digests_def)
  note l = bisect_loop_lcp [where G = G and i = 0 and xs = "httpTurns a" and ys = "httpTurns b", folded turn_digests_def]
  show ?thesis
  proof (cases "bisect_loop G 0 (httpTurns a) (httpTurns b)")
    case None
    then show ?thesis using l len lcp_full [of ?da ?db] lcp_same [of ?da]
      by (auto simp: Bisect_def Let_def)
  next
    case (Some d)
    then have "?da \<noteq> ?db" using l len lcp_same [of ?da] by auto
    then show ?thesis using Some l by (simp add: Bisect_def Let_def)
  qed
qed

section \<open>The difference of two recordings\<close>

lemma diff_loop_turns:
  "map tdf_turn (diff_loop G i first xs ys) = map ((+) i) (filter
     (\<lambda>j. digests_of G xs ! j \<noteq> digests_of G ys ! j) [0 ..< min (length xs) (length ys)])"
proof (induction G i first xs ys rule: diff_loop.induct)
  case (1 G i first x xs y ys)
  let ?m = "min (length xs) (length ys)"
  have u: "[0 ..< min (length (x # xs)) (length (y # ys))] = 0 # map Suc [0 ..< ?m]"
    by (simp only: map_Suc_upt min_Suc_Suc length_Cons) (simp add: upt_conv_Cons del: upt_Suc)
  have f: "map ((+) i) (filter P (map Suc js)) = map ((+) (Suc i)) (filter (\<lambda>j. P (Suc j)) js)" for P js
    by (induction js) auto
  show ?case
  proof (cases "t_Digest (decodeResponse G x) = t_Digest (decodeResponse G y)")
    case True
    then show ?thesis using 1(1) unfolding u by (simp add: f)
  next
    case False
    then show ?thesis using 1(2) unfolding u by (simp add: f turn_diff_of_def Let_def)
  qed
qed simp_all

lemma diff_loop_roots:
  "map tdf_root (diff_loop G i first xs ys) =
     (case diff_loop G i first xs ys of [] \<Rightarrow> [] | _ # rest \<Rightarrow> first # replicate (length rest) False)"
proof (induction G i first xs ys rule: diff_loop.induct)
  case (1 G i first x xs y ys)
  then show ?case by (auto simp: turn_diff_of_def Let_def split: list.splits)
qed simp_all

text \<open>
  The accumulated difference lists every common turn whose digests differ, in order, marks the
  first and only the first as the root, and is empty exactly when bisection finds no divergence.
\<close>

theorem DiffRecordings_turns:
  "map tdf_turn (rd_turns (DiffRecordings G a b)) = filter (\<lambda>j. turn_digests G a ! j \<noteq> turn_digests G b ! j)
      [0 ..< min (length (turn_digests G a)) (length (turn_digests G b))] \<and>
   map tdf_root (rd_turns (DiffRecordings G a b)) =
      (if rd_turns (DiffRecordings G a b) = [] then [] else True # replicate (length (rd_turns (DiffRecordings G a b)) - 1) False) \<and>
   (rd_Diverged (DiffRecordings G a b) \<longleftrightarrow> turn_digests G a \<noteq> turn_digests G b)"
proof -
  let ?l = "diff_loop G 0 True (httpTurns a) (httpTurns b)" and ?da = "turn_digests G a" and ?db = "turn_digests G b"
  have len: "length ?da = length (httpTurns a)" "length ?db = length (httpTurns b)"
    by (simp_all add: turn_digests_def)
  have "map ((+) 0) js = js" for js :: "nat list" by (simp add: map_idI)
  then have turns: "map tdf_turn ?l = filter (\<lambda>j. ?da ! j \<noteq> ?db ! j) [0 ..< min (length ?da) (length ?db)]"
    unfolding diff_loop_turns len by (simp only: turn_digests_def)
  have roots: "map tdf_root ?l = (if ?l = [] then [] else True # replicate (length ?l - 1) False)"
    using diff_loop_roots [of G 0 True "httpTurns a" "httpTurns b"] by (cases ?l) auto
  have "?l = [] \<longleftrightarrow> filter (\<lambda>j. ?da ! j \<noteq> ?db ! j) [0 ..< min (length ?da) (length ?db)] = []"
    by (simp only: turns [symmetric] map_is_Nil_conv)
  then have e: "?l = [] \<longleftrightarrow> (\<forall>j < min (length ?da) (length ?db). ?da ! j = ?db ! j)"
    by (simp only: filter_empty_conv set_upt) auto
  have "?da = ?db \<longleftrightarrow> ?l = [] \<and> length ?da = length ?db"
    unfolding e list_eq_iff_nth_eq [of ?da] by auto
  then have div: "rd_Diverged (DiffRecordings G a b) \<longleftrightarrow> ?da \<noteq> ?db"
    using len by (simp add: DiffRecordings_def Let_def rd_Diverged_def) linarith
  have "rd_turns (DiffRecordings G a b) = ?l" by (simp add: DiffRecordings_def Let_def)
  then show ?thesis using turns roots div by simp
qed

section \<open>Tool differences\<close>

lemma tl_put_get:
  "mget0 ([], []) (tl_map (tl_put upd tc s)) n =
     (if n = tc_Name tc then upd (tc_Args tc) (mget0 ([], []) (tl_map s) n) else mget0 ([], []) (tl_map s) n)"
  by (simp add: tl_put_def tl_add_def Let_def mget0_def map_of_mput)

lemma tl_put_order: "set (tl_order (tl_put upd tc s)) = insert (tc_Name tc) (set (tl_order s))"
  by (auto simp: tl_put_def tl_add_def Let_def)

lemma fold_tl_order: "set (tl_order (fold (tl_put upd) xs s)) = tc_Name ` set xs \<union> set (tl_order s)"
  by (induction xs arbitrary: s) (auto simp: tl_put_order)

abbreviation args_of :: "string \<Rightarrow> tool_call list \<Rightarrow> string list" where
  "args_of n cs \<equiv> map tc_Args (filter (\<lambda>c. tc_Name c = n) cs)"

lemma fold_tl_a:
  "mget0 ([], []) (tl_map (fold (tl_put (\<lambda>x (p, q). (p @ [x], q))) xs s)) n =
     (case mget0 ([], []) (tl_map s) n of (p, q) \<Rightarrow> (p @ args_of n xs, q))"
  by (induction xs arbitrary: s) (auto simp: tl_put_get split: prod.splits)

lemma fold_tl_b:
  "mget0 ([], []) (tl_map (fold (tl_put (\<lambda>x (p, q). (p, q @ [x]))) xs s)) n =
     (case mget0 ([], []) (tl_map s) n of (p, q) \<Rightarrow> (p, q @ args_of n xs))"
  by (induction xs arbitrary: s) (auto simp: tl_put_get split: prod.splits)

lemma tool_maps_get: "mget0 ([], []) (tl_map (tool_maps a b)) n = (args_of n a, args_of n b)"
  by (simp add: tool_maps_def fold_tl_a fold_tl_b mget0_def [of _ "[]"])

lemma args_changes_Nil: "args_changes n xs ys = [] \<longleftrightarrow> xs = ys"
  by (induction n xs ys rule: args_changes.induct) auto

lemma diffTools_Nil: "diffTools a b = [] \<longleftrightarrow> (\<forall>n. args_of n a = args_of n b)"
proof -
  have "set (tl_order (tool_maps a b)) = tc_Name ` set a \<union> tc_Name ` set b"
    by (auto simp: tool_maps_def fold_tl_order)
  moreover have "args_of n a = args_of n b" if "n \<notin> tc_Name ` set a \<union> tc_Name ` set b" for n
  proof -
    have "filter (\<lambda>c. tc_Name c = n) a = []" "filter (\<lambda>c. tc_Name c = n) b = []"
      using that by (auto simp: filter_empty_conv)
    then show ?thesis by simp
  qed
  ultimately show ?thesis
    by (auto simp: diffTools_def Let_def tool_maps_get args_changes_Nil) blast
qed

lemma args_of_mset:
  assumes "\<And>n. args_of n a = args_of n b"
  shows "mset a = mset b"
proof (rule multiset_eqI)
  fix c :: tool_call
  have n: "count (mset cs) c = count (mset (args_of (tc_Name c) cs)) (tc_Args c)" for cs
    by (induction cs) (auto simp: tool_call.equality)
  show "count (mset a) c = count (mset b) c" by (simp only: n [of a] n [of b] assms)
qed

lemma sorted_calls_eq:
  assumes "mset a = mset b"
  shows "sort_key tc_key a = sort_key tc_key b"
proof -
  have key: "(tc_key x = tc_key y) = (x = y)" for x y by (auto simp: tc_key_def tool_call.equality)
  have f: "filter (\<lambda>x. k = x) xs = replicate (count (mset xs) k) k" for k :: tool_call and xs
    using replicate_count_mset_eq_filter_eq [of xs k] by simp
  show ?thesis
    by (rule properties_for_sort_key) (simp_all add: assms key f)
qed

lemma containsStr_iff: "containsStr d v \<longleftrightarrow> v \<in> set d"
  by (induction d) auto

lemma axis_step_set:
  "set (axis_step G a b k d) = set d \<union> (if gj_raw G (gj_get G a k) \<noteq> gj_raw G (gj_get G b k) then {axis_of k} else {})"
  by (auto simp: axis_step_def containsStr_iff)

lemma axis_fold_set:
  "set (fold (axis_step G a b) ks d) =
     set d \<union> axis_of ` {k \<in> set ks. gj_raw G (gj_get G a k) \<noteq> gj_raw G (gj_get G b k)}"
  by (induction ks arbitrary: d) (auto simp: axis_step_set)

lemma axis_fold_distinct: "distinct d \<Longrightarrow> distinct (fold (axis_step G a b) ks d)"
proof (induction ks arbitrary: d)
  case (Cons k ks)
  have "distinct (axis_step G a b k d)" using Cons.prems by (simp add: axis_step_def containsStr_iff)
  then show ?case using Cons.IH by simp
qed simp

text \<open>
  Two turns have no tool difference exactly when their normalized tool calls are the same: the
  matching by name and by position within the name neither hides a change nor reports a reordering.
\<close>

theorem diffTools_sound_complete:
  "diffTools (t_ToolCalls (Normalize x)) (t_ToolCalls (Normalize y)) = [] \<longleftrightarrow>
     t_ToolCalls (Normalize x) = t_ToolCalls (Normalize y)"
proof
  assume "diffTools (t_ToolCalls (Normalize x)) (t_ToolCalls (Normalize y)) = []"
  then have "mset (t_ToolCalls (Normalize x)) = mset (t_ToolCalls (Normalize y))"
    unfolding diffTools_Nil by (intro args_of_mset) blast
  then have "mset (t_ToolCalls x) = mset (t_ToolCalls y)" by (simp add: Normalize_def)
  from sorted_calls_eq [OF this] show "t_ToolCalls (Normalize x) = t_ToolCalls (Normalize y)"
    by (simp add: Normalize_def)
qed (simp add: diffTools_Nil)

text \<open>
  The axes of a request change are sorted, without repetition, and name exactly the keys whose
  raw values differ, the three sampling keys under one name.
\<close>

theorem AxisDiff_exact:
  "sorted (AxisDiff G a b) \<and> distinct (AxisDiff G a b) \<and>
   set (AxisDiff G a b) = axis_of ` {k \<in> set requestAxisKeys. gj_raw G (gj_get G a k) \<noteq> gj_raw G (gj_get G b k)}"
  by (simp add: AxisDiff_def axis_fold_set axis_fold_distinct)

end
