(* ===== verification/Signals.thy ===== *)
theory Signals
  imports Engine
begin

text \<open>
  internal/analysis, what single interactions say: usage.go, refusal.go, mcpsteps.go, seeds.go and
  evalprompt.go; and coverage.go, the coverage matrix of a corpus and the greedy choice of a subset
  with the same behaviour.
\<close>

section \<open>Token usage\<close>

record usage =
  u_in :: int
  u_out :: int
  u_cache_read :: int
  u_cache_write :: int
  u_known :: bool

definition usage0 :: usage where
  "usage0 = \<lparr>u_in = 0, u_out = 0, u_cache_read = 0, u_cache_write = 0, u_known = False\<rparr>"

definition u_Total :: "usage \<Rightarrow> int" where
  "u_Total u = add64 (u_in u) (u_out u)"

text \<open>The closure set: the first path that exists gives the value.\<close>

fun first_existing :: "'r gjson \<Rightarrow> bytes \<Rightarrow> string list \<Rightarrow> int option" where
  "first_existing G j [] = None"
| "first_existing G j (p # ps) =
     (let v = gj_get G j p in if gj_exists G v then Some (gj_int G v) else first_existing G j ps)"

definition set_usage :: "'r gjson \<Rightarrow> bytes \<Rightarrow> (int \<Rightarrow> usage \<Rightarrow> usage) \<Rightarrow> string list \<Rightarrow> usage \<Rightarrow> usage" where
  "set_usage G j put paths u = (case first_existing G j paths of
     None \<Rightarrow> u | Some i \<Rightarrow> (put i u)\<lparr>u_known := True\<rparr>)"

abbreviation put_in :: "int \<Rightarrow> usage \<Rightarrow> usage" where "put_in i u \<equiv> u\<lparr>u_in := i\<rparr>"
abbreviation put_out :: "int \<Rightarrow> usage \<Rightarrow> usage" where "put_out i u \<equiv> u\<lparr>u_out := i\<rparr>"

definition consider_usage :: "'r gjson \<Rightarrow> bytes \<Rightarrow> usage \<Rightarrow> usage" where
  "consider_usage G j u =
     set_usage G j put_out [''response.usage.output_tokens'']
     (set_usage G j put_in [''response.usage.input_tokens'']
     (set_usage G j put_out [''usage.completion_tokens'']
     (set_usage G j put_in [''usage.prompt_tokens'']
     (set_usage G j (\<lambda>i u. u\<lparr>u_cache_write := i\<rparr>)
        [''usage.cache_creation_input_tokens'', ''message.usage.cache_creation_input_tokens'']
     (set_usage G j (\<lambda>i u. u\<lparr>u_cache_read := i\<rparr>)
        [''usage.cache_read_input_tokens'', ''message.usage.cache_read_input_tokens'', ''usageMetadata.cachedContentTokenCount'']
     (set_usage G j put_out
        [''usage.output_tokens'', ''message.usage.output_tokens'', ''usageMetadata.candidatesTokenCount'', ''eval_count'']
     (set_usage G j put_in
        [''usage.input_tokens'', ''message.usage.input_tokens'', ''usageMetadata.promptTokenCount'', ''prompt_eval_count''] u)))))))"

text \<open>bytes.Split on the blank line.\<close>

function split_blank :: "bytes \<Rightarrow> bytes list" where
  "split_blank s = (case str_index sse_sep s of
     None \<Rightarrow> [s]
   | Some i \<Rightarrow> take i s # split_blank (drop (i + 2) s))"
  by pat_completeness auto
termination
  by (relation "measure length") (auto dest: str_index_bound simp: sse_sep_def)

declare split_blank.simps [simp del]

definition usage_line :: "'r gjson \<Rightarrow> bytes \<Rightarrow> usage \<Rightarrow> usage" where
  "usage_line G line0 u = (let line = TrimSpace (trim_prefix (TrimSpace line0) ''data:'') in
     if line = [] \<or> line = ''[DONE]'' \<or> \<not> gj_valid G line then u else consider_usage G line u)"

definition DecodeUsage :: "'r gjson \<Rightarrow> interaction \<Rightarrow> usage" where
  "DecodeUsage G it =
     (let rs = it_response it; body = Bytes (rs_body rs) in
      if it_kind it \<noteq> ''http'' \<or> rs_body rs = None then usage0
      else if \<not> rs_streaming rs then consider_usage G body usage0
      else fold (\<lambda>frame. fold (usage_line G) (split_byte newline frame)) (split_blank body) usage0)"

definition RequestModel :: "'r gjson \<Rightarrow> interaction \<Rightarrow> string" where
  "RequestModel G it =
     (let rq = it_request it;
          m = (case rq_body rq of None \<Rightarrow> [] | Some b \<Rightarrow> TrimSpace (gj_string G (gj_get G b ''model'')))
      in if m \<noteq> [] then m
         else case str_index ''/models/'' (rq_url rq) of
           None \<Rightarrow> []
         | Some i \<Rightarrow> takeWhile (\<lambda>c. c \<notin> set '':/?'') (drop (i + 8) (rq_url rq)))"

section \<open>Refusals\<close>

text \<open>
  strings.ToLower: \<open>lower\<close> is unicode.ToLower above ASCII; a byte that is no valid UTF-8 becomes the
  replacement character, unless the string is all ASCII.
\<close>

definition lower_rune :: "(nat \<Rightarrow> nat) \<Rightarrow> nat \<Rightarrow> nat" where
  "lower_rune lower r = (if r < 128 then (if 65 \<le> r \<and> r \<le> 90 then r + 32 else r) else lower r)"

definition ToLower :: "(nat \<Rightarrow> nat) \<Rightarrow> string \<Rightarrow> string" where
  "ToLower lower s =
     (if list_all (\<lambda>c. byte_of c < (128 :: nat)) s then to_lower s
      else concat (map (\<lambda>rb. encode_rune (lower_rune lower (fst rb))) (runes_of s)))"

definition refusalPhrases :: "string list" where
  "refusalPhrases =
     [''i can't'', ''i cannot'', ''i won't'', ''i will not'', ''i'm unable'', ''i am unable'',
      ''i'm not able'', ''i am not able'', ''i must decline'', ''i can not'',
      ''i'm sorry, but i can'', ''i'm sorry but i can'', ''cannot help with'',
      ''can't help with'', ''can't assist with'', ''cannot assist with'',
      ''against my guidelines'', ''i'm not going to'', ''unable to help'']"

datatype refusal_verdict = Refused | Complied | Unknown

fun verdict_text :: "refusal_verdict \<Rightarrow> string" where
  "verdict_text Refused = ''refused''"
| "verdict_text Complied = ''complied''"
| "verdict_text Unknown = ''unknown''"

definition ClassifyRefusal :: "(nat \<Rightarrow> nat) \<Rightarrow> transcript \<Rightarrow> refusal_verdict" where
  "ClassifyRefusal lower tr =
     (if t_ToolCalls tr \<noteq> [] then Complied
      else let txt = ToLower lower (TrimSpace (t_Text tr)) in
        if txt = [] then Unknown
        else if list_ex (str_contains (take 200 txt)) refusalPhrases then Refused else Complied)"

definition FinalVerdict :: "(nat \<Rightarrow> nat) \<Rightarrow> transcript list \<Rightarrow> refusal_verdict" where
  "FinalVerdict lower turns = (if turns = [] then Unknown else ClassifyRefusal lower (last turns))"

section \<open>MCP steps\<close>

record mcp_step =
  st_index :: nat
  st_method :: string
  st_tool :: string
  st_params :: string
  st_result :: string
  st_error :: bool
  st_tools :: "string list"

definition mcp_step_of :: "'r gjson \<Rightarrow> nat \<Rightarrow> interaction \<Rightarrow> mcp_step" where
  "mcp_step_of G i it =
     (let rq = it_request it; body = Bytes (rs_body (it_response it)); p = TrimSpace (Bytes (rq_body rq));
          lst = (rq_mcp_method rq = ''tools/list'')
      in \<lparr>st_index = i, st_method = rq_mcp_method rq, st_tool = rq_mcp_tool rq,
          st_params = (if p \<noteq> [] \<and> p \<noteq> ''{}'' then p else []),
          st_result = (if lst then [] else mcpResultText G body),
          st_error = mcpIsError G body,
          st_tools = (if lst then filter (\<lambda>n. n \<noteq> []) (tool_roster G body) else [])\<rparr>)"

definition MCPSteps :: "'r gjson \<Rightarrow> wfile \<Rightarrow> mcp_step list" where
  "MCPSteps G f = map (\<lambda>(i, it). mcp_step_of G i it)
     (filter (\<lambda>(i, it). it_kind it = ''mcp'') (enumerate 0 (wf_its f)))"

section \<open>Sampling knobs\<close>

record knobs =
  kn_provider :: string
  kn_seed :: "int option"
  kn_temp :: "real option"
  kn_top_p :: "real option"
  kn_seed_supported :: bool

definition SamplingKnobs :: "'r gjson \<Rightarrow> interaction \<Rightarrow> knobs" where
  "SamplingKnobs G it =
     (let p = ProviderForURL (rq_url (it_request it));
          fld = (\<lambda>b k read. let v = gj_get G b k in if gj_exists G v then Some (read v) else None);
          opt = (\<lambda>b k. fld b k (gj_float G))
      in case rq_body (it_request it) of
           None \<Rightarrow> \<lparr>kn_provider = p_Name p, kn_seed = None, kn_temp = None, kn_top_p = None, kn_seed_supported = SeedSupported p\<rparr>
         | Some b \<Rightarrow> \<lparr>kn_provider = p_Name p,
             kn_seed = (let v = gj_get G b ''seed'' in if gj_exists G v then Some (gj_int G v) else None),
             kn_temp = opt b ''temperature'', kn_top_p = opt b ''top_p'', kn_seed_supported = SeedSupported p\<rparr>)"

text \<open>\<open>fmt_g\<close> is the verb g of fmt; the dash and the arrow of the last text are UTF-8.\<close>

definition Reproducible :: "(real \<Rightarrow> string) \<Rightarrow> knobs \<Rightarrow> bool \<times> string" where
  "Reproducible fmt_g k =
     (case (kn_seed k, kn_temp k) of
        (Some s, t) \<Rightarrow>
          if kn_seed_supported k then (True, ''seed='' @ itoa s)
          else if t = Some 0 then (True, ''temperature=0 (greedy)'')
          else (False, ''seed='' @ itoa s @ '' ignored ('' @ kn_provider k @ '' has no seed param), no temperature=0'')
      | (None, Some t) \<Rightarrow>
          if t = 0 then (True, ''temperature=0 (greedy)'') else (False, ''temperature='' @ fmt_g t @ '', no seed'')
      | (None, None) \<Rightarrow>
          (False, ''temperature unset '' @ encode_rune 8594 @ '' provider default (likely >0), no seed''))"

section \<open>The judge's request\<close>

definition judge_turn :: "nat \<Rightarrow> transcript \<Rightarrow> string" where
  "judge_turn i tr =
     ''[turn '' @ itoa (int i) @ '']\<newline>'' @
     (if t_Text tr \<noteq> [] then ''assistant: '' @ t_Text tr @ ''\<newline>'' else []) @
     concat (map (\<lambda>tc. ''tool_call: '' @ tc_Name tc @ ''('' @ tc_Args tc @ '')\<newline>'') (t_ToolCalls tr)) @
     (if t_FinishReason tr \<noteq> [] then ''finish: '' @ t_FinishReason tr @ ''\<newline>'' else [])"

definition JudgePrompt :: "string \<Rightarrow> string \<Rightarrow> transcript list \<Rightarrow> bytes" where
  "JudgePrompt rubric model turns =
     (let m = (if model = [] then ''judge'' else model);
          content = rubric @ ''\<newline>\<newline>TRANSCRIPT:\<newline>'' @ concat (map (\<lambda>(i, tr). judge_turn i tr) (enumerate 0 turns))
      in jencode True (JObj
           [(''model'', JStr m), (''max_tokens'', jint 1024),
            (''messages'', JArr [JObj [(''role'', JStr ''user''), (''content'', JStr content)]])]))"

section \<open>Coverage\<close>

record coverage_report =
  cv_cassettes :: nat
  cv_turns :: nat
  cv_tools :: "(string \<times> nat) list"
  cv_finish :: "(string \<times> nat) list"
  cv_providers :: "(string \<times> nat) list"
  cv_refusal :: "(string \<times> nat) list"
  cv_streaming :: nat
  cv_unary :: nat

definition bump :: "string \<Rightarrow> (string \<times> nat) list \<Rightarrow> (string \<times> nat) list" where
  "bump k m = mput k (Suc (mget0 0 m k)) m"

definition cover_it :: "'r gjson \<Rightarrow> (nat \<Rightarrow> nat) \<Rightarrow> interaction \<Rightarrow> coverage_report \<Rightarrow> coverage_report" where
  "cover_it G lower it rep =
     (if it_kind it \<noteq> ''http'' then rep
      else case DecodeInteraction G it of (tr, unary, renderable) \<Rightarrow>
        if \<not> unary \<and> \<not> renderable then rep
        else let r1 = rep\<lparr>cv_turns := Suc (cv_turns rep),
                          cv_providers := bump (p_Name (ProviderForURL (rq_url (it_request it)))) (cv_providers rep)\<rparr>
        in if unary then r1\<lparr>cv_unary := Suc (cv_unary r1)\<rparr>
           else r1\<lparr>cv_streaming := Suc (cv_streaming r1),
                   cv_tools := fold (\<lambda>tc. bump (tc_Name tc)) (t_ToolCalls tr) (cv_tools r1),
                   cv_finish := (if t_FinishReason tr \<noteq> [] then bump (t_FinishReason tr) (cv_finish r1) else cv_finish r1),
                   cv_refusal := bump (verdict_text (ClassifyRefusal lower tr)) (cv_refusal r1)\<rparr>)"

definition Coverage :: "'r gjson \<Rightarrow> (nat \<Rightarrow> nat) \<Rightarrow> wfile list \<Rightarrow> coverage_report" where
  "Coverage G lower files =
     fold (\<lambda>f. fold (cover_it G lower) (wf_its f)) files
       \<lparr>cv_cassettes = length files, cv_turns = 0, cv_tools = [], cv_finish = [], cv_providers = [],
        cv_refusal = [], cv_streaming = 0, cv_unary = 0\<rparr>"

definition coverage_Has :: "coverage_report \<Rightarrow> string \<Rightarrow> string \<Rightarrow> bool" where
  "coverage_Has r axis v =
     (if axis = ''tool'' \<or> axis = ''tools'' then 0 < mget0 0 (cv_tools r) v
      else if axis = ''finish'' then 0 < mget0 0 (cv_finish r) v
      else if axis = ''provider'' then 0 < mget0 0 (cv_providers r) v
      else if axis = ''refusal'' then 0 < mget0 0 (cv_refusal r) v
      else False)"

text \<open>A map from strings to true is the list of its keys, without repetition.\<close>

definition signals_it :: "'r gjson \<Rightarrow> (nat \<Rightarrow> nat) \<Rightarrow> interaction \<Rightarrow> string list" where
  "signals_it G lower it =
     (if it_kind it \<noteq> ''http'' then []
      else case DecodeInteraction G it of (tr, unary, renderable) \<Rightarrow>
        if \<not> unary \<and> \<not> renderable then []
        else [''provider:'' @ p_Name (ProviderForURL (rq_url (it_request it))), ''digest:'' @ t_Digest tr] @
          (if unary then []
           else map (\<lambda>tc. ''tool:'' @ tc_Name tc) (t_ToolCalls tr) @
             (if t_FinishReason tr \<noteq> [] then [''finish:'' @ t_FinishReason tr] else []) @
             [''refusal:'' @ verdict_text (ClassifyRefusal lower tr)]))"

definition signalsOf :: "'r gjson \<Rightarrow> (nat \<Rightarrow> nat) \<Rightarrow> wfile \<Rightarrow> string list" where
  "signalsOf G lower f = remdups (concat (map (signals_it G lower) (wf_its f)))"

section \<open>The greedy cover\<close>

definition gain :: "string list \<Rightarrow> string list \<Rightarrow> nat" where
  "gain covered sig = length (filter (\<lambda>k. k \<notin> set covered) sig)"

text \<open>The inner loop: the first unused item of the largest gain, if one gains anything.\<close>

fun best_item :: "string list \<Rightarrow> nat \<Rightarrow> string list list \<Rightarrow> bool list \<Rightarrow> nat option \<times> nat \<Rightarrow> nat option \<times> nat" where
  "best_item covered i (sig # sigs) (u # us) b =
     best_item covered (Suc i) sigs us
       (if u then b else if snd b < gain covered sig then (Some i, gain covered sig) else b)"
| "best_item covered i _ _ b = b"

definition add_signals :: "string list \<Rightarrow> string list \<Rightarrow> string list" where
  "add_signals covered sig = covered @ filter (\<lambda>k. k \<notin> set covered) sig"

lemma best_item_chosen:
  assumes "fst (best_item covered i sigs us b) = Some k" "length us = length sigs" "fst b \<noteq> Some k"
  shows "i \<le> k \<and> k < i + length sigs \<and> \<not> us ! (k - i) \<and> 0 < gain covered (sigs ! (k - i))"
  using assms
proof (induction covered i sigs us b rule: best_item.induct)
  case (1 covered i sig sigs u us b)
  let ?b = "if u then b else if snd b < gain covered sig then (Some i, gain covered sig) else b"
  show ?case
  proof (cases "fst ?b = Some k")
    case True
    then have "k = i" "\<not> u" "snd b < gain covered sig" using 1(4) by (auto split: if_splits)
    then show ?thesis by simp
  next
    case False
    then have "Suc i \<le> k \<and> k < Suc i + length sigs \<and> \<not> us ! (k - Suc i) \<and> 0 < gain covered (sigs ! (k - Suc i))"
      using 1(1,2,3) by simp
    then show ?thesis by (auto simp: nth_Cons' Suc_diff_le)
  qed
qed simp_all

text \<open>\<open>used\<close> and keptIdx are always the same set.\<close>

function shrink_loop :: "string list list \<Rightarrow> string list \<Rightarrow> bool list \<Rightarrow> string list \<Rightarrow> bool list" where
  "shrink_loop sigs universe used covered =
     (if length covered < length universe \<and> length used = length sigs then
        (case fst (best_item covered 0 sigs used (None, 0)) of
           None \<Rightarrow> used
         | Some i \<Rightarrow> shrink_loop sigs universe (used[i := True]) (add_signals covered (sigs ! i)))
      else used)"
  by pat_completeness auto
termination
proof (relation "measure (\<lambda>(sigs, universe, used, covered). length (filter Not used))", simp, clarsimp)
  fix sigs used :: "_ list" and covered and i
  assume l: "length used = length (sigs :: string list list)" and b: "fst (best_item covered 0 sigs used (None, 0)) = Some i"
  have i: "i < length used" "\<not> used ! i" using best_item_chosen [OF b l] l by simp_all
  have "used = take i used @ used ! i # drop (Suc i) used" using i(1) by (rule id_take_nth_drop)
  then have "length (filter Not used) = length (filter Not (take i used)) + Suc (length (filter Not (drop (Suc i) used)))"
    using i(2) by (metis (no_types, lifting) filter.simps(2) filter_append length_Cons length_append)
  moreover have "used[i := True] = take i used @ True # drop (Suc i) used" using i(1) by (rule upd_conv_take_nth_drop)
  ultimately show "length (filter Not (used[i := True])) < length (filter Not used)" by simp
qed

declare shrink_loop.simps [simp del]

definition cover_indices :: "string list list \<Rightarrow> nat list" where
  "cover_indices sigs =
     (let used = shrink_loop sigs (remdups (concat sigs)) (replicate (length sigs) False) []
      in filter (\<lambda>i. used ! i) [0 ..< length sigs])"

text \<open>None is the panic of \<open>names[i]\<close> out of range.\<close>

definition Shrink :: "'r gjson \<Rightarrow> (nat \<Rightarrow> nat) \<Rightarrow> string list \<Rightarrow> wfile list \<Rightarrow> string list option" where
  "Shrink G lower names files =
     (if length names < length files then None
      else Some (map ((!) names) (cover_indices (map (signalsOf G lower) files))))"

section \<open>The cover covers\<close>

lemma best_item_Some: "fst b \<noteq> None \<Longrightarrow> fst (best_item covered i sigs us b) \<noteq> None"
  by (induction covered i sigs us b rule: best_item.induct) auto

lemma best_item_none:
  assumes "fst (best_item covered i sigs us (None, 0)) = None" "length us = length sigs" "k < length sigs"
  shows "us ! k \<or> gain covered (sigs ! k) = 0"
  using assms
proof (induction sigs arbitrary: us i k)
  case (Cons sig sigs)
  then obtain u us' where us: "us = u # us'" by (cases us) auto
  have z: "u \<or> gain covered sig = 0"
    using Cons.prems(1) best_item_Some [of "(Some i, gain covered sig)" covered "Suc i" sigs us'] by (auto simp: us split: if_splits)
  then have "fst (best_item covered (Suc i) sigs us' (None, 0)) = None"
    using Cons.prems(1) by (auto simp: us split: if_splits)
  then show ?case using Cons.IH [of "Suc i" us' "k - 1"] Cons.prems(2,3) z by (cases k) (auto simp: us)
qed simp

lemma gain_zero: "gain covered sig = 0 \<longleftrightarrow> set sig \<subseteq> set covered"
  by (auto simp: gain_def filter_empty_conv)

definition used_signals :: "string list list \<Rightarrow> bool list \<Rightarrow> string set" where
  "used_signals sigs used = (\<Union>i \<in> {i. i < length sigs \<and> used ! i}. set (sigs ! i))"

lemma shrink_loop_length: "length (shrink_loop sigs universe used covered) = length used"
  by (induction sigs universe used covered rule: shrink_loop.induct)
    (subst shrink_loop.simps, auto split: option.splits)

lemma used_signals_update:
  assumes "i < length sigs" "length used = length sigs"
  shows "used_signals sigs (used[i := True]) = used_signals sigs used \<union> set (sigs ! i)"
  using assms by (auto simp: used_signals_def nth_list_update split: if_splits)

lemma shrink_loop_covers:
  assumes "distinct covered" "set covered = used_signals sigs used" "length used = length sigs"
    "\<forall>sig \<in> set sigs. distinct sig" "distinct universe" "set universe = set (concat sigs)"
  shows "used_signals sigs (shrink_loop sigs universe used covered) = set (concat sigs)"
  using assms
proof (induction sigs universe used covered rule: shrink_loop.induct)
  case (1 sigs universe used covered)
  have sub: "set covered \<subseteq> set universe"
    unfolding 1(3) 1(7) used_signals_def by (auto intro!: bexI [OF _ nth_mem])
  show ?case
  proof (cases "length covered < length universe")
    case False
    then have "card (set universe) \<le> card (set covered)"
      using 1(2,6) by (simp add: distinct_card)
    then have "set covered = set universe" using sub by (simp add: card_subset_eq [symmetric] card_seteq)
    then show ?thesis using False 1(3,7) by (subst shrink_loop.simps) simp
  next
    case True
    show ?thesis
    proof (cases "fst (best_item covered 0 sigs used (None, 0))")
      case None
      have "set sig \<subseteq> set covered" if "sig \<in> set sigs" for sig
      proof -
        obtain k where k: "k < length sigs" "sig = sigs ! k" using \<open>sig \<in> set sigs\<close> by (auto simp: in_set_conv_nth)
        have "used ! k \<or> gain covered (sigs ! k) = 0" using best_item_none [OF None 1(4) k(1)] .
        then show ?thesis
        proof
          assume "used ! k"
          then show ?thesis using k \<open>set covered = used_signals sigs used\<close> by (auto simp: used_signals_def)
        qed (simp add: gain_zero k(2))
      qed
      then have "set covered = set (concat sigs)" using sub 1(7) by auto
      then show ?thesis using True None 1(3) by (subst shrink_loop.simps) simp
    next
      case (Some i)
      have i: "i < length sigs" using best_item_chosen [OF Some 1(4)] by simp
      have d: "distinct (add_signals covered (sigs ! i))"
        using 1(2,5) i by (auto simp: add_signals_def)
      have s: "set (add_signals covered (sigs ! i)) = used_signals sigs (used[i := True])"
        using used_signals_update [OF i 1(4)] 1(3) by (auto simp: add_signals_def)
      show ?thesis
        using 1(1) [OF _ Some d s] True Some 1(4,5,6,7) by (subst shrink_loop.simps) simp
    qed
  qed
qed

lemma cover_indices_covers:
  assumes "\<forall>sig \<in> set sigs. distinct sig"
  shows "(\<Union>i \<in> set (cover_indices sigs). set (sigs ! i)) = set (concat sigs)"
proof -
  let ?used = "shrink_loop sigs (remdups (concat sigs)) (replicate (length sigs) False) []"
  have "used_signals sigs ?used = set (concat sigs)"
    using assms by (intro shrink_loop_covers) (auto simp: used_signals_def)
  then show ?thesis by (auto simp: cover_indices_def Let_def used_signals_def)
qed

section \<open>Coverage and signals\<close>

lemma mget0_bump: "0 < mget0 0 (bump k m) v \<longleftrightarrow> v = k \<or> 0 < mget0 0 m v"
  by (simp add: bump_def mget0_def map_of_mput)

lemma mget0_bumps: "0 < mget0 0 (fold (\<lambda>tc. bump (tc_Name tc)) tcs m) v \<longleftrightarrow> v \<in> tc_Name ` set tcs \<or> 0 < mget0 0 m v"
  by (induction tcs arbitrary: m) (auto simp: mget0_bump)

definition axis_signal :: "string \<Rightarrow> string" where
  "axis_signal axis = (if axis = ''tools'' then ''tool:'' else axis @ '':'')"

lemma Has_cover_it:
  assumes "axis \<in> {''tool'', ''tools'', ''finish'', ''provider'', ''refusal''}"
  shows "coverage_Has (cover_it G lower it r) axis v \<longleftrightarrow>
    (axis \<noteq> ''finish'' \<or> v \<noteq> []) \<and> axis_signal axis @ v \<in> set (signals_it G lower it) \<or> coverage_Has r axis v"
proof -
  obtain tr unary renderable where d: "DecodeInteraction G it = (tr, unary, renderable)" by (cases "DecodeInteraction G it")
  note defs = coverage_Has_def cover_it_def signals_it_def axis_signal_def mget0_bump mget0_bumps Let_def d
  consider "it_kind it \<noteq> ''http'' \<or> \<not> unary \<and> \<not> renderable" | "it_kind it = ''http''" "unary"
    | "it_kind it = ''http''" "\<not> unary" "renderable" "t_FinishReason tr = []"
    | "it_kind it = ''http''" "\<not> unary" "renderable" "t_FinishReason tr \<noteq> []" by blast
  then show ?thesis
  proof cases
    case 1
    then have "cover_it G lower it r = r" "signals_it G lower it = []" by (auto simp: cover_it_def signals_it_def d)
    then show ?thesis by simp
  next
    case 2
    then show ?thesis using assms by (elim insertE emptyE) (simp_all add: defs)
  next
    case 3
    then show ?thesis using assms by (elim insertE emptyE; simp add: defs image_iff; blast)
  next
    case 4
    then show ?thesis using assms by (elim insertE emptyE; simp add: defs image_iff) auto
  qed
qed

lemma Has_fold_cover:
  assumes "axis \<in> {''tool'', ''tools'', ''finish'', ''provider'', ''refusal''}"
  shows "coverage_Has (fold (cover_it G lower) its r) axis v \<longleftrightarrow>
    (axis \<noteq> ''finish'' \<or> v \<noteq> []) \<and> axis_signal axis @ v \<in> set (concat (map (signals_it G lower) its)) \<or> coverage_Has r axis v"
  by (induction its arbitrary: r) (auto simp: Has_cover_it [OF assms])

lemma Has_fold_files:
  assumes "axis \<in> {''tool'', ''tools'', ''finish'', ''provider'', ''refusal''}"
  shows "coverage_Has (fold (\<lambda>f. fold (cover_it G lower) (wf_its f)) files r) axis v \<longleftrightarrow>
    (axis \<noteq> ''finish'' \<or> v \<noteq> []) \<and> axis_signal axis @ v \<in> set (concat (map (signalsOf G lower) files)) \<or> coverage_Has r axis v"
  by (induction files arbitrary: r) (auto simp: Has_fold_cover [OF assms] signalsOf_def)

lemma Has_Coverage:
  assumes "axis \<in> {''tool'', ''tools'', ''finish'', ''provider'', ''refusal''}"
  shows "coverage_Has (Coverage G lower files) axis v \<longleftrightarrow>
    (axis \<noteq> ''finish'' \<or> v \<noteq> []) \<and> axis_signal axis @ v \<in> set (concat (map (signalsOf G lower) files))"
  unfolding Coverage_def Has_fold_files [OF assms] by (auto simp: coverage_Has_def mget0_def)

text \<open>
  C23. Shrinking a corpus always ends and loses no behaviour: the kept cassettes, in input order,
  have all signals of the corpus, digests of turns included, and their coverage matrix has an entry
  for a tool, a finish reason, a provider or a verdict exactly when that of the corpus has.
\<close>

theorem Shrink_preserves_behaviour:
  "length names < length files \<and> Shrink G lower names files = None \<or>
   (\<exists>idxs. Shrink G lower names files = Some (map ((!) names) idxs) \<and>
     sorted_wrt (<) idxs \<and> set idxs \<subseteq> {..<length files} \<and>
     set (concat (map (\<lambda>i. signalsOf G lower (files ! i)) idxs)) = set (concat (map (signalsOf G lower) files)) \<and>
     coverage_Has (Coverage G lower (map ((!) files) idxs)) = coverage_Has (Coverage G lower files))"
proof -
  let ?sigs = "map (signalsOf G lower) files"
  define idxs where "idxs = cover_indices ?sigs"
  have r: "set idxs \<subseteq> {..<length files}" "sorted_wrt (<) idxs"
    by (auto simp: idxs_def cover_indices_def Let_def sorted_wrt_filter)
  have "(\<Union>i \<in> set idxs. set (?sigs ! i)) = set (concat ?sigs)"
    unfolding idxs_def by (rule cover_indices_covers) (simp add: signalsOf_def)
  then have s: "set (concat (map (\<lambda>i. signalsOf G lower (files ! i)) idxs)) = set (concat ?sigs)"
    using r(1) by (auto simp: subset_iff)
  then have s': "set (concat (map (signalsOf G lower) (map ((!) files) idxs))) = set (concat ?sigs)"
    by (simp add: comp_def)
  have "coverage_Has (Coverage G lower (map ((!) files) idxs)) axis v = coverage_Has (Coverage G lower files) axis v" for axis v
  proof (cases "axis \<in> {''tool'', ''tools'', ''finish'', ''provider'', ''refusal''}")
    case True
    show ?thesis unfolding Has_Coverage [OF True] s' ..
  qed (simp add: coverage_Has_def)
  then have "coverage_Has (Coverage G lower (map ((!) files) idxs)) = coverage_Has (Coverage G lower files)" by blast
  then show ?thesis using r s
    by (cases "length names < length files") (auto simp: Shrink_def idxs_def [symmetric] intro!: exI [of _ idxs])
qed

text \<open>
  The greedy choice keeps a cassette that the others make redundant: the subset is a cover, not a
  minimal one.
\<close>

lemma greedy_cover_not_minimal:
  "cover_indices [[''a'', ''b'', ''c'', ''d''], [''a'', ''b'', ''e''], [''c'', ''d'', ''f'']] = [0, 1, 2] \<and>
   set [''a'', ''b'', ''e''] \<union> set [''c'', ''d'', ''f''] = {''a'', ''b'', ''c'', ''d'', ''e'', ''f''}"
  by (simp add: cover_indices_def shrink_loop.simps gain_def add_signals_def upt_rec insert_commute)

lemma Coverage_totals_aux:
  "cv_turns (fold (cover_it G lower) its r) + cv_streaming r + cv_unary r =
   cv_turns r + cv_streaming (fold (cover_it G lower) its r) + cv_unary (fold (cover_it G lower) its r)"
proof (induction its arbitrary: r)
  case (Cons it its)
  have "cv_turns (cover_it G lower it r) + cv_streaming r + cv_unary r =
      cv_turns r + cv_streaming (cover_it G lower it r) + cv_unary (cover_it G lower it r)"
    by (cases "DecodeInteraction G it") (simp add: cover_it_def Let_def)
  then show ?case using Cons.IH [of "cover_it G lower it r"] by simp
qed simp

lemma Coverage_totals:
  "cv_turns (Coverage G lower files) = cv_streaming (Coverage G lower files) + cv_unary (Coverage G lower files)"
proof -
  have gen: "cv_turns (fold (\<lambda>f. fold (cover_it G lower) (wf_its f)) fs r) =
      cv_streaming (fold (\<lambda>f. fold (cover_it G lower) (wf_its f)) fs r) + cv_unary (fold (\<lambda>f. fold (cover_it G lower) (wf_its f)) fs r)"
    if "cv_turns r = cv_streaming r + cv_unary r" for fs r
    using that
  proof (induction fs arbitrary: r)
    case (Cons f fs)
    have "cv_turns (fold (cover_it G lower) (wf_its f) r) =
        cv_streaming (fold (cover_it G lower) (wf_its f) r) + cv_unary (fold (cover_it G lower) (wf_its f) r)"
      using Coverage_totals_aux [of G lower "wf_its f" r] Cons.prems by simp
    then show ?case using Cons.IH by simp
  qed simp
  show ?thesis unfolding Coverage_def by (rule gen) simp
qed

end
