(* ===== verification/Recode.thy ===== *)
theory Recode
  imports Codec_Edges Signals
begin

text \<open>
  internal/analysis, the passes that re-encode a recording: conform.go checks that every streaming
  turn survives decoding and encoding, canonicalize.go rewrites it to what the encoder writes, and
  provenance.go records where a derived file came from.
\<close>

section \<open>Codec verification\<close>

record codec_turn =
  ct_turn :: nat
  ct_provider :: string
  ct_skipped :: string
  ct_stable :: bool
  ct_deterministic :: bool
  ct_diff :: string

definition ct_OK :: "codec_turn \<Rightarrow> bool" where
  "ct_OK t = (ct_skipped t \<noteq> [] \<or> ct_stable t \<and> ct_deterministic t)"

record codec_report =
  cr_turns :: "codec_turn list"
  cr_checked :: nat
  cr_skipped :: nat
  cr_bad :: nat

definition cr_OK :: "codec_report \<Rightarrow> bool" where
  "cr_OK r = (cr_bad r = 0)"

definition codec_turn_of :: "'r gjson \<Rightarrow> (nat \<Rightarrow> bool) \<Rightarrow> nat \<Rightarrow> interaction \<Rightarrow> codec_turn" where
  "codec_turn_of G isprint turn it =
     (let ct = \<lparr>ct_turn = turn, ct_provider = [], ct_skipped = [], ct_stable = False, ct_deterministic = False, ct_diff = []\<rparr>
      in case DecodeInteraction G it of (_, unary, renderable) \<Rightarrow>
        if unary then ct\<lparr>ct_skipped := ''unary (non-SSE; codec covers streaming)''\<rparr>
        else if \<not> renderable then ct\<lparr>ct_skipped := ''no decodable streaming body''\<rparr>
        else let p = ProviderForURL (rq_url (it_request it)); ct1 = ct\<lparr>ct_provider := p_Name p\<rparr>
          in case RoundTrip_codec p (Bytes (rs_body (it_response it))) of
               (_, Some _) \<Rightarrow> ct1\<lparr>ct_skipped := ''error stream (encoder has no error path)''\<rparr>
             | (res, None) \<Rightarrow> ct1\<lparr>ct_stable := rt_Stable res, ct_deterministic := rt_Deterministic res,
                 ct_diff := (if rt_Stable res then [] else t_Diff isprint (rt_Decoded res) (rt_Redecoded res))\<rparr>)"

definition report_add :: "codec_turn \<Rightarrow> codec_report \<Rightarrow> codec_report" where
  "report_add ct rep =
     (let r1 = (if ct_skipped ct \<noteq> [] then rep\<lparr>cr_skipped := Suc (cr_skipped rep)\<rparr>
                else rep\<lparr>cr_checked := Suc (cr_checked rep), cr_bad := (if ct_OK ct then cr_bad rep else Suc (cr_bad rep))\<rparr>)
      in r1\<lparr>cr_turns := cr_turns r1 @ [ct]\<rparr>)"

definition CodecVerify :: "'r gjson \<Rightarrow> (nat \<Rightarrow> bool) \<Rightarrow> wfile \<Rightarrow> codec_report" where
  "CodecVerify G isprint f =
     fold (\<lambda>(turn, it). report_add (codec_turn_of G isprint turn it)) (enumerate 0 (httpTurns f))
       \<lparr>cr_turns = [], cr_checked = 0, cr_skipped = 0, cr_bad = 0\<rparr>"

section \<open>Canonical recordings\<close>

text \<open>The interaction afterwards, and whether it was rewritten.\<close>

definition canon_it :: "'r gjson \<Rightarrow> interaction \<Rightarrow> interaction \<times> bool" where
  "canon_it G it =
     (if it_kind it \<noteq> ''http'' then (it, False)
      else case DecodeInteraction G it of (_, unary, renderable) \<Rightarrow>
        if unary \<or> \<not> renderable then (it, False)
        else let p = ProviderForURL (rq_url (it_request it)); raw = Bytes (rs_body (it_response it)) in
          case RoundTrip_codec p raw of (res, err) \<Rightarrow>
            if err \<noteq> None \<or> \<not> rt_Stable res then (it, False)
            else let canonical = w_Encode p (rt_Decoded res) envelope0 in
              if canonical = raw then (it, False)
              else (it\<lparr>it_response := (it_response it)\<lparr>rs_body := NewBody canonical, rs_timing := []\<rparr>\<rparr>, True))"

text \<open>Every interaction is a separate object, so the loop rewrites them one by one.\<close>

definition CanonicalizeFile :: "'r gjson \<Rightarrow> wfile \<Rightarrow> wfile \<times> nat" where
  "CanonicalizeFile G f =
     (let rs = map (canon_it G) (wf_its f)
      in (f\<lparr>wf_its := map fst rs\<rparr>, length (filter snd rs)))"

section \<open>Provenance\<close>

definition BehaviorDigest :: "'r gjson \<Rightarrow> wfile \<Rightarrow> string" where
  "BehaviorDigest G f = CombinedDigest (CollectTurns G f)"

definition AppendProvenance :: "wfile \<Rightarrow> string \<Rightarrow> string \<Rightarrow> string \<Rightarrow> wfile" where
  "AppendProvenance out op' from' note' =
     out\<lparr>wf_prov := wf_prov out @ [\<lparr>pv_op = op', pv_from = from', pv_note = note'\<rparr>]\<rparr>"

definition StampProvenance :: "'r gjson \<Rightarrow> wfile \<Rightarrow> wfile \<Rightarrow> string \<Rightarrow> string \<Rightarrow> wfile" where
  "StampProvenance G out source op' note' =
     AppendProvenance (out\<lparr>wf_prov := wf_prov source\<rparr>) op' (BehaviorDigest G source) note'"

section \<open>Recordings within the codec's bounds\<close>

definition codec_bounds :: "provider \<Rightarrow> transcript \<Rightarrow> bool" where
  "codec_bounds p t =
     ((p = Gemini \<or> p = Ollama \<longrightarrow> args_shallow t \<and> list_all (\<lambda>c. Canonicalize (tc_Args c) \<noteq> None) (t_ToolCalls t)) \<and>
      length (t_ToolCalls t) < 2 ^ 62 \<and> length (w_Encode p t envelope0) < max_token)"

definition turn_bounds :: "'r gjson \<Rightarrow> interaction \<Rightarrow> bool" where
  "turn_bounds G it = codec_bounds (ProviderForURL (rq_url (it_request it))) (decodeResponse G it)"

text \<open>A renderable turn of kind http: the decoder's result on the stored stream.\<close>

lemma streaming_turn:
  assumes "DecodeInteraction G it = (t, False, True)" "it_kind it = ''http''"
  shows "rs_streaming (it_response it)" "rs_body (it_response it) \<noteq> None"
    "t = fst (w_Decode (ProviderForURL (rq_url (it_request it))) (Bytes (rs_body (it_response it))))"
  using assms by (auto simp: DecodeInteraction_def Let_def split: if_splits)

lemma not_both: "DecodeInteraction G it \<noteq> (t, True, True)"
  by (simp add: DecodeInteraction_def Let_def)

lemma bounded_round_trip:
  assumes "codec_bounds p (fst (w_Decode p raw))"
  shows "RoundTrip_codec p raw =
     (case w_Decode p raw of
        (t, None) \<Rightarrow> (\<lparr>rt_Decoded = t, rt_Redecoded = t, rt_Stable = True, rt_Deterministic = True\<rparr>, None)
      | (t, Some e) \<Rightarrow> (\<lparr>rt_Decoded = t, rt_Redecoded = no_transcript, rt_Stable = False, rt_Deterministic = False\<rparr>, Some e))"
proof (cases "w_Decode p raw")
  case (Pair t e)
  show ?thesis
  proof (cases e)
    case None
    then show ?thesis using assms Pair round_trip_fix [of p raw t] by (auto simp: codec_bounds_def)
  qed (simp add: Pair RoundTrip_codec_def)
qed

lemma codec_turn_OK: "it_kind it = ''http'' \<Longrightarrow> turn_bounds G it \<Longrightarrow> ct_OK (codec_turn_of G isprint n it)"
proof -
  assume k: "it_kind it = ''http''" and b: "turn_bounds G it"
  obtain t u r where d: "DecodeInteraction G it = (t, u, r)" by (cases "DecodeInteraction G it")
  show ?thesis
  proof (cases "u \<or> \<not> r")
    case True
    then show ?thesis using d by (auto simp: codec_turn_of_def ct_OK_def Let_def)
  next
    case False
    then have s: "t = fst (w_Decode (ProviderForURL (rq_url (it_request it))) (Bytes (rs_body (it_response it))))"
      using streaming_turn(3) [OF _ k] d by simp
    have "codec_bounds (ProviderForURL (rq_url (it_request it))) t" using b d by (simp add: turn_bounds_def decodeResponse_def)
    then show ?thesis using d False unfolding s
      by (cases "w_Decode (ProviderForURL (rq_url (it_request it))) (Bytes (rs_body (it_response it)))")
        (auto simp: codec_turn_of_def ct_OK_def Let_def bounded_round_trip split: option.split)
  qed
qed

lemma report_add_bad: "(cr_bad (report_add ct r) = 0) = (cr_bad r = 0 \<and> ct_OK ct)"
  by (auto simp: report_add_def Let_def ct_OK_def)

lemma report_add_turns: "cr_turns (report_add ct r) = cr_turns r @ [ct]"
  by (simp add: report_add_def Let_def)

lemma fold_report:
  "cr_turns (fold (\<lambda>(turn, it). report_add (codec_turn_of G isprint turn it)) xs r) =
     cr_turns r @ map (\<lambda>(turn, it). codec_turn_of G isprint turn it) xs"
  "(cr_bad (fold (\<lambda>(turn, it). report_add (codec_turn_of G isprint turn it)) xs r) = 0) =
     (cr_bad r = 0 \<and> list_all (\<lambda>(turn, it). ct_OK (codec_turn_of G isprint turn it)) xs)"
  by (induction xs arbitrary: r) (auto simp: report_add_bad report_add_turns)

text \<open>A turn of an Ollama stream, within the bounds.\<close>

definition ollama_turn :: interaction where
  "ollama_turn = \<lparr>it_kind = ''http'',
     it_request = \<lparr>rq_method = ''POST'', rq_url = ''/api/chat'', rq_headers = [], rq_mcp_method = [], rq_mcp_tool = [],
       rq_body = Some ''{}'', rq_body_sha = [], rq_match_key = []\<rparr>,
     it_response = \<lparr>rs_status = 200, rs_headers = [], rs_streaming = True,
       rs_body = Some ''{\"message\":{\"content\":\"a\"}}\<newline>{\"Message\":{\"content\":\"b\"},\"done_reason\":\"stop\"}'',
       rs_error = [], rs_timing = [3]\<rparr>\<rparr>"

abbreviation ollama_file :: wfile where
  "ollama_file \<equiv> \<lparr>wf_schema = 1, wf_notice = [], wf_expect = None, wf_match = None, wf_prov = [], wf_its = [ollama_turn]\<rparr>"

abbreviation ollama_text :: transcript where
  "ollama_text \<equiv> \<lparr>t_Role = ''assistant'', t_Text = ''ab'', t_ToolCalls = [], t_FinishReason = ''stop''\<rparr>"

lemma ollama_url: "ProviderForURL ''/api/chat'' = Ollama"
  by (simp add: ProviderForURL_def dialects_def str_contains_def)

lemma ollama_turn_decodes:
  "w_Decode Ollama ''{\"message\":{\"content\":\"a\"}}\<newline>{\"Message\":{\"content\":\"b\"},\"done_reason\":\"stop\"}'' = (ollama_text, None)"
  unfolding codec_dispatch by code_simp

lemma ollama_turn_encodes:
  "w_Encode Ollama ollama_text envelope0 =
     ''{\"done\":false,\"message\":{\"content\":\"ab\",\"role\":\"assistant\"},\"model\":\"model\"}\<newline>{\"done\":true,\"done_reason\":\"stop\",\"message\":{\"content\":\"\",\"role\":\"assistant\"},\"model\":\"model\"}\<newline>''"
  unfolding codec_dispatch by code_simp

lemma ollama_turn_bounds: "turn_bounds G ollama_turn"
proof -
  have "decodeResponse G ollama_turn = ollama_text"
    by (simp add: decodeResponse_def DecodeInteraction_def ollama_turn_def Let_def ollama_url Bytes_def ollama_turn_decodes)
  moreover have "codec_bounds Ollama ollama_text"
    by (simp add: codec_bounds_def args_shallow_def ollama_turn_encodes max_token_def)
  ultimately show ?thesis by (simp add: turn_bounds_def ollama_turn_def ollama_url)
qed

text \<open>
  Codec verification accepts every recording within the codec's bounds: its turns are skipped
  or reach a stable fixpoint, and the report has one verdict for each HTTP turn, in order.
\<close>

theorem CodecVerify_accepts:
  assumes "list_all (turn_bounds G) (httpTurns f)"
  shows "cr_OK (CodecVerify G isprint f) \<and> length (cr_turns (CodecVerify G isprint f)) = length (httpTurns f) \<and>
    list_all ct_OK (cr_turns (CodecVerify G isprint f))"
proof -
  have k: "it_kind it = ''http''" "turn_bounds G it" if "it \<in> set (httpTurns f)" for it
    using that assms by (auto simp: httpTurns_def list_all_iff)
  have "list_all (\<lambda>(turn, it). ct_OK (codec_turn_of G isprint turn it)) (enumerate 0 (httpTurns f))"
    using k by (auto simp: list_all_iff in_set_enumerate_eq codec_turn_OK)
  then show ?thesis
    by (simp add: CodecVerify_def cr_OK_def fold_report list_all_iff case_prod_beta)
qed

lemma CodecVerify_accepts_witness:
  "list_all ct_OK (cr_turns (CodecVerify null_gjson (\<lambda>_. True) ollama_file))"
proof -
  have "list_all (turn_bounds null_gjson) (httpTurns ollama_file)"
    by (simp add: httpTurns_def ollama_turn_bounds)
  from CodecVerify_accepts [OF this] show ?thesis by blast
qed

section \<open>Canonicalizing a recording\<close>

lemma frames_not_empty: "write_frames_j (f # fs) \<noteq> []"
  by (cases f) (simp add: write_frames_j_def frame_def)

lemma encode_not_empty: "w_Encode p t env \<noteq> []"
proof -
  have "EncodeAnthropicSSE t env \<noteq> []"
    by (simp add: EncodeAnthropicSSE_def Let_def anthropic_frames_def frames_not_empty)
  moreover have "EncodeOpenAISSE t env \<noteq> []" by (simp add: EncodeOpenAISSE_def)
  moreover have "EncodeOpenAIResponsesSSE t env \<noteq> []"
    by (simp add: EncodeOpenAIResponsesSSE_def responses_frames_def frames_not_empty)
  moreover have "EncodeGeminiSSE t env \<noteq> []" by (simp add: EncodeGeminiSSE_def frame_def)
  moreover have "EncodeOllamaNDJSON t env \<noteq> []" by (simp add: EncodeOllamaNDJSON_def Let_def)
  ultimately show ?thesis by (cases p) (simp_all add: w_Encode_def dialectFor_def dialects_def)
qed

lemma Bytes_NewBody: "Bytes (NewBody b) = b"
  by (simp add: Bytes_def NewBody_def)

text \<open>A rewritten interaction, in full.\<close>

lemma canon_it_rewritten:
  assumes "canon_it G it = (it', True)"
  obtains p t1 t2 where "p = ProviderForURL (rq_url (it_request it))" "it_kind it = ''http''"
    "DecodeInteraction G it = (t1, False, True)" "w_Decode p (Bytes (rs_body (it_response it))) = (t1, None)"
    "w_Decode p (w_Encode p t1 envelope0) = (t2, None)" "t_Equal t1 t2"
    "it' = it\<lparr>it_response := (it_response it)\<lparr>rs_body := NewBody (w_Encode p t1 envelope0), rs_timing := []\<rparr>\<rparr>"
proof -
  let ?p = "ProviderForURL (rq_url (it_request it))" and ?raw = "Bytes (rs_body (it_response it))"
  obtain t u r where d: "DecodeInteraction G it = (t, u, r)" by (cases "DecodeInteraction G it")
  obtain res err where rt: "RoundTrip_codec ?p ?raw = (res, err)" by (cases "RoundTrip_codec ?p ?raw")
  have k: "it_kind it = ''http''" "\<not> u" "r" "err = None" "rt_Stable res"
      "it' = it\<lparr>it_response := (it_response it)\<lparr>rs_body := NewBody (w_Encode ?p (rt_Decoded res) envelope0), rs_timing := []\<rparr>\<rparr>"
    using assms d rt by (auto simp: canon_it_def Let_def split: if_splits)
  obtain t1 e1 where w: "w_Decode ?p ?raw = (t1, e1)" by (cases "w_Decode ?p ?raw")
  obtain t2 e2 where w2: "w_Decode ?p (w_Encode ?p t1 envelope0) = (t2, e2)" by (cases "w_Decode ?p (w_Encode ?p t1 envelope0)")
  have r: "e1 = None" "e2 = None" "t_Equal t1 t2" "rt_Decoded res = t1"
    using rt k(4,5) w w2 by (auto simp: RoundTrip_codec_def Let_def split: option.splits)
  have "t = t1" using streaming_turn(3) [of G it t] d k w by simp
  then show ?thesis using that [of ?p t1 t2] d k w w2 r by simp
qed

lemma canon_it_same: "canon_it G it = (it', False) \<Longrightarrow> it' = it"
  by (auto simp: canon_it_def Let_def split: if_splits prod.splits)

lemma canon_it_kind: "it_kind (fst (canon_it G it)) = it_kind it \<and> it_request (fst (canon_it G it)) = it_request it"
proof (cases "canon_it G it")
  case (Pair it' b)
  show ?thesis
  proof (cases b)
    case True
    then obtain rs where "it' = it\<lparr>it_response := rs\<rparr>" using Pair by (auto elim: canon_it_rewritten)
    then show ?thesis using Pair by simp
  next
    case False
    then show ?thesis using Pair canon_it_same [of G it it'] by simp
  qed
qed

lemma DecodeInteraction_streamed:
  assumes "it_kind it = ''http''" "rs_streaming rs" "b \<noteq> []"
  shows "DecodeInteraction G (it\<lparr>it_response := rs\<lparr>rs_body := NewBody b, rs_timing := tm\<rparr>\<rparr>) =
    (fst (w_Decode (ProviderForURL (rq_url (it_request it))) b), False, True)"
  using assms by (simp add: DecodeInteraction_def Let_def NewBody_def Bytes_def)

lemma canon_it_decodes:
  "\<exists>t t' u r. DecodeInteraction G it = (t, u, r) \<and> DecodeInteraction G (fst (canon_it G it)) = (t', u, r) \<and> t_Digest t' = t_Digest t"
proof (cases "snd (canon_it G it)")
  case False
  then have "fst (canon_it G it) = it" using canon_it_same [of G it "fst (canon_it G it)"] by (cases "canon_it G it") auto
  then show ?thesis by (cases "DecodeInteraction G it") simp
next
  case True
  then have "canon_it G it = (fst (canon_it G it), True)" by (cases "canon_it G it") auto
  then obtain p t1 t2 where c: "p = ProviderForURL (rq_url (it_request it))" "it_kind it = ''http''"
    "DecodeInteraction G it = (t1, False, True)"
    "w_Decode p (w_Encode p t1 envelope0) = (t2, None)" "t_Equal t1 t2"
    "fst (canon_it G it) = it\<lparr>it_response := (it_response it)\<lparr>rs_body := NewBody (w_Encode p t1 envelope0), rs_timing := []\<rparr>\<rparr>"
    by (rule canon_it_rewritten) metis
  have "rs_streaming (it_response it)" using streaming_turn(1) [OF c(3,2)] .
  then have "DecodeInteraction G (fst (canon_it G it)) = (t2, False, True)"
    using c(4) by (simp add: c(1,6) DecodeInteraction_streamed [OF c(2) _ encode_not_empty])
  then show ?thesis using c(3,5) by (auto simp: t_Equal_def)
qed

text \<open>
  C22. Canonicalizing a recording never changes what it means: it keeps the number of interactions,
  their kinds and their requests, and turn for turn the semantic digests of the conversation.
\<close>

theorem CanonicalizeFile_keeps_digests:
  "map t_Digest (CollectTurns G (fst (CanonicalizeFile G f))) = map t_Digest (CollectTurns G f) \<and>
   map (\<lambda>it. (it_kind it, it_request it)) (wf_its (fst (CanonicalizeFile G f))) =
     map (\<lambda>it. (it_kind it, it_request it)) (wf_its f)"
proof -
  let ?turn = "\<lambda>it. case DecodeInteraction G it of (tr, _, ok) \<Rightarrow> if ok then Some tr else None"
  have "map t_Digest (List.map_filter ?turn (map (\<lambda>it. fst (canon_it G it)) its)) =
      map t_Digest (List.map_filter ?turn its)" for its
  proof (induction its)
    case (Cons it its)
    obtain t t' u r where "DecodeInteraction G it = (t, u, r)" "DecodeInteraction G (fst (canon_it G it)) = (t', u, r)"
        "t_Digest t' = t_Digest t" using canon_it_decodes [of G it] by blast
    then show ?case using Cons by (cases r) (simp_all add: map_filter_simps)
  qed (simp add: map_filter_simps)
  then show ?thesis
    by (simp add: CollectTurns_def CanonicalizeFile_def Let_def comp_def canon_it_kind)
qed

lemma canon_it_idem:
  assumes "turn_bounds G it"
  shows "canon_it G (fst (canon_it G it)) = (fst (canon_it G it), False)"
proof (cases "snd (canon_it G it)")
  case False
  then show ?thesis using canon_it_same [of G it "fst (canon_it G it)"] by (cases "canon_it G it") auto
next
  case True
  then have "canon_it G it = (fst (canon_it G it), True)" by (cases "canon_it G it") auto
  then obtain p t1 where c: "p = ProviderForURL (rq_url (it_request it))" "it_kind it = ''http''"
    "DecodeInteraction G it = (t1, False, True)" "w_Decode p (Bytes (rs_body (it_response it))) = (t1, None)"
    "fst (canon_it G it) = it\<lparr>it_response := (it_response it)\<lparr>rs_body := NewBody (w_Encode p t1 envelope0), rs_timing := []\<rparr>\<rparr>"
    by (rule canon_it_rewritten) metis
  let ?a = "w_Encode p t1 envelope0" and ?it = "fst (canon_it G it)"
  have b: "codec_bounds p t1" using assms c(1,3) by (simp add: turn_bounds_def decodeResponse_def)
  then have "RoundTrip_codec p (Bytes (rs_body (it_response it))) =
      (\<lparr>rt_Decoded = t1, rt_Redecoded = t1, rt_Stable = True, rt_Deterministic = True\<rparr>, None)"
    using bounded_round_trip [of p "Bytes (rs_body (it_response it))"] c(4) by simp
  then have a: "w_Decode p ?a = (t1, None)"
    using c(4) by (auto simp: RoundTrip_codec_def Let_def split: prod.splits)
  have rt: "RoundTrip_codec p ?a = (\<lparr>rt_Decoded = t1, rt_Redecoded = t1, rt_Stable = True, rt_Deterministic = True\<rparr>, None)"
    using bounded_round_trip [of p ?a] a b by simp
  have d: "DecodeInteraction G ?it = (t1, False, True)"
    using a by (simp add: c(1,5) DecodeInteraction_streamed [OF c(2) streaming_turn(1) [OF c(3,2)] encode_not_empty])
  have r: "it_request ?it = it_request it" "it_kind ?it = ''http''" "Bytes (rs_body (it_response ?it)) = ?a"
    using c by (simp_all add: Bytes_NewBody)
  show ?thesis unfolding canon_it_def [of G ?it]
    by (simp add: d r rt Let_def c(1) [symmetric])
qed

text \<open>
  Canonicalizing is idempotent on recordings within the codec's bounds: a second run rewrites
  nothing.
\<close>

theorem CanonicalizeFile_idempotent:
  assumes "list_all (turn_bounds G) (wf_its f)"
  shows "CanonicalizeFile G (fst (CanonicalizeFile G f)) = (fst (CanonicalizeFile G f), 0)"
proof -
  have i: "canon_it G (fst (canon_it G it)) = (fst (canon_it G it), False)" if "it \<in> set (wf_its f)" for it
    using assms that by (intro canon_it_idem) (simp add: list_all_iff)
  have "map (\<lambda>it. fst (canon_it G (fst (canon_it G it)))) (wf_its f) = map (\<lambda>it. fst (canon_it G it)) (wf_its f)"
    using i by simp
  moreover have "filter (\<lambda>it. snd (canon_it G (fst (canon_it G it)))) (wf_its f) = []"
    using i by (simp add: filter_empty_conv)
  ultimately show ?thesis by (simp add: CanonicalizeFile_def Let_def comp_def filter_map)
qed

lemma CanonicalizeFile_idempotent_witness:
  "CanonicalizeFile null_gjson (fst (CanonicalizeFile null_gjson ollama_file)) =
     (fst (CanonicalizeFile null_gjson ollama_file), 0)"
  by (rule CanonicalizeFile_idempotent) (simp add: ollama_turn_bounds)

end
