(* ===== verification/Compose.thy ===== *)
theory Compose
  imports Recode Rekey
begin

text \<open>
  internal/analysis, operations that make recordings from recordings: merge.go, compose.go (Stitch
  and Split), scenario.go and fuzz.go.
\<close>

section \<open>Match normalization\<close>

definition unionStrings :: "string list \<Rightarrow> string list \<Rightarrow> string list" where
  "unionStrings a b = fold (\<lambda>s out. if s \<in> set out then out else out @ [s]) b a"

text \<open>carryMatch, on the match blocks of the two files.\<close>

definition carryMatch :: "match_spec option \<Rightarrow> match_spec option \<Rightarrow> match_spec option" where
  "carryMatch out fm = (case fm of
     None \<Rightarrow> out
   | Some m \<Rightarrow>
       let o1 = (case out of None \<Rightarrow> \<lparr>ms_volatile = [], ms_headers = []\<rparr> | Some x \<Rightarrow> x)
       in Some (o1\<lparr>ms_volatile := unionStrings (ms_volatile o1) (ms_volatile m),
                   ms_headers := unionStrings (ms_headers o1) (ms_headers m)\<rparr>))"

definition first_expect :: "expect option \<Rightarrow> expect option \<Rightarrow> expect option" where
  "first_expect out fe = (if out = None \<and> fe \<noteq> None then fe else out)"

abbreviation empty_file :: wfile where
  "empty_file \<equiv> \<lparr>wf_schema = SchemaVersion, wf_notice = [], wf_expect = None, wf_match = None, wf_prov = [], wf_its = []\<rparr>"

section \<open>Merge\<close>

definition logicalKey :: "golib \<Rightarrow> interaction \<Rightarrow> string" where
  "logicalKey gl it =
     (let rq = it_request it; body = Bytes (rq_body rq) in
      if rq_match_key rq \<noteq> [] then rq_match_key rq
      else if it_kind it = ''http'' then
        (case Key gl \<lparr>in_method = rq_method rq, in_path = rq_url rq, in_body = body,
                      in_ctype = headers_Get (rq_headers rq) ''Content-Type'', in_header = None\<rparr> zero_config of
           Inr k \<Rightarrow> k
         | Inl _ \<Rightarrow> ''http:'' @ rq_method rq @ '':'' @ rq_url rq @ '':'' @ SumHex body)
      else if it_kind it = ''mcp'' then ''mcp:'' @ rq_mcp_method rq @ '':'' @ rq_mcp_tool rq @ '':'' @ SumHex body
      else it_kind it @ '':'' @ SumHex body)"

definition resp_sum :: "interaction \<Rightarrow> string" where
  "resp_sum it = SumHex (Bytes (rs_body (it_response it)))"

definition merge_identity :: "golib \<Rightarrow> interaction \<Rightarrow> string" where
  "merge_identity gl it =
     logicalKey gl it @ unit_sep @ SumHex (Bytes (rq_body (it_request it))) @ unit_sep @ resp_sum it"

record merge_report =
  mr_total :: nat
  mr_deduped :: nat
  mr_conflicts :: "string list"

text \<open>The locals of the loop; a map to true is the list of its keys.\<close>

record merge_state =
  mg_out :: wfile
  mg_deduped :: nat
  mg_seen :: "string list"
  mg_keys :: "(string \<times> string) list"
  mg_conflicting :: "string list"

definition merge_it :: "golib \<Rightarrow> interaction \<Rightarrow> merge_state \<Rightarrow> merge_state" where
  "merge_it gl it s =
     (let key = logicalKey gl it; ident = merge_identity gl it in
      if ident \<in> set (mg_seen s) then s\<lparr>mg_deduped := Suc (mg_deduped s)\<rparr>
      else let s1 = s\<lparr>mg_seen := ident # mg_seen s\<rparr>;
               s2 = (case mget (mg_keys s1) key of
                       Some prev \<Rightarrow> if prev \<noteq> resp_sum it then s1\<lparr>mg_conflicting := List.insert key (mg_conflicting s1)\<rparr> else s1
                     | None \<Rightarrow> s1\<lparr>mg_keys := mput key (resp_sum it) (mg_keys s1)\<rparr>)
           in s2\<lparr>mg_out := (mg_out s2)\<lparr>wf_its := wf_its (mg_out s2) @ [it]\<rparr>\<rparr>)"

text \<open>One file; None is a nil pointer.\<close>

definition merge_file :: "golib \<Rightarrow> wfile option \<Rightarrow> merge_state \<Rightarrow> merge_state" where
  "merge_file gl fo s = (case fo of
     None \<Rightarrow> s
   | Some f \<Rightarrow>
       fold (merge_it gl) (wf_its f)
         (s\<lparr>mg_out := (mg_out s)\<lparr>wf_expect := first_expect (wf_expect (mg_out s)) (wf_expect f),
                                 wf_match := carryMatch (wf_match (mg_out s)) (wf_match f)\<rparr>\<rparr>))"

definition Merge :: "golib \<Rightarrow> wfile option list \<Rightarrow> wfile \<times> merge_report" where
  "Merge gl files =
     (let s = fold (merge_file gl) files
                \<lparr>mg_out = empty_file, mg_deduped = 0, mg_seen = [], mg_keys = [], mg_conflicting = []\<rparr>
      in (mg_out s, \<lparr>mr_total = length (wf_its (mg_out s)), mr_deduped = mg_deduped s,
                     mr_conflicts = sort (mg_conflicting s)\<rparr>))"

section \<open>Stitch and Split\<close>

definition stitch_file :: "wfile option \<Rightarrow> wfile \<Rightarrow> wfile" where
  "stitch_file fo out = (case fo of
     None \<Rightarrow> out
   | Some f \<Rightarrow> out\<lparr>wf_expect := first_expect (wf_expect out) (wf_expect f),
                    wf_match := carryMatch (wf_match out) (wf_match f), wf_its := wf_its out @ wf_its f\<rparr>)"

definition Stitch :: "wfile option list \<Rightarrow> wfile" where
  "Stitch files = fold stitch_file files empty_file"

definition split_key :: "'r gjson \<Rightarrow> string \<Rightarrow> interaction \<Rightarrow> string" where
  "split_key G by' it =
     (if by' = ''provider'' then
        (if it_kind it = ''mcp'' then ''mcp'' else p_Name (ProviderForURL (rq_url (it_request it))))
      else (case t_ToolCalls (fst (DecodeInteraction G it)) of c # _ \<Rightarrow> tc_Name c | [] \<Rightarrow> ''no-tool''))"

definition split_add :: "match_spec option \<Rightarrow> string \<Rightarrow> interaction \<Rightarrow> (string \<times> wfile) list \<Rightarrow> (string \<times> wfile) list" where
  "split_add fm k it groups =
     (let g = (case mget groups k of None \<Rightarrow> empty_file\<lparr>wf_match := carryMatch None fm\<rparr> | Some g \<Rightarrow> g)
      in mput k (g\<lparr>wf_its := wf_its g @ [it]\<rparr>) groups)"

definition Split :: "'r gjson \<Rightarrow> (nat \<Rightarrow> bool) \<Rightarrow> wfile \<Rightarrow> string \<Rightarrow> string + (string \<times> wfile) list" where
  "Split G isprint f by' =
     (if by' \<noteq> ''provider'' \<and> by' \<noteq> ''tool'' then
        Inl (''unknown --by '' @ go_quote isprint by' @ '' (want provider|tool)'')
      else Inr (fold (\<lambda>it. split_add (wf_match f) (split_key G by' it) it) (wf_its f) []))"

section \<open>Scenario variants\<close>

record scenario_variant =
  sv_name :: string
  sv_file :: wfile
  sv_digest :: string

definition errorStreamSSE :: bytes where
  "errorStreamSSE = ''event: error\<newline>data: {\"type\":\"error\",\"error\":{\"type\":\"overloaded_error\",\"message\":\"Overloaded\"}}\<newline>\<newline>''"

definition event_stream_headers :: headers where
  "event_stream_headers = [\<lparr>hf_name = ''Content-Type'', hf_values = [''text/event-stream'']\<rparr>]"

definition streamResponse :: "bytes \<Rightarrow> wresponse" where
  "streamResponse sse = \<lparr>rs_status = 200, rs_headers = event_stream_headers, rs_streaming = True,
     rs_body = NewBody sse, rs_error = [], rs_timing = []\<rparr>"

definition cloneWithResponse :: "wfile \<Rightarrow> nat \<Rightarrow> wresponse \<Rightarrow> wfile" where
  "cloneWithResponse f idx resp =
     (let orig = wf_its f ! idx in
      empty_file\<lparr>wf_notice := wf_notice f, wf_expect := wf_expect f,
        wf_its := (wf_its f)[idx := \<lparr>it_kind = it_kind orig, it_request = it_request orig, it_response = resp\<rparr>]\<rparr>)"

fun nth_http :: "nat \<Rightarrow> nat \<Rightarrow> int \<Rightarrow> interaction list \<Rightarrow> nat option" where
  "nth_http i cnt n [] = None"
| "nth_http i cnt n (it # its) =
     (if it_kind it = ''http'' then (if int cnt = n then Some i else nth_http (Suc i) (Suc cnt) n its)
      else nth_http (Suc i) cnt n its)"

definition nthHTTPIndex :: "wfile \<Rightarrow> int \<Rightarrow> nat option" where
  "nthHTTPIndex f n = nth_http 0 0 n (wf_its f)"

definition countHTTP :: "wfile \<Rightarrow> nat" where
  "countHTTP f = length (httpTurns f)"

definition firstToolName :: "transcript \<Rightarrow> string" where
  "firstToolName tr = (case t_ToolCalls tr of c # _ \<Rightarrow> tc_Name c | [] \<Rightarrow> ''tool'')"

definition finish_variant :: "transcript \<Rightarrow> string \<Rightarrow> string \<times> transcript" where
  "finish_variant base fr =
     (let tr = base\<lparr>t_FinishReason := fr\<rparr>
      in (''finish-'' @ fr,
          if fr = ''tool_use'' \<and> t_ToolCalls tr = [] then tr\<lparr>t_ToolCalls := [\<lparr>tc_Name = ''tool'', tc_Args = ''{}''\<rparr>]\<rparr> else tr))"

text \<open>The authored turns: every variant but the injected error.\<close>

definition scenario_turns :: "transcript \<Rightarrow> (string \<times> transcript) list" where
  "scenario_turns base =
     map (finish_variant base) [''end_turn'', ''max_tokens'', ''stop_sequence'', ''tool_use''] @
     (let n = length (t_Text base) in
      if 1 < n then [(''truncated'', base\<lparr>t_Text := take (n div 2) (t_Text base), t_FinishReason := ''max_tokens''\<rparr>)] else []) @
     [(''empty-text'', base\<lparr>t_Text := [], t_FinishReason := ''end_turn''\<rparr>),
      (''malformed-args'', base\<lparr>t_ToolCalls := [\<lparr>tc_Name = firstToolName base, tc_Args = ''{\"__unexpected__\":true}''\<rparr>],
                                t_FinishReason := ''tool_use''\<rparr>)]"

definition scenario_add :: "'r gjson \<Rightarrow> wfile \<Rightarrow> nat \<Rightarrow> string \<times> wresponse \<Rightarrow> scenario_variant" where
  "scenario_add G f idx nr =
     (let vf = cloneWithResponse f idx (snd nr)
      in \<lparr>sv_name = fst nr, sv_file = vf, sv_digest = CombinedDigest (CollectTurns G vf)\<rparr>)"

definition turn_range_error :: "wfile \<Rightarrow> int \<Rightarrow> string" where
  "turn_range_error f turn = ''turn '' @ itoa turn @ '' is out of range (recording has '' @ itoa (int (countHTTP f)) @ '' http turn(s))''"

definition turn_kind_error :: "int \<Rightarrow> string" where
  "turn_kind_error turn = ''turn '' @ itoa turn @ '' is not a decodable streaming turn''"

definition Scenario :: "'r gjson \<Rightarrow> wfile \<Rightarrow> int \<Rightarrow> string + scenario_variant list" where
  "Scenario G f turn =
     (case nthHTTPIndex f turn of
        None \<Rightarrow> Inl (turn_range_error f turn)
      | Some idx \<Rightarrow>
          let it = wf_its f ! idx in
          case DecodeInteraction G it of (base, unary, renderable) \<Rightarrow>
            if unary \<or> \<not> renderable then Inl (turn_kind_error turn)
            else let p = ProviderForURL (rq_url (it_request it));
                     enc = (\<lambda>tr. streamResponse (w_Encode p (Normalize tr) envelope0))
              in Inr (map (scenario_add G f idx)
                   (map (\<lambda>(n, tr). (n, enc tr)) (scenario_turns base) @
                    [(''provider-error'', \<lparr>rs_status = 529, rs_headers = event_stream_headers, rs_streaming = True,
                        rs_body = NewBody errorStreamSSE, rs_error = [], rs_timing = []\<rparr>)])))"

section \<open>Fuzz\<close>

text \<open>The checks of the loop; a failing reframing ends it.\<close>

fun fuzz_loop :: "wfile \<Rightarrow> nat \<Rightarrow> provider \<Rightarrow> string \<Rightarrow> nat \<Rightarrow> bytes list \<Rightarrow> string + wfile list" where
  "fuzz_loop f idx p want i [] = Inr []"
| "fuzz_loop f idx p want i (s # ss) =
     (case w_Decode p s of
        (_, Some e) \<Rightarrow> Inl (''reframing '' @ itoa (int i) @ '' failed to decode: '' @ e)
      | (got, None) \<Rightarrow>
          if t_Digest got \<noteq> want then Inl (''reframing '' @ itoa (int i) @ '' did not round-trip to the original transcript'')
          else (case fuzz_loop f idx p want (Suc i) ss of
                  Inl e \<Rightarrow> Inl e
                | Inr fs \<Rightarrow> Inr (cloneWithResponse f idx (streamResponse s) # fs)))"

text \<open>\<open>g\<close> is the generator seeded with the caller's seed.\<close>

definition Fuzz :: "'r gjson \<Rightarrow> 'g rng \<Rightarrow> wfile \<Rightarrow> int \<Rightarrow> nat \<Rightarrow> 'g \<Rightarrow> string + wfile list" where
  "Fuzz G intn f turn n g =
     (case nthHTTPIndex f turn of
        None \<Rightarrow> Inl (turn_range_error f turn)
      | Some idx \<Rightarrow>
          let it = wf_its f ! idx in
          case DecodeInteraction G it of (base, unary, renderable) \<Rightarrow>
            if unary \<or> \<not> renderable then Inl (turn_kind_error turn)
            else let p = ProviderForURL (rq_url (it_request it))
              in fuzz_loop f idx p (t_Digest base) 0 (Reframe intn p base g n))"

end
