(* ===== verification/Compose_Laws.thy ===== *)
theory Compose_Laws
  imports Compose
begin

text \<open>
  What the operations of Compose guarantee: merging drops exactly the copies and reports exactly the
  conflicts, splitting partitions a recording, scenario variants and reframings change one response
  and decode to what was authored.
\<close>

section \<open>Digests have a fixed length\<close>

lemma length_sha_round: "length (sha_round st kw) = length st"
  by (cases "(st, kw)" rule: sha_round.cases) (simp_all add: Let_def)

lemma length_foldl_round: "length (foldl sha_round st kws) = length st"
  by (induction kws arbitrary: st) (simp_all add: length_sha_round)

lemma length_foldl_block: "length h = 8 \<Longrightarrow> length (foldl sha_block h blks) = 8"
  by (induction blks arbitrary: h) (simp_all add: sha_block_def Let_def length_foldl_round)

lemma length_concat_const: "(\<And>x. x \<in> set xs \<Longrightarrow> length (f x) = n) \<Longrightarrow> length (concat (map f xs)) = n * length xs"
  by (induction xs) simp_all

lemma length_SumHex: "length (SumHex b) = 64"
proof -
  have "length sha_h0 = 8" by (simp add: sha_h0_def)
  then have "length (sha256 b) = 32"
    unfolding sha256_def by (simp add: length_foldl_block length_concat_const [where n = 4] be_bytes_def)
  then show ?thesis
    unfolding SumHex_def hex_encode_def by (simp add: length_concat_const [where n = 2])
qed

lemma merge_identity_inj:
  "merge_identity gl x = merge_identity gl y \<longleftrightarrow>
     logicalKey gl x = logicalKey gl y \<and>
     SumHex (Bytes (rq_body (it_request x))) = SumHex (Bytes (rq_body (it_request y))) \<and> resp_sum x = resp_sum y"
proof
  assume "merge_identity gl x = merge_identity gl y"
  then have e: "(logicalKey gl x @ unit_sep @ SumHex (Bytes (rq_body (it_request x)))) @ unit_sep @ resp_sum x =
      (logicalKey gl y @ unit_sep @ SumHex (Bytes (rq_body (it_request y)))) @ unit_sep @ resp_sum y"
    by (simp add: merge_identity_def)
  have "length (unit_sep @ resp_sum x) = length (unit_sep @ resp_sum y)" by (simp add: resp_sum_def length_SumHex)
  with e have e1: "logicalKey gl x @ unit_sep @ SumHex (Bytes (rq_body (it_request x))) =
      logicalKey gl y @ unit_sep @ SumHex (Bytes (rq_body (it_request y)))" "resp_sum x = resp_sum y"
    by (metis append_eq_append_conv same_append_eq)+
  have "length (unit_sep @ SumHex (Bytes (rq_body (it_request x)))) = length (unit_sep @ SumHex (Bytes (rq_body (it_request y))))"
    by (simp add: length_SumHex)
  with e1(1) have "logicalKey gl x = logicalKey gl y"
      "SumHex (Bytes (rq_body (it_request x))) = SumHex (Bytes (rq_body (it_request y)))"
    by (metis append_eq_append_conv same_append_eq)+
  with e1(2) show "logicalKey gl x = logicalKey gl y \<and>
     SumHex (Bytes (rq_body (it_request x))) = SumHex (Bytes (rq_body (it_request y))) \<and> resp_sum x = resp_sum y"
    by simp
qed (simp add: merge_identity_def)

section \<open>Merging\<close>

text \<open>The list without the elements whose identity came before.\<close>

definition keep_first :: "('a \<Rightarrow> 'k) \<Rightarrow> 'a list \<Rightarrow> 'a list" where
  "keep_first f xs = fold (\<lambda>x out. if f x \<in> f ` set out then out else out @ [x]) xs []"

lemma keep_first_snoc:
  "keep_first f (xs @ [x]) = (if f x \<in> f ` set (keep_first f xs) then keep_first f xs else keep_first f xs @ [x])"
  by (simp add: keep_first_def)

lemma keep_first_image: "f ` set (keep_first f xs) = f ` set xs"
  by (induction xs rule: rev_induct) (auto simp: keep_first_snoc, simp_all add: keep_first_def)

lemma keep_first_distinct: "distinct (map f (keep_first f xs))"
  by (induction xs rule: rev_induct) (simp_all add: keep_first_snoc, simp add: keep_first_def)

lemma keep_first_subseq: "subseq (keep_first f xs) xs"
proof (induction xs rule: rev_induct)
  case (snoc x xs)
  then show ?case by (auto simp: keep_first_snoc intro: list_emb_append_mono subseq_rev_drop_many)
qed (simp add: keep_first_def)

definition merge_inv :: "golib \<Rightarrow> interaction list \<Rightarrow> merge_state \<Rightarrow> bool" where
  "merge_inv gl xs s =
     (wf_its (mg_out s) = keep_first (merge_identity gl) xs \<and>
      set (mg_seen s) = merge_identity gl ` set xs \<and>
      mg_deduped s + length (keep_first (merge_identity gl) xs) = length xs \<and>
      (\<forall>k. mget (mg_keys s) k = map_option resp_sum (find (\<lambda>x. logicalKey gl x = k) xs)) \<and>
      set (mg_conflicting s) = {k. \<exists>x \<in> set xs. logicalKey gl x = k \<and> mget (mg_keys s) k \<noteq> Some (resp_sum x)} \<and>
      distinct (mg_conflicting s))"


lemma merge_inv_snoc:
  assumes inv: "merge_inv gl xs s"
  shows "merge_inv gl (xs @ [x]) (merge_it gl x s)"
proof -
  let ?key = "logicalKey gl x" and ?id = "merge_identity gl x"
  have i: "wf_its (mg_out s) = keep_first (merge_identity gl) xs" "set (mg_seen s) = merge_identity gl ` set xs"
      "mg_deduped s + length (keep_first (merge_identity gl) xs) = length xs"
      "\<And>k. mget (mg_keys s) k = map_option resp_sum (find (\<lambda>x. logicalKey gl x = k) xs)"
      "set (mg_conflicting s) = {k. \<exists>x \<in> set xs. logicalKey gl x = k \<and> mget (mg_keys s) k \<noteq> Some (resp_sum x)}"
      "distinct (mg_conflicting s)"
    using inv by (auto simp: merge_inv_def)
  have snoc: "find P (xs @ [x]) = (case find P xs of None \<Rightarrow> if P x then Some x else None | Some y \<Rightarrow> Some y)" for P
    by (induction xs) auto
  show ?thesis
  proof (cases "?id \<in> set (mg_seen s)")
    case True
    then obtain y where y: "y \<in> set xs" "?key = logicalKey gl y" "resp_sum x = resp_sum y"
      by (auto simp: i(2) merge_identity_inj)
    have "find (\<lambda>z. logicalKey gl z = ?key) xs \<noteq> None" using y(1,2) by (auto simp: find_None_iff)
    then have f: "find (\<lambda>z. logicalKey gl z = k) (xs @ [x]) = find (\<lambda>z. logicalKey gl z = k) xs" for k
      by (auto simp: snoc split: option.splits)
    have "{k. \<exists>z \<in> set (xs @ [x]). logicalKey gl z = k \<and> mget (mg_keys s) k \<noteq> Some (resp_sum z)} = set (mg_conflicting s)"
      unfolding i(5) using y by auto
    moreover have "keep_first (merge_identity gl) (xs @ [x]) = wf_its (mg_out s)"
      using True i(1,2) by (simp add: keep_first_snoc keep_first_image)
    ultimately show ?thesis using True i
      by (simp add: merge_inv_def merge_it_def Let_def f insert_absorb)
  next
    case False
    then have its: "keep_first (merge_identity gl) (xs @ [x]) = wf_its (mg_out s) @ [x]"
      using i(1,2) by (simp add: keep_first_snoc keep_first_image)
    show ?thesis
    proof (cases "mget (mg_keys s) ?key")
      case None
      then have nf: "find (\<lambda>z. logicalKey gl z = ?key) xs = None" using i(4) by simp
      then have nk: "logicalKey gl z \<noteq> ?key" if "z \<in> set xs" for z using that by (auto simp: find_None_iff)
      have "{k. \<exists>z \<in> set (xs @ [x]). logicalKey gl z = k \<and> ((mget (mg_keys s))(?key \<mapsto> resp_sum x)) k \<noteq> Some (resp_sum z)} =
          set (mg_conflicting s)"
        unfolding i(5) using nk by auto
      moreover have "map_option resp_sum (find (\<lambda>z. logicalKey gl z = k) (xs @ [x])) = ((mget (mg_keys s))(?key \<mapsto> resp_sum x)) k" for k
        using nf by (auto simp: snoc i(4) split: option.splits)
      ultimately have c: "set (mg_conflicting s) =
          {k. \<exists>z \<in> set (xs @ [x]). logicalKey gl z = k \<and> mget (mput ?key (resp_sum x) (mg_keys s)) k \<noteq> Some (resp_sum z)}"
        "\<And>k. mget (mput ?key (resp_sum x) (mg_keys s)) k = map_option resp_sum (find (\<lambda>z. logicalKey gl z = k) (xs @ [x]))"
        by (simp_all only: map_of_mput)
      define s' where "s' = merge_it gl x s"
      have s': "wf_its (mg_out s') = wf_its (mg_out s) @ [x]" "mg_seen s' = ?id # mg_seen s" "mg_deduped s' = mg_deduped s"
          "mg_keys s' = mput ?key (resp_sum x) (mg_keys s)" "mg_conflicting s' = mg_conflicting s"
        using False None by (simp_all add: s'_def merge_it_def Let_def)
      have "merge_inv gl (xs @ [x]) s'"
        unfolding merge_inv_def s'
        by (intro conjI allI c) (use i(1,2,3,6) its in \<open>simp_all\<close>)
      then show ?thesis by (simp add: s'_def)
    next
      case (Some prev)
      then have "find (\<lambda>z. logicalKey gl z = ?key) xs \<noteq> None" using i(4) [of ?key] by auto
      then have f: "find (\<lambda>z. logicalKey gl z = k) (xs @ [x]) = find (\<lambda>z. logicalKey gl z = k) xs" for k
        by (auto simp: snoc split: option.splits)
      define s' where "s' = merge_it gl x s"
      have s': "wf_its (mg_out s') = wf_its (mg_out s) @ [x]" "mg_seen s' = ?id # mg_seen s" "mg_deduped s' = mg_deduped s"
          "mg_keys s' = mg_keys s"
          "mg_conflicting s' = (if prev \<noteq> resp_sum x then List.insert ?key (mg_conflicting s) else mg_conflicting s)"
        using False Some by (simp_all add: s'_def merge_it_def Let_def)
      have c: "set (mg_conflicting s') = {k. \<exists>z \<in> set (xs @ [x]). logicalKey gl z = k \<and> mget (mg_keys s) k \<noteq> Some (resp_sum z)}"
        "distinct (mg_conflicting s')"
        unfolding s' using i(5,6) Some by auto
      have "mget (mg_keys s) k = map_option resp_sum (find (\<lambda>z. logicalKey gl z = k) (xs @ [x]))" for k
        unfolding f by (rule i(4))
      then have "merge_inv gl (xs @ [x]) s'"
        unfolding merge_inv_def s'(1,2,3,4)
        by (intro conjI allI c) (use i(1,2,3) its in \<open>simp_all\<close>)
      then show ?thesis by (simp add: s'_def)
    qed
  qed
qed

lemma merge_inv_fold: "merge_inv gl xs s \<Longrightarrow> merge_inv gl (xs @ ys) (fold (merge_it gl) ys s)"
proof (induction ys arbitrary: xs s)
  case (Cons y ys)
  from Cons.IH [OF merge_inv_snoc [OF Cons.prems]] show ?case by simp
qed simp

abbreviation file_its :: "wfile option \<Rightarrow> interaction list" where
  "file_its fo \<equiv> (case fo of None \<Rightarrow> [] | Some f \<Rightarrow> wf_its f)"

lemma merge_inv_file: "merge_inv gl xs s \<Longrightarrow> merge_inv gl (xs @ file_its fo) (merge_file gl fo s)"
  by (cases fo) (auto simp: merge_file_def intro!: merge_inv_fold, simp add: merge_inv_def)

lemma merge_inv_files: "merge_inv gl xs s \<Longrightarrow> merge_inv gl (xs @ concat (map file_its fs)) (fold (merge_file gl) fs s)"
proof (induction fs arbitrary: xs s)
  case (Cons f fs)
  from Cons.IH [OF merge_inv_file [OF Cons.prems, of f]] show ?case by simp
qed simp

lemma Merge_inv:
  "\<exists>s. merge_inv gl (concat (map file_its fs)) s \<and> fst (Merge gl fs) = mg_out s \<and>
     snd (Merge gl fs) = \<lparr>mr_total = length (wf_its (mg_out s)), mr_deduped = mg_deduped s,
       mr_conflicts = sort (mg_conflicting s)\<rparr>"
proof -
  have "merge_inv gl [] \<lparr>mg_out = empty_file, mg_deduped = 0, mg_seen = [], mg_keys = [], mg_conflicting = []\<rparr>"
    by (simp add: merge_inv_def keep_first_def)
  from merge_inv_files [OF this, of fs] show ?thesis by (auto simp: Merge_def Let_def)
qed


text \<open>
  The conflicts of a merge are exact: sorted and without repetition, they are the logical keys
  for which the inputs hold two different responses.
\<close>

theorem Merge_conflicts_exact:
  "let all = set (concat (map file_its fs)); cs = mr_conflicts (snd (Merge gl fs))
   in sorted cs \<and> distinct cs \<and>
      set cs = {k. \<exists>x \<in> all. \<exists>y \<in> all. logicalKey gl x = k \<and> logicalKey gl y = k \<and> resp_sum x \<noteq> resp_sum y}"
proof -
  define all where "all = concat (map file_its fs)"
  obtain s where s: "merge_inv gl all s" "snd (Merge gl fs) = \<lparr>mr_total = length (wf_its (mg_out s)),
      mr_deduped = mg_deduped s, mr_conflicts = sort (mg_conflicting s)\<rparr>"
    using Merge_inv [of gl fs] by (auto simp: all_def)
  have k: "mget (mg_keys s) k = map_option resp_sum (find (\<lambda>x. logicalKey gl x = k) all)" for k
    using s(1) by (simp add: merge_inv_def)
  have "{k. \<exists>x \<in> set all. logicalKey gl x = k \<and> mget (mg_keys s) k \<noteq> Some (resp_sum x)} =
      {k. \<exists>x \<in> set all. \<exists>y \<in> set all. logicalKey gl x = k \<and> logicalKey gl y = k \<and> resp_sum x \<noteq> resp_sum y}" (is "?l = ?r")
  proof (intro set_eqI iffI)
    fix c assume "c \<in> ?l"
    then obtain x where x: "x \<in> set all" "logicalKey gl x = c" "mget (mg_keys s) c \<noteq> Some (resp_sum x)" by auto
    then have "find (\<lambda>x. logicalKey gl x = c) all \<noteq> None" by (auto simp: find_None_iff)
    then obtain y where y: "find (\<lambda>x. logicalKey gl x = c) all = Some y" by auto
    then have "y \<in> set all" "logicalKey gl y = c" by (auto simp: find_Some_iff)
    then show "c \<in> ?r" using x y k [of c] by force
  next
    fix c assume "c \<in> ?r"
    then obtain x y where "x \<in> set all" "y \<in> set all" "logicalKey gl x = c" "logicalKey gl y = c" "resp_sum x \<noteq> resp_sum y"
      by auto
    then show "c \<in> ?l" by (cases "mget (mg_keys s) c = Some (resp_sum x)") auto
  qed
  then show ?thesis using s by (simp add: merge_inv_def Let_def all_def)
qed

text \<open>Responses that differ only in their status are copies: the second one is lost.\<close>

lemma Merge_ignores_status:
  assumes "it_response b = (it_response a)\<lparr>rs_status := st\<rparr>" "it_request b = it_request a" "it_kind b = it_kind a"
  shows "wf_its (fst (Merge gl [Some (empty_file\<lparr>wf_its := [a]\<rparr>), Some (empty_file\<lparr>wf_its := [b]\<rparr>)])) = [a]"
proof -
  have "merge_identity gl b = merge_identity gl a"
    using assms by (simp add: merge_identity_inj logicalKey_def resp_sum_def Let_def)
  then show ?thesis by (auto simp: Merge_def Let_def merge_file_def merge_it_def)
qed

section \<open>Splitting\<close>

lemma mget_split_add:
  "mget (split_add fm k it groups) k' =
     (if k' = k then Some (let g = (case mget groups k of None \<Rightarrow> empty_file\<lparr>wf_match := carryMatch None fm\<rparr> | Some g \<Rightarrow> g)
                           in g\<lparr>wf_its := wf_its g @ [it]\<rparr>)
      else mget groups k')"
  by (simp add: split_add_def Let_def map_of_mput)

abbreviation split_group :: "match_spec option \<Rightarrow> interaction list \<Rightarrow> wfile option" where
  "split_group fm its \<equiv> (if its = [] then None else Some (empty_file\<lparr>wf_match := carryMatch None fm, wf_its := its\<rparr>))"

lemma split_fold:
  "mget (fold (\<lambda>it. split_add fm (key it) it) xs []) k = split_group fm (filter (\<lambda>it. key it = k) xs)"
  by (induction xs rule: rev_induct) (auto simp: mget_split_add Let_def)

lemma fst_mput: "fst ` set (mput k v m) = insert k (fst ` set m)"
  by (induction k v m rule: mput.induct) auto

lemma distinct_mput: "distinct (map fst m) \<Longrightarrow> distinct (map fst (mput k v m))"
proof (induction k v m rule: mput.induct)
  case (2 k v k' v' m)
  then show ?case using fst_mput [of k v m] by (auto simp flip: set_map)
qed simp

lemma mset_mput:
  "distinct (map fst m) \<Longrightarrow>
   mset (concat (map (\<lambda>g. h (snd g)) (mput k v m))) + mset (case mget m k of None \<Rightarrow> [] | Some g \<Rightarrow> h g) =
   mset (concat (map (\<lambda>g. h (snd g)) m)) + mset (h v)"
proof (induction k v m rule: mput.induct)
  case (2 k v k' v' m)
  show ?case
  proof (cases "k = k'")
    case True
    then show ?thesis by (simp add: ac_simps)
  next
    case False
    then show ?thesis using 2 by (simp add: ac_simps)
  qed
qed simp

lemma wf_its_Stitch: "wf_its (fold stitch_file fs out) = wf_its out @ concat (map file_its fs)"
  by (induction fs arbitrary: out) (auto simp: stitch_file_def split: option.splits)

lemma split_mset:
  "distinct (map fst (fold (\<lambda>it. split_add fm (key it) it) xs [])) \<and>
   mset (concat (map (\<lambda>g. wf_its (snd g)) (fold (\<lambda>it. split_add fm (key it) it) xs []))) = mset xs"
proof (induction xs rule: rev_induct)
  case (snoc x xs)
  let ?m = "fold (\<lambda>it. split_add fm (key it) it) xs []"
  have d: "distinct (map fst ?m)" and m: "mset (concat (map (\<lambda>g. wf_its (snd g)) ?m)) = mset xs" using snoc by simp_all
  define g where "g = (case mget ?m (key x) of None \<Rightarrow> empty_file\<lparr>wf_match := carryMatch None fm\<rparr> | Some g \<Rightarrow> g)"
  have s: "split_add fm (key x) x ?m = mput (key x) (g\<lparr>wf_its := wf_its g @ [x]\<rparr>) ?m"
    by (simp add: split_add_def Let_def g_def)
  have "(case mget ?m (key x) of None \<Rightarrow> [] | Some g \<Rightarrow> wf_its g) = wf_its g" by (simp add: g_def split: option.split)
  then have "mset (concat (map (\<lambda>g. wf_its (snd g)) (mput (key x) (g\<lparr>wf_its := wf_its g @ [x]\<rparr>) ?m))) = mset (xs @ [x])"
    using mset_mput [OF d, of wf_its "key x" "g\<lparr>wf_its := wf_its g @ [x]\<rparr>"] m by simp
  then show ?case using distinct_mput [OF d] by (simp add: s)
qed simp

text \<open>
  C31. Splitting partitions a recording by either axis: the group of a key holds, in recorded order,
  the interactions with that key, keeps the match normalization of the source, and stitching the
  groups together gives back all interactions.
\<close>

theorem Split_partitions:
  "list_all (\<lambda>by'. \<exists>groups. Split G isprint f by' = Inr groups \<and> distinct (map fst groups) \<and>
       (\<forall>k. mget groups k = split_group (wf_match f) (filter (\<lambda>it. split_key G by' it = k) (wf_its f))) \<and>
       mset (wf_its (Stitch (map (\<lambda>g. Some (snd g)) groups))) = mset (wf_its f))
     [''provider'', ''tool'']"
proof -
  have "mset (wf_its (Stitch (map (\<lambda>g. Some (snd g)) groups))) = mset (concat (map (\<lambda>g. wf_its (snd g)) groups))"
    for groups :: "(string \<times> wfile) list"
    by (simp add: Stitch_def wf_its_Stitch comp_def)
  then show ?thesis by (simp add: Split_def split_fold split_mset)
qed

section \<open>Scenario variants and reframings\<close>

lemma nth_http_in: "nth_http i cnt n its = Some idx \<Longrightarrow> i \<le> idx \<and> idx < i + length its \<and> it_kind (its ! (idx - i)) = ''http''"
proof (induction i cnt n its rule: nth_http.induct)
  case (2 i cnt n it its)
  consider "it_kind it = ''http''" "int cnt = n" | "it_kind it = ''http''" "int cnt \<noteq> n" | "it_kind it \<noteq> ''http''" by blast
  then show ?case
  proof cases
    case 2
    then show ?thesis using "2.IH"(1) "2.prems" by (auto simp: nth_Cons' Suc_diff_le)
  next
    case 3
    then show ?thesis using "2.IH"(2) "2.prems" by (auto simp: nth_Cons' Suc_diff_le)
  qed (use 2 in \<open>auto\<close>)
qed simp

lemma nthHTTPIndex_in: "nthHTTPIndex f n = Some idx \<Longrightarrow> idx < length (wf_its f) \<and> it_kind (wf_its f ! idx) = ''http''"
  using nth_http_in [of 0 0 n "wf_its f" idx] by (simp add: nthHTTPIndex_def)

text \<open>A clone with a stream as the response of its turn.\<close>

lemma clone_decodes:
  assumes "idx < length (wf_its f)" "it_kind (wf_its f ! idx) = ''http''"
  shows "decodeResponse G (wf_its (cloneWithResponse f idx (streamResponse (w_Encode p t env))) ! idx) =
    fst (w_Decode (ProviderForURL (rq_url (it_request (wf_its f ! idx)))) (w_Encode p t env))"
  using assms
  by (simp add: decodeResponse_def DecodeInteraction_def cloneWithResponse_def streamResponse_def Let_def NewBody_def
      encode_not_empty Bytes_def)

definition same_elsewhere :: "wfile \<Rightarrow> nat \<Rightarrow> wfile \<Rightarrow> bool" where
  "same_elsewhere f idx g =
     (length (wf_its g) = length (wf_its f) \<and>
      list_all (\<lambda>j. if j = idx then it_request (wf_its g ! j) = it_request (wf_its f ! j) \<and> it_kind (wf_its g ! j) = it_kind (wf_its f ! j)
                    else wf_its g ! j = wf_its f ! j) [0 ..< length (wf_its f)])"

lemma clone_same_elsewhere: "same_elsewhere f idx (cloneWithResponse f idx r)"
  by (auto simp: same_elsewhere_def cloneWithResponse_def Let_def list_all_iff)

lemma scenario_enc: "Normalize (Normalize t) = Normalize t"
  by (rule Normalize_idem)

text \<open>
  Every authored scenario variant replays the turn it was authored for: within the codec's
  bounds, decoding the variant's response gives the authored transcript, and the variant differs
  from the recording in that response only.
\<close>

theorem Scenario_variants_decode:
  assumes "nthHTTPIndex f turn = Some idx" "DecodeInteraction G (wf_its f ! idx) = (base, False, True)"
    "p = ProviderForURL (rq_url (it_request (wf_its f ! idx)))"
    "list_all (\<lambda>(n, t). codec_ok p t envelope0 \<and> length (w_Encode p t envelope0) < max_token) (scenario_turns base)"
  shows "\<exists>vs. Scenario G f turn = Inr vs \<and> map sv_name vs = map fst (scenario_turns base) @ [''provider-error''] \<and>
    list_all (\<lambda>v. same_elsewhere f idx (sv_file v)) vs \<and>
    map (\<lambda>v. decodeResponse G (wf_its (sv_file v) ! idx)) (butlast vs) =
      map (\<lambda>nt. wire_turn (d_provider (dialectFor p)) (snd nt)) (scenario_turns base)"
proof -
  let ?enc = "\<lambda>tr. streamResponse (w_Encode p (Normalize tr) envelope0)"
  let ?err = "(''provider-error'', \<lparr>rs_status = 529, rs_headers = event_stream_headers, rs_streaming = True,
      rs_body = NewBody errorStreamSSE, rs_error = [], rs_timing = []\<rparr>)"
  define vs where "vs = map (scenario_add G f idx) (map (\<lambda>(n, tr). (n, ?enc tr)) (scenario_turns base) @ [?err])"
  have "Scenario G f turn = Inr vs" using assms(1,2,3) by (simp add: Scenario_def Let_def vs_def)
  moreover have "map sv_name vs = map fst (scenario_turns base) @ [''provider-error'']"
    by (simp add: vs_def scenario_add_def Let_def comp_def case_prod_beta)
  moreover have "list_all (\<lambda>v. same_elsewhere f idx (sv_file v)) vs"
    by (simp add: vs_def scenario_add_def Let_def list_all_iff clone_same_elsewhere)
  moreover have "decodeResponse G (wf_its (sv_file (scenario_add G f idx (n, ?enc t))) ! idx) = wire_turn (d_provider (dialectFor p)) t"
    if "(n, t) \<in> set (scenario_turns base)" for n t
  proof -
    have "codec_ok p t envelope0 \<and> length (w_Encode p t envelope0) < max_token"
      using assms(4) that by (auto simp: list_all_iff)
    then have d: "w_Decode p (w_Encode p t envelope0) = (wire_turn (d_provider (dialectFor p)) t, None)"
      using decode_of_encode_all by blast
    have i: "idx < length (wf_its f)" "it_kind (wf_its f ! idx) = ''http''" using nthHTTPIndex_in [OF assms(1)] by simp_all
    show ?thesis using clone_decodes [OF i, of G p "Normalize t" envelope0] d assms(3)
      by (simp add: scenario_add_def Let_def encode_normalized)
  qed
  then have "map (\<lambda>v. decodeResponse G (wf_its (sv_file v) ! idx)) (butlast vs) =
      map (\<lambda>nt. wire_turn (d_provider (dialectFor p)) (snd nt)) (scenario_turns base)"
    by (auto simp: vs_def)
  ultimately show ?thesis by blast
qed

text \<open>Variants do not carry the match normalization or the provenance of the recording.\<close>

lemma clone_drops_match: "wf_match (cloneWithResponse f idx r) = None \<and> wf_prov (cloneWithResponse f idx r) = []"
  by (simp add: cloneWithResponse_def Let_def)

lemma fuzz_loop_ok:
  assumes "\<And>s. s \<in> set ss \<Longrightarrow> w_Decode p s = (base, None)"
  shows "fuzz_loop f idx p (t_Digest base) i ss = Inr (map (\<lambda>s. cloneWithResponse f idx (streamResponse s)) ss)"
  using assms by (induction ss arbitrary: i) simp_all

lemma length_reframe_loop: "length (reframe_loop intn p t n g) = n"
  by (induction n arbitrary: g) (auto simp: Let_def split: prod.split)

lemma reframe_not_empty: "b \<in> set (reframe_loop intn p t n g) \<Longrightarrow> b \<noteq> []"
proof (induction n arbitrary: g)
  case (Suc n)
  obtain m g1 where m: "intn g (2 ^ 30) = (m, g1)" by (cases "intn g (2 ^ 30)")
  obtain k g2 where k: "intn g1 500 = (k, g2)" by (cases "intn g1 500")
  let ?env = "envelope0\<lparr>e_MessageID := ''msg_reframe_'' @ itoa (int m), e_OutputTokens := int k\<rparr>"
  obtain a g3 where a: "reframeAnthropic intn t ?env g2 = (a, g3)" by (cases "reframeAnthropic intn t ?env g2")
  have "fst (reframeAnthropic intn t ?env g2) \<noteq> []"
    by (simp add: reframeAnthropic_def anthropic_frames_def frames_not_empty split: prod.split)
  then have "a \<noteq> []" using a by simp
  then show ?case using Suc m k a encode_not_empty [of p t ?env]
    by (auto simp: Let_def split: if_splits)
qed simp

lemma reframed_turn:
  assumes "intn_ok intn" "base = fst (w_Decode p raw)" "codec_bounds p base"
    "list_all (\<lambda>b. length b < max_token) (Reframe intn p base g n)" "s \<in> set (Reframe intn p base g n)"
  shows "w_Decode p s = (base, None) \<and> s \<noteq> []"
proof -
  have g: "turn_good base" "Normalize base = base" using decoded_good [OF assms(2) [symmetric]] by simp_all
  have b: "p = Gemini \<or> p = Ollama \<Longrightarrow> args_shallow base \<and> list_all (\<lambda>c. Canonicalize (tc_Args c) \<noteq> None) (t_ToolCalls base)"
      "length (t_ToolCalls base) < 2 ^ 62"
    using assms(3) unfolding codec_bounds_def by blast+
  note w = decoded_wire_turn [OF g b]
  have s: "s \<in> set (reframe_loop intn p (Normalize base) n g)" "length s < max_token"
    using assms(4,5) unfolding Reframe_def list_all_iff by blast+
  show ?thesis using reframe_loop_decodes [OF assms(1) w(1) s] reframe_not_empty [OF s(1)] by (simp add: w(2))
qed

text \<open>
  Fuzzing never rejects its own reframings: for a decodable turn within the codec's bounds it
  returns as many recordings as asked for, each the source with one response replaced by a stream
  that decodes to the same transcript.
\<close>

theorem Fuzz_succeeds:
  assumes "intn_ok intn" "nthHTTPIndex f turn = Some idx" "DecodeInteraction G (wf_its f ! idx) = (base, False, True)"
    "p = ProviderForURL (rq_url (it_request (wf_its f ! idx)))" "codec_bounds p base"
    "list_all (\<lambda>b. length b < max_token) (Reframe intn p base g n)"
  shows "\<exists>fs. Fuzz G intn f turn n g = Inr fs \<and> length fs = n \<and> list_all (same_elsewhere f idx) fs \<and>
    list_all (\<lambda>h. decodeResponse G (wf_its h ! idx) = base) fs"
proof -
  have i: "idx < length (wf_its f)" "it_kind (wf_its f ! idx) = ''http''" using nthHTTPIndex_in [OF assms(2)] by simp_all
  have b: "base = fst (w_Decode p (Bytes (rs_body (it_response (wf_its f ! idx)))))"
    using streaming_turn(3) [OF assms(3) i(2)] assms(4) by simp
  note d = reframed_turn [OF assms(1) b assms(5,6)]
  let ?fs = "map (\<lambda>s. cloneWithResponse f idx (streamResponse s)) (Reframe intn p base g n)"
  have "fuzz_loop f idx p (t_Digest base) 0 (Reframe intn p base g n) = Inr ?fs" by (rule fuzz_loop_ok) (use d in blast)
  then have f: "Fuzz G intn f turn n g = Inr ?fs"
    by (simp only: Fuzz_def assms(2,3) option.case Let_def prod.case assms(4) [symmetric] simp_thms if_False)
  have "decodeResponse G (wf_its (cloneWithResponse f idx (streamResponse s)) ! idx) = base" if "s \<in> set (Reframe intn p base g n)" for s
    using i d [OF that] assms(4) [symmetric]
    by (simp add: decodeResponse_def DecodeInteraction_def cloneWithResponse_def streamResponse_def Let_def NewBody_def Bytes_def)
  then have "list_all (\<lambda>h. decodeResponse G (wf_its h ! idx) = base) ?fs" by (simp add: list_all_iff)
  moreover have "list_all (same_elsewhere f idx) ?fs" by (simp add: list_all_iff clone_same_elsewhere)
  moreover have "length ?fs = n" by (simp add: Reframe_def length_reframe_loop)
  ultimately show ?thesis using f by blast
qed

text \<open>The turn of the sample recording.\<close>

lemma ollama_index: "nthHTTPIndex ollama_file 0 = Some 0"
  by (simp add: nthHTTPIndex_def ollama_turn_def)

lemma ollama_decodes: "DecodeInteraction G (wf_its ollama_file ! 0) = (ollama_text, False, True)"
  by (simp add: DecodeInteraction_def ollama_turn_def Let_def ollama_url Bytes_def ollama_turn_decodes)

lemma ollama_provider: "Ollama = ProviderForURL (rq_url (it_request (wf_its ollama_file ! 0)))"
  by (simp add: ollama_turn_def ollama_url)

lemma ollama_scenario_short:
  "list_all (\<lambda>(n, t). int (length (EncodeOllamaNDJSON t envelope0)) < 16777216) (scenario_turns ollama_text)"
  by code_simp

lemma ollama_scenario_shallow: "list_all (\<lambda>(n, t). args_shallow t) (scenario_turns ollama_text)"
proof -
  have "argsRaw ''{}'' = JObj []" "argsRaw ''{\"__unexpected__\":true}'' = JObj [(''__unexpected__'', JBool True)]" by code_simp+
  then show ?thesis by (simp add: scenario_turns_def finish_variant_def Let_def args_shallow_def max_nesting_def firstToolName_def)
qed

lemma ollama_scenario_ok:
  "list_all (\<lambda>(n, t). codec_ok Ollama t envelope0 \<and> length (w_Encode Ollama t envelope0) < max_token) (scenario_turns ollama_text)"
proof -
  have "list_all (\<lambda>(n, t). utf8_turn t \<and> length (t_ToolCalls t) < 2 ^ 62) (scenario_turns ollama_text)"
    by (simp add: scenario_turns_def finish_variant_def Let_def utf8_turn_def firstToolName_def valid_utf8_ascii del: valid_utf8.simps(2))
  then show ?thesis using ollama_scenario_short ollama_scenario_shallow
    by (auto simp: list_all_iff codec_ok_def utf8_env_def codec_dispatch max_token_def)
qed

lemma Scenario_variants_decode_witness:
  "\<exists>vs. Scenario null_gjson ollama_file 0 = Inr vs \<and> length vs = 8"
proof -
  have n: "length (scenario_turns ollama_text) = 7" by (simp add: scenario_turns_def)
  obtain vs where vs: "Scenario null_gjson ollama_file 0 = Inr vs"
      "map sv_name vs = map fst (scenario_turns ollama_text) @ [''provider-error'']"
    using Scenario_variants_decode [OF ollama_index ollama_decodes ollama_provider ollama_scenario_ok, of null_gjson] by blast
  have "length vs = length (map fst (scenario_turns ollama_text) @ [''provider-error''])" by (simp only: vs(2) [symmetric] length_map)
  then show ?thesis using vs(1) n by simp
qed

lemma Fuzz_succeeds_witness:
  "\<exists>fs. Fuzz null_gjson counter_rng ollama_file 0 1 7 = Inr fs \<and> length fs = 1"
proof -
  have i: "intn_ok counter_rng" by (simp add: intn_ok_def counter_rng_def)
  have z: "Normalize ollama_text = ollama_text" by (simp add: Normalize_def)
  have r: "Reframe counter_rng Ollama ollama_text 7 1 =
      [EncodeOllamaNDJSON ollama_text (envelope0\<lparr>e_MessageID := ''msg_reframe_'' @ itoa 7, e_OutputTokens := 8\<rparr>)]"
    by (simp add: Reframe_def counter_rng_def Let_def z codec_dispatch)
  have "int (length (EncodeOllamaNDJSON ollama_text (envelope0\<lparr>e_MessageID := ''msg_reframe_'' @ itoa 7, e_OutputTokens := 8\<rparr>))) < 16777216"
    by code_simp
  then have l: "list_all (\<lambda>b. length b < max_token) (Reframe counter_rng Ollama ollama_text 7 1)"
    unfolding r by (simp add: max_token_def)
  have b: "codec_bounds Ollama ollama_text"
    using ollama_turn_bounds [of null_gjson] ollama_decodes [of null_gjson]
    by (simp add: turn_bounds_def decodeResponse_def ollama_turn_def ollama_url)
  show ?thesis using Fuzz_succeeds [OF i ollama_index ollama_decodes ollama_provider b l, of null_gjson] by blast
qed

end
