(* ===== verification/Authoring.thy ===== *)
theory Authoring
  imports Compose_Laws
begin

text \<open>
  Recordings in another dialect and recordings from scratch: the request side of the dialects
  (internal/wireenc/request.go), port.go and author.go of internal/analysis.
\<close>

section \<open>Requests\<close>

record convo_msg =
  cm_role :: string
  cm_text :: string

definition roleOr :: "string \<Rightarrow> string \<Rightarrow> string" where
  "roleOr r def = (if r = [] then def else r)"

definition contentText :: "'r gjson \<Rightarrow> 'r \<Rightarrow> string" where
  "contentText G c =
     (if gj_is_string G c then gj_string G c
      else concat (map (\<lambda>(_, b). let t = gj_sub G b ''text'' in if gj_exists G t then gj_string G t else []) (gj_each G c)))"

definition req_message :: "'r gjson \<Rightarrow> 'r \<Rightarrow> string \<times> convo_msg list \<Rightarrow> string \<times> convo_msg list" where
  "req_message G m sm = (case sm of (system, msgs) \<Rightarrow>
     let role = roleOr (gj_string G (gj_sub G m ''role'')) ''user''; txt = contentText G (gj_sub G m ''content'') in
     if role = ''system'' then (if txt \<noteq> [] then txt else system, msgs)
     else (system, msgs @ [\<lparr>cm_role = role, cm_text = txt\<rparr>]))"

definition decodeReqMessages :: "'r gjson \<Rightarrow> bytes \<Rightarrow> string \<times> convo_msg list" where
  "decodeReqMessages G body =
     fold (\<lambda>(_, m). req_message G m) (gj_each G (gj_get G body ''messages''))
       (contentText G (gj_get G body ''system''), [])"

definition decodeReqGemini :: "'r gjson \<Rightarrow> bytes \<Rightarrow> string \<times> convo_msg list" where
  "decodeReqGemini G body =
     (contentText G (gj_get G body ''systemInstruction.parts''),
      map (\<lambda>(_, m). let role = roleOr (gj_string G (gj_sub G m ''role'')) ''user''
           in \<lparr>cm_role = (if role = ''model'' then ''assistant'' else role), cm_text = contentText G (gj_sub G m ''parts'')\<rparr>)
        (gj_each G (gj_get G body ''contents'')))"

definition decodeReqResponses :: "'r gjson \<Rightarrow> bytes \<Rightarrow> string \<times> convo_msg list" where
  "decodeReqResponses G body =
     (let system = gj_string G (gj_get G body ''instructions''); input = gj_get G body ''input'' in
      if gj_is_string G input then (system, [\<lparr>cm_role = ''user'', cm_text = gj_string G input\<rparr>])
      else (system, map (\<lambda>(_, m). \<lparr>cm_role = roleOr (gj_string G (gj_sub G m ''role'')) ''user'',
                                   cm_text = contentText G (gj_sub G m ''content'')\<rparr>) (gj_each G input)))"

text \<open>A nil slice is written as null.\<close>

definition jslice :: "jval list \<Rightarrow> jval" where
  "jslice vs = (if vs = [] then JNull else JArr vs)"

abbreviation with_system :: "string \<Rightarrow> string \<times> jval \<Rightarrow> (string \<times> jval) list" where
  "with_system system kv \<equiv> (if system \<noteq> [] then [kv] else [])"

definition encodeReqGemini :: "string \<Rightarrow> string \<Rightarrow> convo_msg list \<Rightarrow> bytes" where
  "encodeReqGemini model system msgs = jencode True (jmap
     ([(''contents'', jslice (map (\<lambda>m. jmap
         [(''role'', JStr (if cm_role m = ''assistant'' then ''model'' else cm_role m)),
          (''parts'', JArr [jmap [(''text'', JStr (cm_text m))]])]) msgs))] @
      with_system system (''systemInstruction'', jmap [(''parts'', JArr [jmap [(''text'', JStr system)]])])))"

definition encodeReqResponses :: "string \<Rightarrow> string \<Rightarrow> convo_msg list \<Rightarrow> bytes" where
  "encodeReqResponses model system msgs = jencode True (jmap
     ([(''model'', JStr model),
       (''input'', jslice (map (\<lambda>m. jmap
         [(''role'', JStr (cm_role m)),
          (''content'', JArr [jmap [(''type'', JStr ''input_text''), (''text'', JStr (cm_text m))]])]) msgs)),
       (''stream'', JBool True)] @ with_system system (''instructions'', JStr system)))"

definition msg_json :: "convo_msg \<Rightarrow> jval" where
  "msg_json m = jmap [(''role'', JStr (cm_role m)), (''content'', JStr (cm_text m))]"

definition encodeReqMessages :: "string \<Rightarrow> string \<Rightarrow> convo_msg list \<Rightarrow> bytes" where
  "encodeReqMessages model system msgs =
     (let out = (if system \<noteq> [] then [msg_json \<lparr>cm_role = ''system'', cm_text = system\<rparr>] else []) @ map msg_json msgs
      in jencode True (jmap [(''model'', JStr model), (''messages'', jslice out), (''stream'', JBool True)]))"

definition encodeReqAnthropic :: "string \<Rightarrow> string \<Rightarrow> convo_msg list \<Rightarrow> bytes" where
  "encodeReqAnthropic model system msgs = jencode True (jmap
     ([(''model'', JStr model), (''max_tokens'', jint 1024), (''messages'', jslice (map msg_json msgs)),
       (''stream'', JBool True)] @ with_system system (''system'', JStr system)))"

text \<open>The request fields of the registry entries, by the provider of the entry.\<close>

definition reqDecode :: "'r gjson \<Rightarrow> provider \<Rightarrow> bytes \<Rightarrow> string \<times> convo_msg list" where
  "reqDecode G p =
     (case p of Gemini \<Rightarrow> decodeReqGemini G | OpenAIResponses \<Rightarrow> decodeReqResponses G | _ \<Rightarrow> decodeReqMessages G)"

definition reqEncode :: "provider \<Rightarrow> string \<Rightarrow> string \<Rightarrow> convo_msg list \<Rightarrow> bytes" where
  "reqEncode p =
     (case p of Gemini \<Rightarrow> encodeReqGemini | OpenAIResponses \<Rightarrow> encodeReqResponses
      | Ollama \<Rightarrow> encodeReqMessages | OpenAIChat \<Rightarrow> encodeReqMessages | _ \<Rightarrow> encodeReqAnthropic)"

definition DecodeRequest :: "'r gjson \<Rightarrow> provider \<Rightarrow> bytes \<Rightarrow> string \<times> string \<times> convo_msg list" where
  "DecodeRequest G p body = (gj_string G (gj_get G body ''model''), reqDecode G (d_provider (dialectFor p)) body)"

definition EncodeRequest :: "provider \<Rightarrow> string \<Rightarrow> string \<Rightarrow> convo_msg list \<Rightarrow> bytes" where
  "EncodeRequest p model system msgs =
     reqEncode (d_provider (dialectFor p)) (if model = [] then ''model'' else model) system msgs"

section \<open>Port\<close>

definition portModel :: "'r gjson \<Rightarrow> bytes \<Rightarrow> string" where
  "portModel G body = (let m = gj_string G (gj_get G body ''model'') in if m \<noteq> [] then m else ''model'')"

abbreviation json_ct :: headers where
  "json_ct \<equiv> [\<lparr>hf_name = ''Content-Type'', hf_values = [''application/json'']\<rparr>]"

abbreviation json_key :: "golib \<Rightarrow> string \<Rightarrow> string \<Rightarrow> bytes \<Rightarrow> match_error + string" where
  "json_key gl meth path body \<equiv> Key gl \<lparr>in_method = meth, in_path = path, in_body = body,
     in_ctype = ''application/json'', in_header = None\<rparr> zero_config"

text \<open>What becomes of interaction \<open>i\<close>: kept as it is, transpiled, or an error of the match key.\<close>

definition port_env :: "'r gjson \<Rightarrow> nat \<Rightarrow> interaction \<Rightarrow> envelope" where
  "port_env G i it = envelope0\<lparr>e_MessageID := ''msg_ported_'' @ itoa (int (i + 1)),
     e_ModelID := portModel G (Bytes (rq_body (it_request it)))\<rparr>"

definition port_it :: "golib \<Rightarrow> 'r gjson \<Rightarrow> provider \<Rightarrow> nat \<Rightarrow> interaction \<Rightarrow> match_error + interaction \<times> bool" where
  "port_it gl G to' i it =
     (let src = ProviderForURL (rq_url (it_request it)); body = Bytes (rq_body (it_request it)) in
      if it_kind it \<noteq> ''http'' then Inr (it, False)
      else case DecodeInteraction G it of (_, unary, renderable) \<Rightarrow>
        if src = to' \<or> unary \<or> \<not> renderable then Inr (it, False)
        else case w_Decode src (Bytes (rs_body (it_response it))) of
          (_, Some _) \<Rightarrow> Inr (it, False)
        | (tr, None) \<Rightarrow>
            (case DecodeRequest G src body of (model, system, msgs) \<Rightarrow>
             let newBody = EncodeRequest to' model system msgs; newURL = RequestPath to' in
             case json_key gl (rq_method (it_request it)) newURL newBody of
               Inl e \<Rightarrow> Inl e
             | Inr key \<Rightarrow> Inr
                 (\<lparr>it_kind = ''http'',
                   it_request = \<lparr>rq_method = rq_method (it_request it), rq_url = newURL, rq_headers = json_ct,
                     rq_mcp_method = [], rq_mcp_tool = [], rq_body = NewBody newBody, rq_body_sha = [], rq_match_key = key\<rparr>,
                   it_response = streamResponse (w_Encode to' tr (port_env G i it))\<rparr>, True)))"

fun port_loop :: "golib \<Rightarrow> 'r gjson \<Rightarrow> provider \<Rightarrow> nat \<Rightarrow> interaction list \<Rightarrow>
    (nat \<times> match_error) + (interaction \<times> bool) list" where
  "port_loop gl G to' i [] = Inr []"
| "port_loop gl G to' i (it # its) =
     (case port_it gl G to' i it of
        Inl e \<Rightarrow> Inl (i, e)
      | Inr r \<Rightarrow> (case port_loop gl G to' (Suc i) its of Inl e \<Rightarrow> Inl e | Inr rs \<Rightarrow> Inr (r # rs)))"

definition Port :: "golib \<Rightarrow> 'r gjson \<Rightarrow> wfile \<Rightarrow> provider \<Rightarrow> (nat \<times> match_error) + wfile \<times> nat" where
  "Port gl G f to' =
     (case port_loop gl G to' 0 (wf_its f) of
        Inl e \<Rightarrow> Inl e
      | Inr rs \<Rightarrow> Inr (empty_file\<lparr>wf_notice := wf_notice f, wf_expect := wf_expect f, wf_its := map fst rs\<rparr>,
                       length (filter snd rs)))"

section \<open>Screenplays\<close>

record screenplay_tool =
  spt_name :: string
  spt_args :: string

record screenplay_turn =
  sp_kind :: string
  sp_user :: string
  sp_text :: string
  sp_tools :: "screenplay_tool list"
  sp_finish :: string
  sp_request :: string
  sp_url :: string
  sp_in :: int
  sp_out :: int
  sp_method :: string
  sp_tool :: string
  sp_args :: string
  sp_result :: string
  sp_tool_error :: string

record screenplay =
  sp_provider :: string
  sp_model :: string
  sp_turns :: "screenplay_turn list"

datatype author_error = AText string | AKey nat match_error

definition ProviderRouting :: "(nat \<Rightarrow> bool) \<Rightarrow> string \<Rightarrow> string + provider \<times> string" where
  "ProviderRouting isprint provider0 =
     (let pr = (if provider0 = [] then ''anthropic'' else provider0) in
      case ProviderByName pr of
        None \<Rightarrow> Inl (''unknown provider '' @ go_quote isprint pr @ '' (want '' @ str_join ''|'' ProviderNames @ '')'')
      | Some p \<Rightarrow> Inr (p, RequestPath p))"

definition synthRequest :: "string \<Rightarrow> string \<Rightarrow> convo_msg list \<Rightarrow> bytes" where
  "synthRequest provider0 model msgs = jencode True (jmap
     ([(''model'', JStr model), (''messages'', jslice (map msg_json msgs)), (''stream'', JBool True)] @
      (if provider0 = [] \<or> provider0 = ''anthropic'' then [(''max_tokens'', jint 1024)] else [])))"

definition assistantHistory :: "screenplay_turn \<Rightarrow> string" where
  "assistantHistory t =
     (if sp_text t \<noteq> [] then sp_text t
      else let names = map spt_name (sp_tools t) in
        if names \<noteq> [] then ''[tool_calls: '' @ str_join '','' names @ '']'' else [])"

abbreviation turn_error :: "nat \<Rightarrow> string \<Rightarrow> author_error" where
  "turn_error i msg \<equiv> AText (''turn '' @ itoa (int i) @ '': '' @ msg)"

definition mcpCallResult :: "nat \<Rightarrow> screenplay_turn \<Rightarrow> author_error + bytes" where
  "mcpCallResult i t =
     (let r = TrimSpace (sp_result t) in
      if r \<noteq> [] then (if json_valid r then Inr r else Inl (turn_error i ''mcp result is not valid JSON''))
      else let txt = (if sp_tool_error t \<noteq> [] then sp_tool_error t else sp_text t)
        in Inr (jencode True (jmap
          ((if sp_tool_error t \<noteq> [] then [(''isError'', JBool True)] else []) @
           [(''content'', JArr [jmap [(''type'', JStr ''text''), (''text'', JStr txt)]])]))))"

text \<open>
  A value unmarshalled into an interface and marshalled again: numbers pass through float64
  (\<open>f64\<close> gives the text they come back with, None for a number out of range, which becomes null).
\<close>

fun jiface :: "(string \<Rightarrow> string option) \<Rightarrow> jval \<Rightarrow> jval" where
  "jiface f64 (JNum n) = (case f64 n of None \<Rightarrow> JNull | Some m \<Rightarrow> JNum m)"
| "jiface f64 (JArr vs) = JArr (map (jiface f64) vs)"
| "jiface f64 (JObj kvs) = JObj (obj_of (map (\<lambda>(k, v). (k, jiface f64 v)) kvs))"
| "jiface f64 v = v"

definition list_tool :: "(string \<Rightarrow> string option) \<Rightarrow> screenplay_tool \<Rightarrow> jval" where
  "list_tool f64 tc = jmap
     ([(''name'', JStr (spt_name tc))] @
      (let a = TrimSpace (spt_args tc) in
       case (if a = [] then None else jparse a) of
         None \<Rightarrow> [] | Some v \<Rightarrow> [(''inputSchema'', jiface f64 v)]))"

definition mcpListResult :: "(string \<Rightarrow> string option) \<Rightarrow> nat \<Rightarrow> screenplay_turn \<Rightarrow> author_error + bytes" where
  "mcpListResult f64 i t =
     (let r = TrimSpace (sp_result t) in
      if r \<noteq> [] then (if json_valid r then Inr r else Inl (turn_error i ''mcp result is not valid JSON''))
      else Inr (jencode True (jmap [(''tools'', JArr (map (list_tool f64) (sp_tools t)))])))"

definition mcp_interaction :: "string \<Rightarrow> string \<Rightarrow> bytes \<Rightarrow> bytes \<Rightarrow> string \<Rightarrow> interaction" where
  "mcp_interaction meth tool args result key =
     \<lparr>it_kind = ''mcp'',
      it_request = \<lparr>rq_method = [], rq_url = [], rq_headers = [], rq_mcp_method = meth, rq_mcp_tool = tool,
        rq_body = NewBody args, rq_body_sha = [], rq_match_key = key\<rparr>,
      it_response = \<lparr>rs_status = 0, rs_headers = [], rs_streaming = False, rs_body = NewBody result, rs_error = [], rs_timing = []\<rparr>\<rparr>"

definition compileMCPTurn :: "(nat \<Rightarrow> bool) \<Rightarrow> (string \<Rightarrow> string option) \<Rightarrow> nat \<Rightarrow> screenplay_turn \<Rightarrow> author_error + interaction" where
  "compileMCPTurn isprint f64 i t =
     (let meth = (if sp_method t = [] then ''tools/call'' else sp_method t);
          a = TrimSpace (sp_args t); args = (if a = [] then ''{}'' else a) in
      if \<not> json_valid args then Inl (turn_error i ''mcp args is not valid JSON'')
      else if meth = ''tools/call'' then
        (if sp_tool t = [] then Inl (turn_error i ''mcp tools/call needs a tool name'')
         else case mcpCallResult i t of
           Inl e \<Rightarrow> Inl e
         | Inr result \<Rightarrow> Inr (mcp_interaction meth (sp_tool t) args result (''mcp:tools/call:'' @ sp_tool t @ '':'' @ Digest args)))
      else if meth = ''tools/list'' then
        (case mcpListResult f64 i t of
           Inl e \<Rightarrow> Inl e
         | Inr result \<Rightarrow> Inr (mcp_interaction meth [] args result (''mcp:tools/list:'' @ Digest args)))
      else Inl (turn_error i (''unknown mcp method '' @ go_quote isprint meth @ '' (want tools/call or tools/list)'')))"

definition authored_turn :: "screenplay_turn \<Rightarrow> transcript" where
  "authored_turn t = \<lparr>t_Role = ''assistant'', t_Text = sp_text t,
     t_ToolCalls = map (\<lambda>tc. \<lparr>tc_Name = spt_name tc, tc_Args = spt_args tc\<rparr>) (sp_tools t), t_FinishReason = sp_finish t\<rparr>"

definition author_env :: "string \<Rightarrow> nat \<Rightarrow> screenplay_turn \<Rightarrow> envelope" where
  "author_env model i t = \<lparr>e_MessageID = ''msg_authored_'' @ itoa (int (i + 1)), e_ModelID = model, e_ToolCallIDs = [],
     e_InputTokens = sp_in t, e_OutputTokens = sp_out t\<rparr>"

definition compile_http :: "golib \<Rightarrow> string \<Rightarrow> provider \<Rightarrow> string \<Rightarrow> string \<Rightarrow> nat \<Rightarrow> convo_msg list \<Rightarrow> screenplay_turn \<Rightarrow>
    author_error + interaction" where
  "compile_http gl provider0 p path model i msgs t =
     (let reqURL = (if sp_url t \<noteq> [] then sp_url t else path) in
      if TrimSpace (sp_request t) \<noteq> [] \<and> \<not> json_valid (sp_request t) then
        Inl (turn_error i ''request override is not valid JSON'')
      else
        let reqBody = (if TrimSpace (sp_request t) \<noteq> [] then sp_request t else synthRequest provider0 model msgs);
            sse = w_Encode p (Normalize (authored_turn t)) (author_env model i t)
        in case json_key gl ''POST'' reqURL reqBody of
             Inl e \<Rightarrow> Inl (AKey i e)
           | Inr key \<Rightarrow> Inr \<lparr>it_kind = ''http'',
               it_request = \<lparr>rq_method = ''POST'', rq_url = reqURL, rq_headers = json_ct, rq_mcp_method = [], rq_mcp_tool = [],
                 rq_body = NewBody reqBody, rq_body_sha = [], rq_match_key = key\<rparr>,
               it_response = streamResponse sse\<rparr>)"

text \<open>The loop over the turns with the conversation so far; the provider is resolved on the first HTTP turn.\<close>

fun compile_loop :: "golib \<Rightarrow> (nat \<Rightarrow> bool) \<Rightarrow> (string \<Rightarrow> string option) \<Rightarrow> string \<Rightarrow> string \<Rightarrow> nat \<Rightarrow> convo_msg list \<Rightarrow>
    screenplay_turn list \<Rightarrow> author_error + interaction list" where
  "compile_loop gl isprint f64 provider0 model i msgs [] = Inr []"
| "compile_loop gl isprint f64 provider0 model i msgs (t # ts) =
     (if sp_kind t = ''mcp'' then
        (case compileMCPTurn isprint f64 i t of
           Inl e \<Rightarrow> Inl e
         | Inr it \<Rightarrow> map_sum id (Cons it) (compile_loop gl isprint f64 provider0 model (Suc i) msgs ts))
      else case ProviderRouting isprint provider0 of
        Inl e \<Rightarrow> Inl (AText e)
      | Inr (p, path) \<Rightarrow>
          let msgs1 = msgs @ [\<lparr>cm_role = ''user'', cm_text = sp_user t\<rparr>] in
          case compile_http gl provider0 p path model i msgs1 t of
            Inl e \<Rightarrow> Inl e
          | Inr it \<Rightarrow> map_sum id (Cons it)
              (compile_loop gl isprint f64 provider0 model (Suc i) (msgs1 @ [\<lparr>cm_role = ''assistant'', cm_text = assistantHistory t\<rparr>]) ts))"

definition Compile :: "golib \<Rightarrow> (nat \<Rightarrow> bool) \<Rightarrow> (string \<Rightarrow> string option) \<Rightarrow> screenplay \<Rightarrow> author_error + wfile" where
  "Compile gl isprint f64 s =
     (if sp_turns s = [] then Inl (AText ''screenplay has no turns'')
      else map_sum id (\<lambda>its. empty_file\<lparr>wf_its := its\<rparr>)
        (compile_loop gl isprint f64 (sp_provider s) (if sp_model s = [] then ''model'' else sp_model s) 0 [] (sp_turns s)))"

end
