(* ===== verification/Authoring_Laws.thy ===== *)
theory Authoring_Laws
  imports Authoring
begin

text \<open>
  What porting and authoring guarantee: requests are read back from what is written, ported turns
  keep their meaning, compiled recordings carry the keys the replayer derives.
\<close>

section \<open>A reader of JSON\<close>

text \<open>
  What gjson documents of Get, Exists, String, Type and ForEach for plain keys: \<open>val\<close> is the JSON
  value a result stands for, None where it does not exist.
\<close>

definition jfield :: "jval option \<Rightarrow> string \<Rightarrow> jval option" where
  "jfield v k = (case v of Some (JObj kvs) \<Rightarrow> map_of kvs k | _ \<Rightarrow> None)"

fun jpath :: "jval option \<Rightarrow> string list \<Rightarrow> jval option" where
  "jpath v [] = v"
| "jpath v (k # ks) = jpath (jfield v k) ks"

definition plain_key :: "string \<Rightarrow> bool" where
  "plain_key k = list_all (\<lambda>c. c = CHR ''.'' \<or> c = CHR ''_'' \<or> c \<in> set ''abcdefghijklmnopqrstuvwxyz'' \<or> c \<in> set ''ABCDEFGHIJKLMNOPQRSTUVWXYZ'') k"

definition gjson_reads :: "'r gjson \<Rightarrow> ('r \<Rightarrow> jval option) \<Rightarrow> bool" where
  "gjson_reads G val =
     ((\<forall>b v path. jparse b = Some v \<longrightarrow> plain_key path \<longrightarrow> val (gj_get G b path) = jpath (Some v) (split_byte (CHR ''.'') path)) \<and>
      (\<forall>r k. plain_key k \<longrightarrow> val (gj_sub G r k) = jpath (val r) (split_byte (CHR ''.'') k)) \<and>
      (\<forall>r. gj_exists G r = (val r \<noteq> None)) \<and>
      (\<forall>r. gj_is_string G r = (\<exists>s. val r = Some (JStr s))) \<and>
      (\<forall>r s. val r = Some (JStr s) \<longrightarrow> gj_string G r = s) \<and>
      (\<forall>r. val r = None \<longrightarrow> gj_string G r = []) \<and>
      (\<forall>r vs. val r = Some (JArr vs) \<longrightarrow> map (\<lambda>kv. val (snd kv)) (gj_each G r) = map Some vs) \<and>
      (\<forall>r. val r = None \<longrightarrow> gj_each G r = []))"

text \<open>A reader over parsed values.\<close>

definition jval_gjson :: "jval option gjson" where
  "jval_gjson = \<lparr>gj_get = (\<lambda>b path. case jparse b of None \<Rightarrow> None | Some v \<Rightarrow> jpath (Some v) (split_byte (CHR ''.'') path)),
     gj_sub = (\<lambda>r path. jpath r (split_byte (CHR ''.'') path)), gj_exists = (\<lambda>r. r \<noteq> None),
     gj_raw = (\<lambda>r. case r of None \<Rightarrow> [] | Some v \<Rightarrow> jencode False v),
     gj_string = (\<lambda>r. case r of Some (JStr s) \<Rightarrow> s | None \<Rightarrow> [] | Some v \<Rightarrow> jencode False v),
     gj_int = (\<lambda>r. case r of Some (JNum n) \<Rightarrow> (case atoi n of None \<Rightarrow> 0 | Some i \<Rightarrow> i) | _ \<Rightarrow> 0),
     gj_float = (\<lambda>r. case r of Some (JNum n) \<Rightarrow> (case atoi n of None \<Rightarrow> 0 | Some i \<Rightarrow> real_of_int i) | _ \<Rightarrow> 0),
     gj_bool = (\<lambda>r. r = Some (JBool True)), gj_is_string = (\<lambda>r. case r of Some (JStr _) \<Rightarrow> True | _ \<Rightarrow> False),
     gj_is_false = (\<lambda>r. r = Some (JBool False)), gj_is_array = (\<lambda>r. case r of Some (JArr _) \<Rightarrow> True | _ \<Rightarrow> False),
     gj_each = (\<lambda>r. case r of None \<Rightarrow> [] | Some (JArr vs) \<Rightarrow> map (\<lambda>v. (None, Some v)) vs
                  | Some (JObj kvs) \<Rightarrow> map (\<lambda>(k, v). (Some (JStr k), Some v)) kvs | Some v \<Rightarrow> [(None, Some v)]),
     gj_valid = json_valid\<rparr>"

lemma jval_gjson_reads: "gjson_reads jval_gjson id"
  by (auto simp: gjson_reads_def jval_gjson_def split: jval.splits option.splits)

lemma reads_get:
  assumes "gjson_reads G val" "jwf v" "jdepth v \<le> max_nesting" "plain_key path"
  shows "val (gj_get G (jencode True v) path) = jpath (Some v) (split_byte (CHR ''.'') path)"
  using assms jparse_jencode [of v True] by (auto simp: gjson_reads_def)

lemma reads_sub: "gjson_reads G val \<Longrightarrow> plain_key k \<Longrightarrow> val (gj_sub G r k) = jpath (val r) (split_byte (CHR ''.'') k)"
  by (simp add: gjson_reads_def)

lemma reads_string: "gjson_reads G val \<Longrightarrow> val r = Some (JStr s) \<Longrightarrow> gj_string G r = s"
  by (simp add: gjson_reads_def)

lemma reads_missing: "gjson_reads G val \<Longrightarrow> val r = None \<Longrightarrow> gj_string G r = [] \<and> gj_each G r = []"
  by (simp add: gjson_reads_def)

lemma reads_each: "gjson_reads G val \<Longrightarrow> val r = Some (JArr vs) \<Longrightarrow> map (\<lambda>kv. val (snd kv)) (gj_each G r) = map Some vs"
  by (simp add: gjson_reads_def)

lemma reads_is_string: "gjson_reads G val \<Longrightarrow> gj_is_string G r = (\<exists>s. val r = Some (JStr s))"
  by (simp add: gjson_reads_def)

lemma contentText_string: "gjson_reads G val \<Longrightarrow> val r = Some (JStr s) \<Longrightarrow> contentText G r = s"
  by (simp add: contentText_def reads_is_string reads_string)

lemma contentText_missing: "gjson_reads G val \<Longrightarrow> val r = None \<Longrightarrow> contentText G r = []"
  by (simp add: contentText_def reads_is_string reads_missing)

lemma contentText_block:
  assumes G: "gjson_reads G val" and r: "val r = Some (JArr [JObj kvs])" "map_of kvs ''text'' = Some (JStr s)"
  shows "contentText G r = s"
proof -
  obtain k b where e: "gj_each G r = [(k, b)]" "val b = Some (JObj kvs)"
    using reads_each [OF G r(1)] by auto
  have t: "val (gj_sub G b ''text'') = Some (JStr s)"
    using reads_sub [OF G, of "''text''" b] e(2) r(2) by (simp add: plain_key_def jfield_def)
  have "gj_exists G (gj_sub G b ''text'')" using G t by (simp add: gjson_reads_def)
  then show ?thesis using e r(1) reads_string [OF G t] reads_is_string [OF G, of r]
    by (simp add: contentText_def Let_def)
qed

lemma map_each:
  assumes "map (\<lambda>kv. val (snd kv)) xs = map (\<lambda>m. Some (j m)) ms" "\<And>r m. val r = Some (j m) \<Longrightarrow> m \<in> set ms \<Longrightarrow> f r = h m"
  shows "map (\<lambda>(_, r). f r) xs = map h ms"
  using assms
proof (induction ms arbitrary: xs)
  case (Cons m ms)
  then obtain x ys where "xs = x # ys" "val (snd x) = Some (j m)" "map (\<lambda>kv. val (snd kv)) ys = map (\<lambda>m. Some (j m)) ms"
    by (cases xs) auto
  then show ?case using Cons by (cases x) auto
qed simp

lemma fold_each:
  assumes "map (\<lambda>kv. val (snd kv)) xs = map (\<lambda>m. Some (j m)) ms" "\<And>r m s. val r = Some (j m) \<Longrightarrow> m \<in> set ms \<Longrightarrow> f r s = h m s"
  shows "fold (\<lambda>(_, r). f r) xs s = fold h ms s"
  using assms
proof (induction ms arbitrary: xs s)
  case (Cons m ms)
  then obtain x ys where "xs = x # ys" "val (snd x) = Some (j m)" "map (\<lambda>kv. val (snd kv)) ys = map (\<lambda>m. Some (j m)) ms"
    by (cases xs) auto
  then show ?case using Cons by (cases x) auto
qed simp

section \<open>Requests are read back\<close>

definition talk :: "convo_msg \<Rightarrow> bool" where
  "talk m = ((cm_role m = ''user'' \<or> cm_role m = ''assistant'') \<and> valid_utf8 (cm_text m))"

lemma msg_json_eq: "msg_json m = JObj [(''content'', JStr (cm_text m)), (''role'', JStr (cm_role m))]"
  by (simp add: msg_json_def jmap_eval)

lemma jarr_depth: "(\<And>v. v \<in> set vs \<Longrightarrow> jdepth v \<le> n) \<Longrightarrow> foldr (\<lambda>v. max (jdepth v)) vs 0 \<le> n"
  by (induction vs) auto

lemma utf8_roles: "valid_utf8 ''user''" "valid_utf8 ''assistant''" "valid_utf8 ''model''" "valid_utf8 ''system''"
  by (simp_all add: valid_utf8_ascii del: valid_utf8.simps(2))

lemma req_message_talk:
  assumes G: "gjson_reads G val" and r: "val r = Some (msg_json m)"
  shows "gj_string G (gj_sub G r ''role'') = cm_role m" "contentText G (gj_sub G r ''content'') = cm_text m"
proof -
  have "val (gj_sub G r ''role'') = Some (JStr (cm_role m))" "val (gj_sub G r ''content'') = Some (JStr (cm_text m))"
    using reads_sub [OF G, of "''role''" r] reads_sub [OF G, of "''content''" r] r
    by (simp_all add: plain_key_def msg_json_eq jfield_def)
  then show "gj_string G (gj_sub G r ''role'') = cm_role m" "contentText G (gj_sub G r ''content'') = cm_text m"
    by (simp_all add: reads_string [OF G] contentText_string [OF G])
qed

lemma fold_messages:
  assumes G: "gjson_reads G val" and "list_all talk msgs"
  shows "map (\<lambda>kv. val (snd kv)) xs = map (\<lambda>m. Some (msg_json m)) msgs \<Longrightarrow>
    fold (\<lambda>(_, m). req_message G m) xs (system, out) = (system, out @ msgs)"
  using assms(2)
proof (induction msgs arbitrary: xs out)
  case (Cons m msgs)
  then obtain x ys where x: "xs = x # ys" "val (snd x) = Some (msg_json m)" "map (\<lambda>kv. val (snd kv)) ys = map (\<lambda>m. Some (msg_json m)) msgs"
    by (cases xs) auto
  have "req_message G (snd x) (system, out) = (system, out @ [m])"
    using req_message_talk [OF G x(2)] Cons.prems(2) by (auto simp: req_message_def Let_def roleOr_def talk_def)
  then show ?case using Cons.IH [OF x(3)] Cons.prems(2) by (cases x) (simp add: x(1))
qed simp

lemma msgs_json_ok:
  assumes "list_all talk msgs"
  shows "\<forall>v \<in> set (map msg_json msgs). jwf v" "foldr (\<lambda>v. max (jdepth v)) (map msg_json msgs) 0 \<le> 1"
  using assms utf8_roles
  by (auto simp: msg_json_eq list_all_iff talk_def valid_utf8_ascii simp del: valid_utf8.simps(2) intro!: jarr_depth)

lemmas written_ok = jmap_eval jslice_def max_nesting_def plain_key_def jfield_def valid_utf8_ascii

lemma anthropic_request:
  assumes G: "gjson_reads G val" and m: "list_all talk msgs" "msgs \<noteq> []" and u: "valid_utf8 system" "valid_utf8 model"
  shows "gj_string G (gj_get G (encodeReqAnthropic model system msgs) ''model'') = model \<and>
    decodeReqMessages G (encodeReqAnthropic model system msgs) = (system, msgs)"
proof -
  define v where "v = jmap ([(''model'', JStr model), (''max_tokens'', jint 1024), (''messages'', jslice (map msg_json msgs)),
       (''stream'', JBool True)] @ with_system system (''system'', JStr system))"
  have e: "v = JObj ([(''max_tokens'', jint 1024), (''messages'', JArr (map msg_json msgs)), (''model'', JStr model), (''stream'', JBool True)] @
      with_system system (''system'', JStr system))"
    using m(2) by (simp add: v_def jmap_eval jslice_def)
  have ok: "jwf v" "jdepth v \<le> max_nesting"
    using msgs_json_ok [OF m(1)] u by (auto simp: e max_nesting_def valid_utf8_ascii simp del: valid_utf8.simps(2))
  note g = reads_get [OF G ok]
  have "val (gj_get G (jencode True v) ''model'') = Some (JStr model)"
    using g [of "''model''"] by (simp add: e plain_key_def jfield_def)
  then have 1: "gj_string G (gj_get G (jencode True v) ''model'') = model" by (rule reads_string [OF G])
  have "val (gj_get G (jencode True v) ''system'') = (if system = [] then None else Some (JStr system))"
    using g [of "''system''"] by (simp add: e plain_key_def jfield_def)
  then have 2: "contentText G (gj_get G (jencode True v) ''system'') = system"
    using contentText_string [OF G] contentText_missing [OF G] by (cases "system = []") auto
  have "val (gj_get G (jencode True v) ''messages'') = Some (JArr (map msg_json msgs))"
    using g [of "''messages''"] by (simp add: e plain_key_def jfield_def)
  then have "map (\<lambda>kv. val (snd kv)) (gj_each G (gj_get G (jencode True v) ''messages'')) = map (\<lambda>m. Some (msg_json m)) msgs"
    using reads_each [OF G] by (simp add: comp_def)
  from fold_messages [OF G m(1) this] have 3: "decodeReqMessages G (jencode True v) = (system, msgs)"
    by (simp add: decodeReqMessages_def 2)
  show ?thesis unfolding encodeReqAnthropic_def v_def [symmetric] using 1 3 by simp
qed

lemma chat_request:
  assumes G: "gjson_reads G val" and m: "list_all talk msgs" "msgs \<noteq> []" and u: "valid_utf8 system" "valid_utf8 model"
  shows "gj_string G (gj_get G (encodeReqMessages model system msgs) ''model'') = model \<and>
    decodeReqMessages G (encodeReqMessages model system msgs) = (system, msgs)"
proof -
  let ?sys = "\<lparr>cm_role = ''system'', cm_text = system\<rparr>"
  let ?all = "(if system \<noteq> [] then [?sys] else []) @ msgs"
  define v where "v = jmap [(''model'', JStr model), (''messages'', jslice (map msg_json ?all)), (''stream'', JBool True)]"
  have e: "v = JObj [(''messages'', JArr (map msg_json ?all)), (''model'', JStr model), (''stream'', JBool True)]"
    using m(2) by (simp add: v_def jmap_eval jslice_def)
  have s: "jwf (msg_json ?sys)" "jdepth (msg_json ?sys) \<le> 1"
    using u(1) utf8_roles by (simp_all add: msg_json_eq valid_utf8_ascii del: valid_utf8.simps(2))
  have ok: "jwf v" "jdepth v \<le> max_nesting"
    using msgs_json_ok [OF m(1)] s u by (auto simp: e max_nesting_def valid_utf8_ascii simp del: valid_utf8.simps(2))
  note g = reads_get [OF G ok]
  have "val (gj_get G (jencode True v) ''model'') = Some (JStr model)"
    using g [of "''model''"] by (simp add: e plain_key_def jfield_def)
  then have 1: "gj_string G (gj_get G (jencode True v) ''model'') = model" by (rule reads_string [OF G])
  have "val (gj_get G (jencode True v) ''system'') = None"
    using g [of "''system''"] by (simp add: e plain_key_def jfield_def)
  then have 2: "contentText G (gj_get G (jencode True v) ''system'') = []" by (rule contentText_missing [OF G])
  let ?each = "gj_each G (gj_get G (jencode True v) ''messages'')"
  have "val (gj_get G (jencode True v) ''messages'') = Some (JArr (map msg_json ?all))"
    using g [of "''messages''"] by (simp add: e plain_key_def jfield_def)
  then have each: "map (\<lambda>kv. val (snd kv)) ?each = map (\<lambda>m. Some (msg_json m)) ?all"
    using reads_each [OF G] by (simp add: comp_def)
  have 3: "fold (\<lambda>(_, m). req_message G m) ?each ([], []) = (system, msgs)"
  proof (cases "system = []")
    case True
    then show ?thesis using fold_messages [OF G m(1), of ?each] each by simp
  next
    case False
    then obtain x ys where x: "?each = x # ys" "val (snd x) = Some (msg_json ?sys)"
        "map (\<lambda>kv. val (snd kv)) ys = map (\<lambda>m. Some (msg_json m)) msgs"
      using each by (cases ?each) auto
    have "req_message G (snd x) ([], []) = (system, [])"
      using req_message_talk [OF G x(2)] False by (simp add: req_message_def Let_def roleOr_def)
    then show ?thesis using fold_messages [OF G m(1) x(3)] by (cases x) (simp add: x(1))
  qed
  have 4: "encodeReqMessages model system msgs = jencode True v"
    by (simp add: encodeReqMessages_def Let_def v_def)
  show ?thesis unfolding 4 using 1 2 3 by (simp add: decodeReqMessages_def)
qed

definition resp_msg_json :: "convo_msg \<Rightarrow> jval" where
  "resp_msg_json m = JObj [(''content'', JArr [JObj [(''text'', JStr (cm_text m)), (''type'', JStr ''input_text'')]]),
     (''role'', JStr (cm_role m))]"

lemma responses_request:
  assumes G: "gjson_reads G val" and m: "list_all talk msgs" "msgs \<noteq> []" and u: "valid_utf8 system" "valid_utf8 model"
  shows "gj_string G (gj_get G (encodeReqResponses model system msgs) ''model'') = model \<and>
    decodeReqResponses G (encodeReqResponses model system msgs) = (system, msgs)"
proof -
  define v where "v = jmap ([(''model'', JStr model),
       (''input'', jslice (map (\<lambda>m. jmap
         [(''role'', JStr (cm_role m)),
          (''content'', JArr [jmap [(''type'', JStr ''input_text''), (''text'', JStr (cm_text m))]])]) msgs)),
       (''stream'', JBool True)] @ with_system system (''instructions'', JStr system))"
  have e: "v = JObj ((''input'', JArr (map resp_msg_json msgs)) # with_system system (''instructions'', JStr system) @
      [(''model'', JStr model), (''stream'', JBool True)])"
    using m(2) by (simp add: v_def jmap_eval jslice_def resp_msg_json_def)
  have "\<forall>w \<in> set (map resp_msg_json msgs). jwf w" "foldr (\<lambda>w. max (jdepth w)) (map resp_msg_json msgs) 0 \<le> 3"
    using m(1) utf8_roles
    by (auto simp: resp_msg_json_def list_all_iff talk_def valid_utf8_ascii simp del: valid_utf8.simps(2) intro!: jarr_depth)
  then have ok: "jwf v" "jdepth v \<le> max_nesting"
    using u by (auto simp: e max_nesting_def valid_utf8_ascii simp del: valid_utf8.simps(2))
  note g = reads_get [OF G ok]
  have "val (gj_get G (jencode True v) ''model'') = Some (JStr model)"
    using g [of "''model''"] by (simp add: e plain_key_def jfield_def)
  then have 1: "gj_string G (gj_get G (jencode True v) ''model'') = model" by (rule reads_string [OF G])
  have "val (gj_get G (jencode True v) ''instructions'') = (if system = [] then None else Some (JStr system))"
    using g [of "''instructions''"] by (simp add: e plain_key_def jfield_def)
  then have 2: "gj_string G (gj_get G (jencode True v) ''instructions'') = system"
    using reads_string [OF G] reads_missing [OF G] by (cases "system = []") auto
  have i: "val (gj_get G (jencode True v) ''input'') = Some (JArr (map resp_msg_json msgs))"
    using g [of "''input''"] by (simp add: e plain_key_def jfield_def)
  then have each: "map (\<lambda>kv. val (snd kv)) (gj_each G (gj_get G (jencode True v) ''input'')) = map (\<lambda>m. Some (resp_msg_json m)) msgs"
    using reads_each [OF G] by (simp add: comp_def)
  have msg: "\<lparr>cm_role = roleOr (gj_string G (gj_sub G r ''role'')) ''user'', cm_text = contentText G (gj_sub G r ''content'')\<rparr> = m"
    if r: "val r = Some (resp_msg_json m)" and "m \<in> set msgs" for r m
  proof -
    have "val (gj_sub G r ''role'') = Some (JStr (cm_role m))"
      "val (gj_sub G r ''content'') = Some (JArr [JObj [(''text'', JStr (cm_text m)), (''type'', JStr ''input_text'')]])"
      using reads_sub [OF G, of "''role''" r] reads_sub [OF G, of "''content''" r] r
      by (simp_all add: plain_key_def resp_msg_json_def jfield_def)
    then have "gj_string G (gj_sub G r ''role'') = cm_role m" "contentText G (gj_sub G r ''content'') = cm_text m"
      using reads_string [OF G] contentText_block [OF G] by simp_all
    moreover have "cm_role m \<noteq> []" using m(1) \<open>m \<in> set msgs\<close> by (auto simp: list_all_iff talk_def)
    ultimately show ?thesis by (simp add: roleOr_def)
  qed
  have 3: "map (\<lambda>(_, r). \<lparr>cm_role = roleOr (gj_string G (gj_sub G r ''role'')) ''user'', cm_text = contentText G (gj_sub G r ''content'')\<rparr>)
      (gj_each G (gj_get G (jencode True v) ''input'')) = map (\<lambda>m. m) msgs"
    by (rule map_each [OF each msg])
  have "\<not> gj_is_string G (gj_get G (jencode True v) ''input'')" using i by (simp add: reads_is_string [OF G])
  then have "decodeReqResponses G (jencode True v) = (system, msgs)"
    using 2 3 by (simp add: decodeReqResponses_def Let_def)
  then show ?thesis unfolding encodeReqResponses_def v_def [symmetric] using 1 by simp
qed

definition gem_msg_json :: "convo_msg \<Rightarrow> jval" where
  "gem_msg_json m = JObj [(''parts'', JArr [JObj [(''text'', JStr (cm_text m))]]),
     (''role'', JStr (if cm_role m = ''assistant'' then ''model'' else cm_role m))]"

lemma gemini_request:
  assumes G: "gjson_reads G val" and m: "list_all talk msgs" "msgs \<noteq> []" and u: "valid_utf8 system"
  shows "gj_string G (gj_get G (encodeReqGemini model system msgs) ''model'') = [] \<and>
    decodeReqGemini G (encodeReqGemini model system msgs) = (system, msgs)"
proof -
  define v where "v = jmap ([(''contents'', jslice (map (\<lambda>m. jmap
         [(''role'', JStr (if cm_role m = ''assistant'' then ''model'' else cm_role m)),
          (''parts'', JArr [jmap [(''text'', JStr (cm_text m))]])]) msgs))] @
      with_system system (''systemInstruction'', jmap [(''parts'', JArr [jmap [(''text'', JStr system)]])]))"
  have e: "v = JObj ((''contents'', JArr (map gem_msg_json msgs)) #
      with_system system (''systemInstruction'', JObj [(''parts'', JArr [JObj [(''text'', JStr system)]])]))"
    using m(2) by (simp add: v_def jmap_eval jslice_def gem_msg_json_def)
  have "\<forall>w \<in> set (map gem_msg_json msgs). jwf w" "foldr (\<lambda>w. max (jdepth w)) (map gem_msg_json msgs) 0 \<le> 3"
    using m(1) utf8_roles
    by (auto simp: gem_msg_json_def list_all_iff talk_def valid_utf8_ascii simp del: valid_utf8.simps(2) intro!: jarr_depth)
  then have ok: "jwf v" "jdepth v \<le> max_nesting"
    using u by (auto simp: e max_nesting_def valid_utf8_ascii simp del: valid_utf8.simps(2))
  note g = reads_get [OF G ok]
  have "val (gj_get G (jencode True v) ''model'') = None"
    using g [of "''model''"] by (simp add: e plain_key_def jfield_def)
  then have 1: "gj_string G (gj_get G (jencode True v) ''model'') = []" using reads_missing [OF G] by blast
  have "val (gj_get G (jencode True v) ''systemInstruction.parts'') =
      (if system = [] then None else Some (JArr [JObj [(''text'', JStr system)]]))"
    using g [of "''systemInstruction.parts''"] by (simp add: e plain_key_def jfield_def)
  then have 2: "contentText G (gj_get G (jencode True v) ''systemInstruction.parts'') = system"
    using contentText_block [OF G] contentText_missing [OF G] by (cases "system = []") auto
  have "val (gj_get G (jencode True v) ''contents'') = Some (JArr (map gem_msg_json msgs))"
    using g [of "''contents''"] by (simp add: e plain_key_def jfield_def)
  then have each: "map (\<lambda>kv. val (snd kv)) (gj_each G (gj_get G (jencode True v) ''contents'')) = map (\<lambda>m. Some (gem_msg_json m)) msgs"
    using reads_each [OF G] by (simp add: comp_def)
  have msg: "(let role = roleOr (gj_string G (gj_sub G r ''role'')) ''user''
      in \<lparr>cm_role = (if role = ''model'' then ''assistant'' else role), cm_text = contentText G (gj_sub G r ''parts'')\<rparr>) = m"
    if r: "val r = Some (gem_msg_json m)" and "m \<in> set msgs" for r m
  proof -
    have "val (gj_sub G r ''role'') = Some (JStr (if cm_role m = ''assistant'' then ''model'' else cm_role m))"
      "val (gj_sub G r ''parts'') = Some (JArr [JObj [(''text'', JStr (cm_text m))]])"
      using reads_sub [OF G, of "''role''" r] reads_sub [OF G, of "''parts''" r] r
      by (simp_all add: plain_key_def gem_msg_json_def jfield_def)
    then have "gj_string G (gj_sub G r ''role'') = (if cm_role m = ''assistant'' then ''model'' else cm_role m)"
        "contentText G (gj_sub G r ''parts'') = cm_text m"
      using reads_string [OF G] contentText_block [OF G] by simp_all
    moreover have "cm_role m = ''user'' \<or> cm_role m = ''assistant''" using m(1) \<open>m \<in> set msgs\<close> by (auto simp: list_all_iff talk_def)
    ultimately show ?thesis by (cases m) (auto simp: roleOr_def Let_def)
  qed
  have 3: "map (\<lambda>(_, r). let role = roleOr (gj_string G (gj_sub G r ''role'')) ''user''
      in \<lparr>cm_role = (if role = ''model'' then ''assistant'' else role), cm_text = contentText G (gj_sub G r ''parts'')\<rparr>)
      (gj_each G (gj_get G (jencode True v) ''contents'')) = map (\<lambda>m. m) msgs"
    by (rule map_each [OF each msg])
  have "decodeReqGemini G (jencode True v) = (system, msgs)"
    using 2 3 by (simp add: decodeReqGemini_def)
  then show ?thesis unfolding encodeReqGemini_def v_def [symmetric] using 1 by simp
qed

lemma request_round_trip:
  assumes "gjson_reads G val" "list_all talk msgs" "msgs \<noteq> []" "valid_utf8 system" "valid_utf8 model"
  shows "DecodeRequest G p (EncodeRequest p model system msgs) =
    (if p = Gemini then [] else roleOr model ''model'', system, msgs)"
proof -
  let ?m = "if model = [] then ''model'' else model"
  have u: "valid_utf8 ?m" using assms(5) utf8_roles by simp
  note r = anthropic_request [OF assms(1-4) u] chat_request [OF assms(1-4) u] responses_request [OF assms(1-4) u]
    gemini_request [OF assms(1-4), of ?m]
  have m: "roleOr model ''model'' = ?m" by (simp add: roleOr_def)
  show ?thesis unfolding m
    by (cases p) (use r in \<open>simp_all add: DecodeRequest_def EncodeRequest_def reqDecode_def reqEncode_def dialectFor_def dialects_def\<close>)
qed

text \<open>
  Re-shaping a conversation into any dialect loses nothing: decoding the encoded request gives
  back the system prompt and the messages of user and assistant, and the model unless the dialect
  carries it in the URL.
\<close>

theorem DecodeRequest_EncodeRequest:
  assumes "gjson_reads G val" "list_all talk msgs" "msgs \<noteq> []" "valid_utf8 system" "valid_utf8 model"
  shows "DecodeRequest G p (EncodeRequest p model system msgs) =
    (if p = Gemini then [] else roleOr model ''model'', system, msgs)"
  using assms by (rule request_round_trip)

lemma DecodeRequest_EncodeRequest_witness:
  "DecodeRequest jval_gjson OpenAIChat (EncodeRequest OpenAIChat ''m'' ''be kind'' [\<lparr>cm_role = ''user'', cm_text = ''hi''\<rparr>]) =
     (''m'', ''be kind'', [\<lparr>cm_role = ''user'', cm_text = ''hi''\<rparr>])"
  by (subst DecodeRequest_EncodeRequest [OF jval_gjson_reads])
    (simp_all add: talk_def roleOr_def valid_utf8_ascii del: valid_utf8.simps(2))

section \<open>Compiled recordings\<close>

definition key_rederives :: "golib \<Rightarrow> interaction \<Rightarrow> bool" where
  "key_rederives gl it =
     (if it_kind it = ''mcp'' then MCPKey (it_request it) zero_config = rq_match_key (it_request it)
      else HTTPKey gl (it_request it) zero_config = Inr (rq_match_key (it_request it)))"

lemma json_ct_get:
  "headers_Get json_ct ''Content-Encoding'' = []" "headers_Get json_ct ''Content-Type'' = ''application/json''"
  by code_simp+

lemma Key_ignores_header: "Key gl (inp\<lparr>in_header := h\<rparr>) zero_config = Key gl inp zero_config"
  by (simp add: Key_def zero_config_def header_part_def split: sum.split)

lemma HTTPKey_json:
  assumes "rq_headers r = json_ct"
  shows "HTTPKey gl r zero_config = json_key gl (rq_method r) (rq_url r) (Bytes (rq_body r))"
proof -
  have "\<not> str_contains (to_lower []) ''gzip''" by (simp add: to_lower_def str_contains_def)
  then show ?thesis
    using Key_ignores_header [where gl = gl and inp = "\<lparr>in_method = rq_method r, in_path = rq_url r, in_body = Bytes (rq_body r),
        in_ctype = ''application/json'', in_header = None\<rparr>" and h = "Some (ToHTTP json_ct)"] assms
    by (simp add: HTTPKey_def DecodeBody_def json_ct_get del: headers_Get.simps)
qed

lemma json_key_total: "\<exists>k. json_key gl meth path body = Inr k"
proof -
  have "ParseMediaType ''application/json'' = (''application/json'', [])" by code_simp
  moreover have "str_contains ''application/json'' ''json''" by code_simp
  ultimately show ?thesis
    by (simp add: Key_def zero_config_def bodyDigest_def split: option.split)
qed

lemma compileMCP_key: "compileMCPTurn isprint f64 i t = Inr it \<Longrightarrow> key_rederives gl it \<and> it_kind it = ''mcp''"
  by (auto simp: compileMCPTurn_def Let_def mcp_interaction_def key_rederives_def MCPKey_def CallKey_def ListKey_def
      zero_config_def Bytes_NewBody split: if_splits sum.splits)

lemma compile_http_key:
  assumes "compile_http gl pr p path model i msgs t = Inr it"
  shows "key_rederives gl it \<and> it_kind it = ''http''"
proof -
  obtain body resp key url where it: "it = \<lparr>it_kind = ''http'', it_request = \<lparr>rq_method = ''POST'', rq_url = url, rq_headers = json_ct,
        rq_mcp_method = [], rq_mcp_tool = [], rq_body = NewBody body, rq_body_sha = [], rq_match_key = key\<rparr>, it_response = resp\<rparr>"
      "json_key gl ''POST'' url body = Inr key"
    using assms by (auto simp: compile_http_def Let_def split: if_splits sum.splits)
  then show ?thesis by (simp add: key_rederives_def HTTPKey_json Bytes_NewBody)
qed

lemma compile_loop_keys:
  "compile_loop gl isprint f64 pr model i msgs ts = Inr its \<Longrightarrow>
   list_all (key_rederives gl) its \<and> map (\<lambda>it. it_kind it = ''mcp'') its = map (\<lambda>t. sp_kind t = ''mcp'') ts"
proof (induction gl isprint f64 pr model i msgs ts arbitrary: its rule: compile_loop.induct)
  case (2 gl isprint f64 pr model i msgs t ts)
  show ?case
  proof (cases "sp_kind t = ''mcp''")
    case True
    then obtain it its' where i: "compileMCPTurn isprint f64 i t = Inr it" "its = it # its'"
        "compile_loop gl isprint f64 pr model (Suc i) msgs ts = Inr its'"
      using "2.prems" by (auto split: sum.splits simp: map_sum_def)
    then show ?thesis using "2.IH"(1) [OF True i(1) i(3)] compileMCP_key [OF i(1)] True by simp
  next
    case False
    then obtain p path where r: "ProviderRouting isprint pr = Inr (p, path)"
      using "2.prems" by (auto split: sum.splits)
    let ?msgs = "msgs @ [\<lparr>cm_role = ''user'', cm_text = sp_user t\<rparr>]"
    obtain it its' where i: "compile_http gl pr p path model i ?msgs t = Inr it" "its = it # its'"
        "compile_loop gl isprint f64 pr model (Suc i) (?msgs @ [\<lparr>cm_role = ''assistant'', cm_text = assistantHistory t\<rparr>]) ts = Inr its'"
      using "2.prems" False r by (auto split: sum.splits simp: map_sum_def Let_def)
    show ?thesis using "2.IH"(2) [OF False r refl refl i(1) i(3)] compile_http_key [OF i(1)] False i(2) by simp
  qed
qed simp

text \<open>
  C21. A compiled screenplay needs no rekeying: it has one interaction for each turn, of the turn's
  kind, and every stored match key is the one the replayer derives from the stored request.
\<close>

theorem Compile_keys_rederive:
  "case Compile gl isprint f64 s of
     Inl _ \<Rightarrow> True
   | Inr f \<Rightarrow> list_all (key_rederives gl) (wf_its f) \<and>
       map (\<lambda>it. it_kind it = ''mcp'') (wf_its f) = map (\<lambda>t. sp_kind t = ''mcp'') (sp_turns s)"
proof (cases "Compile gl isprint f64 s")
  case (Inr f)
  then obtain its where "compile_loop gl isprint f64 (sp_provider s) (if sp_model s = [] then ''model'' else sp_model s) 0 [] (sp_turns s) = Inr its"
      "f = empty_file\<lparr>wf_its := its\<rparr>"
    by (auto simp: Compile_def map_sum_def split: sum.splits if_splits)
  with compile_loop_keys [OF this(1)] show ?thesis using Inr by simp
qed simp

text \<open>An HTTP screenplay compiles when its provider is known, its overrides are JSON and it has a turn.\<close>

definition http_turn_ok :: "screenplay_turn \<Rightarrow> bool" where
  "http_turn_ok t = (sp_kind t \<noteq> ''mcp'' \<and> (TrimSpace (sp_request t) = [] \<or> json_valid (sp_request t)) \<and> sp_url t = [])"

lemma compile_http_total:
  assumes "http_turn_ok t"
  shows "\<exists>it. compile_http gl pr p path model i msgs t = Inr it \<and> rq_url (it_request it) = path \<and>
    it_response it = streamResponse (w_Encode p (Normalize (authored_turn t)) (author_env model i t)) \<and> it_kind it = ''http''"
  using assms json_key_total [of gl "''POST''" path]
  by (auto simp: compile_http_def Let_def http_turn_ok_def split: sum.split) (metis Inl_Inr_False)+

lemma compile_loop_total:
  assumes "ProviderRouting isprint pr = Inr (p, path)"
  shows "list_all http_turn_ok ts \<Longrightarrow>
   \<exists>its. compile_loop gl isprint f64 pr model i msgs ts = Inr its \<and>
     list_all2 (\<lambda>it (j, t). rq_url (it_request it) = path \<and> it_kind it = ''http'' \<and>
        it_response it = streamResponse (w_Encode p (Normalize (authored_turn t)) (author_env model j t))) its (enumerate i ts)"
proof (induction ts arbitrary: i msgs)
  case (Cons t ts)
  let ?msgs = "msgs @ [\<lparr>cm_role = ''user'', cm_text = sp_user t\<rparr>]"
  obtain it where it: "compile_http gl pr p path model i ?msgs t = Inr it" "rq_url (it_request it) = path" "it_kind it = ''http''"
    "it_response it = streamResponse (w_Encode p (Normalize (authored_turn t)) (author_env model i t))"
    using compile_http_total [of t gl pr p path model i ?msgs] Cons.prems by auto
  obtain its where its: "compile_loop gl isprint f64 pr model (Suc i) (?msgs @ [\<lparr>cm_role = ''assistant'', cm_text = assistantHistory t\<rparr>]) ts = Inr its"
     "list_all2 (\<lambda>it (j, t). rq_url (it_request it) = path \<and> it_kind it = ''http'' \<and>
        it_response it = streamResponse (w_Encode p (Normalize (authored_turn t)) (author_env model j t))) its (enumerate (Suc i) ts)"
    using Cons.IH [of "Suc i"] Cons.prems by fastforce
  have "sp_kind t \<noteq> ''mcp''" using Cons.prems by (simp add: http_turn_ok_def)
  then show ?case using it its assms by (simp add: Let_def)
qed simp

lemma routing_path: "ProviderRouting isprint pr = Inr (p, path) \<Longrightarrow> ProviderForURL path = p \<and> d_provider (dialectFor p) = p"
proof -
  assume a: "ProviderRouting isprint pr = Inr (p, path)"
  then have "ProviderByName (if pr = [] then ''anthropic'' else pr) = Some p" "path = RequestPath p"
    by (auto simp: ProviderRouting_def Let_def split: option.splits)
  moreover have "q \<in> {Anthropic, OpenAIChat, OpenAIResponses, Gemini, Ollama}" if "ProviderByName n = Some q" for n q
    using that by (auto simp: ProviderByName_def dialects_def split: if_splits)
  ultimately have "p \<in> {Anthropic, OpenAIChat, OpenAIResponses, Gemini, Ollama}" "path = RequestPath p" by blast+
  moreover have "list_all (\<lambda>p. ProviderForURL (RequestPath p) = p \<and> d_provider (dialectFor p) = p)
      [Anthropic, OpenAIChat, OpenAIResponses, Gemini, Ollama]"
    by (simp add: ProviderForURL_def RequestPath_def dialectFor_def dialects_def str_contains_def)
  ultimately show ?thesis by auto
qed

text \<open>
  C18. A screenplay of HTTP turns for a known provider compiles, and its recording replays what was
  written: the response of every turn decodes to the authored reply, with canonical arguments.
\<close>

theorem Compile_replays_authored:
  assumes "ProviderRouting isprint (sp_provider s) = Inr (p, path)" "list_all http_turn_ok (sp_turns s)" "sp_turns s \<noteq> []"
    "list_all (\<lambda>(i, t). codec_ok p (authored_turn t) (author_env (roleOr (sp_model s) ''model'') i t) \<and>
       length (w_Encode p (authored_turn t) (author_env (roleOr (sp_model s) ''model'') i t)) < max_token) (enumerate 0 (sp_turns s))"
  shows "\<exists>f. Compile gl isprint f64 s = Inr f \<and>
    map (decodeResponse G) (wf_its f) = map (\<lambda>t. wire_turn p (authored_turn t)) (sp_turns s)"
proof -
  let ?model = "roleOr (sp_model s) ''model''"
  obtain its where its: "compile_loop gl isprint f64 (sp_provider s) ?model 0 [] (sp_turns s) = Inr its"
     "list_all2 (\<lambda>it (j, t). rq_url (it_request it) = path \<and> it_kind it = ''http'' \<and>
        it_response it = streamResponse (w_Encode p (Normalize (authored_turn t)) (author_env ?model j t))) its (enumerate 0 (sp_turns s))"
    using compile_loop_total [OF assms(1,2)] by blast
  have c: "Compile gl isprint f64 s = Inr (empty_file\<lparr>wf_its := its\<rparr>)"
    using its(1) assms(3) by (simp add: Compile_def roleOr_def)
  have len: "length its = length (sp_turns s)" using list_all2_lengthD [OF its(2)] by simp
  have "decodeResponse G (its ! i) = wire_turn p (authored_turn (sp_turns s ! i))" if i: "i < length its" for i
  proof -
    have it: "rq_url (it_request (its ! i)) = path" "it_kind (its ! i) = ''http''"
        "it_response (its ! i) = streamResponse (w_Encode p (authored_turn (sp_turns s ! i)) (author_env ?model i (sp_turns s ! i)))"
      using list_all2_nthD [OF its(2) i] i len by (simp_all add: nth_enumerate_eq encode_normalized)
    have "codec_ok p (authored_turn (sp_turns s ! i)) (author_env ?model i (sp_turns s ! i)) \<and>
        length (w_Encode p (authored_turn (sp_turns s ! i)) (author_env ?model i (sp_turns s ! i))) < max_token"
      using assms(4) i len by (auto simp: list_all_length nth_enumerate_eq)
    then have "w_Decode p (w_Encode p (authored_turn (sp_turns s ! i)) (author_env ?model i (sp_turns s ! i))) =
        (wire_turn p (authored_turn (sp_turns s ! i)), None)"
      using decode_of_encode_all routing_path [OF assms(1)] by metis
    then show ?thesis using it routing_path [OF assms(1)]
      by (simp add: decodeResponse_def DecodeInteraction_def Let_def streamResponse_def NewBody_def encode_not_empty Bytes_def)
  qed
  then have "map (decodeResponse G) its = map (\<lambda>t. wire_turn p (authored_turn t)) (sp_turns s)"
    using len by (simp add: list_eq_iff_nth_eq)
  then show ?thesis using c by simp
qed

abbreviation no_golib :: golib where
  "no_golib \<equiv> \<lparr>gl_gunzip = (\<lambda>_. None), gl_parts = (\<lambda>_ _. None)\<rparr>"

definition sample_play :: screenplay where
  "sample_play = \<lparr>sp_provider = ''ollama'', sp_model = [], sp_turns =
     [\<lparr>sp_kind = [], sp_user = ''hi'', sp_text = ''yo'', sp_tools = [], sp_finish = ''stop'', sp_request = [], sp_url = [],
       sp_in = 0, sp_out = 0, sp_method = [], sp_tool = [], sp_args = [], sp_result = [], sp_tool_error = []\<rparr>]\<rparr>"

lemma Compile_replays_authored_witness:
  "\<exists>f. Compile no_golib (\<lambda>_. True) (\<lambda>_. None) sample_play = Inr f \<and>
    map (decodeResponse null_gjson) (wf_its f) = map (\<lambda>t. wire_turn Ollama (authored_turn t)) (sp_turns sample_play)"
proof (rule Compile_replays_authored)
  show "ProviderRouting (\<lambda>_. True) (sp_provider sample_play) = Inr (Ollama, RequestPath Ollama)"
    by (simp add: ProviderRouting_def sample_play_def ProviderByName_def dialects_def)
  show "list_all http_turn_ok (sp_turns sample_play)"
    by (simp add: sample_play_def http_turn_ok_def TrimSpace_def Let_def)
  show "sp_turns sample_play \<noteq> []" by (simp add: sample_play_def)
  let ?t = "hd (sp_turns sample_play)"
  have "int (length (EncodeOllamaNDJSON (authored_turn ?t) (author_env ''model'' 0 ?t))) < 16777216" by code_simp
  then have l: "length (w_Encode Ollama (authored_turn ?t) (author_env ''model'' 0 ?t)) < max_token"
    by (simp add: codec_dispatch max_token_def)
  have "codec_ok Ollama (authored_turn ?t) (author_env ''model'' 0 ?t)"
    by (simp add: codec_ok_def utf8_env_def utf8_turn_def author_env_def authored_turn_def sample_play_def args_shallow_def
        valid_utf8_append_ascii valid_utf8_ascii del: valid_utf8.simps(2))
  then show "list_all (\<lambda>(i, t). codec_ok Ollama (authored_turn t) (author_env (roleOr (sp_model sample_play) ''model'') i t) \<and>
       length (w_Encode Ollama (authored_turn t) (author_env (roleOr (sp_model sample_play) ''model'') i t)) < max_token)
      (enumerate 0 (sp_turns sample_play))"
    using l by (simp add: sample_play_def roleOr_def)
qed

section \<open>Porting\<close>

definition port_bounds :: "'r gjson \<Rightarrow> provider \<Rightarrow> nat \<Rightarrow> interaction \<Rightarrow> bool" where
  "port_bounds G to' i it =
     (it_kind it \<noteq> ''http'' \<or>
      (let t = decodeResponse G it in
       (to' = Gemini \<or> to' = Ollama \<longrightarrow> args_shallow t \<and> list_all (\<lambda>c. Canonicalize (tc_Args c) \<noteq> None) (t_ToolCalls t)) \<and>
       length (t_ToolCalls t) < 2 ^ 62 \<and> length (w_Encode to' t (port_env G i it)) < max_token \<and>
       valid_utf8 (portModel G (Bytes (rq_body (it_request it))))))"

definition ported_ok :: "golib \<Rightarrow> 'r gjson \<Rightarrow> provider \<Rightarrow> interaction \<Rightarrow> interaction \<Rightarrow> bool" where
  "ported_ok gl G to' it it' =
     (DecodeInteraction G it' = DecodeInteraction G it \<and>
      (it' = it \<or> key_rederives gl it' \<and> ProviderForURL (rq_url (it_request it')) = to'))"

lemma registry_route: "d_provider (dialectFor p) = p \<Longrightarrow> ProviderForURL (RequestPath p) = p"
  by (cases p) (simp_all add: ProviderForURL_def RequestPath_def dialectFor_def dialects_def str_contains_def)

lemma port_it_ok:
  assumes p: "d_provider (dialectFor to') = to'" and b: "port_bounds G to' i it"
  shows "\<exists>it' c. port_it gl G to' i it = Inr (it', c) \<and> ported_ok gl G to' it it'"
proof -
  let ?src = "ProviderForURL (rq_url (it_request it))"
  obtain t u r where d: "DecodeInteraction G it = (t, u, r)" by (cases "DecodeInteraction G it")
  obtain tr e where w: "w_Decode ?src (Bytes (rs_body (it_response it))) = (tr, e)" by (cases "w_Decode ?src (Bytes (rs_body (it_response it)))")
  show ?thesis
  proof (cases "it_kind it \<noteq> ''http'' \<or> ?src = to' \<or> u \<or> \<not> r \<or> e \<noteq> None")
    case True
    then have "port_it gl G to' i it = Inr (it, False)" using d w by (auto simp: port_it_def Let_def)
    then show ?thesis by (auto simp: ported_ok_def)
  next
    case False
    then have k: "it_kind it = ''http''" and f: "?src \<noteq> to'" "\<not> u" "r" "e = None" by auto
    have t: "t = tr" using streaming_turn(3) [of G it t] d k f w by simp
    have g: "turn_good t" "Normalize t = t" using decoded_good [of ?src "Bytes (rs_body (it_response it))" t] w t by simp_all
    have dr: "decodeResponse G it = t" by (simp add: decodeResponse_def d)
    have bb: "to' = Gemini \<or> to' = Ollama \<Longrightarrow> args_shallow t \<and> list_all (\<lambda>c. Canonicalize (tc_Args c) \<noteq> None) (t_ToolCalls t)"
      "length (t_ToolCalls t) < 2 ^ 62" "length (w_Encode to' t (port_env G i it)) < max_token"
      "valid_utf8 (portModel G (Bytes (rq_body (it_request it))))"
      using b k dr unfolding port_bounds_def Let_def by blast+
    note wt = decoded_wire_turn [OF g bb(1,2)]
    have "utf8_env (port_env G i it)"
      using bb(4) by (simp add: utf8_env_def port_env_def valid_utf8_append_ascii valid_utf8_ascii del: valid_utf8.simps(2))
    then have ok: "codec_ok to' t (port_env G i it)" using wt(1) by (simp add: codec_ok_def)
    have dec: "w_Decode to' (w_Encode to' t (port_env G i it)) = (t, None)"
      using decode_of_encode_all [OF ok bb(3)] wt(2) by simp
    obtain model system msgs where q: "DecodeRequest G ?src (Bytes (rq_body (it_request it))) = (model, system, msgs)"
      by (cases "DecodeRequest G ?src (Bytes (rq_body (it_request it)))")
    let ?body = "EncodeRequest to' model system msgs"
    obtain key where key: "json_key gl (rq_method (it_request it)) (RequestPath to') ?body = Inr key"
      using json_key_total by blast
    let ?it = "\<lparr>it_kind = ''http'',
       it_request = \<lparr>rq_method = rq_method (it_request it), rq_url = RequestPath to', rq_headers = json_ct,
         rq_mcp_method = [], rq_mcp_tool = [], rq_body = NewBody ?body, rq_body_sha = [], rq_match_key = key\<rparr>,
       it_response = streamResponse (w_Encode to' t (port_env G i it))\<rparr>"
    have 1: "port_it gl G to' i it = Inr (?it, True)"
      using d k f w t q key by (simp add: port_it_def Let_def)
    have 2: "DecodeInteraction G ?it = (t, False, True)"
      using dec registry_route [OF p]
      by (simp add: DecodeInteraction_def Let_def streamResponse_def NewBody_def encode_not_empty Bytes_def)
    have 3: "key_rederives gl ?it" using key by (simp add: key_rederives_def HTTPKey_json Bytes_NewBody)
    have "ported_ok gl G to' it ?it" using 2 3 d f registry_route [OF p] by (simp add: ported_ok_def)
    then show ?thesis using 1 by blast
  qed
qed

lemma port_loop_ok:
  assumes p: "d_provider (dialectFor to') = to'"
  shows "list_all (\<lambda>(j, it). port_bounds G to' j it) (enumerate i its) \<Longrightarrow>
    \<exists>rs. port_loop gl G to' i its = Inr rs \<and> list_all2 (ported_ok gl G to') its (map fst rs)"
proof (induction its arbitrary: i)
  case (Cons it its)
  obtain it' c where it: "port_it gl G to' i it = Inr (it', c)" "ported_ok gl G to' it it'"
    using port_it_ok [OF p, of G i it gl] Cons.prems by auto
  obtain rs where "port_loop gl G to' (Suc i) its = Inr rs" "list_all2 (ported_ok gl G to') its (map fst rs)"
    using Cons.IH [of "Suc i"] Cons.prems by auto
  then show ?case using it by simp
qed simp

lemma CollectTurns_cong:
  assumes "map (DecodeInteraction G) (wf_its g) = map (DecodeInteraction G) (wf_its f)"
  shows "CollectTurns G g = CollectTurns G f"
proof -
  let ?h = "\<lambda>(tr, _, ok). if ok then Some tr else None"
  have "CollectTurns G f = List.map_filter ?h (map (DecodeInteraction G) (wf_its f))" for f
    unfolding CollectTurns_def by (induction "wf_its f" arbitrary: f) (simp_all add: map_filter_def comp_def filter_map)
  then show ?thesis using assms by simp
qed

text \<open>
  C19. Porting a recording to another dialect keeps every turn: each interaction decodes as before,
  so the conversation and its digests are unchanged, and an interaction that was transpiled routes
  to the target dialect and carries a key that re-derives.
\<close>

theorem Port_keeps_behaviour:
  assumes "d_provider (dialectFor to') = to'" "list_all (\<lambda>(i, it). port_bounds G to' i it) (enumerate 0 (wf_its f))"
  shows "\<exists>g n. Port gl G f to' = Inr (g, n) \<and> list_all2 (ported_ok gl G to') (wf_its f) (wf_its g) \<and>
    CollectTurns G g = CollectTurns G f"
proof -
  obtain rs where rs: "port_loop gl G to' 0 (wf_its f) = Inr rs" "list_all2 (ported_ok gl G to') (wf_its f) (map fst rs)"
    using port_loop_ok [OF assms] by blast
  have "map (DecodeInteraction G) (map fst rs) = map (DecodeInteraction G) (wf_its f)"
    using rs(2) by (induction rule: list_all2_induct) (simp_all add: ported_ok_def)
  then have "CollectTurns G (empty_file\<lparr>wf_notice := wf_notice f, wf_expect := wf_expect f, wf_its := map fst rs\<rparr>) = CollectTurns G f"
    by (intro CollectTurns_cong) simp
  then show ?thesis using rs by (simp add: Port_def)
qed

lemma Port_keeps_behaviour_witness:
  "\<exists>g n. Port no_golib null_gjson ollama_file OpenAIChat = Inr (g, n) \<and> CollectTurns null_gjson g = CollectTurns null_gjson ollama_file"
proof -
  have p: "d_provider (dialectFor OpenAIChat) = OpenAIChat" by (simp add: dialectFor_def dialects_def)
  have m: "portModel null_gjson b = ''model''" for b by (simp add: portModel_def null_gjson_def)
  have "int (length (EncodeOpenAISSE ollama_text (envelope0\<lparr>e_MessageID := ''msg_ported_'' @ itoa 1, e_ModelID := ''model''\<rparr>))) < 16777216"
    by code_simp
  then have "length (w_Encode OpenAIChat ollama_text (envelope0\<lparr>e_MessageID := ''msg_ported_'' @ itoa 1, e_ModelID := ''model''\<rparr>)) < max_token"
    by (simp add: codec_dispatch max_token_def)
  then have "port_bounds null_gjson OpenAIChat 0 ollama_turn"
    using ollama_decodes [of null_gjson]
    by (simp add: port_bounds_def decodeResponse_def port_env_def m valid_utf8_ascii del: valid_utf8.simps(2))
  then have "list_all (\<lambda>(i, it). port_bounds null_gjson OpenAIChat i it) (enumerate 0 (wf_its ollama_file))" by simp
  from Port_keeps_behaviour [OF p this, of no_golib] show ?thesis by blast
qed

end
