(* ===== verification/Mutate.thy ===== *)
theory Mutate
  imports Stream Codec
begin

text \<open>
  mutate/mutate.go: deterministic, hostile variants of a recorded event stream.  An operator maps
  the frames of a stream, and the state of the random generator, to the frames of the variant; the
  operators of the package leave the generator alone.  A nil operator is None.
\<close>

section \<open>Applying operators\<close>

type_synonym 'g mut_op = "bytes list \<Rightarrow> 'g \<Rightarrow> bytes list \<times> 'g"

function splitFrames :: "bytes \<Rightarrow> bytes list" where
  "splitFrames rest =
     (case str_index sse_sep rest of
        None \<Rightarrow> if 0 < length rest then [rest] else []
      | Some i \<Rightarrow> take (i + length sse_sep) rest # splitFrames (drop (i + length sse_sep) rest))"
  by pat_completeness auto
termination
  by (relation "measure length") (auto dest: str_index_bound simp: sse_sep_def)

declare splitFrames.simps [simp del]

fun apply_ops :: "'g mut_op option list \<Rightarrow> bytes list \<Rightarrow> 'g \<Rightarrow> bytes list" where
  "apply_ops [] fs g = fs"
| "apply_ops (None # ops) fs g = apply_ops ops fs g"
| "apply_ops (Some f # ops) fs g = (case f fs g of (fs', g') \<Rightarrow> apply_ops ops fs' g')"

definition mut_Apply :: "bytes \<Rightarrow> 'g \<Rightarrow> 'g mut_op option list \<Rightarrow> bytes" where
  "mut_Apply raw g ops = concat (apply_ops ops (splitFrames raw) g)"

section \<open>The operators\<close>

definition TruncateAfterFrame :: "int \<Rightarrow> 'g mut_op" where
  "TruncateAfterFrame n fs g = (if n < 0 \<or> int (length fs) \<le> n then fs else take (nat n) fs, g)"

definition DropTerminalEvent :: "'g mut_op" where
  "DropTerminalEvent fs g = (if fs = [] then fs else take (length fs - 1) fs, g)"

definition DuplicateFrame :: "int \<Rightarrow> 'g mut_op" where
  "DuplicateFrame i fs g =
     (if i < 0 \<or> int (length fs) \<le> i then fs
      else take (nat i + 1) fs @ [fs ! nat i] @ drop (nat i + 1) fs, g)"

definition delta_frame :: "bytes \<Rightarrow> bool" where
  "delta_frame f = (str_contains f ''content_block_delta'' \<or> str_contains f ''\"delta\"'')"

definition delta_indices :: "bytes list \<Rightarrow> nat list" where
  "delta_indices fs = filter (\<lambda>i. delta_frame (fs ! i)) [0 ..< length fs]"

text \<open>The loop over the indices from both ends; \<open>b\<close> starts at the length less one.\<close>

function swap_loop :: "nat list \<Rightarrow> nat \<Rightarrow> nat \<Rightarrow> bytes list \<Rightarrow> bytes list" where
  "swap_loop idx a b fs =
     (if a < b then
        swap_loop idx (a + 1) (b - 1) (fs[idx ! a := fs ! (idx ! b), idx ! b := fs ! (idx ! a)])
      else fs)"
  by pat_completeness auto
termination by (relation "measure (\<lambda>(idx, a, b, fs). b - a)") auto

declare swap_loop.simps [simp del]

definition ReorderContentDeltas :: "'g mut_op" where
  "ReorderContentDeltas fs g =
     (let idx = delta_indices fs in (swap_loop idx 0 (length idx - 1) fs, g))"

text \<open>The first marker found in a frame, and the frame with a brace behind it.\<close>

definition brace_after :: "bytes \<Rightarrow> bytes \<Rightarrow> bytes option" where
  "brace_after marker f =
     (case str_index marker f of
        None \<Rightarrow> None
      | Some j \<Rightarrow> Some (take (j + length marker) f @ ''}'' @ drop (j + length marker) f))"

definition corrupt_frame :: "bytes \<Rightarrow> bytes option" where
  "corrupt_frame f =
     (case brace_after ''\"partial_json\":\"'' f of Some nf \<Rightarrow> Some nf | None \<Rightarrow> brace_after ''\"arguments\":\"'' f)"

fun first_frame :: "(bytes \<Rightarrow> bytes option) \<Rightarrow> bytes list \<Rightarrow> bytes list" where
  "first_frame h [] = []"
| "first_frame h (f # fs) = (case h f of Some nf \<Rightarrow> nf # fs | None \<Rightarrow> f # first_frame h fs)"

definition CorruptToolArgs :: "'g mut_op" where
  "CorruptToolArgs fs g = (first_frame corrupt_frame fs, g)"

definition error_event :: "string \<Rightarrow> bytes" where
  "error_event message =
     ''event: error'' @ [newline] @ ''data: {\"type\":\"error\",\"error\":{\"type\":\"overloaded_error\",\"message\":\"'' @
     message @ ''\"}}'' @ [newline, newline]"

definition InjectError :: "string \<Rightarrow> 'g mut_op" where
  "InjectError message fs g =
     (if fs = [] then [error_event message]
      else take (length fs - 1) fs @ [error_event message] @ drop (length fs - 1) fs, g)"

definition lead_length :: "char \<Rightarrow> nat" where
  "lead_length c = (if 240 \<le> (byte_of c :: nat) then 4 else if 224 \<le> (byte_of c :: nat) then 3 else 2)"

text \<open>The loop over the bytes of a frame from position \<open>j\<close> on.\<close>

function cut_multibyte :: "nat \<Rightarrow> bytes \<Rightarrow> bytes option" where
  "cut_multibyte j f =
     (if j < length f then
        (let n = lead_length (f ! j) in
         if 192 \<le> (byte_of (f ! j) :: nat) \<and> j + n \<le> length f then Some (take (j + n - 1) f @ drop (j + n) f)
         else cut_multibyte (j + 1) f)
      else None)"
  by pat_completeness auto
termination by (relation "measure (\<lambda>(j, f). length f - j)") auto

declare cut_multibyte.simps [simp del]

definition DropLastByteOfMultibyte :: "'g mut_op" where
  "DropLastByteOfMultibyte fs g = (first_frame (cut_multibyte 0) fs, g)"

section \<open>Lemmas\<close>

lemma splitFrames_split: "splitFrames raw = splitSSEFrames raw"
  by (induction raw rule: splitFrames.induct)
     (subst splitFrames.simps, subst splitSSEFrames.simps, simp add: sse_sep_def split: option.split)

lemma delta_indices_bound: "i \<in> set (delta_indices fs) \<Longrightarrow> i < length fs"
  by (simp add: delta_indices_def)

lemma delta_indices_distinct: "distinct (delta_indices fs)"
  by (simp add: delta_indices_def)

lemma filter_by_index: "filter P xs = map ((!) xs) (filter (\<lambda>i. P (xs ! i)) [0 ..< length xs])"
proof -
  have "filter P xs = filter P (map ((!) xs) [0 ..< length xs])" by (simp add: map_nth)
  then show ?thesis by (simp add: filter_map o_def)
qed

lemma delta_frames_indices: "filter delta_frame fs = map ((!) fs) (delta_indices fs)"
  unfolding delta_indices_def by (rule filter_by_index)

lemma swap_loop_length: "length (swap_loop idx a b fs) = length fs"
  by (induction idx a b fs rule: swap_loop.induct) (subst swap_loop.simps, simp)

lemma swap_loop_nth:
  assumes "distinct idx" "\<And>k. k < length idx \<Longrightarrow> idx ! k < length fs" "b < length idx"
  shows "(\<forall>k. a \<le> k \<longrightarrow> k \<le> b \<longrightarrow> swap_loop idx a b fs ! (idx ! k) = fs ! (idx ! (a + b - k))) \<and>
    (\<forall>i. i \<notin> (!) idx ` {a..b} \<longrightarrow> swap_loop idx a b fs ! i = fs ! i)"
  using assms
proof (induction idx a b fs rule: swap_loop.induct)
  case (1 idx a b fs)
  let ?fs = "fs[idx ! a := fs ! (idx ! b), idx ! b := fs ! (idx ! a)]"
  show ?case
  proof (cases "a < b")
    case True
    have step: "swap_loop idx a b fs = swap_loop idx (a + 1) (b - 1) ?fs" using True by (subst swap_loop.simps) simp
    have IH: "a + 1 \<le> k \<Longrightarrow> k \<le> b - 1 \<Longrightarrow> swap_loop idx a b fs ! (idx ! k) = ?fs ! (idx ! (a + b - k))"
      "i \<notin> (!) idx ` {a + 1..b - 1} \<Longrightarrow> swap_loop idx a b fs ! i = ?fs ! i" for k i
      using 1(1) [OF True 1(2)] 1(3,4) True unfolding step by auto
    have eq: "idx ! k = idx ! l \<longleftrightarrow> k = l" if "k \<le> b" "l \<le> b" for k l
      using that 1(2,4) by (simp add: nth_eq_iff_index_eq)
    have at: "?fs ! (idx ! k) = (if k = a then fs ! (idx ! b) else if k = b then fs ! (idx ! a) else fs ! (idx ! k))" if "k \<le> b" for k
      using that True 1(3,4) eq [of k a] eq [of k b] eq [of a b] by (auto simp: nth_list_update)
    have out: "idx ! a \<notin> (!) idx ` {a + 1..b - 1}" "idx ! b \<notin> (!) idx ` {a + 1..b - 1}"
      using eq True by fastforce+
    show ?thesis
    proof (intro conjI allI impI)
      fix k assume "a \<le> k" "k \<le> b"
      then consider "k = a" | "k = b" | "a + 1 \<le> k" "k \<le> b - 1" by linarith
      then show "swap_loop idx a b fs ! (idx ! k) = fs ! (idx ! (a + b - k))"
      proof cases
        case 3
        then have "a + b - k \<noteq> a" "a + b - k \<noteq> b" "a + b - k \<le> b" by linarith+
        then show ?thesis using IH(1) [OF 3] at [of "a + b - k"] by simp
      qed (use IH(2) out at [of a] at [of b] True in auto)
    next
      fix i assume i: "i \<notin> (!) idx ` {a..b}"
      then have "i \<noteq> idx ! a" "i \<noteq> idx ! b" "i \<notin> (!) idx ` {a + 1..b - 1}" using True by auto
      then show "swap_loop idx a b fs ! i = fs ! i" using IH(2) by simp
    qed
  next
    case False
    then have "swap_loop idx a b fs = fs" by (subst swap_loop.simps) simp
    moreover have "k = a \<and> k = b" if "a \<le> k" "k \<le> b" for k using that False by simp
    ultimately show ?thesis by fastforce
  qed
qed

text \<open>
  Reordering is exactly a reversal of the content deltas: every frame that carries no delta stays
  where it is, and the frames that do come out in the opposite order.
\<close>

theorem ReorderContentDeltas_reverses:
  "let fs' = fst (ReorderContentDeltas fs g)
   in map (\<lambda>f. if delta_frame f then None else Some f) fs' = map (\<lambda>f. if delta_frame f then None else Some f) fs \<and>
      filter delta_frame fs' = rev (filter delta_frame fs)"
proof -
  let ?idx = "delta_indices fs"
  define r where "r = swap_loop ?idx 0 (length ?idx - 1) fs"
  have len: "length r = length fs" unfolding r_def by (rule swap_loop_length)
  have delta: "delta_frame (fs ! i)" if "i \<in> set ?idx" for i using that by (simp add: delta_indices_def)
  have on: "r ! (?idx ! k) = fs ! (?idx ! (length ?idx - 1 - k))" if "k < length ?idx" for k
    using swap_loop_nth [OF delta_indices_distinct, of fs fs "length ?idx - 1" 0] that
    by (auto simp: r_def delta_indices_bound)
  have off: "r ! i = fs ! i" if "i \<notin> set ?idx" for i
  proof (cases "?idx = []")
    case True
    then show ?thesis unfolding r_def by (subst swap_loop.simps) simp
  next
    case False
    have "(!) ?idx ` {0..length ?idx - 1} \<subseteq> set ?idx"
    proof
      fix x assume "x \<in> (!) ?idx ` {0..length ?idx - 1}"
      then obtain k where "k \<le> length ?idx - 1" "x = ?idx ! k" by auto
      moreover have "0 < length ?idx" using False by simp
      ultimately have "k < length ?idx" "x = ?idx ! k" by linarith+
      then show "x \<in> set ?idx" by simp
    qed
    then have "i \<notin> (!) ?idx ` {0..length ?idx - 1}" using that by blast
    then show ?thesis using swap_loop_nth [OF delta_indices_distinct, of fs fs "length ?idx - 1" 0] False
      by (auto simp: r_def delta_indices_bound)
  qed
  have same: "delta_frame (r ! i) = delta_frame (fs ! i)" if "i < length fs" for i
  proof (cases "i \<in> set ?idx")
    case True
    then obtain k where k: "k < length ?idx" "i = ?idx ! k" by (metis in_set_conv_nth)
    have "?idx ! (length ?idx - 1 - k) \<in> set ?idx" using k(1) by simp
    then show ?thesis using on [OF k(1)] delta True k(2) by metis
  qed (simp add: off)
  have idx: "delta_indices r = ?idx"
    unfolding delta_indices_def len by (rule filter_cong) (simp_all add: same)
  have "filter delta_frame r = map ((!) r) ?idx" by (simp only: delta_frames_indices idx)
  also have "\<dots> = rev (map ((!) fs) ?idx)"
    by (rule nth_equalityI) (simp_all add: on rev_nth)
  finally have "filter delta_frame r = rev (filter delta_frame fs)" by (simp only: delta_frames_indices)
  moreover have "map (\<lambda>f. if delta_frame f then None else Some f) r = map (\<lambda>f. if delta_frame f then None else Some f) fs"
  proof (rule nth_equalityI)
    fix i assume "i < length (map (\<lambda>f. if delta_frame f then None else Some f) r)"
    then have i: "i < length fs" using len by simp
    have "delta_frame (fs ! i) \<or> r ! i = fs ! i" using off [of i] delta [of i] by blast
    then show "map (\<lambda>f. if delta_frame f then None else Some f) r ! i = map (\<lambda>f. if delta_frame f then None else Some f) fs ! i"
      using i same [OF i] len by auto
  qed (simp add: len)
  ultimately show ?thesis unfolding ReorderContentDeltas_def Let_def r_def by simp
qed

section \<open>Cutting a multibyte sequence\<close>

lemma cut_multibyte_skip:
  assumes "\<And>c. c \<in> set pre \<Longrightarrow> byte_of c < (192::nat)" "k \<le> length pre"
  shows "cut_multibyte k (pre @ f) = cut_multibyte (length pre) (pre @ f)"
  using assms(2)
proof (induction "length pre - k" arbitrary: k)
  case (Suc n)
  then have k: "k < length pre" by simp
  have "byte_of ((pre @ f) ! k) < (192::nat)" using assms(1) k by (simp add: nth_append)
  then have "cut_multibyte k (pre @ f) = cut_multibyte (Suc k) (pre @ f)"
    using k by (subst cut_multibyte.simps) simp
  then show ?case using Suc.hyps(1) [of "Suc k"] Suc.hyps(2) k by simp
qed simp

lemma rune_lead_multi:
  assumes "rune_len (c # s) \<noteq> 0" "\<not> byte_of c < (128::nat)"
  obtains lo hi where "rune_lead c = (lead_length c, lo, hi)" "128 \<le> lo" "hi \<le> 191" "194 \<le> (byte_of c :: nat)"
    "rune_tail (lead_length c - 1) lo hi (take (lead_length c - 1) s)" "rune_len (c # s) = lead_length c"
    "lead_length c \<le> Suc (length s)"
proof -
  obtain n lo hi where l: "rune_lead c = (n, lo, hi)" by (cases "rune_lead c")
  have t: "n \<noteq> 0" "rune_tail (n - 1) lo hi (take (n - 1) s)" "rune_len (c # s) = n"
    using assms(1) l by (auto simp: rune_len.simps(2) split: if_splits)
  have "n = lead_length c \<and> 128 \<le> lo \<and> hi \<le> 191 \<and> 194 \<le> (byte_of c :: nat)"
    using l t(1) assms(2) by (auto simp: rune_lead_def lead_info_def lead_length_def split: if_splits)
  moreover have "n \<le> Suc (length s)" using rune_len_le [of "c # s"] t(3) by simp
  ultimately show thesis using that l t by blast
qed

lemma cut_multibyte_invalid:
  assumes "valid_utf8 f" "\<exists>c \<in> set f. \<not> byte_of c < (128::nat)"
  obtains f' where "cut_multibyte 0 f = Some f'" "Suc (length f') = length f" "\<And>r. valid_utf8 r \<Longrightarrow> \<not> valid_utf8 (f' @ r)"
proof -
  obtain pre c s where f: "f = pre @ c # s" and c: "\<not> byte_of c < (128::nat)" and pre: "\<forall>x \<in> set pre. byte_of x < (128::nat)"
    using split_list_first_prop [OF assms(2)] by blast
  have vp: "valid_utf8 (pre @ y) = valid_utf8 y" for y
    using valid_utf8_append [OF valid_utf8_all_ascii [OF pre]] .
  have v: "valid_utf8 (c # s)" using assms(1) f vp by simp
  then have "rune_len (c # s) \<noteq> 0" by simp
  then obtain lo hi where l: "rune_lead c = (lead_length c, lo, hi)" "128 \<le> lo" "hi \<le> 191" "194 \<le> (byte_of c :: nat)"
    and t: "rune_tail (lead_length c - 1) lo hi (take (lead_length c - 1) s)" "rune_len (c # s) = lead_length c" "lead_length c \<le> Suc (length s)"
    using c by (rule rune_lead_multi)
  let ?n = "lead_length c"
  have n: "2 \<le> ?n" by (simp add: lead_length_def)
  define f' where "f' = pre @ c # take (?n - 2) s @ drop (?n - 1) s"
  have "cut_multibyte (length pre) f = Some f'"
    using l(4) t(3) n unfolding f
    by (subst cut_multibyte.simps) (auto simp: nth_append f'_def take_Cons' drop_Cons' Let_def numeral_2_eq_2)
  moreover have "cut_multibyte 0 f = cut_multibyte (length pre) f"
    unfolding f by (rule cut_multibyte_skip) (use pre in fastforce, simp)
  ultimately have cut: "cut_multibyte 0 f = Some f'" by simp
  have len: "Suc (length f') = length f" using t(3) n by (simp add: f'_def f)
  have no: "\<not> valid_utf8 (f' @ r)" if r: "valid_utf8 r" for r
  proof
    assume "valid_utf8 (f' @ r)"
    let ?q = "drop (?n - 1) s @ r"
    have vq: "valid_utf8 ?q" using v t(2) r valid_utf8_append [of "drop (?n - 1) s" r] by simp
    have "valid_utf8 (c # (take (?n - 2) s @ ?q))" using \<open>valid_utf8 (f' @ r)\<close> vp by (simp add: f'_def)
    then have "rune_tail (?n - 1) lo hi (take (?n - 1) (take (?n - 2) s @ ?q))"
      using l(1) by (auto simp: rune_len.simps(2) split: if_splits)
    moreover have "take (?n - 1) (take (?n - 2) s @ ?q) = take (?n - 2) s @ take 1 ?q"
      using t(3) n by simp
    ultimately have tail: "rune_tail (?n - 1) lo hi (take (?n - 2) s @ take 1 ?q)" by simp
    show False
    proof (cases ?q)
      case Nil
      then have "?n - 2 = ?n - 1" using tail t(3) by (auto simp: rune_tail_def)
      then show False using n by arith
    next
      case (Cons d q)
      have "rune_len (d # q) \<noteq> 0" using vq Cons by simp
      then have "byte_of d < (128::nat) \<or> 194 \<le> (byte_of d :: nat)" by (meson rune_lead_multi)
      moreover have "in_bytes lo hi d \<or> cont_byte d"
      proof -
        have "take 1 ?q = [d]" unfolding Cons by simp
        then have "rune_tail (?n - 1) lo hi (take (?n - 2) s @ [d])" using tail by (simp only:)
        then show ?thesis by (cases "take (?n - 2) s") (auto simp: rune_tail_def)
      qed
      ultimately show False using l(2,3) by (auto simp: in_bytes_def cont_byte_def)
    qed
  qed
  show thesis using that cut len no by blast
qed

lemma valid_before_ascii:
  "valid_utf8 (x @ c # y) \<Longrightarrow> byte_of c < (128::nat) \<Longrightarrow> valid_utf8 x"
proof (induction x rule: valid_utf8.induct)
  case (2 d s)
  let ?n = "rune_len (d # s @ c # y)"
  have n: "?n \<noteq> 0" "valid_utf8 (drop (?n - 1) (s @ c # y))" using 2(2) by auto
  have "\<not> length s < ?n - 1"
  proof
    assume short: "length s < ?n - 1"
    have nd: "\<not> byte_of d < (128::nat)" using short by (auto simp: rune_len_ascii)
    obtain lo hi where l: "128 \<le> lo" and t: "rune_tail (lead_length d - 1) lo hi (take (lead_length d - 1) (s @ c # y))"
      and e: "?n = lead_length d"
      using rune_lead_multi [OF n(1) nd] by metis
    obtain k where "lead_length d - 1 = length s + Suc k" using short e by (metis add_Suc_right less_imp_Suc_add)
    then have "take (lead_length d - 1) (s @ c # y) = s @ c # take k y" by simp
    then have "in_bytes lo hi c \<or> cont_byte c" using t by (cases s) (auto simp: rune_tail_def)
    then show False using 2(3) l by (auto simp: in_bytes_def cont_byte_def)
  qed
  then have le: "?n - 1 \<le> length s" by simp
  have "rune_len (take ?n (d # s @ c # y)) = ?n" using n(1) by (rule rune_len_take)
  moreover have "take ?n (d # s @ c # y) = take ?n (d # s)" using le n(1) by (simp add: take_Cons')
  ultimately have "rune_len (take ?n (d # s)) = ?n" by simp
  then have "rune_len (d # s) = ?n" using rune_len_append [of "take ?n (d # s)" "drop ?n (d # s)"] n(1) by simp
  moreover have "valid_utf8 (drop (?n - 1) s)" using 2(1) n(2) le 2(3) \<open>rune_len (d # s) = ?n\<close> by simp
  ultimately show ?case using n(1) by simp
qed simp

lemma frames_valid: "valid_utf8 raw \<Longrightarrow> list_all valid_utf8 (splitFrames raw)"
proof (induction raw rule: splitFrames.induct)
  case (1 rest)
  show ?case
  proof (cases "str_index sse_sep rest")
    case None
    then show ?thesis using 1(2) by (subst splitFrames.simps) simp
  next
    case (Some i)
    have e: "take (i + 2) rest = take i rest @ sse_sep" using str_index_split [OF Some] by (simp add: sse_sep_def)
    have nl: "byte_of newline < (128::nat)" by (simp add: newline_def)
    have "rest = take (i + 2) rest @ drop (i + 2) rest" by simp
    then have r: "rest = take i rest @ newline # newline # drop (i + 2) rest" using e by (metis append.assoc append_Cons append_Nil sse_sep_def)
    have v: "valid_utf8 (take i rest)" using 1(2) nl by (metis r valid_before_ascii)
    have "valid_utf8 (newline # newline # drop (i + 2) rest)" using 1(2) v by (metis r valid_utf8_append)
    then have d: "valid_utf8 (drop (i + 2) rest)" by (simp only: valid_utf8_ascii [OF nl])
    have "valid_utf8 (take (i + 2) rest)" unfolding e
      by (simp only: valid_utf8_append [OF v] sse_sep_def valid_utf8_ascii [OF nl] valid_utf8.simps(1))
    then show ?thesis using Some 1(1) [OF Some] d by (subst splitFrames.simps) (simp add: sse_sep_def)
  qed
qed

lemma cut_multibyte_ascii:
  assumes "\<And>c. c \<in> set f \<Longrightarrow> byte_of c < (128::nat)"
  shows "cut_multibyte 0 f = None"
proof -
  have "cut_multibyte 0 (f @ []) = cut_multibyte (length f) (f @ [])"
    by (rule cut_multibyte_skip) (use assms in fastforce, simp)
  then show ?thesis by (simp add: cut_multibyte.simps [of "length f"])
qed

lemma cut_first_invalid:
  assumes "list_all valid_utf8 fs" "\<exists>c \<in> set (concat fs). \<not> byte_of c < (128::nat)"
  shows "\<not> valid_utf8 (concat (first_frame (cut_multibyte 0) fs)) \<and>
    Suc (length (concat (first_frame (cut_multibyte 0) fs))) = length (concat fs)"
  using assms
proof (induction fs)
  case (Cons f fs)
  have rest: "valid_utf8 (concat fs)"
    using Cons(2) by (induction fs) (simp_all add: valid_utf8_append)
  show ?case
  proof (cases "\<exists>c \<in> set f. \<not> byte_of c < (128::nat)")
    case True
    obtain f' where "cut_multibyte 0 f = Some f'" "Suc (length f') = length f" "\<And>r. valid_utf8 r \<Longrightarrow> \<not> valid_utf8 (f' @ r)"
      using cut_multibyte_invalid [OF _ True] Cons(2) by auto
    then show ?thesis using rest by simp
  next
    case False
    then have "cut_multibyte 0 f = None" by (intro cut_multibyte_ascii) blast
    moreover have "\<exists>c \<in> set (concat fs). \<not> byte_of c < (128::nat)" using Cons(3) False by auto
    ultimately show ?thesis using Cons(1,2) valid_utf8_append [of f] by simp
  qed
qed simp

text \<open>
  The multibyte operator does what it is for: whenever a well-formed stream holds a character
  outside ASCII, in whatever frame, the variant is one byte shorter and no longer valid UTF-8.
\<close>

theorem DropLastByteOfMultibyte_breaks_utf8:
  assumes "valid_utf8 raw" "\<not> list_all (\<lambda>c. byte_of c < (128::nat)) raw"
  shows "\<not> valid_utf8 (mut_Apply raw g [Some DropLastByteOfMultibyte]) \<and>
    length (mut_Apply raw g [Some DropLastByteOfMultibyte]) = length raw - 1"
proof -
  have c: "concat (splitFrames raw) = raw" by (simp add: splitFrames_split splitSSEFrames_concat_aux)
  have "\<exists>c \<in> set (concat (splitFrames raw)). \<not> byte_of c < (128::nat)"
    using assms(2) c by (auto simp: list_all_iff)
  then have "\<not> valid_utf8 (concat (first_frame (cut_multibyte 0) (splitFrames raw)))"
    "Suc (length (concat (first_frame (cut_multibyte 0) (splitFrames raw)))) = length raw"
    using cut_first_invalid [OF frames_valid [OF assms(1)]] c by simp_all
  then show ?thesis by (simp add: mut_Apply_def DropLastByteOfMultibyte_def)
qed

lemma DropLastByteOfMultibyte_breaks_utf8_witness:
  "\<not> valid_utf8 (mut_Apply [CHR ''a'', CHR 0xC3, CHR 0xA9] () [Some DropLastByteOfMultibyte])"
proof -
  have "valid_utf8 [CHR ''a'', CHR 0xC3, CHR 0xA9]" by code_simp
  moreover have "\<not> list_all (\<lambda>c. byte_of c < (128::nat)) [CHR ''a'', CHR 0xC3, CHR 0xA9]" by simp
  ultimately show ?thesis by (rule DropLastByteOfMultibyte_breaks_utf8 [THEN conjunct1])
qed

section \<open>The other operators\<close>

lemma Apply_nothing: "mut_Apply raw g [] = raw" "mut_Apply raw g [None] = raw"
  by (simp_all add: mut_Apply_def splitFrames_split splitSSEFrames_concat_aux)

lemma Truncate_prefix: "prefix (fst (TruncateAfterFrame n fs g)) fs"
  by (simp add: TruncateAfterFrame_def take_is_prefix)

lemma DropTerminal_butlast: "fst (DropTerminalEvent fs g) = butlast fs"
  by (simp add: DropTerminalEvent_def butlast_conv_take)

lemma Duplicate_length:
  "length (fst (DuplicateFrame i fs g)) = length fs + (if 0 \<le> i \<and> i < int (length fs) then 1 else 0)"
  by (auto simp: DuplicateFrame_def)

lemma InjectError_before_last:
  "fst (InjectError m fs g) = butlast fs @ error_event m # (if fs = [] then [] else [last fs])"
proof (cases fs rule: rev_exhaust)
  case (snoc ys y)
  then show ?thesis by (simp add: InjectError_def)
qed (simp add: InjectError_def)

end
