(* ===== verification/Governance.thy ===== *)
theory Governance
  imports Compose Invariants Egress
begin

text \<open>
  internal/analysis, governance: taint.go follows sensitive values from turn to turn, attest.go
  builds the manifest of a recording's behaviour, audit.go collects the evidence, policy.go decides
  a declared policy over a corpus and lint.go checks the health of one recording.
\<close>

section \<open>Taint\<close>

record taint_flow =
  tf_kind :: string
  tf_redacted :: string
  tf_source :: int
  tf_source_kind :: string
  tf_sink :: int
  tf_outbound :: nat

definition tf_Exfil :: "taint_flow \<Rightarrow> bool" where
  "tf_Exfil t = (tf_source_kind t = ''model-output'')"

definition taint_id :: "finding \<Rightarrow> string" where
  "taint_id fn = fi_kind fn @ unit_sep @ fi_fingerprint fn"

text \<open>The closure scan: one finding for each distinct value, in scan order; \<open>seen\<close> is its map.\<close>

fun first_ids :: "string list \<Rightarrow> finding list \<Rightarrow> finding list" where
  "first_ids seen [] = []"
| "first_ids seen (fn # fns) =
     (if taint_id fn \<in> set seen then first_ids seen fns else fn # first_ids (taint_id fn # seen) fns)"

definition taint_scan :: "bytes \<Rightarrow> finding list" where
  "taint_scan b = first_ids [] (Scan b egress_Default)"

text \<open>The struct rec has the fields of a flow; the state is the map and the order of its keys.\<close>

record taint_state =
  ts_m :: "(string \<times> taint_flow) list"
  ts_order :: "string list"

definition taint_out :: "int \<Rightarrow> finding \<Rightarrow> taint_state \<Rightarrow> taint_state" where
  "taint_out turn fn s =
     (let k = taint_id fn in
      case mget (ts_m s) k of
        None \<Rightarrow> s\<lparr>ts_m := mput k \<lparr>tf_kind = fi_kind fn, tf_redacted = fi_redacted fn, tf_source = turn,
                    tf_source_kind = ''user-input'', tf_sink = turn, tf_outbound = 1\<rparr> (ts_m s),
                  ts_order := ts_order s @ [k]\<rparr>
      | Some r \<Rightarrow>
          if tf_source r < turn then
            s\<lparr>ts_m := mput k (r\<lparr>tf_sink := (if tf_sink r < turn then turn else tf_sink r),
                                 tf_outbound := Suc (tf_outbound r)\<rparr>) (ts_m s)\<rparr>
          else s)"

definition taint_in :: "int \<Rightarrow> finding \<Rightarrow> taint_state \<Rightarrow> taint_state" where
  "taint_in turn fn s =
     (let k = taint_id fn in
      case mget (ts_m s) k of
        None \<Rightarrow> s\<lparr>ts_m := mput k \<lparr>tf_kind = fi_kind fn, tf_redacted = fi_redacted fn, tf_source = turn,
                    tf_source_kind = ''model-output'', tf_sink = - 1, tf_outbound = 0\<rparr> (ts_m s),
                  ts_order := ts_order s @ [k]\<rparr>
      | Some _ \<Rightarrow> s)"

fun taint_loop :: "int \<Rightarrow> interaction list \<Rightarrow> taint_state \<Rightarrow> taint_state" where
  "taint_loop turn [] s = s"
| "taint_loop turn (it # its) s =
     (if it_kind it \<noteq> ''http'' then taint_loop turn its s
      else let turn = turn + 1;
               s = fold (taint_out turn) (taint_scan (Bytes (rq_body (it_request it)))) s;
               s = fold (taint_in turn) (taint_scan (Bytes (rs_body (it_response it)))) s
           in taint_loop turn its s)"

definition Taint :: "wfile \<Rightarrow> taint_flow list" where
  "Taint f =
     (let s = taint_loop (- 1) (wf_its f) \<lparr>ts_m = [], ts_order = []\<rparr>
      in filter (\<lambda>r. tf_source r < tf_sink r) (List.map_filter (mget (ts_m s)) (ts_order s)))"

section \<open>The manifest\<close>

record attest_manifest =
  am_sha :: string
  am_combined :: string
  am_turns :: "string list"
  am_shapes :: "string list"
  am_tools :: "string list"
  am_expect :: "expect option"
  am_prov :: "provenance list"

definition BuildAttestManifest :: "(wfile \<Rightarrow> bytes option) \<Rightarrow> 'r gjson \<Rightarrow> wfile \<Rightarrow> attest_manifest" where
  "BuildAttestManifest yenc G f =
     (let turns = CollectTurns G f in
      \<lparr>am_sha = (case Marshal yenc f of Inr raw \<Rightarrow> SumHex raw | Inl _ \<Rightarrow> []),
       am_combined = CombinedDigest turns,
       am_turns = map t_Digest turns,
       am_shapes = map (\<lambda>it. WireShape (Bytes (rs_body (it_response it))))
         (filter (\<lambda>it. it_kind it = ''http'' \<and> rs_streaming (it_response it) \<and> rs_body (it_response it) \<noteq> None) (wf_its f)),
       am_tools = ToolNames turns, am_expect = wf_expect f, am_prov = wf_prov f\<rparr>)"

definition eqStrings :: "string list \<Rightarrow> string list \<Rightarrow> bool" where
  "eqStrings a b = (length a = length b \<and> list_all (\<lambda>(x, y). x = y) (zip a b))"

definition eqProvenance :: "provenance list \<Rightarrow> provenance list \<Rightarrow> bool" where
  "eqProvenance a b = (length a = length b \<and> list_all (\<lambda>(x, y). x = y) (zip a b))"

definition eqExpect :: "expect option \<Rightarrow> expect option \<Rightarrow> bool" where
  "eqExpect a b =
     (case (a, b) of
        (None, None) \<Rightarrow> True
      | (Some x, Some y) \<Rightarrow> ex_no_dup x = ex_no_dup y \<and> ex_clean x = ex_clean y \<and> eqStrings (ex_no_tools x) (ex_no_tools y)
      | _ \<Rightarrow> False)"

definition SemanticEqual :: "attest_manifest \<Rightarrow> attest_manifest \<Rightarrow> bool" where
  "SemanticEqual m n =
     (if am_combined m \<noteq> am_combined n \<or> \<not> eqStrings (am_turns m) (am_turns n) \<or>
         \<not> eqStrings (am_shapes m) (am_shapes n) \<or> \<not> eqStrings (am_tools m) (am_tools n) then False
      else eqExpect (am_expect m) (am_expect n) \<and> eqProvenance (am_prov m) (am_prov n))"

section \<open>The audit bundle\<close>

record audit_egress =
  ae_turn :: nat
  ae_field :: string
  ae_kind :: string
  ae_redacted :: string

record audit_bundle =
  ab_cassettes :: "string list"
  ab_manifest :: attest_manifest
  ab_coverage :: coverage_report
  ab_egress :: "audit_egress list"
  ab_taint :: "taint_flow list"

text \<open>The outbound fields of a request, in the order they are scanned.\<close>

definition outbound_fields :: "interaction \<Rightarrow> (string \<times> bytes) list" where
  "outbound_fields it =
     (let rq = it_request it in
      (''url'', rq_url rq) #
      concat (map (\<lambda>h. map (\<lambda>v. (''header:'' @ hf_name h, v)) (hf_values h)) (rq_headers rq)) @
      [(''body'', Bytes (rq_body rq))])"

definition audit_it :: "nat \<times> interaction \<Rightarrow> audit_egress list" where
  "audit_it p = (case p of (i, it) \<Rightarrow>
     concat (map (\<lambda>(field, b).
       map (\<lambda>fn. \<lparr>ae_turn = i, ae_field = field, ae_kind = fi_kind fn, ae_redacted = fi_redacted fn\<rparr>)
         (Scan b egress_Default)) (outbound_fields it)))"

definition BuildAudit :: "golib \<Rightarrow> (wfile \<Rightarrow> bytes option) \<Rightarrow> 'r gjson \<Rightarrow> (nat \<Rightarrow> nat) \<Rightarrow> string list \<Rightarrow> wfile list \<Rightarrow> audit_bundle" where
  "BuildAudit gl yenc G lower paths files =
     (let merged = fst (Merge gl (map Some files)) in
      \<lparr>ab_cassettes = paths, ab_manifest = BuildAttestManifest yenc G merged, ab_coverage = Coverage G lower files,
       ab_egress = concat (map audit_it (enumerate 0 (wf_its merged))), ab_taint = Taint merged\<rparr>)"

definition Exfils :: "audit_bundle \<Rightarrow> taint_flow list" where
  "Exfils b = filter tf_Exfil (ab_taint b)"

section \<open>Policies\<close>

record policy =
  po_secrets :: string
  po_exfil :: string
  po_forbid :: "string list"
  po_max_tokens :: int
  po_tools :: "string list"

definition Enforces :: "policy \<Rightarrow> bool" where
  "Enforces p = (po_secrets p = ''forbid'' \<or> po_exfil p = ''forbid'' \<or> 0 < length (po_forbid p) \<or>
     0 < po_max_tokens p \<or> 0 < length (po_tools p))"

record policy_check =
  pc_rule :: string
  pc_ok :: bool
  pc_detail :: string

record policy_result =
  pr_checks :: "policy_check list"
  pr_failed :: nat

definition pr_OK :: "policy_result \<Rightarrow> bool" where "pr_OK r = (pr_failed r = 0)"

definition pr_add :: "string \<Rightarrow> bool \<Rightarrow> string \<Rightarrow> policy_result \<Rightarrow> policy_result" where
  "pr_add rule ok detail r =
     r\<lparr>pr_failed := (if \<not> ok then Suc (pr_failed r) else pr_failed r),
       pr_checks := pr_checks r @ [\<lparr>pc_rule = rule, pc_ok = ok, pc_detail = detail\<rparr>]\<rparr>"

definition secretsIn :: "interaction \<Rightarrow> string list" where
  "secretsIn it =
     SecretScan (Bytes (rq_body (it_request it))) @ SecretScan (Bytes (rs_body (it_response it))) @
     concat (map (\<lambda>h. concat (map SecretScan (hf_values h))) (rq_headers (it_request it)))"

definition summarize :: "string list \<Rightarrow> string \<Rightarrow> string" where
  "summarize violations okMsg = (if violations = [] then okMsg else str_join ''; '' violations)"

definition turn_hit :: "nat \<Rightarrow> string \<Rightarrow> string" where
  "turn_hit i kind = ''turn '' @ itoa (int i) @ '': '' @ kind"

definition check_secrets :: "interaction list \<Rightarrow> policy_result \<Rightarrow> policy_result" where
  "check_secrets its res =
     (let hits = concat (map (\<lambda>(i, it). map (turn_hit i) (secretsIn it)) (enumerate 0 its))
      in pr_add ''secrets'' (length hits = 0) (summarize hits ''no secret patterns'') res)"

definition check_egress :: "string list \<Rightarrow> audit_bundle \<Rightarrow> policy_result \<Rightarrow> policy_result" where
  "check_egress forbid b res =
     (let v = map (\<lambda>e. turn_hit (ae_turn e) (ae_kind e)) (filter (\<lambda>e. ae_kind e \<in> set forbid) (ab_egress b))
      in pr_add ''egress'' (length v = 0) (summarize v ''no forbidden data classes outbound'') res)"

definition check_exfil :: "audit_bundle \<Rightarrow> policy_result \<Rightarrow> policy_result" where
  "check_exfil b res =
     (let v = map (\<lambda>t. tf_kind t @ '' turn '' @ itoa (tf_source t) @ encode_rune 8594 @ itoa (tf_sink t)) (Exfils b)
      in pr_add ''exfil'' (length v = 0) (summarize v ''no model/tool output carried outbound'') res)"

definition check_coverage :: "string list \<Rightarrow> audit_bundle \<Rightarrow> policy_result \<Rightarrow> policy_result" where
  "check_coverage tools b res =
     (let missing = filter (\<lambda>tool. mget0 0 (cv_tools (ab_coverage b)) tool = 0) tools
      in pr_add ''coverage'' (length missing = 0)
           (summarize (map (\<lambda>s. ''missing tool '' @ s) missing) ''all required tools exercised'') res)"

definition token_total :: "'r gjson \<Rightarrow> interaction list \<Rightarrow> int" where
  "token_total G its = fold (\<lambda>it n. add64 n (u_Total (DecodeUsage G it))) its 0"

definition check_budget :: "int \<Rightarrow> int \<Rightarrow> policy_result \<Rightarrow> policy_result" where
  "check_budget used limit res =
     pr_add ''budget'' (used \<le> limit) (itoa used @ '' / '' @ itoa limit @ '' total tokens'') res"

definition CheckPolicy :: "golib \<Rightarrow> (wfile \<Rightarrow> bytes option) \<Rightarrow> 'r gjson \<Rightarrow> (nat \<Rightarrow> nat) \<Rightarrow> policy \<Rightarrow> string list \<Rightarrow> wfile list \<Rightarrow> policy_result" where
  "CheckPolicy gl yenc G lower p paths files =
     (let its = wf_its (fst (Merge gl (map Some files)));
          res = \<lparr>pr_checks = [], pr_failed = 0\<rparr>;
          res = (if po_secrets p = ''forbid'' then check_secrets its res else res);
          res = (if 0 < length (po_forbid p) \<or> po_exfil p = ''forbid'' \<or> 0 < length (po_tools p) then
                   let bundle = BuildAudit gl yenc G lower paths files;
                       res = (if 0 < length (po_forbid p) then check_egress (po_forbid p) bundle res else res);
                       res = (if po_exfil p = ''forbid'' then check_exfil bundle res else res)
                   in if 0 < length (po_tools p) then check_coverage (po_tools p) bundle res else res
                 else res)
      in if 0 < po_max_tokens p then check_budget (token_total G its) (po_max_tokens p) res else res)"

section \<open>Lint\<close>

definition DefaultMaxBodyBytes :: int where "DefaultMaxBodyBytes = 1048576"

record lint_finding =
  lf_file :: string
  lf_index :: int
  lf_severity :: string
  lf_code :: string
  lf_message :: string

definition recomputeKey :: "golib \<Rightarrow> interaction \<Rightarrow> match_config \<Rightarrow> string option" where
  "recomputeKey gl it cfg =
     (if it_kind it \<noteq> ''http'' then None
      else let rq = it_request it in
        case Key gl \<lparr>in_method = rq_method rq, in_path = rq_url rq, in_body = Bytes (rq_body rq),
                     in_ctype = headers_Get (rq_headers rq) ''Content-Type'', in_header = None\<rparr> cfg of
          Inr k \<Rightarrow> Some k | Inl _ \<Rightarrow> None)"

definition lint_key :: "golib \<Rightarrow> match_config \<Rightarrow> interaction \<Rightarrow> (string \<times> string \<times> string) list" where
  "lint_key gl cfg it =
     (let rq = it_request it; bodyScrubbed = str_contains (Bytes (rq_body rq)) Replacement in
      case recomputeKey gl it cfg of
        None \<Rightarrow> []
      | Some key \<Rightarrow>
          if rq_match_key rq \<noteq> [] \<and> key \<noteq> rq_match_key rq \<and> \<not> bodyScrubbed then
            [(''error'', ''stale_key'', ''persisted match key does not re-derive from the request (run `cassette rekey`)'')]
          else [])"

definition lint_size :: "int \<Rightarrow> interaction \<Rightarrow> (string \<times> string \<times> string) list" where
  "lint_size maxBody it =
     (let n = int (length (Bytes (rs_body (it_response it)))) in
      if maxBody < n then
        [(''warn'', ''oversized'', ''response body is '' @ itoa n @ '' bytes (> '' @ itoa maxBody @ '')'')]
      else [])"

definition lint_turn :: "'r gjson \<Rightarrow> interaction \<Rightarrow> (string \<times> string \<times> string) list" where
  "lint_turn G it =
     (case DecodeInteraction G it of (tr, unary, renderable) \<Rightarrow>
       if \<not> renderable \<or> unary then []
       else if t_Text tr = [] \<and> t_ToolCalls tr = [] \<and> t_FinishReason tr = [] then
         (if snd (RoundTrip_codec (ProviderForURL (rq_url (it_request it))) (Bytes (rs_body (it_response it)))) \<noteq> None then []
          else [(''warn'', ''undecodable'', ''streaming response decodes to an empty transcript'')])
       else if t_FinishReason tr = [] then [(''warn'', ''no_finish'', ''streaming response has no finish reason'')]
       else [])"

definition lint_it :: "golib \<Rightarrow> 'r gjson \<Rightarrow> match_config \<Rightarrow> int \<Rightarrow> interaction \<Rightarrow> (string \<times> string \<times> string) list" where
  "lint_it gl G cfg maxBody it =
     (if it_kind it \<noteq> ''http'' \<and> it_kind it \<noteq> ''mcp'' then []
      else lint_key gl cfg it @ lint_size maxBody it @ (if it_kind it \<noteq> ''http'' then [] else lint_turn G it))"

definition lint_config :: "wfile \<Rightarrow> match_config" where
  "lint_config f =
     (case wf_match f of
        None \<Rightarrow> zero_config
      | Some m \<Rightarrow> zero_config\<lparr>mc_volatile := ms_volatile m, mc_headers := ms_headers m\<rparr>)"

definition LintFile :: "golib \<Rightarrow> 'r gjson \<Rightarrow> string \<Rightarrow> bytes \<Rightarrow> wfile \<Rightarrow> int \<Rightarrow> lint_finding list" where
  "LintFile gl G name raw f maxBody0 =
     (let maxBody = (if maxBody0 \<le> 0 then DefaultMaxBodyBytes else maxBody0);
          mk = (\<lambda>i (sev, code, msg). \<lparr>lf_file = name, lf_index = i, lf_severity = sev, lf_code = code, lf_message = msg\<rparr>);
          hits = SecretScan raw
      in (if 0 < length hits then
            [mk (- 1) (''error'', ''secret'', ''secret pattern(s) present: ['' @ str_join '' '' hits @ '']'')] else []) @
         (if wf_its f = [] then [mk (- 1) (''warn'', ''empty'', ''cassette has no interactions'')] else []) @
         concat (map (\<lambda>(i, it). map (mk (int i)) (lint_it gl G (lint_config f) maxBody it)) (enumerate 0 (wf_its f))))"

definition LintSummary :: "lint_finding list \<Rightarrow> nat \<times> nat" where
  "LintSummary fs = (length (filter (\<lambda>f. lf_severity f = ''error'') fs), length (filter (\<lambda>f. lf_severity f \<noteq> ''error'') fs))"

end
