(* ===== verification/Governance_Laws.thy ===== *)
theory Governance_Laws
  imports Governance Authoring_Laws
begin

text \<open>
  What the governance passes promise: taint flows are traced exactly, a policy verdict is what its
  rules say, and authored recordings pass the linter.
\<close>

section \<open>A reference for taint\<close>

text \<open>The findings of a turn: those of its request and those of its response.\<close>

type_synonym toks = "(finding list \<times> finding list) list"

definition turn_toks :: "interaction \<Rightarrow> finding list \<times> finding list" where
  "turn_toks it = (Scan (Bytes (rq_body (it_request it))) egress_Default, Scan (Bytes (rs_body (it_response it))) egress_Default)"

abbreviation ids_of :: "finding list \<Rightarrow> string set" where
  "ids_of fns \<equiv> taint_id ` set fns"

text \<open>Where a value appears first, and the turns whose request carries it.\<close>

definition source_turn :: "toks \<Rightarrow> string \<Rightarrow> nat" where
  "source_turn ts k = length (takeWhile (\<lambda>(q, r). k \<notin> ids_of q \<and> k \<notin> ids_of r) ts)"

definition sink_turns :: "toks \<Rightarrow> string \<Rightarrow> nat list" where
  "sink_turns ts k = filter (\<lambda>t. k \<in> ids_of (fst (ts ! t))) [0 ..< length ts]"

definition flow_of :: "toks \<Rightarrow> finding \<Rightarrow> taint_flow" where
  "flow_of ts fn =
     (let k = taint_id fn; src = source_turn ts k; sinks = sink_turns ts k in
      \<lparr>tf_kind = fi_kind fn, tf_redacted = fi_redacted fn, tf_source = int src,
       tf_source_kind = (if k \<in> ids_of (fst (ts ! src)) then ''user-input'' else ''model-output''),
       tf_sink = (if sinks = [] then - 1 else int (last sinks)), tf_outbound = length sinks\<rparr>)"

text \<open>One finding for each value, the first, in the order of appearance.\<close>

definition values_of :: "toks \<Rightarrow> finding list" where
  "values_of ts = first_ids [] (concat (map (\<lambda>(q, r). q @ r) ts))"

section \<open>First occurrences\<close>

lemma first_ids_set: "set seen = set seen' \<Longrightarrow> first_ids seen fns = first_ids seen' fns"
proof (induction fns arbitrary: seen seen')
  case (Cons x xs)
  have "first_ids (taint_id x # seen) xs = first_ids (taint_id x # seen') xs"
    by (rule Cons.IH) (simp add: Cons.prems)
  then show ?case using Cons.IH [OF Cons.prems] Cons.prems by simp
qed simp

lemma first_ids_append: "first_ids seen (xs @ ys) = first_ids seen xs @ first_ids (map taint_id xs @ seen) ys"
proof (induction xs arbitrary: seen)
  case (Cons x xs)
  have "first_ids (map taint_id xs @ taint_id x # seen) ys = first_ids (taint_id x # map taint_id xs @ seen) ys"
    by (rule first_ids_set) auto
  moreover have "taint_id x \<in> set seen \<Longrightarrow> first_ids (taint_id x # map taint_id xs @ seen) ys = first_ids (map taint_id xs @ seen) ys"
    by (rule first_ids_set) auto
  ultimately show ?case by (simp add: Cons)
qed simp

lemma first_ids_ids: "taint_id ` set (first_ids seen xs) = ids_of xs - set seen"
  by (induction seen xs rule: first_ids.induct) auto

lemma first_ids_distinct: "distinct (map taint_id (first_ids seen xs))"
proof (induction seen xs rule: first_ids.induct)
  case (2 seen fn fns)
  have "taint_id fn \<notin> taint_id ` set (first_ids (taint_id fn # seen) fns)" by (simp add: first_ids_ids)
  then show ?case using 2 by auto
qed simp

lemma first_ids_filter: "first_ids (seen @ seen') xs = filter (\<lambda>fn. taint_id fn \<notin> set seen') (first_ids seen xs)"
proof (induction xs arbitrary: seen)
  case (Cons x xs)
  have "taint_id x \<in> set seen' \<Longrightarrow> first_ids (taint_id x # seen @ seen') xs = first_ids (seen @ seen') xs"
    by (rule first_ids_set) auto
  then show ?case using Cons [of seen] Cons [of "taint_id x # seen"] by auto
qed simp

section \<open>One turn\<close>

lemma sink_turns_snoc:
  "sink_turns (ts @ [x]) k = sink_turns ts k @ (if k \<in> ids_of (fst x) then [length ts] else [])"
proof -
  have "filter (\<lambda>t. k \<in> ids_of (fst ((ts @ [x]) ! t))) [0 ..< length ts] = sink_turns ts k"
    unfolding sink_turns_def by (rule filter_cong) (simp_all add: nth_append)
  then show ?thesis by (simp add: sink_turns_def)
qed

lemma source_turn_snoc:
  "source_turn (ts @ [x]) k =
     (if k \<in> ids_of (concat (map (\<lambda>(q, r). q @ r) ts)) then source_turn ts k
      else if k \<in> ids_of (fst x) \<or> k \<in> ids_of (snd x) then length ts else Suc (length ts))"
proof -
  let ?no = "\<lambda>(q, r). k \<notin> ids_of q \<and> k \<notin> ids_of r"
  have "k \<in> ids_of (concat (map (\<lambda>(q, r). q @ r) ts)) \<longleftrightarrow> (\<exists>x \<in> set ts. \<not> ?no x)" by fastforce
  then show ?thesis
    by (cases "\<exists>x \<in> set ts. \<not> ?no x") (auto simp: source_turn_def takeWhile_append split: prod.splits)
qed

lemma takeWhile_short: "x \<in> set xs \<Longrightarrow> \<not> P x \<Longrightarrow> length (takeWhile P xs) < length xs"
  by (induction xs) auto

lemma source_turn_less:
  assumes "k \<in> ids_of (concat (map (\<lambda>(q, r). q @ r) ts))"
  shows "source_turn ts k < length ts"
proof -
  obtain x where "x \<in> set ts" "\<not> (case x of (q, r) \<Rightarrow> k \<notin> ids_of q \<and> k \<notin> ids_of r)" using assms by fastforce
  then show ?thesis unfolding source_turn_def by (rule takeWhile_short)
qed

lemma sink_turns_less: "t \<in> set (sink_turns ts k) \<Longrightarrow> t < length ts"
  by (simp add: sink_turns_def)

lemma sink_turns_none:
  assumes "k \<notin> ids_of (concat (map (\<lambda>(q, r). q @ r) ts))"
  shows "sink_turns ts k = []"
proof -
  have "k \<notin> ids_of (fst (ts ! t))" if "t < length ts" for t
  proof
    assume "k \<in> ids_of (fst (ts ! t))"
    then have "k \<in> ids_of (concat (map (\<lambda>(q, r). q @ r) ts))"
      using that nth_mem [OF that] by (cases "ts ! t") force
    then show False using assms by simp
  qed
  then show ?thesis by (simp add: sink_turns_def filter_empty_conv)
qed

text \<open>A pass over a turn: \<open>g\<close> says what it makes of the entry of a value.\<close>

lemma pass_fold:
  assumes m: "\<And>fn s. mget (ts_m (h fn s)) = (mget (ts_m s))(taint_id fn := g fn (mget (ts_m s) (taint_id fn)))"
    and ord: "\<And>fn s. ts_order (h fn s) = ts_order s @ (if mget (ts_m s) (taint_id fn) = None then [taint_id fn] else [])"
    and d: "distinct (map taint_id fns)"
  shows "ts_order (fold h fns s) = ts_order s @ filter (\<lambda>k. mget (ts_m s) k = None) (map taint_id fns) \<and>
    (\<forall>k. mget (ts_m (fold h fns s)) k =
      (case find (\<lambda>fn. taint_id fn = k) fns of None \<Rightarrow> mget (ts_m s) k | Some fn \<Rightarrow> g fn (mget (ts_m s) k)))"
  using d
proof (induction fns arbitrary: s)
  case (Cons x xs)
  have ne: "taint_id x \<notin> taint_id ` set xs" using Cons.prems by simp
  have "k \<noteq> taint_id x" if "k \<in> set (map taint_id xs)" for k using ne that by force
  then have "filter (\<lambda>k. mget (ts_m (h x s)) k = None) (map taint_id xs) = filter (\<lambda>k. mget (ts_m s) k = None) (map taint_id xs)"
    by (intro filter_cong) (simp_all add: m)
  moreover have "find (\<lambda>fn. taint_id fn = taint_id x) xs = None" using ne by (metis (mono_tags, lifting) find_None_iff image_eqI)
  ultimately show ?case using Cons.IH [of "h x s"] Cons.prems ne by (auto simp: ord m split: option.split)
qed simp

definition out_entry :: "int \<Rightarrow> finding \<Rightarrow> taint_flow option \<Rightarrow> taint_flow option" where
  "out_entry turn fn e = Some (case e of
      None \<Rightarrow> \<lparr>tf_kind = fi_kind fn, tf_redacted = fi_redacted fn, tf_source = turn, tf_source_kind = ''user-input'', tf_sink = turn, tf_outbound = 1\<rparr>
    | Some r \<Rightarrow> if tf_source r < turn then r\<lparr>tf_sink := (if tf_sink r < turn then turn else tf_sink r), tf_outbound := Suc (tf_outbound r)\<rparr> else r)"

definition in_entry :: "int \<Rightarrow> finding \<Rightarrow> taint_flow option \<Rightarrow> taint_flow option" where
  "in_entry turn fn e = Some (case e of
      None \<Rightarrow> \<lparr>tf_kind = fi_kind fn, tf_redacted = fi_redacted fn, tf_source = turn, tf_source_kind = ''model-output'', tf_sink = - 1, tf_outbound = 0\<rparr>
    | Some r \<Rightarrow> r)"

lemma taint_out_entry:
  "mget (ts_m (taint_out turn fn s)) = (mget (ts_m s))(taint_id fn := out_entry turn fn (mget (ts_m s) (taint_id fn)))"
  "ts_order (taint_out turn fn s) = ts_order s @ (if mget (ts_m s) (taint_id fn) = None then [taint_id fn] else [])"
  by (auto simp: taint_out_def out_entry_def Let_def map_of_mput split: option.split)

lemma taint_in_entry:
  "mget (ts_m (taint_in turn fn s)) = (mget (ts_m s))(taint_id fn := in_entry turn fn (mget (ts_m s) (taint_id fn)))"
  "ts_order (taint_in turn fn s) = ts_order s @ (if mget (ts_m s) (taint_id fn) = None then [taint_id fn] else [])"
  by (auto simp: taint_in_def in_entry_def Let_def map_of_mput split: option.split)

section \<open>The flow of every value\<close>

lemma find_ids: "distinct (map taint_id xs) \<Longrightarrow> fn \<in> set xs \<Longrightarrow> find (\<lambda>g. taint_id g = taint_id fn) xs = Some fn"
  by (induction xs) auto

lemma find_append: "find P (xs @ ys) = (case find P xs of None \<Rightarrow> find P ys | Some x \<Rightarrow> Some x)"
  by (induction xs) auto

lemma find_none_ids: "find (\<lambda>fn. taint_id fn = k) xs = None \<longleftrightarrow> k \<notin> ids_of xs"
  by (auto simp: find_None_iff)

lemma find_fresh:
  "k \<notin> A \<Longrightarrow> find (\<lambda>fn. taint_id fn = k) (filter (\<lambda>fn. taint_id fn \<notin> A) xs) = find (\<lambda>fn. taint_id fn = k) xs"
  by (induction xs) auto

lemma find_idD: "find (\<lambda>fn. taint_id fn = k) xs = Some fn \<Longrightarrow> taint_id fn = k \<and> fn \<in> set xs"
  by (auto simp: find_Some_iff)

definition taint_inv :: "toks \<Rightarrow> taint_state \<Rightarrow> bool" where
  "taint_inv ts s = (ts_order s = map taint_id (values_of ts) \<and>
     (\<forall>k. mget (ts_m s) k = map_option (flow_of ts) (find (\<lambda>fn. taint_id fn = k) (values_of ts))))"

lemma values_of_ids: "ids_of (values_of ts) = ids_of (concat (map (\<lambda>(q, r). q @ r) ts))"
  by (simp add: values_of_def first_ids_ids)

lemma values_of_snoc:
  "values_of (ts @ [(q, r)]) = values_of ts @ filter (\<lambda>fn. taint_id fn \<notin> ids_of (values_of ts)) (first_ids [] q) @
     filter (\<lambda>fn. taint_id fn \<notin> ids_of (values_of ts) \<union> ids_of q) (first_ids [] r)"
proof -
  let ?c = "concat (map (\<lambda>(q, r). q @ r) ts)"
  have f: "first_ids seen xs = filter (\<lambda>fn. taint_id fn \<notin> set seen) (first_ids [] xs)" for seen xs
    using first_ids_filter [of "[]" seen xs] by simp
  have ids: "set (map taint_id ?c) = ids_of (values_of ts)" by (simp add: values_of_ids)
  have "values_of (ts @ [(q, r)]) = values_of ts @ first_ids (map taint_id ?c) q @ first_ids (map taint_id q @ map taint_id ?c) r"
    by (simp add: values_of_def first_ids_append)
  moreover have "set (map taint_id q @ map taint_id ?c) = ids_of (values_of ts) \<union> ids_of q" unfolding set_append ids by auto
  ultimately show ?thesis by (simp only: f [of "map taint_id ?c"] f [of "map taint_id q @ map taint_id ?c"] ids)
qed

lemma flow_of_old:
  assumes "k = taint_id fn" "k \<in> ids_of (values_of ts)"
  shows "flow_of (ts @ [(q, r)]) fn =
    (if k \<in> ids_of q then (flow_of ts fn)\<lparr>tf_sink := int (length ts), tf_outbound := Suc (tf_outbound (flow_of ts fn))\<rparr>
     else flow_of ts fn)"
proof -
  have k: "k \<in> ids_of (concat (map (\<lambda>(q, r). q @ r) ts))" using assms(2) by (simp add: values_of_ids)
  show ?thesis using source_turn_less [OF k] k unfolding flow_of_def Let_def assms(1) [symmetric] source_turn_snoc sink_turns_snoc
    by (simp add: nth_append)
qed

lemma flow_of_new:
  assumes "k = taint_id fn" "k \<notin> ids_of (values_of ts)" "k \<in> ids_of q \<or> k \<in> ids_of r"
  shows "flow_of (ts @ [(q, r)]) fn =
    \<lparr>tf_kind = fi_kind fn, tf_redacted = fi_redacted fn, tf_source = int (length ts),
     tf_source_kind = (if k \<in> ids_of q then ''user-input'' else ''model-output''),
     tf_sink = (if k \<in> ids_of q then int (length ts) else - 1), tf_outbound = (if k \<in> ids_of q then 1 else 0)\<rparr>"
proof -
  have k: "k \<notin> ids_of (concat (map (\<lambda>(q, r). q @ r) ts))" using assms(2) by (simp add: values_of_ids)
  show ?thesis using k assms(3) sink_turns_none [OF k] unfolding flow_of_def Let_def assms(1) [symmetric] source_turn_snoc sink_turns_snoc
    by simp
qed

lemma taint_inv_step:
  assumes inv: "taint_inv ts s" and n: "turn = int (length ts)"
  shows "taint_inv (ts @ [(q, r)]) (fold (taint_in turn) (first_ids [] r) (fold (taint_out turn) (first_ids [] q) s))"
proof -
  define s1 where "s1 = fold (taint_out turn) (first_ids [] q) s"
  define s2 where "s2 = fold (taint_in turn) (first_ids [] r) s1"
  let ?f = "\<lambda>k xs. find (\<lambda>fn. taint_id fn = k) xs"
  note p1 = pass_fold [where h = "taint_out turn" and g = "out_entry turn" and s = s and fns = "first_ids [] q", OF taint_out_entry first_ids_distinct, folded s1_def]
  note p2 = pass_fold [where h = "taint_in turn" and g = "in_entry turn" and s = s1 and fns = "first_ids [] r", OF taint_in_entry first_ids_distinct, folded s2_def]
  have m0: "mget (ts_m s) k = map_option (flow_of ts) (?f k (values_of ts))" for k using inv by (simp add: taint_inv_def)
  have o0: "ts_order s = map taint_id (values_of ts)" using inv by (simp add: taint_inv_def)
  have idq: "ids_of (first_ids [] q) = ids_of q" "ids_of (first_ids [] r) = ids_of r" by (simp_all add: first_ids_ids)
  have n0: "mget (ts_m s) k = None \<longleftrightarrow> k \<notin> ids_of (values_of ts)" for k by (simp add: m0 find_none_ids)
  have m1: "mget (ts_m s1) k = (case ?f k (first_ids [] q) of None \<Rightarrow> mget (ts_m s) k | Some fn \<Rightarrow> out_entry turn fn (mget (ts_m s) k))" for k
    using p1 by blast
  have n1: "mget (ts_m s1) k = None \<longleftrightarrow> k \<notin> ids_of (values_of ts) \<union> ids_of q" for k
    using n0 find_none_ids [of k "first_ids [] q"] by (auto simp: m1 idq out_entry_def split: option.split)
  have m2: "mget (ts_m s2) k = (case ?f k (first_ids [] r) of None \<Rightarrow> mget (ts_m s1) k | Some fn \<Rightarrow> in_entry turn fn (mget (ts_m s1) k))" for k
    using p2 by blast
  have ord: "ts_order s2 = map taint_id (values_of (ts @ [(q, r)]))"
  proof -
    have "ts_order s1 = ts_order s @ filter (\<lambda>k. mget (ts_m s) k = None) (map taint_id (first_ids [] q))" using p1 by blast
    moreover have "ts_order s2 = ts_order s1 @ filter (\<lambda>k. mget (ts_m s1) k = None) (map taint_id (first_ids [] r))" using p2 by blast
    ultimately show ?thesis by (simp only: o0 n0 n1 values_of_snoc filter_map o_def map_append append_assoc)
  qed
  have "mget (ts_m s2) k = map_option (flow_of (ts @ [(q, r)])) (?f k (values_of (ts @ [(q, r)])))" for k
  proof (cases "k \<in> ids_of (values_of ts)")
    case True
    then obtain fn where fn: "?f k (values_of ts) = Some fn" using find_none_ids by fastforce
    have id: "k = taint_id fn" using find_idD [OF fn] by simp
    have less: "source_turn ts k < length ts" using source_turn_less True by (simp add: values_of_ids)
    have sink: "tf_sink (flow_of ts fn) < turn"
      using last_in_set [of "sink_turns ts k"] sink_turns_less [of _ ts k] n by (auto simp: flow_of_def Let_def id [symmetric])
    have src: "tf_source (flow_of ts fn) < turn" using less n by (simp add: flow_of_def Let_def id [symmetric])
    have "mget (ts_m s1) k = Some (flow_of (ts @ [(q, r)]) fn)"
      using find_none_ids [of k "first_ids [] q"] src sink n
      by (auto simp: m1 m0 fn out_entry_def flow_of_old [OF id True] idq split: option.split)
    then have "mget (ts_m s2) k = Some (flow_of (ts @ [(q, r)]) fn)" by (simp add: m2 in_entry_def split: option.split)
    then show ?thesis by (simp add: values_of_snoc find_append fn)
  next
    case False
    then have f0: "?f k (values_of ts) = None" by (simp add: find_none_ids)
    show ?thesis
    proof (cases "k \<in> ids_of q")
      case True
      then obtain fn where fn: "?f k (first_ids [] q) = Some fn" using find_none_ids [of k "first_ids [] q"] idq by fastforce
      have id: "k = taint_id fn" using find_idD [OF fn] by simp
      have "mget (ts_m s1) k = Some (flow_of (ts @ [(q, r)]) fn)"
        using True n by (simp add: m1 fn m0 f0 out_entry_def flow_of_new [OF id False])
      then have "mget (ts_m s2) k = Some (flow_of (ts @ [(q, r)]) fn)" by (simp add: m2 in_entry_def split: option.split)
      then show ?thesis using find_fresh [OF False] fn by (simp add: values_of_snoc find_append f0)
    next
      case nq: False
      then have f1: "?f k (first_ids [] q) = None" by (simp add: find_none_ids idq)
      have no: "k \<notin> ids_of (values_of ts) \<union> ids_of q" using False nq by simp
      show ?thesis
      proof (cases "?f k (first_ids [] r)")
        case None
        then show ?thesis using find_fresh [OF False] find_fresh [OF no]
          by (simp add: m2 m1 f1 m0 f0 values_of_snoc find_append del: Un_iff)
      next
        case (Some fn)
        have id: "k = taint_id fn" using find_idD [OF Some] by simp
        have "k \<in> ids_of r" using Some idq find_none_ids [of k "first_ids [] r"] by auto
        then have "mget (ts_m s2) k = Some (flow_of (ts @ [(q, r)]) fn)"
          using nq n by (simp add: m2 Some m1 f1 m0 f0 in_entry_def flow_of_new [OF id False])
        then show ?thesis using find_fresh [OF False] find_fresh [OF no] Some f1
          by (simp add: values_of_snoc find_append f0 del: Un_iff)
      qed
    qed
  qed
  then show ?thesis using ord by (simp add: taint_inv_def s2_def s1_def)
qed

lemma taint_loop_inv:
  "taint_inv ts s \<Longrightarrow> taint_inv (ts @ map turn_toks (filter (\<lambda>it. it_kind it = ''http'') its)) (taint_loop (int (length ts) - 1) its s)"
proof (induction its arbitrary: ts s)
  case (Cons it its)
  show ?case
  proof (cases "it_kind it = ''http''")
    case True
    let ?q = "Scan (Bytes (rq_body (it_request it))) egress_Default" and ?r = "Scan (Bytes (rs_body (it_response it))) egress_Default"
    have "taint_inv (ts @ [(?q, ?r)]) (fold (taint_in (int (length ts))) (first_ids [] ?r) (fold (taint_out (int (length ts))) (first_ids [] ?q) s))"
      using Cons.prems by (rule taint_inv_step) simp
    from Cons.IH [OF this] show ?thesis using True by (simp add: Let_def taint_scan_def turn_toks_def)
  qed (use Cons in simp)
qed simp

text \<open>
  C24. Taint tracing is exact.  Take the findings of each HTTP turn, first those of its request, then
  those of its response.  The flows reported are, in order of first appearance and once for every
  value, those whose first appearance lies in an earlier turn than the last request that carries
  the value; the source is the turn of that first appearance, user input exactly when it is in the
  request, and the outbound count is the number of requests that carry the value.
\<close>

theorem Taint_exact:
  "let ts = map turn_toks (httpTurns f)
   in Taint f = filter (\<lambda>r. tf_source r < tf_sink r) (map (flow_of ts) (values_of ts))"
proof -
  let ?ts = "map turn_toks (httpTurns f)"
  let ?s = "taint_loop (- 1) (wf_its f) \<lparr>ts_m = [], ts_order = []\<rparr>"
  have "taint_inv [] \<lparr>ts_m = [], ts_order = []\<rparr>" by (simp add: taint_inv_def values_of_def)
  from taint_loop_inv [OF this, of "wf_its f"] have inv: "taint_inv ?ts ?s" by (simp add: httpTurns_def)
  have "List.map_filter (mget (ts_m ?s)) (map taint_id xs) = map (flow_of ?ts) xs" if "set xs \<subseteq> set (values_of ?ts)" for xs
    using that
  proof (induction xs)
    case (Cons fn xs)
    have "distinct (map taint_id (values_of ?ts))" unfolding values_of_def by (rule first_ids_distinct)
    then have "mget (ts_m ?s) (taint_id fn) = Some (flow_of ?ts fn)"
      using inv find_ids [of "values_of ?ts" fn] Cons.prems by (simp add: taint_inv_def)
    then show ?case using Cons by (simp add: List.map_filter_simps)
  qed (simp add: List.map_filter_simps)
  from this [OF order_refl] have "List.map_filter (mget (ts_m ?s)) (ts_order ?s) = map (flow_of ?ts) (values_of ?ts)"
    using inv unfolding taint_inv_def by metis
  then show ?thesis by (simp only: Taint_def Let_def)
qed

section \<open>Policies\<close>

lemma concat_Nil: "(concat xs = []) = list_all (\<lambda>x. x = []) xs"
  by (induction xs) auto

lemma secret_hits:
  "(concat (map (\<lambda>(i, it). map (turn_hit i) (secretsIn it)) (enumerate n its)) = []) = list_all (\<lambda>it. secretsIn it = []) its"
  by (induction its arbitrary: n) simp_all

lemma egress_hits:
  "(filter (\<lambda>e. ae_kind e \<in> F) (concat (map audit_it (enumerate n its))) = []) =
     list_all (\<lambda>it. list_all (\<lambda>fb. list_all (\<lambda>fn. fi_kind fn \<notin> F) (Scan (snd fb) egress_Default)) (outbound_fields it)) its"
proof (induction its arbitrary: n)
  case (Cons it its)
  have "filter (\<lambda>e. ae_kind e \<in> F) (audit_it (n, it)) = [] \<longleftrightarrow>
      list_all (\<lambda>fb. list_all (\<lambda>fn. fi_kind fn \<notin> F) (Scan (snd fb) egress_Default)) (outbound_fields it)"
    unfolding audit_it_def prod.case filter_concat concat_Nil list_all_iff set_map ball_simps
    by (simp add: filter_map o_def filter_empty_conv case_prod_beta)
  then show ?case using Cons by (simp add: filter_append)
qed simp


section \<open>Lint\<close>

lemma lint_config_fields: "mc_key (lint_config f) = None" "mc_path (lint_config f) = None" "mc_body (lint_config f) = None"
  by (simp_all add: lint_config_def zero_config_def split: option.split)

lemma Key_header_part:
  assumes "mc_key cfg = None" "mc_path cfg = None" "mc_body cfg = None"
  shows "Key gl (inp\<lparr>in_header := Some h\<rparr>) cfg =
    map_sum id (\<lambda>k. k @ header_part (mc_headers cfg) (Some h)) (Key gl (inp\<lparr>in_header := None\<rparr>) cfg)"
  by (simp add: Key_def Let_def header_part_def assms split: sum.split)

lemma Key_not_Nil: "mc_key cfg = None \<Longrightarrow> Key gl inp cfg = Inr k \<Longrightarrow> k \<noteq> []"
  by (auto simp: Key_def Let_def split: sum.splits)

text \<open>
  The linter derives a key without the request's headers.  For a plain request whose stored key is
  the one the replayer derives it is therefore silent exactly when the cassette declares no header
  allowlist or the body was scrubbed; with an allowlist it calls every such key stale.
\<close>

theorem lint_calls_allowlisted_stale:
  assumes "it_kind it = ''http''" "headers_Get (rq_headers (it_request it)) ''Content-Encoding'' = []"
    and "HTTPKey gl (it_request it) (lint_config f) = Inr (rq_match_key (it_request it))"
  shows "map (\<lambda>x. fst (snd x)) (lint_key gl (lint_config f) it) =
    (if mc_headers (lint_config f) = [] \<or> str_contains (Bytes (rq_body (it_request it))) Replacement then [] else [''stale_key''])"
proof -
  let ?rq = "it_request it"
  define inp where "inp = \<lparr>in_method = rq_method ?rq, in_path = rq_url ?rq, in_body = Bytes (rq_body ?rq),
    in_ctype = headers_Get (rq_headers ?rq) ''Content-Type'', in_header = None :: http_header option\<rparr>"
  have "\<not> str_contains (to_lower []) ''gzip''" by (simp add: to_lower_def str_contains_def)
  then have "Key gl (inp\<lparr>in_header := Some (ToHTTP (rq_headers ?rq))\<rparr>) (lint_config f) = Inr (rq_match_key ?rq)"
    using assms(2,3) by (simp add: HTTPKey_def DecodeBody_def inp_def del: headers_Get.simps)
  then obtain k where k: "Key gl inp (lint_config f) = Inr k" "rq_match_key ?rq = k @ header_part (mc_headers (lint_config f)) (Some (ToHTTP (rq_headers ?rq)))"
    using Key_header_part [OF lint_config_fields [of f], where gl = gl and inp = inp and h = "ToHTTP (rq_headers ?rq)"]
    by (cases "Key gl inp (lint_config f)") (auto simp: inp_def)
  have "recomputeKey gl it (lint_config f) = Some k"
    using k(1) assms(1) by (simp add: recomputeKey_def Let_def inp_def [symmetric])
  moreover have "k \<noteq> []" using Key_not_Nil [OF lint_config_fields(1) k(1)] .
  ultimately show ?thesis using k(2) by (simp add: lint_key_def Let_def header_part_def)
qed

definition allow_request :: wrequest where
  "allow_request = \<lparr>rq_method = ''POST'', rq_url = ''/v1/messages'',
     rq_headers = [\<lparr>hf_name = ''X-Tenant'', hf_values = [''a'']\<rparr>], rq_mcp_method = [], rq_mcp_tool = [], rq_body = Some ''{}'', rq_body_sha = [], rq_match_key = []\<rparr>"

abbreviation allow_file :: wfile where
  "allow_file \<equiv> empty_file\<lparr>wf_match := Some \<lparr>ms_volatile = [], ms_headers = [''X-Tenant'']\<rparr>\<rparr>"

lemma allow_key_exists: "\<exists>k. HTTPKey gl allow_request (lint_config allow_file) = Inr k"
proof -
  have "headers_Get (rq_headers allow_request) ''Content-Encoding'' = []" "headers_Get (rq_headers allow_request) ''Content-Type'' = []"
    by code_simp+
  moreover have "ParseMediaType [] = ([], [])" by code_simp
  moreover have "looksJSON ''{}''" by code_simp
  moreover have "\<not> str_contains (to_lower []) ''gzip''" "\<not> str_contains [] ''json''" by (simp_all add: to_lower_def str_contains_def)
  ultimately show ?thesis
    by (auto simp: HTTPKey_def DecodeBody_def Key_def lint_config_fields Let_def bodyDigest_def Bytes_def allow_request_def
        simp del: headers_Get.simps split: option.split)
qed

lemma lint_calls_allowlisted_stale_witness:
  "\<exists>it. map (\<lambda>x. fst (snd x)) (lint_key no_golib (lint_config allow_file) it) = [''stale_key'']"
proof -
  obtain k where k: "HTTPKey no_golib allow_request (lint_config allow_file) = Inr k"
    using allow_key_exists by blast
  define it where "it = \<lparr>it_kind = ''http'', it_request = allow_request\<lparr>rq_match_key := k\<rparr>, it_response = streamResponse []\<rparr>"
  have key: "HTTPKey no_golib (it_request it) (lint_config allow_file) = Inr (rq_match_key (it_request it))"
    using k by (simp add: it_def HTTPKey_ignores_key del: headers_Get.simps)
  have "headers_Get (rq_headers allow_request) ''Content-Encoding'' = []" by code_simp
  then have enc: "headers_Get (rq_headers (it_request it)) ''Content-Encoding'' = []" by (simp add: it_def del: headers_Get.simps)
  have kind: "it_kind it = ''http''" by (simp add: it_def)
  have "mc_headers (lint_config allow_file) = [''X-Tenant'']" by (simp add: lint_config_def)
  moreover have "\<not> str_contains (Bytes (rq_body (it_request it))) Replacement"
    by (simp add: it_def allow_request_def Bytes_def Replacement_def str_contains_def)
  ultimately show ?thesis using lint_calls_allowlisted_stale [OF kind enc key] by (intro exI [of _ it]) simp
qed

lemma compile_http_lint:
  assumes "compile_http gl pr p path model i msgs t = Inr it"
  shows "lint_key gl zero_config it = []"
proof -
  obtain body resp key url where it: "it = \<lparr>it_kind = ''http'', it_request = \<lparr>rq_method = ''POST'', rq_url = url, rq_headers = json_ct,
        rq_mcp_method = [], rq_mcp_tool = [], rq_body = NewBody body, rq_body_sha = [], rq_match_key = key\<rparr>, it_response = resp\<rparr>"
      "json_key gl ''POST'' url body = Inr key"
    using assms by (auto simp: compile_http_def Let_def split: if_splits sum.splits)
  have "recomputeKey gl it zero_config = Some key"
    using it by (simp add: recomputeKey_def Let_def json_ct_get Bytes_NewBody del: headers_Get.simps)
  then show ?thesis by (simp add: lint_key_def it(1))
qed

lemma compile_loop_lint:
  "compile_loop gl isprint f64 pr model i msgs ts = Inr its \<Longrightarrow> list_all (\<lambda>it. lint_key gl zero_config it = []) its"
proof (induction gl isprint f64 pr model i msgs ts arbitrary: its rule: compile_loop.induct)
  case (2 gl isprint f64 pr model i msgs t ts)
  show ?case
  proof (cases "sp_kind t = ''mcp''")
    case True
    then obtain it its' where i: "compileMCPTurn isprint f64 i t = Inr it" "its = it # its'"
        "compile_loop gl isprint f64 pr model (Suc i) msgs ts = Inr its'"
      using "2.prems" by (auto split: sum.splits simp: map_sum_def)
    then have "it_kind it = ''mcp''" using compileMCP_key by blast
    then show ?thesis using 2(1) [OF True i(1,3)] i(2) by (simp add: lint_key_def recomputeKey_def)
  next
    case False
    then obtain p path where r: "ProviderRouting isprint pr = Inr (p, path)" using "2.prems" by (auto split: sum.splits)
    let ?msgs = "msgs @ [\<lparr>cm_role = ''user'', cm_text = sp_user t\<rparr>]"
    obtain it its' where i: "compile_http gl pr p path model i ?msgs t = Inr it" "its = it # its'"
        "compile_loop gl isprint f64 pr model (Suc i) (?msgs @ [\<lparr>cm_role = ''assistant'', cm_text = assistantHistory t\<rparr>]) ts = Inr its'"
      using "2.prems" False r by (auto split: sum.splits simp: map_sum_def Let_def)
    show ?thesis using "2.IH"(2) [OF False r refl refl i(1) i(3)] compile_http_lint [OF i(1)] i(2) by simp
  qed
qed simp

lemma lint_turn_warns: "filter (\<lambda>x. fst x = ''error'') (lint_turn G it) = []"
  by (simp add: lint_turn_def split: prod.split)

lemma lint_it_errors:
  "filter (\<lambda>x. fst x = ''error'') (lint_it gl G cfg maxBody it) =
     (if it_kind it = ''http'' then lint_key gl cfg it else [])"
proof -
  have "filter (\<lambda>x. fst x = ''error'') (lint_key gl cfg it) = lint_key gl cfg it"
    by (simp add: lint_key_def Let_def split: option.split)
  moreover have "it_kind it \<noteq> ''http'' \<Longrightarrow> lint_key gl cfg it = []" by (simp add: lint_key_def recomputeKey_def)
  moreover have "filter (\<lambda>x. fst x = ''error'') (lint_size maxBody it) = []" by (simp add: lint_size_def Let_def)
  ultimately show ?thesis by (simp add: lint_it_def lint_turn_warns)
qed

lemma lint_its_errors:
  assumes "list_all (\<lambda>it. lint_key gl cfg it = []) its" "\<And>i x. lf_severity (mk i x) = fst x"
  shows "filter (\<lambda>x. lf_severity x = ''error'') (concat (map (\<lambda>(i, it). map (mk (int i)) (lint_it gl G cfg maxBody it)) (enumerate n its))) = []"
  using assms(1)
proof (induction its arbitrary: n)
  case (Cons it its)
  have "filter (\<lambda>x. lf_severity x = ''error'') (map (mk (int n)) (lint_it gl G cfg maxBody it)) =
      map (mk (int n)) (filter (\<lambda>x. fst x = ''error'') (lint_it gl G cfg maxBody it))"
    by (simp add: filter_map o_def assms(2))
  then show ?case using Cons by (simp add: lint_it_errors)
qed simp

text \<open>
  An authored recording passes the linter: whatever the screenplay, the only error the linter can
  report on the compiled file is a secret in its text, and it reports that at most once.
\<close>

theorem Compile_lints_clean:
  "case Compile gl isprint f64 s of
     Inl _ \<Rightarrow> True
   | Inr f \<Rightarrow> map lf_code (filter (\<lambda>x. lf_severity x = ''error'') (LintFile gl G name raw f maxBody)) =
       (if SecretScan raw = [] then [] else [''secret''])"
proof (cases "Compile gl isprint f64 s")
  case (Inr f)
  then obtain its where c: "compile_loop gl isprint f64 (sp_provider s) (if sp_model s = [] then ''model'' else sp_model s) 0 [] (sp_turns s) = Inr its"
      "f = empty_file\<lparr>wf_its := its\<rparr>"
    by (auto simp: Compile_def map_sum_def split: sum.splits if_splits)
  have cfg: "lint_config f = zero_config" using c(2) by (simp add: lint_config_def)
  let ?mk = "\<lambda>i (sev, code, msg). \<lparr>lf_file = name, lf_index = i, lf_severity = sev, lf_code = code, lf_message = msg\<rparr>"
  have "filter (\<lambda>x. lf_severity x = ''error'') (concat (map (\<lambda>(i, it). map (?mk (int i))
      (lint_it gl G zero_config (if maxBody \<le> 0 then DefaultMaxBodyBytes else maxBody) it)) (enumerate 0 its))) = []"
    by (rule lint_its_errors [OF compile_loop_lint [OF c(1)]]) (simp add: case_prod_beta)
  moreover have "wf_its f = its" using c(2) by simp
  ultimately show ?thesis unfolding Inr sum.case LintFile_def Let_def cfg by simp
qed simp

end
