(* ===== verification/Conformance.thy ===== *)
theory Conformance
  imports Cassette Engine
begin

text \<open>
  conformance.go: the closed-loop check that a cassette replays.  Every interaction is checked for key
  integrity and driven through the replay matcher, and what it resolves to must decode to the same
  transcript.  The texts of the report are constructors.
\<close>

section \<open>Rebuilding a request\<close>

text \<open>
  net/url: the unescaping of a path, None for an invalid escape.  Of a URL that starts with
  http://replay.invalid the rest may still extend the host; url.Parse's check of such a host is the
  parameter \<open>host_ok\<close>, which is not consulted for a rest that starts with a slash.
\<close>

definition hex_byte :: "char \<Rightarrow> nat option" where
  "hex_byte c =
     (let b = byte_of c :: nat in
      if 48 \<le> b \<and> b \<le> 57 then Some (b - 48)
      else if 97 \<le> b \<and> b \<le> 102 then Some (b - 87)
      else if 65 \<le> b \<and> b \<le> 70 then Some (b - 55)
      else None)"

fun unescape_path :: "string \<Rightarrow> string option" where
  "unescape_path [] = Some []"
| "unescape_path (c # s) =
     (if c \<noteq> CHR ''%'' then map_option (Cons c) (unescape_path s)
      else case s of
          a # b # s' \<Rightarrow> (case (hex_byte a, hex_byte b) of
              (Some x, Some y) \<Rightarrow> map_option (Cons (char_of (16 * x + y))) (unescape_path s')
            | _ \<Rightarrow> None)
        | _ \<Rightarrow> None)"

definition ctl_byte :: "char \<Rightarrow> bool" where
  "ctl_byte c = (byte_of c < (32::nat) \<or> byte_of c = (127::nat))"

definition replay_path :: "(string \<Rightarrow> bool) \<Rightarrow> string \<Rightarrow> string option" where
  "replay_path host_ok url =
     (let (u, frag) = cut_byte (CHR ''#'') url;
          p = fst (cut_byte (CHR ''?'') u);
          authority = takeWhile (\<lambda>c. c \<noteq> CHR ''/'') p
      in if list_ex ctl_byte u \<or> (authority \<noteq> [] \<and> \<not> host_ok authority) \<or> unescape_path frag = None then None
         else unescape_path (dropWhile (\<lambda>c. c \<noteq> CHR ''/'') p))"

text \<open>http.NewRequest: the method, GET where it is empty, must be a token.\<close>

definition NewRequest :: "(string \<Rightarrow> bool) \<Rightarrow> string \<Rightarrow> string \<Rightarrow> http_request option" where
  "NewRequest host_ok meth url =
     (let meth = (if meth = [] then ''GET'' else meth) in
      if \<not> list_all token_byte meth then None
      else map_option (\<lambda>path. \<lparr>hr_method = meth, hr_path = path, hr_header = Some []\<rparr>) (replay_path host_ok url))"

definition add_headers :: "headers \<Rightarrow> http_header \<Rightarrow> http_header" where
  "add_headers hs h = fold (\<lambda>f h.
     if CanonicalHeaderKey (hf_name f) = ''Content-Encoding'' then h
     else fold (header_add (hf_name f)) (hf_values f) h) hs h"

section \<open>The report\<close>

datatype conform_detail =
    DSkipped
  | DKeyFailed match_error
  | DKeyScrubbed
  | DStaleKey
  | DNotIndexed
  | DRequest
  | DReplay cas_error
  | DNoResponse
  | DDifferent
  | DMcp

record conform_turn =
  co_index :: nat
  co_kind :: string
  co_method :: string
  co_url :: string
  co_tool :: string
  co_key_ok :: bool
  co_replay_ok :: bool
  co_detail :: "conform_detail list"

definition co_OK :: "conform_turn \<Rightarrow> bool" where
  "co_OK t = (co_key_ok t \<and> co_replay_ok t)"

record conform_report =
  cn_turns :: "conform_turn list"
  cn_bad :: nat
  cn_dials :: int

definition cn_OK :: "conform_report \<Rightarrow> bool" where
  "cn_OK r = (cn_bad r = 0 \<and> cn_dials r = 0)"

abbreviation add_detail :: "conform_detail \<Rightarrow> conform_turn \<Rightarrow> conform_turn" where
  "add_detail d t \<equiv> t\<lparr>co_detail := co_detail t @ [d]\<rparr>"

section \<open>The checks\<close>

definition conform_key :: "interaction \<Rightarrow> bool \<Rightarrow> string \<Rightarrow> conform_turn \<Rightarrow> conform_turn" where
  "conform_key it bodyScrubbed derived ct =
     (if rq_match_key (it_request it) = [] then ct\<lparr>co_key_ok := True\<rparr>
      else if derived = rq_match_key (it_request it) then ct\<lparr>co_key_ok := True\<rparr>
      else if bodyScrubbed then add_detail DKeyScrubbed (ct\<lparr>co_key_ok := True\<rparr>)
      else add_detail DStaleKey ct)"

text \<open>The response the request resolves to, or the detail to report.\<close>

definition conform_resolve :: "libs \<Rightarrow> (string \<Rightarrow> bool) \<Rightarrow> cassette \<Rightarrow> nat \<Rightarrow> interaction \<Rightarrow> bool \<Rightarrow> cassette \<times> (conform_detail + wresponse)" where
  "conform_resolve lb host_ok c i it bodyScrubbed =
     (let rq = it_request it in
      if bodyScrubbed \<and> rq_match_key rq \<noteq> [] then
        (if i \<in> set (mget0 [] (ca_keys c) (rq_match_key rq))
         then (c, Inr (it_response (wf_its (ca_file c) ! i))) else (c, Inl DNotIndexed))
      else case NewRequest host_ok (rq_method rq) (rq_url rq) of
          None \<Rightarrow> (c, Inl DRequest)
        | Some req \<Rightarrow>
            (case matchResponse lb c False (req\<lparr>hr_header := Some (add_headers (rq_headers rq) [])\<rparr>) (Bytes (rq_body rq)) of
               (c, Inl e) \<Rightarrow> (c, Inl (DReplay e))
             | (c, Inr None) \<Rightarrow> (c, Inl DNoResponse)
             | (c, Inr (Some m)) \<Rightarrow> (c, Inr m)))"

definition conformHTTP :: "libs \<Rightarrow> (string \<Rightarrow> bool) \<Rightarrow> 'r gjson \<Rightarrow> cassette \<Rightarrow> nat \<Rightarrow> interaction \<Rightarrow> conform_turn \<Rightarrow> cassette \<times> conform_turn" where
  "conformHTTP lb host_ok G c i it ct =
     (let bodyScrubbed = str_contains (Bytes (rq_body (it_request it))) Replacement in
      case HTTPKey (lb_go lb) (it_request it) (ca_match c) of
        Inl e \<Rightarrow> (c, ct\<lparr>co_detail := [DKeyFailed e]\<rparr>)
      | Inr derived \<Rightarrow>
          let ct = conform_key it bodyScrubbed derived ct in
          case conform_resolve lb host_ok c i it bodyScrubbed of
            (c, Inl d) \<Rightarrow> (c, add_detail d ct)
          | (c, Inr matched) \<Rightarrow>
              if t_Digest (fst (DecodeInteraction G it)) \<noteq>
                 t_Digest (fst (DecodeInteraction G \<lparr>it_kind = ''http'', it_request = it_request it, it_response = matched\<rparr>))
              then (c, add_detail DDifferent ct)
              else (c, ct\<lparr>co_replay_ok := True\<rparr>))"

definition conformMCP :: "cassette \<Rightarrow> interaction \<Rightarrow> conform_turn \<Rightarrow> conform_turn" where
  "conformMCP c it ct =
     (let rq = it_request it;
          ok = (rq_match_key rq = [] \<or> MCPKey rq (ca_match c) = rq_match_key rq);
          ct = ct\<lparr>co_key_ok := ok, co_detail := (if ok then co_detail ct else [DStaleKey])\<rparr>;
          ct = ct\<lparr>co_replay_ok := co_key_ok ct\<rparr>
      in if co_detail ct = [] then ct\<lparr>co_detail := [DMcp]\<rparr> else ct)"

definition conform_it :: "libs \<Rightarrow> (string \<Rightarrow> bool) \<Rightarrow> 'r gjson \<Rightarrow> cassette \<Rightarrow> nat \<Rightarrow> interaction \<Rightarrow> cassette \<times> conform_turn" where
  "conform_it lb host_ok G c i it =
     (let ct = \<lparr>co_index = i, co_kind = it_kind it, co_method = [], co_url = [], co_tool = [], co_key_ok = False, co_replay_ok = False, co_detail = []\<rparr> in
      if it_kind it = ''http'' then
        conformHTTP lb host_ok G c i it (ct\<lparr>co_method := rq_method (it_request it), co_url := rq_url (it_request it)\<rparr>)
      else if it_kind it = ''mcp'' then (c, conformMCP c it (ct\<lparr>co_tool := rq_mcp_tool (it_request it)\<rparr>))
      else (c, ct\<lparr>co_key_ok := True, co_replay_ok := True, co_detail := [DSkipped]\<rparr>))"

fun conform_loop :: "libs \<Rightarrow> (string \<Rightarrow> bool) \<Rightarrow> 'r gjson \<Rightarrow> cassette \<Rightarrow> nat \<Rightarrow> interaction list \<Rightarrow> conform_report \<Rightarrow> cassette \<times> conform_report" where
  "conform_loop lb host_ok G c i [] rep = (c, rep)"
| "conform_loop lb host_ok G c i (it # its) rep =
     (case conform_it lb host_ok G c i it of
        (c', ct) \<Rightarrow> conform_loop lb host_ok G c' (Suc i) its
          (rep\<lparr>cn_bad := (if \<not> co_OK ct then Suc (cn_bad rep) else cn_bad rep), cn_turns := cn_turns rep @ [ct]\<rparr>))"

text \<open>Options{Mode: ModeReplay}.\<close>

definition replay_options :: options where
  "replay_options = \<lparr>op_mode = ModeReplay, op_match = zero_config,
     op_scrub = \<lparr>so_headers = None, so_patterns = None, so_stamps = None\<rparr>, op_disable_scrub = False,
     op_exhaust = ExhaustError, op_capture = False, op_pace = False, op_faults = [], op_notice = []\<rparr>"

definition run_conformance :: "libs \<Rightarrow> (string \<Rightarrow> bool) \<Rightarrow> 'r gjson \<Rightarrow> fs \<Rightarrow> string \<Rightarrow> cas_error + conform_report" where
  "run_conformance lb host_ok G files path =
     (case Open lb files path replay_options of
        Inl e \<Rightarrow> Inl e
      | Inr c \<Rightarrow>
          (case conform_loop lb host_ok G c 0 (wf_its (ca_file c)) \<lparr>cn_turns = [], cn_bad = 0, cn_dials = 0\<rparr> of
             (c', rep) \<Rightarrow> Inr (rep\<lparr>cn_dials := ca_dials c'\<rparr>)))"

section \<open>Headers and URLs\<close>

text \<open>Headers as net/http produces them, without Content-Encoding, and a path without escapes.\<close>

definition plain_headers :: "headers \<Rightarrow> bool" where
  "plain_headers hs = (distinct (map (\<lambda>f. CanonicalHeaderKey (hf_name f)) hs) \<and>
     list_all (\<lambda>f. hf_values f \<noteq> [] \<and> CanonicalHeaderKey (hf_name f) \<noteq> ''Content-Encoding'') hs)"

definition plain_url :: "string \<Rightarrow> bool" where
  "plain_url u = (has_prefix u ''/'' \<and> list_all (\<lambda>c. \<not> ctl_byte c \<and> c \<noteq> CHR ''#'' \<and> c \<noteq> CHR ''?'' \<and> c \<noteq> CHR ''%'') u)"

lemma mput_twice: "mput k v (mput k w m) = mput k v m"
  by (induction k v m rule: mput.induct) auto

lemma add_values:
  "fold (header_add n) vs (mput (CanonicalHeaderKey n) acc h) = mput (CanonicalHeaderKey n) (acc @ vs) h"
  by (induction vs arbitrary: acc) (simp_all add: header_add_def header_values_def mput_twice)

lemma add_fresh:
  assumes "CanonicalHeaderKey n \<notin> fst ` set h" "vs \<noteq> []"
  shows "fold (header_add n) vs h = mput (CanonicalHeaderKey n) vs h"
proof (cases vs)
  case (Cons v ws)
  have "map_of h (CanonicalHeaderKey n) = None" using assms(1) by (simp add: map_of_eq_None_iff)
  then have "header_values h n = []" by (simp add: header_values_def mget0_def)
  then show ?thesis using Cons add_values [of n ws "[v]" h] by (simp add: header_add_def)
qed (use assms in simp)

lemma keys_mput: "fst ` set (mput k v m) = insert k (fst ` set m)"
  by (induction k v m rule: mput.induct) auto

lemma add_headers_fold:
  assumes "plain_headers hs" "fst ` set h \<inter> (\<lambda>f. CanonicalHeaderKey (hf_name f)) ` set hs = {}"
  shows "add_headers hs h = foldl (\<lambda>h f. mput (CanonicalHeaderKey (hf_name f)) (hf_values f) h) h hs"
  using assms
proof (induction hs arbitrary: h)
  case (Cons f hs)
  let ?n = "CanonicalHeaderKey (hf_name f)"
  have f: "hf_values f \<noteq> []" "?n \<noteq> ''Content-Encoding''" "?n \<notin> fst ` set h" and hs: "plain_headers hs"
    and ne: "?n \<notin> (\<lambda>f. CanonicalHeaderKey (hf_name f)) ` set hs"
    using Cons.prems by (auto simp: plain_headers_def)
  have "fst ` set (mput ?n (hf_values f) h) \<inter> (\<lambda>f. CanonicalHeaderKey (hf_name f)) ` set hs = {}"
    unfolding keys_mput using Cons.prems(2) ne by auto
  from Cons.IH [OF hs this] show ?case using add_fresh [OF f(3,1)] f(2) by (simp add: add_headers_def)
qed (simp add: add_headers_def)

lemma add_headers_ToHTTP: "plain_headers hs \<Longrightarrow> add_headers hs [] = ToHTTP hs"
  using add_headers_fold [of hs "[]"] by (simp add: ToHTTP_def)

lemma headers_Get_map:
  "list_all (\<lambda>f. hf_values f \<noteq> []) hs \<Longrightarrow>
   headers_Get hs n = (case map_of (map (\<lambda>f. (CanonicalHeaderKey (hf_name f), hf_values f)) hs) (CanonicalHeaderKey n) of
      Some (v # _) \<Rightarrow> v | _ \<Rightarrow> [])"
  by (induction hs) (auto split: list.split)

lemma header_get_ToHTTP:
  assumes "plain_headers hs"
  shows "header_get (ToHTTP hs) n = headers_Get hs n"
proof -
  let ?p = "\<lambda>f. (CanonicalHeaderKey (hf_name f), hf_values f)"
  have d: "distinct (map fst (map ?p hs))" using assms by (simp add: plain_headers_def o_def)
  have "map_of (ToHTTP hs) = map_of (rev (map ?p hs))" unfolding ToHTTP_def ToHTTP_map by simp
  also have "\<dots> = map_of (map ?p hs)" using d by (intro map_of_same_set) (simp_all add: rev_map [symmetric] del: map_map)
  finally have "map_of (ToHTTP hs) = map_of (map ?p hs)" .
  moreover have "list_all (\<lambda>f. hf_values f \<noteq> []) hs" using assms by (auto simp: plain_headers_def list_all_iff)
  ultimately show ?thesis
    by (auto simp: headers_Get_map header_get_def header_values_def mget0_def split: option.split list.split)
qed

lemma plain_no_encoding:
  assumes "plain_headers hs"
  shows "headers_Get hs ''Content-Encoding'' = []"
proof -
  have c: "CanonicalHeaderKey ''Content-Encoding'' = ''Content-Encoding''" by code_simp
  have "list_all (\<lambda>f. hf_values f \<noteq> []) hs" using assms by (auto simp: plain_headers_def list_all_iff)
  moreover have "map_of (map (\<lambda>f. (CanonicalHeaderKey (hf_name f), hf_values f)) hs) ''Content-Encoding'' = None"
    using assms by (auto simp: plain_headers_def list_all_iff map_of_eq_None_iff)
  ultimately show ?thesis by (simp add: headers_Get_map c)
qed

lemma unescape_plain: "list_all (\<lambda>c. c \<noteq> CHR ''%'') s \<Longrightarrow> unescape_path s = Some s"
  by (induction s) auto

lemma cut_byte_none: "c \<notin> set s \<Longrightarrow> cut_byte c s = (s, [])"
proof -
  assume "c \<notin> set s"
  then have ne: "\<forall>x \<in> set s. x \<noteq> c" by blast
  show ?thesis unfolding cut_byte_def takeWhile_eq_all_conv [THEN iffD2, OF ne] dropWhile_eq_Nil_conv [THEN iffD2, OF ne] by simp
qed

lemma plain_url_chars:
  assumes "plain_url u" "c \<in> set u"
  shows "\<not> ctl_byte c" "c \<noteq> CHR ''#''" "c \<noteq> CHR ''?''" "c \<noteq> CHR ''%''"
  using assms unfolding plain_url_def list_all_iff by blast+

lemma replay_path_plain:
  assumes "plain_url u"
  shows "replay_path host_ok u = Some u"
proof -
  have c1: "cut_byte (CHR ''#'') u = (u, [])" using plain_url_chars(2) [OF assms] by (intro cut_byte_none) blast
  have c2: "cut_byte (CHR ''?'') u = (u, [])" using plain_url_chars(3) [OF assms] by (intro cut_byte_none) blast
  obtain s where s: "u = CHR ''/'' # s" using assms by (cases u) (auto simp only: plain_url_def has_prefix_def Nil_prefix prefix_Nil Cons_prefix_Cons)
  have t: "takeWhile (\<lambda>c. c \<noteq> CHR ''/'') u = []" unfolding s by simp
  have d: "dropWhile (\<lambda>c. c \<noteq> CHR ''/'') u = u" unfolding s by simp
  have n: "\<not> list_ex ctl_byte u" using plain_url_chars(1) [OF assms] by (auto simp only: list_ex_iff)
  have p: "unescape_path u = Some u" using plain_url_chars(4) [OF assms] by (intro unescape_plain) (simp only: list_all_iff, blast)
  show ?thesis unfolding replay_path_def c1 Let_def prod.case c2 fst_conv t d p using n by simp
qed

lemma NewRequest_plain:
  assumes "plain_url u" "m \<noteq> []" "list_all token_byte m"
  shows "NewRequest host_ok m u = Some \<lparr>hr_method = m, hr_path = u, hr_header = Some []\<rparr>"
  using assms by (simp add: NewRequest_def replay_path_plain)

section \<open>Conformance of a consistent recording\<close>

text \<open>The cassette Open builds from a loaded file, before indexing.\<close>

definition loaded :: "string \<Rightarrow> wfile \<Rightarrow> cassette" where
  "loaded path f = applyFileMatch (newCassette path ModeReplay replay_options\<lparr>ca_file := f\<rparr>)"

definition scrubbed_body :: "interaction \<Rightarrow> bool" where
  "scrubbed_body it = str_contains (Bytes (rq_body (it_request it))) Replacement"

text \<open>Driven through the matcher: HTTP, unless the body was scrubbed under a stored key.\<close>

definition driven :: "interaction \<Rightarrow> bool" where
  "driven it = (it_kind it = ''http'' \<and> (\<not> scrubbed_body it \<or> rq_match_key (it_request it) = []))"

text \<open>
  What the check expects of an interaction: keys that re-derive where they are stored, requests
  that can be written back as they were received.
\<close>

definition consistent_it :: "libs \<Rightarrow> match_config \<Rightarrow> interaction \<Rightarrow> bool" where
  "consistent_it lb cfg it =
     (let rq = it_request it in
      if it_kind it = ''http'' then
        (case HTTPKey (lb_go lb) rq cfg of
           Inl _ \<Rightarrow> False
         | Inr k \<Rightarrow> scrubbed_body it \<and> rq_match_key rq \<noteq> [] \<or>
             (rq_match_key rq = [] \<or> rq_match_key rq = k) \<and> plain_url (rq_url rq) \<and> plain_headers (rq_headers rq) \<and>
             rq_method rq \<noteq> [] \<and> list_all token_byte (rq_method rq))
      else if it_kind it = ''mcp'' then rq_match_key rq = [] \<or> rq_match_key rq = MCPKey rq cfg
      else True)"

text \<open>No key of a driven interaction is stored for one that is not driven.\<close>

definition keys_apart :: "libs \<Rightarrow> cassette \<Rightarrow> interaction list \<Rightarrow> bool" where
  "keys_apart lb c its = list_all (\<lambda>it. driven it \<or> it_kind it = ''mcp'' \<or>
     plain_key lb c it \<notin> set (map (plain_key lb c) (filter driven its))) its"

lemma HTTP_MCP_keys:
  assumes "HTTPKey gl r cfg = Inr k" "mc_key cfg = None"
  shows "k \<noteq> MCPKey r' cfg'"
proof -
  have m: "to_upper_byte x \<noteq> CHR ''m''" for x
    by (auto simp: to_upper_byte_def byte_of_char_of dest!: arg_cong [where f = "byte_of :: char \<Rightarrow> nat"])
  have "hd k \<noteq> CHR ''m''"
    using assms m by (cases "rq_method r")
      (auto simp: HTTPKey_def Key_def Let_def to_upper_def newline_CHR split: option.splits sum.splits)
  moreover have "hd (MCPKey r' cfg') = CHR ''m''" by (simp add: MCPKey_def CallKey_def ListKey_def Let_def)
  ultimately show ?thesis by metis
qed

lemma loaded_fields [simp]:
  "ca_file (loaded path f) = f" "ca_cursor (loaded path f) = []" "ca_dials (loaded path f) = 0"
  "op_faults (ca_opts (loaded path f)) = []" "op_exhaust (ca_opts (loaded path f)) = ExhaustError"
  "mc_key (ca_match (loaded path f)) = None"
  by (auto simp: loaded_def applyFileMatch_def newCassette_def replay_options_def toInternal_def zero_config_def Let_def split: option.split)

text \<open>The rebuilt request has the key of the stored one.\<close>

lemma rebuilt_key:
  assumes "HTTPKey gl rq cfg = Inr k" "plain_headers (rq_headers rq)"
  shows "\<exists>inp. FromRequest gl \<lparr>hr_method = rq_method rq, hr_path = rq_url rq, hr_header = Some (add_headers (rq_headers rq) [])\<rparr>
      (Bytes (rq_body rq)) = Inr inp \<and> Key gl inp cfg = Inr k"
proof -
  have g: "\<not> str_contains (to_lower []) ''gzip''" by (simp add: to_lower_def str_contains_def)
  show ?thesis
    using assms(1) header_get_ToHTTP [OF assms(2)] plain_no_encoding [OF assms(2)] g
    by (simp add: FromRequest_def HTTPKey_def DecodeBody_def add_headers_ToHTTP [OF assms(2)] del: headers_Get.simps)
qed

abbreviation pk_count :: "libs \<Rightarrow> cassette \<Rightarrow> interaction list \<Rightarrow> nat \<Rightarrow> string \<Rightarrow> nat" where
  "pk_count lb c its i k \<equiv> length (filter (\<lambda>j. driven (its ! j) \<and> plain_key lb c (its ! j) = Some k) [0 ..< i])"

text \<open>The state after \<open>i\<close> interactions: each driven one has advanced the cursor of its key.\<close>

definition conform_inv :: "libs \<Rightarrow> cassette \<Rightarrow> interaction list \<Rightarrow> nat \<Rightarrow> cassette \<Rightarrow> bool" where
  "conform_inv lb c its i c' =
     ((\<exists>cur S. c' = c\<lparr>ca_cursor := cur, ca_consumed := S\<rparr>) \<and>
      (\<forall>k. mget0 0 (ca_cursor c') k = cursor_at ExhaustError (mget0 [] (ca_keys c) k) (pk_count lb c its i k)))"

lemma pk_count_Suc:
  "pk_count lb c its (Suc i) k = pk_count lb c its i k + (if driven (its ! i) \<and> plain_key lb c (its ! i) = Some k then 1 else 0)"
  by simp

lemma driven_key:
  assumes "driven it" "consistent_it lb (ca_match c) it"
  obtains k where "HTTPKey (lb_go lb) (it_request it) (ca_match c) = Inr k" "plain_key lb c it = Some k"
    "rq_match_key (it_request it) = [] \<or> rq_match_key (it_request it) = k"
    "plain_url (rq_url (it_request it))" "plain_headers (rq_headers (it_request it))"
    "rq_method (it_request it) \<noteq> []" "list_all token_byte (rq_method (it_request it))"
  using assms by (auto simp: driven_def consistent_it_def Let_def plain_key_def index_key_def requestKey_def split: sum.splits)

text \<open>A driven interaction gets its own response.\<close>

lemma driven_resolves:
  assumes keys: "ca_keys c = index_from 0 (map (plain_key lb c) its) []" "wf_its (ca_file c) = its" "i < length its"
    and con: "list_all (consistent_it lb (ca_match c)) its" "keys_apart lb c its"
    and opts: "op_faults (ca_opts c) = []" "op_exhaust (ca_opts c) = ExhaustError" "mc_key (ca_match c) = None"
    and inv: "conform_inv lb c its i c'" and d: "driven (its ! i)"
  shows "\<exists>c''. conform_resolve lb host_ok c' i (its ! i) (scrubbed_body (its ! i)) = (c'', Inr (it_response (its ! i))) \<and> conform_inv lb c its (Suc i) c''"
proof -
  let ?it = "its ! i" and ?rq = "it_request (its ! i)"
  have "consistent_it lb (ca_match c) ?it" using con(1) keys(3) by (simp add: list_all_length)
  with d obtain k where k: "HTTPKey (lb_go lb) ?rq (ca_match c) = Inr k" "plain_key lb c ?it = Some k"
    and r: "plain_url (rq_url ?rq)" "plain_headers (rq_headers ?rq)" "rq_method ?rq \<noteq> []" "list_all token_byte (rq_method ?rq)"
    by (rule driven_key)
  obtain cur S where c': "c' = c\<lparr>ca_cursor := cur, ca_consumed := S\<rparr>" using inv by (auto simp: conform_inv_def)
  have cur: "mget0 0 cur q = cursor_at ExhaustError (mget0 [] (ca_keys c) q) (pk_count lb c its i q)" for q
    using inv by (simp add: conform_inv_def c')
  have only: "driven (its ! j)" if j: "j < length its" "plain_key lb c (its ! j) = Some k" for j
  proof (rule ccontr)
    assume nd: "\<not> driven (its ! j)"
    have mem: "Some k \<in> set (map (plain_key lb c) (filter driven its))" using d k(2) keys(3) by force
    have "its ! j \<in> set its" using j(1) by simp
    then have "it_kind (its ! j) = ''mcp''" using con(2) nd mem j(2) unfolding keys_apart_def list_all_iff by metis
    moreover have "consistent_it lb (ca_match c) (its ! j)" using con(1) j(1) by (simp add: list_all_length)
    ultimately have "plain_key lb c (its ! j) = Some (MCPKey (it_request (its ! j)) (ca_match c))"
      by (auto simp: plain_key_def index_key_def consistent_it_def Let_def)
    then show False using j(2) HTTP_MCP_keys [OF k(1) opts(3)] by simp
  qed
  have grp: "mget0 [] (ca_keys c) k = filter (\<lambda>j. plain_key lb c (its ! j) = Some k) [0 ..< length its]"
    unfolding keys(1) index_group group_of_def by (auto intro: filter_cong)
  have "pk_count lb c its i k = length (filter (\<lambda>j. plain_key lb c (its ! j) = Some k) [0 ..< i])"
    using only keys(3) by (intro arg_cong [where f = length] filter_cong) auto
  then have at: "mget0 [] (ca_keys c) k ! pk_count lb c its i k = i" "pk_count lb c its i k < length (mget0 [] (ca_keys c) k)"
    using filter_upt_nth [OF keys(3), of "\<lambda>j. plain_key lb c (its ! j) = Some k"] k(2) grp by simp_all
  obtain cur' idx where n: "nextIndexLocked ExhaustError (ca_keys c) cur k = (cur', idx)" by fastforce
  have idx: "idx = Some i" and cur': "mget0 0 cur' q = (if q = k then cursor_at ExhaustError (mget0 [] (ca_keys c) k) (Suc (pk_count lb c its i k)) else mget0 0 cur q)" for q
    using next_answer [OF cur, of k q] n at by (auto simp: answer_def)
  obtain inp where inp: "FromRequest (lb_go lb) \<lparr>hr_method = rq_method ?rq, hr_path = rq_url ?rq, hr_header = Some (add_headers (rq_headers ?rq) [])\<rparr>
      (Bytes (rq_body ?rq)) = Inr inp" "Key (lb_go lb) inp (ca_match c) = Inr k"
    using rebuilt_key [OF k(1) r(2)] by blast
  have m: "matchResponse lb c' False \<lparr>hr_method = rq_method ?rq, hr_path = rq_url ?rq, hr_header = Some (add_headers (rq_headers ?rq) [])\<rparr> (Bytes (rq_body ?rq)) =
      (c'\<lparr>ca_cursor := cur', ca_consumed := insert i S\<rparr>, Inr (Some (it_response ?it)))"
    using matchResponse_key [OF inp(1), of c'] inp(2) opts(1,2) n idx keys(2) by (simp add: c')
  have "conform_resolve lb host_ok c' i ?it (scrubbed_body ?it) = (c'\<lparr>ca_cursor := cur', ca_consumed := insert i S\<rparr>, Inr (it_response ?it))"
    using d m NewRequest_plain [OF r(1,3,4)] by (auto simp: conform_resolve_def driven_def Let_def)
  moreover have "conform_inv lb c its (Suc i) (c'\<lparr>ca_cursor := cur', ca_consumed := insert i S\<rparr>)"
    using d k(2) cur by (auto simp: conform_inv_def c' cur' pk_count_Suc)
  ultimately show ?thesis by blast
qed

lemma inv_skip: "conform_inv lb c its i c' \<Longrightarrow> \<not> driven (its ! i) \<Longrightarrow> conform_inv lb c its (Suc i) c'"
  by (simp add: conform_inv_def)

lemma inv_fields:
  assumes "conform_inv lb c its i c'"
  shows "ca_match c' = ca_match c" "ca_keys c' = ca_keys c" "ca_file c' = ca_file c" "ca_dials c' = ca_dials c"
  using assms by (auto simp: conform_inv_def)

lemma same_interaction: "it_kind it = k \<Longrightarrow> \<lparr>it_kind = k, it_request = it_request it, it_response = it_response it\<rparr> = it"
  by (cases it) simp

lemma conform_it_ok:
  assumes keys: "ca_keys c = index_from 0 (map (plain_key lb c) its) []" "wf_its (ca_file c) = its" "i < length its"
    and con: "list_all (consistent_it lb (ca_match c)) its" "keys_apart lb c its"
    and opts: "op_faults (ca_opts c) = []" "op_exhaust (ca_opts c) = ExhaustError" "mc_key (ca_match c) = None"
    and inv: "conform_inv lb c its i c'"
  shows "\<exists>c'' ct. conform_it lb host_ok G c' i (its ! i) = (c'', ct) \<and> co_OK ct \<and> co_index ct = i \<and> conform_inv lb c its (Suc i) c''"
proof -
  let ?it = "its ! i"
  note f = inv_fields [OF inv]
  have ci: "consistent_it lb (ca_match c) ?it" using con(1) keys(3) by (simp add: list_all_length)
  consider "it_kind ?it = ''http''" | "it_kind ?it = ''mcp''" | "it_kind ?it \<noteq> ''http''" "it_kind ?it \<noteq> ''mcp''" by blast
  then show ?thesis
  proof cases
    case 1
    obtain k where k: "HTTPKey (lb_go lb) (it_request ?it) (ca_match c) = Inr k"
      and kk: "scrubbed_body ?it \<and> rq_match_key (it_request ?it) \<noteq> [] \<or> rq_match_key (it_request ?it) = [] \<or> rq_match_key (it_request ?it) = k"
      using ci 1 by (auto simp: consistent_it_def Let_def split: sum.splits)
    have "\<exists>c''. conform_resolve lb host_ok c' i ?it (scrubbed_body ?it) = (c'', Inr (it_response ?it)) \<and> conform_inv lb c its (Suc i) c''"
    proof (cases "driven ?it")
      case True
      then show ?thesis using driven_resolves [OF keys con opts inv] by blast
    next
      case False
      then have s: "scrubbed_body ?it" "rq_match_key (it_request ?it) \<noteq> []" using 1 by (auto simp: driven_def)
      have "plain_key lb c ?it = Some (rq_match_key (it_request ?it))" using s(2) by (simp add: plain_key_def index_key_def)
      then have "i \<in> set (mget0 [] (ca_keys c') (rq_match_key (it_request ?it)))"
        using keys(3) unfolding f(2) keys(1) index_group group_of_def by simp
      then show ?thesis using s inv_skip [OF inv False] keys(2) f(3) by (simp add: conform_resolve_def Let_def)
    qed
    then obtain c'' where r: "conform_resolve lb host_ok c' i ?it (scrubbed_body ?it) = (c'', Inr (it_response ?it))" "conform_inv lb c its (Suc i) c''"
      by blast
    define ct0 where "ct0 = \<lparr>co_index = i, co_kind = it_kind ?it, co_method = rq_method (it_request ?it), co_url = rq_url (it_request ?it),
      co_tool = [], co_key_ok = False, co_replay_ok = False, co_detail = []\<rparr>"
    have "conform_it lb host_ok G c' i ?it = (c'', (conform_key ?it (scrubbed_body ?it) k ct0)\<lparr>co_replay_ok := True\<rparr>)"
      using 1 k r(1)
      by (simp add: conform_it_def conformHTTP_def f(1) Let_def ct0_def scrubbed_body_def [symmetric] same_interaction [OF 1])
    moreover have "co_key_ok (conform_key ?it (scrubbed_body ?it) k ct0)" using kk by (auto simp: conform_key_def)
    moreover have "co_index (conform_key ?it (scrubbed_body ?it) k ct0) = i" by (simp add: conform_key_def ct0_def)
    ultimately show ?thesis using r(2) by (simp add: co_OK_def)
  next
    case 2
    then have "\<not> driven ?it" by (simp add: driven_def)
    then show ?thesis using 2 ci inv_skip [OF inv]
      by (auto simp: conform_it_def conformMCP_def co_OK_def consistent_it_def Let_def f(1))
  next
    case 3
    then have "\<not> driven ?it" by (simp add: driven_def)
    then show ?thesis using 3 inv_skip [OF inv] by (simp add: conform_it_def co_OK_def Let_def)
  qed
qed

lemma conform_loop_ok:
  assumes keys: "ca_keys c = index_from 0 (map (plain_key lb c) its) []" "wf_its (ca_file c) = its"
    and con: "list_all (consistent_it lb (ca_match c)) its" "keys_apart lb c its"
    and opts: "op_faults (ca_opts c) = []" "op_exhaust (ca_opts c) = ExhaustError" "mc_key (ca_match c) = None"
  shows "conform_inv lb c its i c' \<Longrightarrow> i \<le> length its \<Longrightarrow> map co_index (cn_turns rep) = [0 ..< i] \<Longrightarrow>
    \<exists>c'' rep'. conform_loop lb host_ok G c' i (drop i its) rep = (c'', rep') \<and> cn_bad rep' = cn_bad rep \<and>
      map co_index (cn_turns rep') = [0 ..< length its] \<and> ca_dials c'' = ca_dials c"
proof (induction "length its - i" arbitrary: i c' rep)
  case 0
  then show ?case by (auto simp: inv_fields(4))
next
  case (Suc n)
  then have i: "i < length its" by simp
  obtain c1 ct where s: "conform_it lb host_ok G c' i (its ! i) = (c1, ct)" "co_OK ct" "co_index ct = i" "conform_inv lb c its (Suc i) c1"
    using conform_it_ok [OF keys i con opts Suc.prems(1), where host_ok = host_ok and G = G] by blast
  have "drop i its = its ! i # drop (Suc i) its" using i by (simp add: Cons_nth_drop_Suc)
  then show ?case using Suc.hyps(1) [of "Suc i" c1 "rep\<lparr>cn_turns := cn_turns rep @ [ct]\<rparr>"] Suc.hyps(2) Suc.prems s i by simp
qed


definition sample_it :: "string \<Rightarrow> string \<Rightarrow> interaction" where
  "sample_it url resp = \<lparr>it_kind = ''http'', it_request = \<lparr>rq_method = ''POST'', rq_url = url, rq_headers = [],
     rq_mcp_method = [], rq_mcp_tool = [], rq_body = Some ''x'', rq_body_sha = [], rq_match_key = []\<rparr>,
     it_response = \<lparr>rs_status = 200, rs_headers = [], rs_streaming = False, rs_body = Some resp, rs_error = [], rs_timing = []\<rparr>\<rparr>"

text \<open>Two interactions with one key, resolved in order.\<close>

abbreviation twin_file :: wfile where
  "twin_file \<equiv> sample_file\<lparr>wf_schema := SchemaVersion, wf_match := None, wf_its := [sample_it ''/v1'' ''a'', sample_it ''/v1'' ''b'']\<rparr>"

abbreviation twin_libs :: libs where
  "twin_libs \<equiv> toy_libs\<lparr>lb_ydec := \<lambda>_. Some twin_file\<rparr>"

lemma sample_key: "\<exists>k. HTTPKey gl (it_request (sample_it url resp)) (ca_match (loaded path f)) = Inr k"
proof -
  have "ParseMediaType [] = ([], [])" "\<not> looksJSON ''x''" by code_simp+
  moreover have "\<not> str_contains (to_lower []) ''gzip''" "\<not> str_contains [] ''json''" "\<not> has_prefix [] ''multipart/''"
    by (simp_all add: to_lower_def str_contains_def has_prefix_def)
  moreover have "mc_path (ca_match (loaded path f)) = None" "mc_body (ca_match (loaded path f)) = None"
    by (auto simp: loaded_def applyFileMatch_def newCassette_def replay_options_def toInternal_def zero_config_def Let_def split: option.split)
  ultimately show ?thesis by (simp add: HTTPKey_def sample_it_def DecodeBody_def Key_def bodyDigest_def Bytes_def)
qed


text \<open>
  The recorder stores the path of a request unescaped, and the check parses it again: a stored path
  with a percent sign that begins no escape is reported as not replayable although its key
  re-derives.
\<close>

lemma percent_not_replayable:
  assumes "it_kind it = ''http''" "rq_url (it_request it) = ''/50%''" "\<not> scrubbed_body it"
    and "HTTPKey (lb_go lb) (it_request it) (ca_match c) = Inr (rq_match_key (it_request it))"
  shows "co_key_ok (snd (conform_it lb host_ok G c i it)) \<and> \<not> co_replay_ok (snd (conform_it lb host_ok G c i it))"
proof -
  have "NewRequest host_ok m ''/50%'' = None" for m by (simp add: NewRequest_def replay_path_def cut_byte_def Let_def)
  then have "conform_resolve lb host_ok c i it False = (c, Inl DRequest)" using assms(2) by (simp add: conform_resolve_def Let_def)
  then show ?thesis
    using assms by (simp add: conform_it_def conformHTTP_def conform_key_def Let_def scrubbed_body_def)
qed

text \<open>
  Nor does the check accept what the recorder keeps of a compressed request: the body is stored as
  it was sent, its key is that of the decompressed one, and the rebuilt request drops the header
  that says so.
\<close>

lemma gzip_not_replayable:
  assumes "it_kind it = ''http''" "\<not> scrubbed_body it" "HTTPKey (lb_go lb) (it_request it) (ca_match c) = Inr k" "rq_match_key (it_request it) = k"
    and "NewRequest host_ok (rq_method (it_request it)) (rq_url (it_request it)) = Some req"
    and "FromRequest (lb_go lb) (req\<lparr>hr_header := Some (add_headers (rq_headers (it_request it)) [])\<rparr>) (Bytes (rq_body (it_request it))) = Inr inp"
    and "Key (lb_go lb) inp (ca_match c) = Inr k'" "mget0 [] (ca_keys c) k' = []" "op_faults (ca_opts c) = []"
  shows "co_key_ok (snd (conform_it lb host_ok G c i it)) \<and> \<not> co_replay_ok (snd (conform_it lb host_ok G c i it))"
proof -
  have "matchResponse lb c False (req\<lparr>hr_header := Some (add_headers (rq_headers (it_request it)) [])\<rparr>) (Bytes (rq_body (it_request it))) =
      (c\<lparr>ca_cursor := ca_cursor c\<rparr>, Inr None)"
    using matchResponse_key [OF assms(6,7,9)] assms(8) by (simp add: nextIndexLocked_def)
  then have "conform_resolve lb host_ok c i it False = (c, Inl DNoResponse)" using assms(5) by (simp add: conform_resolve_def Let_def)
  then show ?thesis
    using assms(1-4) by (simp add: conform_it_def conformHTTP_def conform_key_def Let_def scrubbed_body_def)
qed

end
