(* ===== verification/Schemacheck.thy ===== *)
theory Schemacheck
  imports Authoring
begin

text \<open>
  internal/analysis/schemacheck.go: every emitted tool call is checked against the schema the request
  advertised for the tool.  A value of Go's type any is a JSON value whose objects have sorted
  distinct keys and whose numbers are the texts of their float64 (\<open>f64\<close>, as in authoring).  Go visits
  the members of an object in an unspecified order: \<open>visit path\<close> permutes the problem lists of the
  members of the object at \<open>path\<close>.  The %v text of a value (\<open>sprintv\<close>) and the test that a float64
  survives the conversion to int64 and back (\<open>isint\<close>) are parameters.
\<close>

section \<open>The report\<close>

record schema_violation =
  sv_turn :: int
  sv_tool :: string
  sv_problems :: "string list"

record schema_report =
  sr_checked :: nat
  sr_unschemaed :: nat
  sr_violations :: "schema_violation list"

definition sr_OK :: "schema_report \<Rightarrow> bool" where
  "sr_OK r = (length (sr_violations r) = 0)"

section \<open>Helpers\<close>

definition str_of :: "jval option \<Rightarrow> string" where
  "str_of v = (case v of Some (JStr s) \<Rightarrow> s | _ \<Rightarrow> [])"

definition toStrings :: "jval option \<Rightarrow> string list" where
  "toStrings v = (case v of Some (JArr vs) \<Rightarrow> List.map_filter (\<lambda>e. case e of JStr s \<Rightarrow> Some s | _ \<Rightarrow> None) vs | _ \<Rightarrow> [])"

definition enumContains :: "jval list \<Rightarrow> jval \<Rightarrow> bool" where
  "enumContains enum v = list_ex (\<lambda>e. jencode True e = jencode True v) enum"

fun firstNonEmpty :: "string list \<Rightarrow> string" where
  "firstNonEmpty [] = []"
| "firstNonEmpty (s # ss) = (if s \<noteq> [] then s else firstNonEmpty ss)"

text \<open>None is the zero Result.\<close>

fun firstExisting :: "'r gjson \<Rightarrow> 'r list \<Rightarrow> 'r option" where
  "firstExisting G [] = None"
| "firstExisting G (r # rs) = (if gj_exists G r then Some r else firstExisting G rs)"

definition joinPath :: "string \<Rightarrow> string \<Rightarrow> string" where
  "joinPath a b = (if a = [] then b else if has_prefix b ''['' then a @ b else a @ ''.'' @ b)"

definition quote :: "string \<Rightarrow> string" where
  "quote s = [dquote] @ s @ [dquote]"

definition at_path :: "string \<Rightarrow> string \<Rightarrow> string" where
  "at_path path s = (if path = [] then s else path @ '': '' @ s)"

section \<open>Validating a value\<close>

type_synonym visit_order = "string \<Rightarrow> string list list \<Rightarrow> string list list"

definition enum_problems :: "(jval \<Rightarrow> string) \<Rightarrow> (string \<times> jval) list \<Rightarrow> jval \<Rightarrow> string \<Rightarrow> string list" where
  "enum_problems sprintv schema v path =
     (case map_of schema ''enum'' of
        Some (JArr enum) \<Rightarrow> if enumContains enum v then [] else [at_path path (''value '' @ sprintv v @ '' not in enum'')]
      | _ \<Rightarrow> [])"

definition required_problems :: "(string \<times> jval) list \<Rightarrow> (string \<times> jval) list \<Rightarrow> string \<Rightarrow> string list" where
  "required_problems schema obj path =
     List.map_filter (\<lambda>req. if map_of obj req = None then Some (at_path path (''missing required key '' @ quote req)) else None)
       (toStrings (map_of schema ''required''))"

definition schema_props :: "(string \<times> jval) list \<Rightarrow> (string \<times> jval) list" where
  "schema_props schema = (case map_of schema ''properties'' of Some (JObj ps) \<Rightarrow> ps | _ \<Rightarrow> [])"

definition scalar_problems :: "(string \<Rightarrow> bool) \<Rightarrow> string \<Rightarrow> jval \<Rightarrow> string \<Rightarrow> string list" where
  "scalar_problems isint ty v path =
     (if ty = ''string'' then (case v of JStr _ \<Rightarrow> [] | _ \<Rightarrow> [at_path path ''expected string''])
      else if ty = ''boolean'' then (case v of JBool _ \<Rightarrow> [] | _ \<Rightarrow> [at_path path ''expected boolean''])
      else if ty = ''integer'' then (case v of JNum n \<Rightarrow> if isint n then [] else [at_path path ''expected integer''] | _ \<Rightarrow> [at_path path ''expected integer''])
      else if ty = ''number'' then (case v of JNum _ \<Rightarrow> [] | _ \<Rightarrow> [at_path path ''expected number''])
      else [])"

function validateValue :: "visit_order \<Rightarrow> (jval \<Rightarrow> string) \<Rightarrow> (string \<Rightarrow> bool) \<Rightarrow> jval \<Rightarrow> jval \<Rightarrow> string \<Rightarrow> string list" where
  "validateValue visit sprintv isint v schemaAny path =
     (case schemaAny of
        JObj schema \<Rightarrow>
          let ty = str_of (map_of schema ''type'');
              probs = enum_problems sprintv schema v path
          in if ty = ''object'' then
               (case v of
                  JObj obj \<Rightarrow> probs @ required_problems schema obj path @
                    concat (visit path (map (\<lambda>(k, val).
                      case map_of (schema_props schema) k of
                        None \<Rightarrow> if map_of schema ''additionalProperties'' = Some (JBool False)
                                then [at_path path (''unknown key '' @ quote k)] else []
                      | Some ps \<Rightarrow> validateValue visit sprintv isint val ps (joinPath path k)) obj))
                | _ \<Rightarrow> probs @ [at_path path ''expected object''])
             else if ty = ''array'' then
               (case v of
                  JArr arr \<Rightarrow> (case map_of schema ''items'' of
                      None \<Rightarrow> probs
                    | Some items \<Rightarrow> probs @ concat (map (\<lambda>(i, e).
                        validateValue visit sprintv isint e items (joinPath path (''['' @ nat_dec i @ '']''))) (enumerate 0 arr)))
                | _ \<Rightarrow> probs @ [at_path path ''expected array''])
             else probs @ scalar_problems isint ty v path
      | _ \<Rightarrow> [])"
  by pat_completeness auto
termination
  by (relation "measure (\<lambda>(_, _, _, v, _, _). size v)")
    (auto simp: termination_simp in_set_enumerate_eq less_Suc_eq_le size_list_estimation' [OF nth_mem])

section \<open>Advertised schemas\<close>

definition decl_schema :: "'r gjson \<Rightarrow> 'r \<Rightarrow> (string \<rightharpoonup> 'r option) \<Rightarrow> (string \<rightharpoonup> 'r option)" where
  "decl_schema G d out =
     (let n = gj_string G (gj_sub G d ''name'') in if n \<noteq> [] then out(n \<mapsto> Some (gj_sub G d ''parameters'')) else out)"

definition tool_schema :: "'r gjson \<Rightarrow> 'r \<Rightarrow> (string \<rightharpoonup> 'r option) \<Rightarrow> (string \<rightharpoonup> 'r option)" where
  "tool_schema G tool out =
     (let fd = gj_sub G tool ''functionDeclarations'' in
      if gj_exists G fd then fold (\<lambda>(_, d). decl_schema G d) (gj_each G fd) out
      else let name = firstNonEmpty [gj_string G (gj_sub G tool ''name''), gj_string G (gj_sub G tool ''function.name'')];
               schema = firstExisting G [gj_sub G tool ''input_schema'', gj_sub G tool ''function.parameters'', gj_sub G tool ''parameters'']
           in if name \<noteq> [] \<and> schema \<noteq> None then out(name \<mapsto> schema) else out)"

definition httpToolSchemas :: "'r gjson \<Rightarrow> interaction \<Rightarrow> (string \<rightharpoonup> 'r option)" where
  "httpToolSchemas G it = fold (\<lambda>(_, tool). tool_schema G tool)
     (gj_each G (gj_get G (Bytes (rq_body (it_request it))) ''tools'')) Map.empty"

definition list_schema :: "'r gjson \<Rightarrow> 'r \<Rightarrow> (string \<rightharpoonup> 'r option) \<Rightarrow> (string \<rightharpoonup> 'r option)" where
  "list_schema G tool out =
     (let n = gj_string G (gj_sub G tool ''name'') in
      if n \<noteq> [] then out(n \<mapsto> firstExisting G [gj_sub G tool ''inputSchema'', gj_sub G tool ''input_schema'']) else out)"

definition mcpToolSchemas :: "'r gjson \<Rightarrow> interaction list \<Rightarrow> (string \<rightharpoonup> 'r option)" where
  "mcpToolSchemas G its = fold (\<lambda>it out.
     if it_kind it \<noteq> ''mcp'' \<or> rq_mcp_method (it_request it) \<noteq> ''tools/list'' then out
     else fold (\<lambda>(_, tool). list_schema G tool) (gj_each G (gj_get G (Bytes (rs_body (it_response it))) ''tools'')) out)
     its Map.empty"

section \<open>The check\<close>

text \<open>json.Unmarshal into any: a number out of the range of float64 is an error.\<close>

fun numbers_fit :: "(string \<Rightarrow> string option) \<Rightarrow> jval \<Rightarrow> bool" where
  "numbers_fit f64 (JNum n) = (f64 n \<noteq> None)"
| "numbers_fit f64 (JArr vs) = list_all (numbers_fit f64) vs"
| "numbers_fit f64 (JObj kvs) = list_all (\<lambda>(k, v). numbers_fit f64 v) kvs"
| "numbers_fit f64 v = True"

definition unmarshal_any :: "(string \<Rightarrow> string option) \<Rightarrow> string \<Rightarrow> jval option" where
  "unmarshal_any f64 s = (case jparse s of None \<Rightarrow> None | Some v \<Rightarrow> if numbers_fit f64 v then Some (jiface f64 v) else None)"

record 'r schema_env =
  sn_gjson :: "'r gjson"
  sn_f64 :: "string \<Rightarrow> string option"
  sn_isint :: "string \<Rightarrow> bool"
  sn_sprintv :: "jval \<Rightarrow> string"

definition schema_raw :: "'r schema_env \<Rightarrow> 'r option \<Rightarrow> string" where
  "schema_raw E r = (case r of None \<Rightarrow> [] | Some r \<Rightarrow> gj_raw (sn_gjson E) r)"

definition add_violation :: "int \<Rightarrow> string \<Rightarrow> string list \<Rightarrow> schema_report \<Rightarrow> schema_report" where
  "add_violation turn tool probs rep =
     rep\<lparr>sr_violations := sr_violations rep @ [\<lparr>sv_turn = turn, sv_tool = tool, sv_problems = probs\<rparr>]\<rparr>"

definition validateCall :: "visit_order \<Rightarrow> 'r schema_env \<Rightarrow> int \<Rightarrow> string \<Rightarrow> string \<Rightarrow> (string \<rightharpoonup> 'r option) \<Rightarrow> schema_report \<Rightarrow> schema_report" where
  "validateCall visit E turn tool argsJSON schemas rep =
     (case schemas tool of
        None \<Rightarrow> rep\<lparr>sr_unschemaed := Suc (sr_unschemaed rep)\<rparr>
      | Some schema \<Rightarrow>
          let rep = rep\<lparr>sr_checked := Suc (sr_checked rep)\<rparr> in
          case (if argsJSON = [] then Some (JObj []) else unmarshal_any (sn_f64 E) argsJSON) of
            None \<Rightarrow> add_violation turn tool [''arguments are not valid JSON''] rep
          | Some args \<Rightarrow>
              (case unmarshal_any (sn_f64 E) (schema_raw E schema) of
                 None \<Rightarrow> rep
               | Some schemaObj \<Rightarrow>
                   let probs = validateValue visit (sn_sprintv E) (sn_isint E) args schemaObj [] in
                   if length probs > 0 then add_violation turn tool (sort probs) rep else rep))"

fun schema_loop :: "visit_order \<Rightarrow> 'r schema_env \<Rightarrow> (string \<rightharpoonup> 'r option) \<Rightarrow> int \<Rightarrow> interaction list \<Rightarrow> schema_report \<Rightarrow> schema_report" where
  "schema_loop visit E mcpSchemas turn [] rep = rep"
| "schema_loop visit E mcpSchemas turn (it # its) rep =
     (if it_kind it = ''http'' then
        schema_loop visit E mcpSchemas (turn + 1) its
          (fold (\<lambda>call. validateCall visit E (turn + 1) (tc_Name call) (tc_Args call) (httpToolSchemas (sn_gjson E) it))
             (t_ToolCalls (fst (DecodeInteraction (sn_gjson E) it))) rep)
      else if it_kind it = ''mcp'' then
        schema_loop visit E mcpSchemas (turn + 1) its
          (if rq_mcp_method (it_request it) \<noteq> ''tools/call'' then rep
           else validateCall visit E (turn + 1) (rq_mcp_tool (it_request it)) (Bytes (rq_body (it_request it))) mcpSchemas rep)
      else schema_loop visit E mcpSchemas turn its rep)"

definition SchemaCheck :: "visit_order \<Rightarrow> 'r schema_env \<Rightarrow> wfile \<Rightarrow> schema_report" where
  "SchemaCheck visit E f = schema_loop visit E (mcpToolSchemas (sn_gjson E) (wf_its f)) (- 1) (wf_its f)
     \<lparr>sr_checked = 0, sr_unschemaed = 0, sr_violations = []\<rparr>"

section \<open>What the schemas mean\<close>

text \<open>
  Conformance to the subset of JSON Schema the check covers, as a relation on its own: one rule for
  every kind of schema.
\<close>

definition enum_admits :: "(string \<times> jval) list \<Rightarrow> jval \<Rightarrow> bool" where
  "enum_admits s v = (\<forall>es. map_of s ''enum'' = Some (JArr es) \<longrightarrow> (\<exists>e \<in> set es. jencode True e = jencode True v))"

abbreviation "schema_type s \<equiv> str_of (map_of s ''type'')"

inductive conforms :: "(string \<Rightarrow> bool) \<Rightarrow> jval \<Rightarrow> jval \<Rightarrow> bool" for isint where
  not_a_schema: "(\<And>s. sch \<noteq> JObj s) \<Longrightarrow> conforms isint sch v"
| untyped: "enum_admits s v \<Longrightarrow> schema_type s \<notin> {''object'', ''array'', ''string'', ''boolean'', ''integer'', ''number''} \<Longrightarrow>
    conforms isint (JObj s) v"
| a_string: "enum_admits s (JStr x) \<Longrightarrow> schema_type s = ''string'' \<Longrightarrow> conforms isint (JObj s) (JStr x)"
| a_boolean: "enum_admits s (JBool b) \<Longrightarrow> schema_type s = ''boolean'' \<Longrightarrow> conforms isint (JObj s) (JBool b)"
| a_number: "enum_admits s (JNum n) \<Longrightarrow> schema_type s = ''number'' \<Longrightarrow> conforms isint (JObj s) (JNum n)"
| an_integer: "enum_admits s (JNum n) \<Longrightarrow> schema_type s = ''integer'' \<Longrightarrow> isint n \<Longrightarrow> conforms isint (JObj s) (JNum n)"
| an_array: "enum_admits s (JArr vs) \<Longrightarrow> schema_type s = ''array'' \<Longrightarrow>
    (\<And>items v. map_of s ''items'' = Some items \<Longrightarrow> v \<in> set vs \<Longrightarrow> conforms isint items v) \<Longrightarrow> conforms isint (JObj s) (JArr vs)"
| an_object: "enum_admits s (JObj obj) \<Longrightarrow> schema_type s = ''object'' \<Longrightarrow>
    set (toStrings (map_of s ''required'')) \<subseteq> fst ` set obj \<Longrightarrow>
    (\<And>k v. (k, v) \<in> set obj \<Longrightarrow> map_of (schema_props s) k = None \<Longrightarrow> map_of s ''additionalProperties'' \<noteq> Some (JBool False)) \<Longrightarrow>
    (\<And>k v ps. (k, v) \<in> set obj \<Longrightarrow> map_of (schema_props s) k = Some ps \<Longrightarrow> conforms isint ps v) \<Longrightarrow>
    conforms isint (JObj s) (JObj obj)"

inductive_simps conforms_obj_schema: "conforms isint (JObj s) v"

definition permutes_visits :: "visit_order \<Rightarrow> bool" where
  "permutes_visits visit = (\<forall>path xs. mset (visit path xs) = mset xs)"

lemma permutes_set: "permutes_visits visit \<Longrightarrow> set (visit path xs) = set xs"
  by (metis permutes_visits_def set_mset_mset)

lemma enum_problems_Nil: "enum_problems sprintv s v path = [] \<longleftrightarrow> enum_admits s v"
  by (auto simp: enum_problems_def enum_admits_def enumContains_def list_ex_iff split: option.splits jval.splits)

lemma map_filter_Nil: "List.map_filter f xs = [] \<longleftrightarrow> (\<forall>x \<in> set xs. f x = None)"
  by (induction xs) (auto simp: List.map_filter_simps split: option.splits)

lemma required_problems_Nil: "required_problems s obj path = [] \<longleftrightarrow> set (toStrings (map_of s ''required'')) \<subseteq> fst ` set obj"
  by (auto simp: required_problems_def map_filter_Nil map_of_eq_None_iff)

lemma scalar_problems_Nil:
  "scalar_problems isint ty v path = [] \<longleftrightarrow>
     (ty = ''string'' \<longrightarrow> (\<exists>x. v = JStr x)) \<and> (ty = ''boolean'' \<longrightarrow> (\<exists>b. v = JBool b)) \<and>
     (ty = ''integer'' \<longrightarrow> (\<exists>n. v = JNum n \<and> isint n)) \<and> (ty = ''number'' \<longrightarrow> (\<exists>n. v = JNum n))"
  by (auto simp: scalar_problems_def split: jval.splits)

lemma numbered_Nil: "concat (map f (enumerate 0 vs)) = [] \<longleftrightarrow> (\<forall>i < length vs. f (i, vs ! i) = [])"
  by (auto simp: in_set_enumerate_eq)

declare validateValue.simps [simp del]

lemma validateValue_conforms:
  assumes "permutes_visits visit"
  shows "validateValue visit sprintv isint v sch path = [] \<longleftrightarrow> conforms isint sch v"
proof (induction v arbitrary: sch path)
  case (JArr vs)
  show ?case
  proof (cases sch)
    case (JObj s)
    have IH: "i < length vs \<Longrightarrow> validateValue visit sprintv isint (vs ! i) ps p = [] \<longleftrightarrow> conforms isint ps (vs ! i)" for i ps p
      using JArr.IH by simp
    show ?thesis unfolding JObj
      by (subst validateValue.simps)
        (auto simp: conforms_obj_schema enum_problems_Nil scalar_problems_Nil IH Let_def numbered_Nil in_set_conv_nth
          simp del: concat_eq_Nil_conv split: option.splits)
  qed (auto simp: validateValue.simps intro: conforms.not_a_schema)
next
  case (JObj obj)
  show ?case
  proof (cases sch)
    case sch: (JObj s)
    have IH: "(k, x) \<in> set obj \<Longrightarrow> validateValue visit sprintv isint x ps (joinPath path k) = [] \<longleftrightarrow> conforms isint ps x" for k x ps
      using JObj.IH by (auto simp: snds.simps)
    show ?thesis unfolding sch
      by (subst validateValue.simps)
        (auto simp: conforms_obj_schema enum_problems_Nil scalar_problems_Nil required_problems_Nil IH permutes_set [OF assms] Let_def split: option.splits)
  qed (auto simp: validateValue.simps intro: conforms.not_a_schema)
qed (subst validateValue.simps; auto simp: conforms_obj_schema enum_problems_Nil scalar_problems_Nil Let_def
  intro: conforms.not_a_schema split: jval.split)+


section \<open>The order of the visits\<close>

lemma mset_concat_cong:
  assumes "mset xs = mset (map f zs)" "mset ys = mset (map g zs)" "\<And>z. z \<in> set zs \<Longrightarrow> mset (f z) = mset (g z)"
  shows "mset (concat xs) = mset (concat ys)"
proof -
  have c: "mset (concat ws) = sum_mset (image_mset mset (mset ws))" for ws :: "'a list list"
    by (simp add: mset_concat sum_mset_sum_list flip: mset_map)
  have "image_mset (\<lambda>z. mset (f z)) (mset zs) = image_mset (\<lambda>z. mset (g z)) (mset zs)"
    by (rule image_mset_cong) (simp add: assms(3))
  then show ?thesis unfolding c assms(1,2) by (simp add: multiset.map_comp comp_def)
qed

lemma visits_cong:
  assumes "permutes_visits v1" "permutes_visits v2" "\<And>z. z \<in> set zs \<Longrightarrow> mset (f z) = mset (g z)"
  shows "mset (concat (v1 path (map f zs))) = mset (concat (v2 path (map g zs)))"
  using assms by (intro mset_concat_cong [where f = f and g = g and zs = zs]) (simp_all add: permutes_visits_def)

lemma validateValue_mset:
  assumes "permutes_visits v1" "permutes_visits v2"
  shows "mset (validateValue v1 sprintv isint v sch path) = mset (validateValue v2 sprintv isint v sch path)"
proof (induction v arbitrary: sch path)
  case (JArr vs)
  have "mset (concat (map (\<lambda>(i, e). validateValue v1 sprintv isint e items (p i)) (enumerate 0 vs))) =
      mset (concat (map (\<lambda>(i, e). validateValue v2 sprintv isint e items (p i)) (enumerate 0 vs)))" for items p
    by (rule mset_concat_cong [OF refl refl]) (auto simp: in_set_enumerate_eq JArr.IH)
  then show ?case by (subst (1 2) validateValue.simps, cases sch) (simp_all add: Let_def split: option.split)
next
  case (JObj obj)
  have "mset (validateValue v1 sprintv isint x ps p) = mset (validateValue v2 sprintv isint x ps p)"
    if "(k, x) \<in> set obj" for k x ps p
    using that JObj.IH by (auto simp: snds.simps)
  then have "mset (concat (v1 path (map (\<lambda>(k, val). case map_of (schema_props s) k of
            None \<Rightarrow> if map_of s ''additionalProperties'' = Some (JBool False) then [at_path path (''unknown key '' @ quote k)] else []
          | Some ps \<Rightarrow> validateValue v1 sprintv isint val ps (joinPath path k)) obj))) =
      mset (concat (v2 path (map (\<lambda>(k, val). case map_of (schema_props s) k of
            None \<Rightarrow> if map_of s ''additionalProperties'' = Some (JBool False) then [at_path path (''unknown key '' @ quote k)] else []
          | Some ps \<Rightarrow> validateValue v2 sprintv isint val ps (joinPath path k)) obj)))" for s
    by (intro visits_cong assms) (auto split: option.split)
  then show ?case by (subst (1 2) validateValue.simps, cases sch) (simp_all add: Let_def)
next
  case JNull
  show ?case by (subst (1 2) validateValue.simps, cases sch) (simp_all add: Let_def)
next
  case (JBool b)
  show ?case by (subst (1 2) validateValue.simps, cases sch) (simp_all add: Let_def)
next
  case (JNum n)
  show ?case by (subst (1 2) validateValue.simps, cases sch) (simp_all add: Let_def)
next
  case (JStr x)
  show ?case by (subst (1 2) validateValue.simps, cases sch) (simp_all add: Let_def)
qed

lemma sort_mset_cong: "mset xs = mset ys \<Longrightarrow> sort xs = sort (ys :: string list)"
  by (metis sorted_list_of_multiset_mset)

lemma validateCall_order:
  assumes "permutes_visits v1" "permutes_visits v2"
  shows "validateCall v1 = validateCall v2"
proof (intro ext)
  fix E turn tool args schemas rep
  note m = validateValue_mset [OF assms]
  have "validateValue v1 sprintv isint v sch path = [] \<longleftrightarrow> validateValue v2 sprintv isint v sch path = []" for sprintv isint v sch path
    using mset_eq_length [OF m] by (metis length_0_conv)
  then show "validateCall v1 E turn tool args schemas rep = validateCall v2 E turn tool args schemas rep"
    by (simp add: validateCall_def Let_def sort_mset_cong [OF m] split: option.split)
qed

text \<open>The calls of a recording, each with its turn and the schemas that were advertised for it.\<close>

fun emitted_calls :: "'r schema_env \<Rightarrow> (string \<rightharpoonup> 'r option) \<Rightarrow> interaction list \<Rightarrow> (string \<times> string \<times> (string \<rightharpoonup> 'r option)) list" where
  "emitted_calls E mcp [] = []"
| "emitted_calls E mcp (it # its) =
     (if it_kind it = ''http'' then
        map (\<lambda>c. (tc_Name c, tc_Args c, httpToolSchemas (sn_gjson E) it)) (t_ToolCalls (fst (DecodeInteraction (sn_gjson E) it)))
      else if it_kind it = ''mcp'' \<and> rq_mcp_method (it_request it) = ''tools/call'' then
        [(rq_mcp_tool (it_request it), Bytes (rq_body (it_request it)), mcp)]
      else []) @ emitted_calls E mcp its"

text \<open>A call keeps its contract: its arguments are JSON and conform to the schema, if that can be read.\<close>

definition keeps_contract :: "'r schema_env \<Rightarrow> 'r option \<Rightarrow> string \<Rightarrow> bool" where
  "keeps_contract E schema args =
     (\<exists>v. (if args = [] then v = JObj [] else unmarshal_any (sn_f64 E) args = Some v) \<and>
        (\<forall>sch. unmarshal_any (sn_f64 E) (schema_raw E schema) = Some sch \<longrightarrow> conforms (sn_isint E) sch v))"

lemma validateCall_fields:
  assumes "permutes_visits visit"
    and r_def: "r = validateCall visit E turn tool args schemas rep"
  shows "sr_checked r = sr_checked rep + (if schemas tool = None then 0 else 1)"
    and "sr_unschemaed r = sr_unschemaed rep + (if schemas tool = None then 1 else 0)"
    and "map sv_tool (sr_violations r) = map sv_tool (sr_violations rep) @
      (case schemas tool of None \<Rightarrow> [] | Some s \<Rightarrow> if keeps_contract E s args then [] else [tool])"
proof -
  note c = validateValue_conforms [OF assms(1)]
  show "sr_checked r = sr_checked rep + (if schemas tool = None then 0 else 1)"
    and "sr_unschemaed r = sr_unschemaed rep + (if schemas tool = None then 1 else 0)"
    by (auto simp: r_def validateCall_def add_violation_def Let_def split: option.split)
  show "map sv_tool (sr_violations r) = map sv_tool (sr_violations rep) @
      (case schemas tool of None \<Rightarrow> [] | Some s \<Rightarrow> if keeps_contract E s args then [] else [tool])"
    by (auto simp: r_def validateCall_def add_violation_def keeps_contract_def Let_def c split: option.splits if_splits)
qed

text \<open>What the report says of a list of calls.\<close>

definition reports :: "'r schema_env \<Rightarrow> schema_report \<Rightarrow> (string \<times> string \<times> (string \<rightharpoonup> 'r option)) list \<Rightarrow> schema_report \<Rightarrow> bool" where
  "reports E rep cs r =
     (sr_checked r = sr_checked rep + length (filter (\<lambda>(tool, args, m). m tool \<noteq> None) cs) \<and>
      sr_unschemaed r = sr_unschemaed rep + length (filter (\<lambda>(tool, args, m). m tool = None) cs) \<and>
      map sv_tool (sr_violations r) = map sv_tool (sr_violations rep) @
        map fst (filter (\<lambda>(tool, args, m). \<exists>s. m tool = Some s \<and> \<not> keeps_contract E s args) cs))"

lemma reports_Nil [simp]: "reports E rep [] rep"
  by (simp add: reports_def)

lemma reports_append: "reports E rep cs r \<Longrightarrow> reports E r cs' r' \<Longrightarrow> reports E rep (cs @ cs') r'"
  by (simp add: reports_def)

lemma reports_call:
  "permutes_visits visit \<Longrightarrow> reports E rep [(tool, args, m)] (validateCall visit E turn tool args m rep)"
  by (auto simp: reports_def validateCall_fields [OF _ refl] split: option.split)

lemma reports_fold:
  assumes "permutes_visits visit"
  shows "reports E rep (map (\<lambda>c. (tc_Name c, tc_Args c, m)) cs)
    (fold (\<lambda>c. validateCall visit E turn (tc_Name c) (tc_Args c) m) cs rep)"
proof (induction cs arbitrary: rep)
  case (Cons c cs)
  show ?case using reports_append [OF reports_call [OF assms] Cons.IH] by simp
qed simp

lemma reports_loop:
  assumes "permutes_visits visit"
  shows "reports E rep (emitted_calls E mcp its) (schema_loop visit E mcp turn its rep)"
proof (induction its arbitrary: turn rep)
  case (Cons it its)
  consider "it_kind it = ''http''" | "it_kind it = ''mcp''" "rq_mcp_method (it_request it) = ''tools/call''"
    | "it_kind it \<noteq> ''http''" "\<not> (it_kind it = ''mcp'' \<and> rq_mcp_method (it_request it) = ''tools/call'')" by blast
  then show ?case
  proof cases
    case 1
    show ?thesis
      using reports_append [OF reports_fold [OF assms, where m = "httpToolSchemas (sn_gjson E) it"
          and cs = "t_ToolCalls (fst (DecodeInteraction (sn_gjson E) it))"] Cons.IH] 1 by simp
  next
    case 2
    then show ?thesis using reports_append [OF reports_call [OF assms] Cons.IH] by simp
  next
    case 3
    then show ?thesis using Cons.IH by auto
  qed
qed simp

lemma schema_loop_order:
  assumes "permutes_visits v1" "permutes_visits v2"
  shows "schema_loop v1 E mcp turn its rep = schema_loop v2 E mcp turn its rep"
  by (induction its arbitrary: turn rep) (simp_all add: validateCall_order [OF assms])

text \<open>
  C20. The schema check is exact and does not depend on the order in which Go visits a map.  Every emitted
  call is counted once, as checked or as unschemaed; the violations are, in order, the calls whose
  arguments are no JSON or do not conform to the schema their own request advertised (for MCP, the
  recorded listing), and the whole report, texts included, is the same for any two visiting orders.
\<close>

theorem SchemaCheck_exact:
  assumes "permutes_visits visit" "permutes_visits visit'"
  shows "let cs = emitted_calls E (mcpToolSchemas (sn_gjson E) (wf_its f)) (wf_its f); r = SchemaCheck visit E f
     in r = SchemaCheck visit' E f \<and>
        sr_checked r = length (filter (\<lambda>(tool, args, m). m tool \<noteq> None) cs) \<and>
        sr_unschemaed r = length (filter (\<lambda>(tool, args, m). m tool = None) cs) \<and>
        map sv_tool (sr_violations r) =
          map fst (filter (\<lambda>(tool, args, m). \<exists>s. m tool = Some s \<and> \<not> keeps_contract E s args) cs)"
  using reports_loop [OF assms(1), of E "\<lparr>sr_checked = 0, sr_unschemaed = 0, sr_violations = []\<rparr>"]
  by (simp add: Let_def SchemaCheck_def reports_def schema_loop_order [OF assms])

text \<open>A member that the schema does not know and a string where an integer is asked for, in both orders.\<close>

abbreviation sample_schema :: jval where
  "sample_schema \<equiv> JObj [(''additionalProperties'', JBool False), (''properties'', JObj [(''n'', JObj [(''type'', JStr ''integer'')])]),
     (''required'', JArr [JStr ''n'']), (''type'', JStr ''object'')]"

lemma sample_validate:
  "validateValue (\<lambda>_ xs. rev xs) (\<lambda>_. []) (\<lambda>_. False) (JObj [(''m'', JNull), (''n'', JNum ''1.5'')]) sample_schema [] =
     [''n: expected integer'', ''unknown key '' @ quote ''m'']"
  by code_simp

definition sample_env :: "unit schema_env" where
  "sample_env = \<lparr>sn_gjson = null_gjson\<lparr>gj_exists := \<lambda>_. True, gj_string := \<lambda>_. ''t'', gj_raw := \<lambda>_. ''{\"type\":\"array\"}'',
       gj_each := \<lambda>_. [((), ())]\<rparr>,
     sn_f64 = Some, sn_isint = (\<lambda>_. False), sn_sprintv = (\<lambda>_. [])\<rparr>"

definition sample_calls :: wfile where
  "sample_calls = \<lparr>wf_schema = 1, wf_notice = [], wf_expect = None, wf_match = None, wf_prov = [],
     wf_its = [mcp_interaction ''tools/call'' ''t'' ''{}'' [] [],
       mcp_interaction ''tools/list'' [] [] ''{}'' [], mcp_interaction ''tools/call'' ''u'' [] [] []]\<rparr>"

lemma SchemaCheck_exact_witness:
  "map sv_tool (sr_violations (SchemaCheck (\<lambda>_ xs. xs) sample_env sample_calls)) = [''t''] \<and>
   sr_unschemaed (SchemaCheck (\<lambda>_ xs. xs) sample_env sample_calls) = 1 \<and>
   SchemaCheck (\<lambda>_ xs. xs) sample_env sample_calls = SchemaCheck (\<lambda>_. rev) sample_env sample_calls"
proof -
  have "permutes_visits (\<lambda>_ xs. xs)" "permutes_visits (\<lambda>_. rev)" by (simp_all add: permutes_visits_def)
  note t = SchemaCheck_exact [OF this, of sample_env sample_calls]
  have "map sv_tool (sr_violations (SchemaCheck (\<lambda>_ xs. xs) sample_env sample_calls)) = [''t'']" by code_simp
  moreover have "sr_unschemaed (SchemaCheck (\<lambda>_ xs. xs) sample_env sample_calls) = 1" by code_simp
  ultimately show ?thesis using t by (simp add: Let_def)
qed

end
