(* ===== verification/Cli.thy ===== *)
theory Cli
  imports Serve "HOL-Library.Product_Lexorder"
begin

text \<open>
  cmd/cassette/cli.go, the argument parser all commands share, and cmd/cassette/ciguard.go, the
  recorder of replay misses behind the CI gate.  The parser's index into the arguments is the list of
  the arguments that follow; error texts are constructors.
\<close>

section \<open>Flag sets\<close>

record flag_set =
  fs_bools :: "string set"
  fs_vals :: "string set"
  fs_aliases :: "(string \<times> string) list"

definition newFlags :: flag_set where
  "newFlags = \<lparr>fs_bools = {}, fs_vals = {}, fs_aliases = []\<rparr>"

definition boolFlag :: "string list \<Rightarrow> flag_set \<Rightarrow> flag_set" where
  "boolFlag names fs = fs\<lparr>fs_bools := fs_bools fs \<union> set names\<rparr>"

definition valFlag :: "string list \<Rightarrow> flag_set \<Rightarrow> flag_set" where
  "valFlag names fs = fs\<lparr>fs_vals := fs_vals fs \<union> set names\<rparr>"

definition flag_alias :: "string \<Rightarrow> string \<Rightarrow> flag_set \<Rightarrow> flag_set" where
  "flag_alias short long fs = fs\<lparr>fs_aliases := mput short long (fs_aliases fs)\<rparr>"

section \<open>Invocations\<close>

record inv =
  in_pos :: "string list"
  in_vals :: "(string \<times> string list) list"
  in_set :: "string set"

definition inv0 :: inv where
  "inv0 = \<lparr>in_pos = [], in_vals = [], in_set = {}\<rparr>"

definition in_nargs :: "inv \<Rightarrow> nat" where
  "in_nargs v = length (in_pos v)"

definition in_arg :: "inv \<Rightarrow> nat \<Rightarrow> string" where
  "in_arg v i = (if i < length (in_pos v) then in_pos v ! i else [])"

definition in_has :: "inv \<Rightarrow> string \<Rightarrow> bool" where
  "in_has v name = (name \<in> in_set v)"

definition in_list :: "inv \<Rightarrow> string \<Rightarrow> string list" where
  "in_list v name = mget0 [] (in_vals v) name"

definition in_str :: "inv \<Rightarrow> string \<Rightarrow> string" where
  "in_str v name = (let vs = in_list v name in if length vs = 0 then [] else vs ! (length vs - 1))"

definition in_strOr :: "inv \<Rightarrow> string \<Rightarrow> string \<Rightarrow> string" where
  "in_strOr v name def = (if in_has v name then in_str v name else def)"

definition in_flagSet :: "inv \<Rightarrow> string \<Rightarrow> string set" where
  "in_flagSet v name = set (filter (\<lambda>tok. tok \<noteq> []) (map TrimSpace (concat (map (split_byte (CHR '','')) (in_list v name)))))"

section \<open>Parsing\<close>

datatype cli_error =
    UnknownShort string
  | TakesNoValue string
  | NeedsValue string
  | UnknownFlag string

definition set_flag :: "string \<Rightarrow> inv \<Rightarrow> inv" where
  "set_flag name v = v\<lparr>in_set := insert name (in_set v)\<rparr>"

definition put_val :: "string \<Rightarrow> string \<Rightarrow> inv \<Rightarrow> inv" where
  "put_val name val v = v\<lparr>in_vals := mput name (in_list v name @ [val]) (in_vals v)\<rparr>"

definition cli_assign :: "flag_set \<Rightarrow> inv \<Rightarrow> string \<Rightarrow> string \<Rightarrow> bool \<Rightarrow> string list \<Rightarrow> cli_error + inv \<times> string list" where
  "cli_assign fs v name val hasEq rest =
     (if name \<in> fs_bools fs then
        (if hasEq then Inl (TakesNoValue name) else Inr (set_flag name v, rest))
      else if name \<in> fs_vals fs then
        (if hasEq then Inr (set_flag name (put_val name val v), rest)
         else case rest of
             [] \<Rightarrow> Inl (NeedsValue name)
           | val # rest \<Rightarrow> Inr (set_flag name (put_val name val v), rest))
      else Inl (UnknownFlag name))"

text \<open>strings.Cut with an equals sign: name, value and whether there was one.\<close>

definition cut_eq :: "string \<Rightarrow> string \<times> string \<times> bool" where
  "cut_eq s = (let (a, b) = cut_byte (CHR ''='') s in (a, b, CHR ''='' \<in> set s))"

lemma cli_assign_rest: "cli_assign fs v name val hasEq rest = Inr (v', rest') \<Longrightarrow> length rest' \<le> length rest"
  by (auto simp: cli_assign_def split: if_splits list.splits)

function cli_parse :: "flag_set \<Rightarrow> inv \<Rightarrow> string list \<Rightarrow> cli_error + inv" where
  "cli_parse fs v [] = Inr v"
| "cli_parse fs v (a # rest) =
     (if a = ''--'' then Inr (v\<lparr>in_pos := in_pos v @ rest\<rparr>)
      else if has_prefix a ''--'' then
        (let (name, val, hasEq) = cut_eq (drop 2 a) in
         case cli_assign fs v name val hasEq rest of
           Inl e \<Rightarrow> Inl e
         | Inr (v', rest') \<Rightarrow> cli_parse fs v' rest')
      else if 1 < length a \<and> hd a = CHR ''-'' then
        (let (short, val, hasEq) = cut_eq (drop 1 a) in
         case mget (fs_aliases fs) short of
           None \<Rightarrow> Inl (UnknownShort short)
         | Some long \<Rightarrow>
             (case cli_assign fs v long val hasEq rest of
                Inl e \<Rightarrow> Inl e
              | Inr (v', rest') \<Rightarrow> cli_parse fs v' rest'))
      else cli_parse fs (v\<lparr>in_pos := in_pos v @ [a]\<rparr>) rest)"
  by pat_completeness auto

termination
  by (relation "measure (\<lambda>(_, _, args). length args)") (auto dest!: cli_assign_rest)

section \<open>Invocations and their arguments\<close>

text \<open>What the user means, item by item, and how it may be written.\<close>

datatype cli_item =
    Flag string
  | Value string string
  | ValueEq string string
  | Short string string
  | ShortEq string string
  | ShortFlag string
  | Arg string

fun item_args :: "cli_item \<Rightarrow> string list" where
  "item_args (Flag n) = [''--'' @ n]"
| "item_args (Value n v) = [''--'' @ n, v]"
| "item_args (ValueEq n v) = [''--'' @ n @ ''='' @ v]"
| "item_args (Short s v) = [''-'' @ s, v]"
| "item_args (ShortEq s v) = [''-'' @ s @ ''='' @ v]"
| "item_args (ShortFlag s) = [''-'' @ s]"
| "item_args (Arg a) = [a]"

definition a_name :: "string \<Rightarrow> bool" where
  "a_name n = (n \<noteq> [] \<and> CHR ''='' \<notin> set n \<and> hd n \<noteq> CHR ''-'')"

definition long_of :: "flag_set \<Rightarrow> string \<Rightarrow> string" where
  "long_of fs s = mget0 [] (fs_aliases fs) s"

fun item_ok :: "flag_set \<Rightarrow> cli_item \<Rightarrow> bool" where
  "item_ok fs (Flag n) = (a_name n \<and> n \<in> fs_bools fs)"
| "item_ok fs (Value n v) = (a_name n \<and> n \<in> fs_vals fs - fs_bools fs)"
| "item_ok fs (ValueEq n v) = (a_name n \<and> n \<in> fs_vals fs - fs_bools fs)"
| "item_ok fs (Short s v) = (a_name s \<and> mget (fs_aliases fs) s \<noteq> None \<and> long_of fs s \<in> fs_vals fs - fs_bools fs)"
| "item_ok fs (ShortEq s v) = (a_name s \<and> mget (fs_aliases fs) s \<noteq> None \<and> long_of fs s \<in> fs_vals fs - fs_bools fs)"
| "item_ok fs (ShortFlag s) = (a_name s \<and> mget (fs_aliases fs) s \<noteq> None \<and> long_of fs s \<in> fs_bools fs)"
| "item_ok fs (Arg a) = (a = [] \<or> a = ''-'' \<or> hd a \<noteq> CHR ''-'')"

text \<open>The flags and values an invocation means.\<close>

fun item_flag :: "flag_set \<Rightarrow> cli_item \<Rightarrow> string list" where
  "item_flag fs (Flag n) = [n]"
| "item_flag fs (Value n v) = [n]"
| "item_flag fs (ValueEq n v) = [n]"
| "item_flag fs (Short s v) = [long_of fs s]"
| "item_flag fs (ShortEq s v) = [long_of fs s]"
| "item_flag fs (ShortFlag s) = [long_of fs s]"
| "item_flag fs (Arg a) = []"

fun item_value :: "flag_set \<Rightarrow> string \<Rightarrow> cli_item \<Rightarrow> string list" where
  "item_value fs k (Value n v) = (if n = k then [v] else [])"
| "item_value fs k (ValueEq n v) = (if n = k then [v] else [])"
| "item_value fs k (Short s v) = (if long_of fs s = k then [v] else [])"
| "item_value fs k (ShortEq s v) = (if long_of fs s = k then [v] else [])"
| "item_value fs k _ = []"

fun item_arg :: "cli_item \<Rightarrow> string list" where
  "item_arg (Arg a) = [a]"
| "item_arg _ = []"

fun item_step :: "flag_set \<Rightarrow> inv \<Rightarrow> cli_item \<Rightarrow> inv" where
  "item_step fs v (Flag n) = set_flag n v"
| "item_step fs v (Value n x) = set_flag n (put_val n x v)"
| "item_step fs v (ValueEq n x) = set_flag n (put_val n x v)"
| "item_step fs v (Short s x) = (let n = long_of fs s in set_flag n (put_val n x v))"
| "item_step fs v (ShortEq s x) = (let n = long_of fs s in set_flag n (put_val n x v))"
| "item_step fs v (ShortFlag s) = set_flag (long_of fs s) v"
| "item_step fs v (Arg a) = v\<lparr>in_pos := in_pos v @ [a]\<rparr>"

lemma in_list_put [simp]: "in_list (put_val n x v) k = (if k = n then in_list v k @ [x] else in_list v k)"
  by (simp add: in_list_def put_val_def)

lemma inv_eq_fields [simp]:
  "in_pos (set_flag n v) = in_pos v" "in_set (set_flag n v) = insert n (in_set v)" "in_list (set_flag n v) k = in_list v k"
  "in_pos (put_val n x v) = in_pos v" "in_set (put_val n x v) = in_set v" "in_list (v\<lparr>in_pos := ps\<rparr>) k = in_list v k"
  by (simp_all add: set_flag_def put_val_def in_list_def)

lemma cut_eq_name:
  assumes "CHR ''='' \<notin> set n"
  shows "cut_eq n = (n, [], False)"
proof -
  have x: "x \<in> set n \<Longrightarrow> x \<noteq> CHR ''=''" for x using assms by auto
  then have d: "dropWhile (\<lambda>c. c \<noteq> CHR ''='') n = []" by (auto simp: dropWhile_eq_Nil_conv)
  show ?thesis unfolding cut_eq_def cut_byte_def d using x assms by (simp add: takeWhile_eq_all_conv)
qed

lemma cut_eq_pair:
  assumes "CHR ''='' \<notin> set n"
  shows "cut_eq (n @ CHR ''='' # v) = (n, v, True)"
proof -
  have "x \<in> set n \<Longrightarrow> x \<noteq> CHR ''=''" for x using assms by auto
  then show ?thesis by (simp add: cut_eq_def cut_byte_def takeWhile_append2 dropWhile_append2)
qed

lemma long_arg:
  assumes "a_name n"
  shows "cli_parse fs v ((''--'' @ n @ w) # rest) =
    (let (name, val, hasEq) = cut_eq (n @ w) in
     case cli_assign fs v name val hasEq rest of Inl e \<Rightarrow> Inl e | Inr (v', rest') \<Rightarrow> cli_parse fs v' rest')"
  using assms by (simp add: has_prefix_def a_name_def)

lemma short_arg:
  assumes "a_name s"
  shows "cli_parse fs v ((''-'' @ s @ w) # rest) =
    (let (short, val, hasEq) = cut_eq (s @ w) in
     case mget (fs_aliases fs) short of
       None \<Rightarrow> Inl (UnknownShort short)
     | Some long \<Rightarrow> (case cli_assign fs v long val hasEq rest of Inl e \<Rightarrow> Inl e | Inr (v', rest') \<Rightarrow> cli_parse fs v' rest'))"
proof -
  obtain c t where "s = c # t" "c \<noteq> CHR ''-''" using assms by (cases s) (auto simp: a_name_def)
  then show ?thesis by (simp add: has_prefix_def)
qed

lemma parse_item:
  assumes "item_ok fs x"
  shows "cli_parse fs v (item_args x @ rest) = cli_parse fs (item_step fs v x) rest"
proof (cases x)
  case (Flag n)
  then have "a_name n" "CHR ''='' \<notin> set n" "n \<in> fs_bools fs" using assms by (simp_all add: a_name_def)
  then show ?thesis using long_arg [of n fs v "[]" rest] by (simp add: Flag cut_eq_name cli_assign_def del: cli_parse.simps)
next
  case (Value n y)
  then have "a_name n" "CHR ''='' \<notin> set n" "n \<in> fs_vals fs" "n \<notin> fs_bools fs" using assms by (simp_all add: a_name_def)
  then show ?thesis using long_arg [of n fs v "[]" "y # rest"] by (simp add: Value cut_eq_name cli_assign_def del: cli_parse.simps)
next
  case (ValueEq n y)
  then have "a_name n" "CHR ''='' \<notin> set n" "n \<in> fs_vals fs" "n \<notin> fs_bools fs" using assms by (simp_all add: a_name_def)
  then show ?thesis using long_arg [of n fs v "''='' @ y" rest] by (simp add: ValueEq cut_eq_pair cli_assign_def del: cli_parse.simps)
next
  case (Short s y)
  then obtain l where "a_name s" "CHR ''='' \<notin> set s" "mget (fs_aliases fs) s = Some l" "long_of fs s = l" "l \<in> fs_vals fs" "l \<notin> fs_bools fs"
    using assms by (auto simp: a_name_def long_of_def mget0_def)
  then show ?thesis using short_arg [of s fs v "[]" "y # rest"] by (simp add: Short cut_eq_name cli_assign_def Let_def del: cli_parse.simps)
next
  case (ShortEq s y)
  then obtain l where "a_name s" "CHR ''='' \<notin> set s" "mget (fs_aliases fs) s = Some l" "long_of fs s = l" "l \<in> fs_vals fs" "l \<notin> fs_bools fs"
    using assms by (auto simp: a_name_def long_of_def mget0_def)
  then show ?thesis using short_arg [of s fs v "''='' @ y" rest] by (simp add: ShortEq cut_eq_pair cli_assign_def Let_def del: cli_parse.simps)
next
  case (ShortFlag s)
  then obtain l where "a_name s" "CHR ''='' \<notin> set s" "mget (fs_aliases fs) s = Some l" "long_of fs s = l" "l \<in> fs_bools fs"
    using assms by (auto simp: a_name_def long_of_def mget0_def)
  then show ?thesis using short_arg [of s fs v "[]" rest] by (simp add: ShortFlag cut_eq_name cli_assign_def del: cli_parse.simps)
next
  case (Arg a)
  then show ?thesis using assms by (cases a) (auto simp: has_prefix_def)
qed

lemma parse_items:
  "list_all (item_ok fs) xs \<Longrightarrow> cli_parse fs v (concat (map item_args xs) @ rest) = cli_parse fs (foldl (item_step fs) v xs) rest"
  by (induction xs arbitrary: v) (simp_all add: parse_item del: cli_parse.simps)

lemma item_step_fields:
  "in_pos (item_step fs v x) = in_pos v @ item_arg x"
  "in_set (item_step fs v x) = in_set v \<union> set (item_flag fs x)"
  "in_list (item_step fs v x) k = in_list v k @ item_value fs k x"
  by (cases x; simp add: Let_def)+

lemma item_steps_fields:
  "in_pos (foldl (item_step fs) v xs) = in_pos v @ concat (map item_arg xs)"
  "in_set (foldl (item_step fs) v xs) = in_set v \<union> set (concat (map (item_flag fs) xs))"
  "in_list (foldl (item_step fs) v xs) k = in_list v k @ concat (map (item_value fs k) xs)"
  by (induction xs arbitrary: v) (simp_all add: item_step_fields Un_assoc)

text \<open>
  C37. Arguments are parsed to what they mean.  However the items of an invocation are written, with the
  value behind the flag or joined to it, long or by an alias, in whatever order and mixture with
  positional arguments, the parser returns exactly the positional arguments in order, the flags
  that are set, and for every flag its values in order; after a double dash everything is
  positional.
\<close>

theorem cli_parse_meaning:
  assumes "list_all (item_ok fs) xs"
  shows "\<exists>v. cli_parse fs inv0 (concat (map item_args xs) @ (if dashes then ''--'' # tail else [])) = Inr v \<and>
    in_pos v = concat (map item_arg xs) @ (if dashes then tail else []) \<and>
    in_set v = set (concat (map (item_flag fs) xs)) \<and> in_list v k = concat (map (item_value fs k) xs)"
  using parse_items [OF assms, of inv0]
  by (simp add: item_steps_fields inv0_def) (simp add: in_list_def)

text \<open>One invocation of graft, with the flags in two notations and behind a double dash a file.\<close>

abbreviation graft_flags :: flag_set where
  "graft_flags \<equiv> flag_alias ''o'' ''out'' (valFlag [''turn'', ''set'', ''out''] newFlags)"

lemma cli_parse_meaning_witness:
  "\<exists>v. cli_parse graft_flags inv0 [''--turn=1'', ''--set'', ''text=-a'', ''-o'', ''out.yaml'', ''--set'', ''b'', ''--'', ''--in''] = Inr v \<and>
    in_pos v = [''--in''] \<and> in_set v = {''turn'', ''set'', ''out''} \<and> in_list v ''set'' = [''text=-a'', ''b'']"
proof -
  let ?xs = "[ValueEq ''turn'' ''1'', Value ''set'' ''text=-a'', Short ''o'' ''out.yaml'', Value ''set'' ''b'']"
  have "list_all (item_ok graft_flags) ?xs"
    by (simp add: a_name_def flag_alias_def valFlag_def newFlags_def long_of_def mget0_def)
  from cli_parse_meaning [OF this, of True "[''--in'']" "''set''"] show ?thesis
    by (simp add: long_of_def flag_alias_def valFlag_def newFlags_def mget0_def insert_commute del: cli_parse.simps)
qed

section \<open>Misses\<close>

record miss_entry =
  me_method :: string
  me_path :: string
  me_count :: nat

type_synonym miss_recorder = "(string \<times> miss_entry) list"

definition newMissRecorder :: miss_recorder where
  "newMissRecorder = []"

definition record_miss :: "string \<Rightarrow> string \<Rightarrow> miss_recorder \<Rightarrow> miss_recorder" where
  "record_miss meth path m =
     (let k = meth @ '' '' @ path;
          e = (case mget m k of None \<Rightarrow> \<lparr>me_method = meth, me_path = path, me_count = 0\<rparr> | Some e \<Rightarrow> e)
      in mput k (e\<lparr>me_count := me_count e + 1\<rparr>) m)"

definition misses_empty :: "miss_recorder \<Rightarrow> bool" where
  "misses_empty m = (length m = 0)"

definition miss_manifest :: "miss_recorder \<Rightarrow> miss_entry list" where
  "miss_manifest m = sort_key (\<lambda>e. (me_method e, me_path e)) (map snd m)"

text \<open>The hook of the server: it records the miss and answers 404.\<close>

definition recordingOnMiss :: "(nat \<Rightarrow> bool) \<Rightarrow> string \<Rightarrow> string \<Rightarrow> miss_recorder \<Rightarrow> writer \<Rightarrow> miss_recorder \<times> writer" where
  "recordingOnMiss isprint meth path m w =
     (record_miss meth path m,
      w\<lparr>rw_header := header_set ''Content-Type'' ''application/json'' (rw_header w), rw_status := Some 404,
        rw_chunks := rw_chunks w @ [''{'' @ quote_json ''error'' @ '':{'' @ quote_json ''type'' @ '':'' @ quote_json ''cassette_miss'' @ '','' @
          quote_json ''message'' @ '':'' @ go_quote isprint (''no recorded interaction matches '' @ path) @ ''}}'' @ [newline]]\<rparr>)"

definition finalizeMisses :: "miss_recorder option \<Rightarrow> int \<times> miss_entry list option" where
  "finalizeMisses rec = (case rec of
     None \<Rightarrow> (0, None)
   | Some m \<Rightarrow> if misses_empty m then (0, None) else (1, Some (miss_manifest m)))"

lemma miss_key_inj:
  "CHR '' '' \<notin> set a \<Longrightarrow> CHR '' '' \<notin> set a' \<Longrightarrow> a @ CHR '' '' # b = a' @ CHR '' '' # b' \<longleftrightarrow> a = a' \<and> b = b'"
proof (induction a arbitrary: a')
  case Nil
  then show ?case by (cases a') auto
next
  case (Cons c a)
  then show ?case by (cases a') auto
qed

abbreviation record_all :: "(string \<times> string) list \<Rightarrow> miss_recorder" where
  "record_all reqs \<equiv> fold (\<lambda>(meth, path). record_miss meth path) reqs newMissRecorder"

abbreviation miss_key :: "string \<times> string \<Rightarrow> string" where
  "miss_key x \<equiv> fst x @ CHR '' '' # snd x"

abbreviation miss_of :: "(string \<times> string) list \<Rightarrow> string \<times> string \<Rightarrow> miss_entry" where
  "miss_of reqs x \<equiv> \<lparr>me_method = fst x, me_path = snd x, me_count = count_list reqs x\<rparr>"

lemma mget_map: "inj_on key (insert x (set xs)) \<Longrightarrow> mget (map (\<lambda>y. (key y, f y)) xs) (key x) = (if x \<in> set xs then Some (f x) else None)"
  by (induction xs) (auto simp: inj_on_def)

lemma mput_map:
  "inj_on key (insert x (set xs)) \<Longrightarrow> distinct xs \<Longrightarrow> mput (key x) v (map (\<lambda>y. (key y, f y)) xs) =
     (if x \<in> set xs then map (\<lambda>y. (key y, if y = x then v else f y)) xs else map (\<lambda>y. (key y, f y)) xs @ [(key x, v)])"
  by (induction xs) (auto simp: inj_on_def)

abbreviation firsts :: "'a list \<Rightarrow> 'a list" where
  "firsts xs \<equiv> rev (remdups (rev xs))"

lemma record_all_map:
  assumes "\<forall>x \<in> set reqs. CHR '' '' \<notin> set (fst x)"
  shows "record_all reqs = map (\<lambda>x. (miss_key x, miss_of reqs x)) (firsts reqs)"
  using assms
proof (induction reqs rule: rev_induct)
  case (snoc x reqs)
  have i: "inj_on miss_key (insert x (set (firsts reqs)))"
    using snoc.prems miss_key_inj by (auto simp: inj_on_def)
  have "record_all (reqs @ [x]) = record_miss (fst x) (snd x) (map (\<lambda>y. (miss_key y, miss_of reqs y)) (firsts reqs))"
    using snoc by (simp add: case_prod_beta')
  also have "\<dots> = mput (miss_key x) (miss_of (reqs @ [x]) x) (map (\<lambda>y. (miss_key y, miss_of reqs y)) (firsts reqs))"
    unfolding record_miss_def using mget_map [OF i, of "miss_of reqs"] by (simp add: Let_def count_list_0_iff)
  also have "\<dots> = map (\<lambda>y. (miss_key y, miss_of (reqs @ [x]) y)) (firsts (reqs @ [x]))"
    unfolding mput_map [OF i distinct_rev [THEN iffD2, OF distinct_remdups]] by (auto)
  finally show ?case .
qed (simp add: newMissRecorder_def)

lemma map_sort_key: "map g (sort_key g xs) = sort (map g xs)"
  by (rule properties_for_sort [symmetric]) simp_all

text \<open>
  The manifest of the misses is exact: one entry for each method and path that was requested in
  vain, in the order of method and path, with the number of those requests, so it does not depend on
  the order in which they came; the exit code is that of success exactly when there was none.
\<close>

theorem miss_manifest_exact:
  assumes "\<forall>x \<in> set reqs. CHR '' '' \<notin> set (fst x)"
  shows "map (\<lambda>e. ((me_method e, me_path e), me_count e)) (miss_manifest (record_all reqs)) =
      map (\<lambda>x. (x, count_list reqs x)) (sorted_list_of_set (set reqs)) \<and>
    (fst (finalizeMisses (Some (record_all reqs))) = 0 \<longleftrightarrow> reqs = [])"
proof -
  let ?es = "map (miss_of reqs) (firsts reqs)" and ?g = "\<lambda>e. (me_method e, me_path e)"
  have m: "miss_manifest (record_all reqs) = sort_key ?g ?es"
    by (simp add: miss_manifest_def record_all_map [OF assms] comp_def del: rev_map)
  have "map ?g (sort_key ?g ?es) = sort (firsts reqs)" by (simp add: map_sort_key comp_def)
  then have s: "map ?g (sort_key ?g ?es) = sorted_list_of_set (set reqs)"
    using sorted_list_of_set.idem_if_sorted_distinct [of "sort (firsts reqs)"] by simp
  have "e \<in> set (sort_key ?g ?es) \<Longrightarrow> me_count e = count_list reqs (?g e)" for e by auto
  then have "map (\<lambda>e. (?g e, me_count e)) (sort_key ?g ?es) = map (\<lambda>x. (x, count_list reqs x)) (map ?g (sort_key ?g ?es))" by simp
  then show ?thesis
    unfolding m s by (simp add: finalizeMisses_def misses_empty_def record_all_map [OF assms])
qed

lemma miss_manifest_exact_witness:
  "map (\<lambda>e. ((me_method e, me_path e), me_count e)) (miss_manifest (record_all [(''POST'', ''/b''), (''GET'', ''/c''), (''POST'', ''/b'')])) =
     [((''GET'', ''/c''), 1), ((''POST'', ''/b''), 2)]"
proof -
  have "sorted_list_of_set (set [(''POST'', ''/b''), (''GET'', ''/c''), (''POST'', ''/b'')]) = [(''GET'', ''/c''), (''POST'', ''/b'')]"
    by code_simp
  then show ?thesis
    using miss_manifest_exact [of "[(''POST'', ''/b''), (''GET'', ''/c''), (''POST'', ''/b'')]"] by (simp del: sorted_list_of_set_insert_remove)
qed

end
