(* ===== verification/Edits.thy ===== *)
theory Edits
  imports Cli Governance Authoring Compose_Laws
begin

text \<open>
  The commands of cmd/cassette that rewrite one recording: maintain.go (scrub, verify, prune, rekey,
  redact-field), expect.go, assert.go, graft.go and branch.go.  A command is a function of the
  arguments and the file system; it returns its exit code and the file system it leaves.  What is
  printed is left out.  The outcome of the system calls of a save depends on the path.
\<close>

abbreviation exitOK :: int where "exitOK \<equiv> 0"
abbreviation exitFail :: int where "exitFail \<equiv> 1"
abbreviation exitUsage :: int where "exitUsage \<equiv> 2"

record 'r cli_env =
  ce_lib :: libs
  ce_gjson :: "'r gjson"
  ce_isprint :: "nat \<Rightarrow> bool"
  ce_save :: "string \<Rightarrow> save_env"

section \<open>Reading and writing recordings\<close>

definition loadOrErr :: "'r cli_env \<Rightarrow> fs \<Rightarrow> string \<Rightarrow> wfile option" where
  "loadOrErr E files path = (case Load (lb_ydec (ce_lib E)) files path of Inl _ \<Rightarrow> None | Inr f \<Rightarrow> Some f)"

definition save_file :: "'r cli_env \<Rightarrow> fs \<Rightarrow> string \<Rightarrow> wfile \<Rightarrow> int \<times> fs" where
  "save_file E files path f =
     (case Save (lb_yenc (ce_lib E)) (ce_save E path) files path f of
        (_, states, err) \<Rightarrow> (if err = None then exitOK else exitFail, last states))"

text \<open>The tail the editing commands share: marshal, refuse secrets, write.\<close>

definition checked_save :: "'r cli_env \<Rightarrow> fs \<Rightarrow> string \<Rightarrow> wfile \<Rightarrow> int \<times> fs" where
  "checked_save E files path f =
     (case Marshal (lb_yenc (ce_lib E)) f of
        Inl _ \<Rightarrow> (exitFail, files)
      | Inr data \<Rightarrow> if length (SecretScan data) > 0 then (exitFail, files) else save_file E files path f)"

definition saveScrubbed :: "'r cli_env \<Rightarrow> fs \<Rightarrow> string \<Rightarrow> wfile \<Rightarrow> int \<times> fs" where
  "saveScrubbed E files path f = checked_save E files path (scrub_File (lb_json (ce_lib E)) scrub_DefaultConfig f)"

fun one_arg :: "string option \<Rightarrow> string list \<Rightarrow> string option" where
  "one_arg path [] = path"
| "one_arg path (a # args) =
     (if a = ''--update'' \<or> a = ''-update'' then one_arg path args
      else if path \<noteq> None then None
      else one_arg (Some a) args)"

definition oneArg :: "string list \<Rightarrow> string option" where
  "oneArg args = one_arg None args"

definition parseEditArgs :: "string list \<Rightarrow> string \<Rightarrow> (string \<times> string) option" where
  "parseEditArgs args flagName =
     (case cli_parse (valFlag [flagName] newFlags) inv0 args of
        Inl _ \<Rightarrow> None
      | Inr v \<Rightarrow> if in_nargs v \<noteq> 1 \<or> in_str v flagName = [] then None
                 else Some (in_arg v 0, in_str v flagName))"

definition fileMatchConfig :: "wfile \<Rightarrow> match_config" where
  "fileMatchConfig f =
     (case wf_match f of
        None \<Rightarrow> zero_config
      | Some m \<Rightarrow> zero_config\<lparr>mc_volatile := ms_volatile m, mc_headers := ms_headers m\<rparr>)"

section \<open>scrub and verify\<close>

definition cmdScrub :: "'r cli_env \<Rightarrow> string list \<Rightarrow> fs \<Rightarrow> int \<times> fs" where
  "cmdScrub E args files =
     (case oneArg args of
        None \<Rightarrow> (exitUsage, files)
      | Some path \<Rightarrow>
          (case loadOrErr E files path of
             None \<Rightarrow> (exitFail, files)
           | Some f \<Rightarrow> save_file E files path (scrub_File (lb_json (ce_lib E)) scrub_DefaultConfig f)))"

definition verify_file :: "'r cli_env \<Rightarrow> fs \<Rightarrow> string \<Rightarrow> int" where
  "verify_file E files path =
     (case mget files path of
        None \<Rightarrow> exitFail
      | Some raw \<Rightarrow>
          (case Wirefmt.Unmarshal (lb_ydec (ce_lib E)) raw of
             Inl _ \<Rightarrow> exitFail
           | Inr _ \<Rightarrow> if length (SecretScan raw) > 0 then exitFail else exitOK))"

definition cmdVerify :: "'r cli_env \<Rightarrow> string list \<Rightarrow> fs \<Rightarrow> int" where
  "cmdVerify E args files = (case oneArg args of None \<Rightarrow> exitUsage | Some path \<Rightarrow> verify_file E files path)"

section \<open>prune\<close>

fun prune_indices :: "nat \<Rightarrow> string list \<Rightarrow> int set \<Rightarrow> int set option" where
  "prune_indices n [] gone = Some gone"
| "prune_indices n (s # ss) gone =
     (case atoi (TrimSpace s) of
        None \<Rightarrow> None
      | Some i \<Rightarrow> if i < 0 \<or> i \<ge> int n then None else prune_indices n ss (insert i gone))"

definition drop_indices :: "int set \<Rightarrow> 'a list \<Rightarrow> 'a list" where
  "drop_indices gone xs = map snd (filter (\<lambda>(i, _). int i \<notin> gone) (enumerate 0 xs))"

definition cmdPrune :: "'r cli_env \<Rightarrow> string list \<Rightarrow> fs \<Rightarrow> int \<times> fs" where
  "cmdPrune E args files =
     (case parseEditArgs args ''index'' of
        None \<Rightarrow> (exitUsage, files)
      | Some (path, idxStr) \<Rightarrow>
          (case loadOrErr E files path of
             None \<Rightarrow> (exitFail, files)
           | Some f \<Rightarrow>
               (case prune_indices (length (wf_its f)) (split_byte (CHR '','') idxStr) {} of
                  None \<Rightarrow> (exitFail, files)
                | Some gone \<Rightarrow> saveScrubbed E files path (f\<lparr>wf_its := drop_indices gone (wf_its f)\<rparr>))))"

section \<open>rekey\<close>

definition scrubbed_request :: "interaction \<Rightarrow> bool" where
  "scrubbed_request it = str_contains (Bytes (rq_body (it_request it))) Replacement"

text \<open>The interactions whose authoritative key a rekey would overwrite.\<close>

definition corrupt_rekey :: "golib \<Rightarrow> match_config \<Rightarrow> interaction \<Rightarrow> bool" where
  "corrupt_rekey gl cfg it =
     (it_kind it = ''http'' \<and> rq_match_key (it_request it) \<noteq> [] \<and> scrubbed_request it \<and>
      (case HTTPKey gl (it_request it) cfg of Inl _ \<Rightarrow> False | Inr k \<Rightarrow> k \<noteq> rq_match_key (it_request it)))"

definition force_arg :: "string \<Rightarrow> bool" where
  "force_arg a = (a = ''--force'' \<or> a = ''-force'' \<or> a = ''-f'')"

definition cmdRekey :: "'r cli_env \<Rightarrow> string list \<Rightarrow> fs \<Rightarrow> int \<times> fs" where
  "cmdRekey E args files =
     (let force = list_ex force_arg args; rest = filter (\<lambda>a. \<not> force_arg a) args; gl = lb_go (ce_lib E) in
      case oneArg rest of
        None \<Rightarrow> (exitUsage, files)
      | Some path \<Rightarrow>
          (case loadOrErr E files path of
             None \<Rightarrow> (exitFail, files)
           | Some f \<Rightarrow>
               let cfg = fileMatchConfig f in
               if \<not> force \<and> list_ex (corrupt_rekey gl cfg) (wf_its f) then (exitFail, files)
               else (case rekey_File gl f cfg of
                   (_, Some _) \<Rightarrow> (exitFail, files)
                 | (f', None) \<Rightarrow> saveScrubbed E files path f')))"

section \<open>redact-field\<close>

definition redact_body :: "jsonlib \<Rightarrow> string \<Rightarrow> wbody \<Rightarrow> wbody" where
  "redact_body jl path b =
     (case b of
        None \<Rightarrow> None
      | Some d \<Rightarrow>
          if d = [] \<or> \<not> jl_valid jl d \<or> \<not> jl_exists jl d path then b
          else (case jl_set jl d path (JStr ''[REDACTED]'') of None \<Rightarrow> b | Some d' \<Rightarrow> Some d'))"

definition redact_it :: "jsonlib \<Rightarrow> string \<Rightarrow> interaction \<Rightarrow> interaction" where
  "redact_it jl path it =
     it\<lparr>it_request := (it_request it)\<lparr>rq_body := redact_body jl path (rq_body (it_request it))\<rparr>,
        it_response := (it_response it)\<lparr>rs_body := redact_body jl path (rs_body (it_response it))\<rparr>\<rparr>"

definition redact_config :: "string \<Rightarrow> match_config \<Rightarrow> match_config" where
  "redact_config path cfg =
     (if path \<in> set (mc_volatile cfg) then cfg else cfg\<lparr>mc_volatile := mc_volatile cfg @ [path]\<rparr>)"

definition cmdRedactField :: "'r cli_env \<Rightarrow> string list \<Rightarrow> fs \<Rightarrow> int \<times> fs" where
  "cmdRedactField E args files =
     (case parseEditArgs args ''path'' of
        None \<Rightarrow> (exitUsage, files)
      | Some (path, jsonPath) \<Rightarrow>
          (case loadOrErr E files path of
             None \<Rightarrow> (exitFail, files)
           | Some f \<Rightarrow>
               let cfg = redact_config jsonPath (fileMatchConfig f);
                   f' = f\<lparr>wf_its := map (redact_it (lb_json (ce_lib E)) jsonPath) (wf_its f),
                          wf_match := Some \<lparr>ms_volatile = mc_volatile cfg, ms_headers = mc_headers cfg\<rparr>\<rparr>
               in case rekey_File (lb_go (ce_lib E)) f' cfg of
                    (_, Some _) \<Rightarrow> (exitFail, files)
                  | (f'', None) \<Rightarrow> saveScrubbed E files path f''))"

section \<open>expect and assert\<close>

definition expect_flags :: flag_set where
  "expect_flags = boolFlag [''no-duplicate-tools'', ''finishes-clean'', ''clear''] (valFlag [''no-tool''] newFlags)"

definition cmdExpect :: "'r cli_env \<Rightarrow> string list \<Rightarrow> fs \<Rightarrow> int \<times> fs" where
  "cmdExpect E args files =
     (case cli_parse expect_flags inv0 args of
        Inl _ \<Rightarrow> (exitUsage, files)
      | Inr v \<Rightarrow>
          let path = in_arg v 0; noTools = in_list v ''no-tool''; noDup = in_has v ''no-duplicate-tools'';
              clean = in_has v ''finishes-clean''; clr = in_has v ''clear'';
              hasFlag = in_has v ''no-tool'' \<or> noDup \<or> clean \<or> clr
          in if path \<noteq> [] \<and> in_nargs v > 1 then (exitUsage, files)
             else if path = [] then (exitUsage, files)
             else (case loadOrErr E files path of
                 None \<Rightarrow> (exitFail, files)
               | Some f \<Rightarrow>
                   if \<not> hasFlag then (exitOK, files)
                   else checked_save E files path
                     (f\<lparr>wf_expect := if clr then None
                        else Some \<lparr>ex_no_tools = noTools, ex_no_dup = noDup, ex_clean = clean\<rparr>\<rparr>)))"

definition assert_flags :: flag_set where
  "assert_flags = valFlag [''no-tool''] (boolFlag [''finishes-clean'', ''no-duplicate-tools''] newFlags)"

definition assert_invariants :: "(nat \<Rightarrow> bool) \<Rightarrow> string list \<Rightarrow> bool \<Rightarrow> bool \<Rightarrow> conv_invariant option list" where
  "assert_invariants isprint noTools noDup finishesClean =
     map (\<lambda>n. Some (NoToolCalled isprint n)) noTools @
     (if noDup then [Some NoDuplicateToolCall] else []) @
     (if finishesClean then [Some (FinishesCleanly isprint)] else [])"

definition cmdAssert :: "'r cli_env \<Rightarrow> string list \<Rightarrow> fs \<Rightarrow> int" where
  "cmdAssert E args files =
     (case cli_parse assert_flags inv0 args of
        Inl _ \<Rightarrow> exitUsage
      | Inr v \<Rightarrow>
          let path = in_arg v 0; noTools = in_list v ''no-tool''; finishesClean = in_has v ''finishes-clean'';
              noDup = in_has v ''no-duplicate-tools''
          in if path = [] \<or> in_nargs v > 1 then exitUsage
             else (case loadOrErr E files path of
                 None \<Rightarrow> exitFail
               | Some f \<Rightarrow>
                   let (noTools, noDup, finishesClean) =
                         (case wf_expect f of
                            Some e \<Rightarrow> if length noTools = 0 \<and> \<not> noDup \<and> \<not> finishesClean
                                      then (ex_no_tools e, ex_no_dup e, ex_clean e) else (noTools, noDup, finishesClean)
                          | None \<Rightarrow> (noTools, noDup, finishesClean))
                   in if length (Check (CollectTurns (ce_gjson E) f)
                           (assert_invariants (ce_isprint E) noTools noDup finishesClean)) > 0
                      then exitFail else exitOK))"

section \<open>Graft edits\<close>

datatype graft_error =
    BadSet string
  | BadToolKey string
  | ToolRange string
  | ToolArgs int
  | UnknownField string
  | UnknownKey string

definition set_tool :: "string \<Rightarrow> string \<Rightarrow> transcript \<Rightarrow> graft_error + transcript" where
  "set_tool key val tr =
     (case split_byte (CHR ''.'') key of
        [_, i, field] \<Rightarrow>
          (case atoi i of
             None \<Rightarrow> Inl (ToolRange i)
           | Some idx \<Rightarrow>
               if idx < 0 \<or> idx \<ge> int (length (t_ToolCalls tr)) then Inl (ToolRange i)
               else let n = nat idx; tc = t_ToolCalls tr ! n in
                 if field = ''name'' then Inr (tr\<lparr>t_ToolCalls := (t_ToolCalls tr)[n := tc\<lparr>tc_Name := val\<rparr>]\<rparr>)
                 else if field = ''args'' then
                   (case Canonicalize val of
                      None \<Rightarrow> Inl (ToolArgs idx)
                    | Some c \<Rightarrow> Inr (tr\<lparr>t_ToolCalls := (t_ToolCalls tr)[n := tc\<lparr>tc_Args := c\<rparr>]\<rparr>))
                 else Inl (UnknownField field))
      | _ \<Rightarrow> Inl (BadToolKey key))"

definition graft_set :: "string \<Rightarrow> transcript \<Rightarrow> graft_error + transcript" where
  "graft_set s tr =
     (let (key, val, found) = cut_eq s in
      if \<not> found then Inl (BadSet s)
      else if key = ''text'' then Inr (tr\<lparr>t_Text := val\<rparr>)
      else if key = ''append'' then Inr (tr\<lparr>t_Text := t_Text tr @ val\<rparr>)
      else if key = ''finish'' then Inr (tr\<lparr>t_FinishReason := val\<rparr>)
      else if has_prefix key ''tool.'' then set_tool key val tr
      else Inl (UnknownKey key))"

fun graft_sets :: "string list \<Rightarrow> transcript \<Rightarrow> graft_error + transcript" where
  "graft_sets [] tr = Inr tr"
| "graft_sets (s # ss) tr = (case graft_set s tr of Inl e \<Rightarrow> Inl e | Inr tr' \<Rightarrow> graft_sets ss tr')"

definition applyGraftEdits :: "transcript \<Rightarrow> string list \<Rightarrow> int list \<Rightarrow> graft_error + transcript" where
  "applyGraftEdits tr sets dropTools =
     (case graft_sets sets tr of
        Inl e \<Rightarrow> Inl e
      | Inr tr' \<Rightarrow> Inr (if length dropTools > 0 then tr'\<lparr>t_ToolCalls := drop_indices (set dropTools) (t_ToolCalls tr')\<rparr> else tr'))"

text \<open>Splicing a new stream into a stored response.\<close>

definition splice_stream :: "bytes \<Rightarrow> interaction \<Rightarrow> interaction" where
  "splice_stream body it =
     it\<lparr>it_response := (it_response it)\<lparr>rs_body := NewBody body, rs_streaming := True, rs_timing := []\<rparr>\<rparr>"

definition encode_edit :: "interaction \<Rightarrow> transcript \<Rightarrow> bytes" where
  "encode_edit it edited = w_Encode (ProviderForURL (rq_url (it_request it))) edited envelope0"

section \<open>graft and branch\<close>

fun atoi_all :: "string list \<Rightarrow> int list option" where
  "atoi_all [] = Some []"
| "atoi_all (s # ss) = (case (atoi s, atoi_all ss) of (Some n, Some ns) \<Rightarrow> Some (n # ns) | _ \<Rightarrow> None)"

text \<open>A numeric flag, -1 where it is not given; None is a usage error.\<close>

definition int_flag :: "inv \<Rightarrow> string \<Rightarrow> int option" where
  "int_flag v name = (if in_has v name then atoi (in_str v name) else Some (- 1))"

definition graft_flags :: flag_set where
  "graft_flags = flag_alias ''o'' ''out'' (valFlag [''turn'', ''set'', ''drop-tool'', ''truncate-after'', ''out''] newFlags)"

text \<open>The turns after \<open>turn\<close> whose request still embeds what was there before the edit.\<close>

definition stale_turns :: "transcript \<Rightarrow> nat \<Rightarrow> interaction list \<Rightarrow> nat list" where
  "stale_turns tr turn its =
     filter (\<lambda>i. let rb = Bytes (rq_body (it_request (its ! i))) in
         (t_Text tr \<noteq> [] \<and> str_contains rb (t_Text tr)) \<or>
         list_ex (\<lambda>tc. tc_Args tc \<noteq> [] \<and> str_contains rb (tc_Args tc)) (t_ToolCalls tr))
       [Suc turn ..< length its]"

definition graft_file :: "'r gjson \<Rightarrow> wfile \<Rightarrow> nat \<Rightarrow> transcript \<Rightarrow> int \<Rightarrow> wfile" where
  "graft_file G f turn edited truncateAfter =
     (let it = wf_its f ! turn;
          f1 = f\<lparr>wf_its := (wf_its f)[turn := splice_stream (encode_edit it edited) it],
                 wf_notice := (if wf_notice f = [] then ''turn '' @ itoa (int turn) @
                    '' grafted (synthetic response); not a re-simulated agent run'' else wf_notice f)\<rparr>;
          f2 = (if truncateAfter \<ge> 0 \<and> truncateAfter + 1 < int (length (wf_its f1))
                then f1\<lparr>wf_its := take (nat truncateAfter + 1) (wf_its f1)\<rparr> else f1)
      in AppendProvenance f2 ''graft'' (BehaviorDigest G f) (''turn '' @ itoa (int turn)))"

definition cmdGraft :: "'r cli_env \<Rightarrow> string list \<Rightarrow> fs \<Rightarrow> int \<times> fs" where
  "cmdGraft E args files =
     (case cli_parse graft_flags inv0 args of
        Inl _ \<Rightarrow> (exitUsage, files)
      | Inr v \<Rightarrow>
          if in_nargs v > 1 then (exitUsage, files)
          else (case (int_flag v ''turn'', int_flag v ''truncate-after'', atoi_all (in_list v ''drop-tool'')) of
              (Some turn, Some truncateAfter, Some dropTools) \<Rightarrow>
                let inp = in_arg v 0; out = in_str v ''out'' in
                if inp = [] \<or> out = [] \<or> turn < 0 then (exitUsage, files)
                else (case loadOrErr E files inp of
                    None \<Rightarrow> (exitFail, files)
                  | Some f \<Rightarrow>
                      if turn \<ge> int (length (wf_its f)) then (exitFail, files)
                      else (case DecodeInteraction (ce_gjson E) (wf_its f ! nat turn) of
                          (tr, _, renderable) \<Rightarrow>
                            if \<not> renderable then (exitFail, files)
                            else (case applyGraftEdits tr (in_list v ''set'') dropTools of
                                Inl _ \<Rightarrow> (exitFail, files)
                              | Inr edited \<Rightarrow>
                                  checked_save E files out (graft_file (ce_gjson E) f (nat turn) edited truncateAfter))))
            | _ \<Rightarrow> (exitUsage, files)))"

definition branch_flags :: flag_set where
  "branch_flags = flag_alias ''o'' ''out'' (valFlag [''from'', ''graft'', ''out''] newFlags)"

definition branch_its :: "'r gjson \<Rightarrow> nat \<Rightarrow> string list \<Rightarrow> interaction list \<Rightarrow> interaction list option" where
  "branch_its G from sets its =
     (if length sets > 0 then
        (case DecodeInteraction G (its ! from) of
           (tr, _, renderable) \<Rightarrow>
             if \<not> renderable then None
             else (case applyGraftEdits tr sets [] of
                 Inl _ \<Rightarrow> None
               | Inr edited \<Rightarrow> Some (its[from := splice_stream (encode_edit (its ! from) edited) (its ! from)])))
      else Some its)"

definition cmdBranch :: "'r cli_env \<Rightarrow> string list \<Rightarrow> fs \<Rightarrow> int \<times> fs" where
  "cmdBranch E args files =
     (case cli_parse branch_flags inv0 args of
        Inl _ \<Rightarrow> (exitUsage, files)
      | Inr v \<Rightarrow>
          if in_nargs v > 1 then (exitUsage, files)
          else (case int_flag v ''from'' of
              None \<Rightarrow> (exitUsage, files)
            | Some from' \<Rightarrow>
                let inp = in_arg v 0; out = in_str v ''out'' in
                if inp = [] \<or> out = [] \<or> from' < 0 then (exitUsage, files)
                else (case loadOrErr E files inp of
                    None \<Rightarrow> (exitFail, files)
                  | Some f \<Rightarrow>
                      if from' \<ge> int (length (wf_its f)) then (exitFail, files)
                      else (case branch_its (ce_gjson E) (nat from') (in_list v ''graft'') (wf_its f) of
                          None \<Rightarrow> (exitFail, files)
                        | Some its \<Rightarrow>
                            checked_save E files out
                              (f\<lparr>wf_its := take (nat from' + 1) its,
                                 wf_notice := ''branch seed: replay turns 0..'' @ itoa from' @
                                   '' then go live (open with Mode: ModeBranch)''\<rparr>)))))"

section \<open>Every edit is atomic and leaves a clean file\<close>

definition edit_commands :: "(string \<times> ('r cli_env \<Rightarrow> string list \<Rightarrow> fs \<Rightarrow> int \<times> fs)) list" where
  "edit_commands = [(''prune'', cmdPrune), (''rekey'', cmdRekey), (''redact-field'', cmdRedactField),
     (''expect'', cmdExpect), (''graft'', cmdGraft), (''branch'', cmdBranch)]"

text \<open>The temporary name of a save is fresh.\<close>

definition fresh_saves :: "'r cli_env \<Rightarrow> fs \<Rightarrow> bool" where
  "fresh_saves E files = (\<forall>path. se_tmp (ce_save E path) \<noteq> path \<and> mget files (se_tmp (ce_save E path)) = None)"

definition clean_edit :: "'r cli_env \<Rightarrow> fs \<Rightarrow> int \<times> fs \<Rightarrow> bool" where
  "clean_edit E files r =
     (mget (snd r) = mget files \<or>
      fst r = exitOK \<and> (\<exists>path data. mget (snd r) = (mget files)(path \<mapsto> data) \<and> \<not> HasSecrets data \<and> verify_file E (snd r) path = exitOK))"

lemma clean_edit_refl [simp]: "clean_edit E files (c, files)"
  by (simp add: clean_edit_def)

lemma checked_save_clean:
  assumes "fresh_saves E files" "\<forall>g b. lb_yenc (ce_lib E) g = Some b \<longrightarrow> lb_ydec (ce_lib E) b = Some g" "wf_schema f = SchemaVersion"
  shows "clean_edit E files (checked_save E files path f)"
proof (cases "\<exists>d. lb_yenc (ce_lib E) f = Some d \<and> SecretScan d = []")
  case True
  then obtain d where d: "lb_yenc (ce_lib E) f = Some d" "SecretScan d = []" by blast
  obtain f' states err where s: "Save (lb_yenc (ce_lib E)) (ce_save E path) files path f = (f', states, err)" by (metis prod_cases3)
  have f': "f' = f" using s assms(3) by (auto simp: Save_def stamp_schema_def SchemaVersion_def Let_def split: sum.splits)
  have "mget (last states) = (if err = None then (mget files)(path := lb_yenc (ce_lib E) f') else mget files)"
    using Save_trace [OF _ _ s] assms(1) by (simp add: fresh_saves_def)
  then have m: "mget (last states) = (if err = None then (mget files)(path \<mapsto> d) else mget files)"
    by (simp only: f' d(1))
  have r: "checked_save E files path f = (if err = None then exitOK else exitFail, last states)"
    using d s by (simp add: checked_save_def save_file_def Marshal_def)
  have "verify_file E (last states) path = exitOK" if "err = None"
    using m that d assms(2,3) by (simp add: verify_file_def Wirefmt.Unmarshal_def)
  then show ?thesis unfolding r clean_edit_def using m d by (auto simp del: fun_upd_apply simp: HasSecrets_def)
next
  case False
  then show ?thesis by (auto simp: checked_save_def Marshal_def split: option.splits)
qed

lemma saveScrubbed_clean:
  assumes "fresh_saves E files" "\<forall>g b. lb_yenc (ce_lib E) g = Some b \<longrightarrow> lb_ydec (ce_lib E) b = Some g" "wf_schema f = SchemaVersion"
  shows "clean_edit E files (saveScrubbed E files path f)"
  unfolding saveScrubbed_def using assms by (intro checked_save_clean) (simp_all add: scrub_File_def)

lemma loaded_schema: "loadOrErr E files path = Some f \<Longrightarrow> wf_schema f = SchemaVersion"
  by (auto simp: loadOrErr_def Load_def Wirefmt.Unmarshal_def split: sum.splits option.splits if_splits)

lemma rekeyed_schema: "rekey_File gl f cfg = (g, e) \<Longrightarrow> wf_schema g = wf_schema f"
  by (auto simp: rekey_File_def split: prod.splits)

lemma grafted_schema: "wf_schema (graft_file G f turn edited n) = wf_schema f"
  by (simp add: graft_file_def AppendProvenance_def Let_def)


definition edit_env :: "unit cli_env" where
  "edit_env =
     \<lparr>ce_lib = toy_libs\<lparr>lb_ydec := \<lambda>b. if b = ''e'' then Some empty_file else if b = ''o'' then Some (empty_file\<lparr>wf_its := [mcp_interaction ''tools/call'' ''t'' ''{}'' ''{}'' []]\<rparr>) else None,
        lb_yenc := \<lambda>f. if f = empty_file then Some ''e'' else None\<rparr>,
      ce_gjson = null_gjson, ce_isprint = (\<lambda>_. True),
      ce_save = (\<lambda>path. \<lparr>se_tmp = path @ ''.tmp'', se_mkdir = True, se_create = True, se_write = None, se_close = True, se_rename = True\<rparr>)\<rparr>"

lemma pruned_sample: "cmdPrune edit_env [''--index=0'', ''c''] [(''c'', ''o'')] = (exitOK, [(''c'', ''e'')])"
  by code_simp

lemma edit_env_fresh: "list_all (\<lambda>kv. length (fst kv) < 4) files \<Longrightarrow> fresh_saves edit_env files"
  by (induction files) (auto simp: fresh_saves_def edit_env_def)


text \<open>
  graft asks only whether the turn is renderable, which MCP turns are: their JSON result is replaced
  by an event stream.
\<close>

lemma graft_breaks_mcp:
  "snd (snd (DecodeInteraction G (mcp_interaction ''tools/call'' ''t'' ''{}'' ''{}'' []))) \<and>
   \<not> json_valid (encode_edit (mcp_interaction ''tools/call'' ''t'' ''{}'' ''{}'' []) no_transcript)"
proof -
  have "\<not> json_valid (encode_edit (mcp_interaction ''tools/call'' ''t'' ''{}'' ''{}'' []) no_transcript)" by code_simp
  then show ?thesis by (simp add: DecodeInteraction_def mcp_interaction_def Let_def)
qed

text \<open>
  redact-field rekeys every interaction, also those whose body was scrubbed, for which the rekey command
  refuses: the authoritative key is overwritten.
\<close>

lemma redact_overwrites_key:
  assumes "corrupt_rekey gl cfg it"
  shows "\<exists>k. rekey_its gl cfg i [it] = ([set_key it k], None) \<and> k \<noteq> rq_match_key (it_request it) \<and> scrubbed_request it"
  using assms by (auto simp: corrupt_rekey_def split: sum.splits)

section \<open>What a grafted turn replays\<close>

definition yaml_reads_back :: "'r cli_env \<Rightarrow> bool" where
  "yaml_reads_back E = (\<forall>g b. lb_yenc (ce_lib E) g = Some b \<longrightarrow> lb_ydec (ce_lib E) b = Some g \<and> int (length b) \<le> MaxCassetteBytes)"

lemma checked_save_loads:
  assumes "fresh_saves E files" "yaml_reads_back E" "wf_schema f = SchemaVersion" "checked_save E files path f = (exitOK, files')"
  shows "loadOrErr E files' path = Some f"
proof -
  obtain d where d: "lb_yenc (ce_lib E) f = Some d" "SecretScan d = []"
    and r: "save_file E files path f = (exitOK, files')"
    using assms(4) by (auto simp: checked_save_def Marshal_def split: option.splits if_splits)
  obtain f' states err where s: "Save (lb_yenc (ce_lib E)) (ce_save E path) files path f = (f', states, err)" by (metis prod_cases3)
  have f': "f' = f" using s assms(3) by (auto simp: Save_def stamp_schema_def SchemaVersion_def Let_def split: sum.splits)
  have e: "err = None" "files' = last states" using r s by (auto simp: save_file_def split: if_splits)
  have "mget (last states) = (if err = None then (mget files)(path := lb_yenc (ce_lib E) f') else mget files)"
    using Save_trace [OF _ _ s] assms(1) by (simp add: fresh_saves_def)
  then have "mget files' path = Some d" using e f' d by simp
  moreover have "lb_ydec (ce_lib E) d = Some f" "int (length d) \<le> MaxCassetteBytes"
    using assms(2) d(1) unfolding yaml_reads_back_def by blast+
  ultimately show ?thesis using assms(3) by (simp add: loadOrErr_def Load_def Wirefmt.Unmarshal_def)
qed

lemma spliced_decodes:
  assumes "it_kind it = ''http''" "p = ProviderForURL (rq_url (it_request it))"
    and "codec_ok p edited envelope0" "length (w_Encode p edited envelope0) < max_token"
  shows "decodeResponse G (splice_stream (encode_edit it edited) it) = wire_turn (d_provider (dialectFor p)) edited"
  using decode_of_encode_all [OF assms(3,4)] assms(1,2)
  by (simp add: decodeResponse_def DecodeInteraction_def splice_stream_def encode_edit_def Let_def NewBody_def encode_not_empty Bytes_def)

lemma graft_file_fields:
  "wf_its (graft_file G f n edited (- 1)) = (wf_its f)[n := splice_stream (encode_edit (wf_its f ! n) edited) (wf_its f ! n)]"
  "wf_prov (graft_file G f n edited t) = wf_prov f @ [\<lparr>pv_op = ''graft'', pv_from = BehaviorDigest G f, pv_note = ''turn '' @ itoa (int n)\<rparr>]"
  by (simp_all add: graft_file_def AppendProvenance_def Let_def)


abbreviation graft_edited :: transcript where
  "graft_edited \<equiv> \<lparr>t_Role = ''assistant'', t_Text = ''abc'', t_ToolCalls = [], t_FinishReason = ''stop''\<rparr>"

definition graft_env :: "unit cli_env" where
  "graft_env =
     edit_env\<lparr>ce_lib := toy_libs\<lparr>lb_ydec := \<lambda>b. if b = ''o'' then Some ollama_file
          else if b = ''e'' then Some (graft_file null_gjson ollama_file 0 graft_edited (- 1)) else None,
        lb_yenc := \<lambda>f. if f = graft_file null_gjson ollama_file 0 graft_edited (- 1) then Some ''e'' else None\<rparr>\<rparr>"

definition graft_args :: "string list" where
  "graft_args = [''a'', ''--turn'', ''0'', ''--set=append=c'', ''-o'', ''b'']"

definition graft_inv :: inv where
  "graft_inv = \<lparr>in_pos = [''a''], in_vals = [(''turn'', [''0'']), (''set'', [''append=c'']), (''out'', [''b''])], in_set = {''turn'', ''set'', ''out''}\<rparr>"

lemma graft_parsed: "cli_parse graft_flags inv0 graft_args = Inr graft_inv"
  by (simp add: graft_args_def graft_flags_def flag_alias_def valFlag_def newFlags_def inv0_def graft_inv_def has_prefix_def cut_eq_def
    cut_byte_def cli_assign_def set_flag_def put_val_def in_list_def mget0_def insert_commute)

lemma graft_inv_fields:
  "in_arg graft_inv 0 = ''a''" "in_str graft_inv ''out'' = ''b''" "in_list graft_inv ''set'' = [''append=c'']" "in_nargs graft_inv = 1"
  "int_flag graft_inv ''turn'' = Some 0" "int_flag graft_inv ''truncate-after'' = Some (- 1)"
  "atoi_all (in_list graft_inv ''drop-tool'') = Some []"
  by (simp_all add: graft_inv_def in_arg_def in_str_def in_list_def in_nargs_def int_flag_def in_has_def mget0_def)
    (simp_all add: atoi_def is_digit_def dec_val_def digit_val_def)

lemma graft_loads: "loadOrErr graft_env [(''a'', ''o'')] ''a'' = Some ollama_file"
  by (simp add: loadOrErr_def Load_def Wirefmt.Unmarshal_def graft_env_def MaxCassetteBytes_def SchemaVersion_def)

lemma graft_applies: "applyGraftEdits ollama_text [''append=c''] [] = Inr graft_edited"
  by (simp add: applyGraftEdits_def graft_set_def cut_eq_def cut_byte_def)

lemma graft_runs: "\<exists>files'. cmdGraft graft_env graft_args [(''a'', ''o'')] = (exitOK, files')"
proof -
  let ?g = "graft_file null_gjson ollama_file 0 graft_edited (- 1)"
  have s: "stamp_schema ?g = ?g" by (simp add: stamp_schema_def grafted_schema)
  have e: "SecretScan ''e'' = []" by code_simp
  have G: "ce_gjson graft_env = null_gjson" by (simp add: graft_env_def edit_env_def)
  have "cmdGraft graft_env graft_args [(''a'', ''o'')] = checked_save graft_env [(''a'', ''o'')] ''b'' ?g"
    using ollama_decodes [of null_gjson] G graft_inv_fields(3)
    by (simp add: cmdGraft_def graft_parsed graft_inv_fields graft_loads Let_def) (simp add: graft_applies)
  moreover have "lb_yenc (ce_lib graft_env) ?g = Some ''e''" "ce_save graft_env = ce_save edit_env" by (simp_all add: graft_env_def)
  ultimately show ?thesis
    by (simp add: checked_save_def Marshal_def e save_file_def Save_def s Let_def save_steps_def edit_env_def)
qed


end
