(* ===== verification/Corpus.thy ===== *)
theory Corpus
  imports Edits Authoring_Laws
begin

text \<open>
  The commands of cmd/cassette that make new recordings from others: merge.go, stitch.go (stitch and
  split), whatif.go, distill.go and migrate.go.  What the operating system says of paths and directories
  (os.Stat, os.ReadDir, filepath.WalkDir, os.MkdirAll) and the yaml text of a corpus file are fields of
  the environment; flags are parsed already where their parsing is fmt.Sscanf's.
\<close>

section \<open>path/filepath\<close>

text \<open>filepath.Clean, Join, Base and Ext on Unix.\<close>

fun clean_step :: "bool \<Rightarrow> string list \<Rightarrow> string \<Rightarrow> string list" where
  "clean_step rooted st c =
     (if c = [] \<or> c = ''.'' then st
      else if c = ''..'' then
        (case rev st of
           [] \<Rightarrow> if rooted then [] else [''..'']
         | x # xs \<Rightarrow> if x = ''..'' then st @ [''..''] else rev xs)
      else st @ [c])"

definition fp_Clean :: "string \<Rightarrow> string" where
  "fp_Clean p =
     (if p = [] then ''.''
      else let rooted = (hd p = CHR ''/'');
               out = str_join ''/'' (foldl (clean_step rooted) [] (split_byte (CHR ''/'') p))
           in if rooted then ''/'' @ out else if out = [] then ''.'' else out)"

definition fp_Join :: "string \<Rightarrow> string \<Rightarrow> string" where
  "fp_Join a b =
     (let es = filter (\<lambda>e. e \<noteq> []) [a, b] in if es = [] then [] else fp_Clean (str_join ''/'' es))"

definition fp_Base :: "string \<Rightarrow> string" where
  "fp_Base p =
     (if p = [] then ''.''
      else let q = trim_right (\<lambda>c. c = CHR ''/'') p; b = rev (takeWhile (\<lambda>c. c \<noteq> CHR ''/'') (rev q))
           in if b = [] then ''/'' else b)"

definition fp_Ext :: "string \<Rightarrow> string" where
  "fp_Ext p =
     (let b = takeWhile (\<lambda>c. c \<noteq> CHR ''/'') (rev p)
      in if CHR ''.'' \<in> set b then rev (takeWhile (\<lambda>c. c \<noteq> CHR ''.'') b @ [CHR ''.'']) else [])"

definition trim_suffix :: "string \<Rightarrow> string \<Rightarrow> string" where
  "trim_suffix s suf = (if has_suffix s suf then take (length s - length suf) s else s)"

section \<open>The environment\<close>

record corpus_entry =
  ce_value :: string
  ce_cassette :: string
  ce_turn :: int
  ce_slot :: string
  ce_digest :: string

record 'r corpus_env =
  co_cli :: "'r cli_env"
  co_isdir :: "string \<Rightarrow> bool option"
  co_walk :: "string \<Rightarrow> string list option"
  co_readdir :: "string \<Rightarrow> (string \<times> bool) list option"
  co_mkdir :: "string \<Rightarrow> bool"
  co_write :: "string \<Rightarrow> bool"
  co_corpus :: "corpus_entry list \<Rightarrow> bytes"

section \<open>merge and stitch\<close>

definition cassette_ext :: "string \<Rightarrow> bool" where
  "cassette_ext p = (fp_Ext p = ''.yaml'' \<or> fp_Ext p = ''.yml'')"

fun load_all :: "'r corpus_env \<Rightarrow> fs \<Rightarrow> string list \<Rightarrow> wfile list option" where
  "load_all E files [] = Some []"
| "load_all E files (p # ps) =
     (case loadOrErr (co_cli E) files p of
        None \<Rightarrow> None
      | Some f \<Rightarrow> map_option (Cons f) (load_all E files ps))"

definition loadCassettes :: "'r corpus_env \<Rightarrow> fs \<Rightarrow> string \<Rightarrow> wfile list option" where
  "loadCassettes E files src =
     (case co_isdir E src of
        None \<Rightarrow> None
      | Some False \<Rightarrow> map_option (\<lambda>f. [f]) (loadOrErr (co_cli E) files src)
      | Some True \<Rightarrow>
          (case co_readdir E src of
             None \<Rightarrow> None
           | Some entries \<Rightarrow>
               let paths = sort (map (\<lambda>(name, _). fp_Join src name) (filter (\<lambda>(name, dir). \<not> dir \<and> cassette_ext name) entries))
               in if length paths = 0 then None else load_all E files paths))"

fun load_sources :: "'r corpus_env \<Rightarrow> fs \<Rightarrow> string list \<Rightarrow> wfile list option" where
  "load_sources E files [] = Some []"
| "load_sources E files (src # srcs) =
     (case loadCassettes E files src of
        None \<Rightarrow> None
      | Some fs' \<Rightarrow> map_option (\<lambda>rest. fs' @ rest) (load_sources E files srcs))"

definition merge_flags :: flag_set where
  "merge_flags = flag_alias ''o'' ''out'' (valFlag [''out''] (boolFlag [''strict''] newFlags))"

definition cmdMerge :: "'r corpus_env \<Rightarrow> string list \<Rightarrow> fs \<Rightarrow> int \<times> fs" where
  "cmdMerge E args files =
     (case cli_parse merge_flags inv0 args of
        Inl _ \<Rightarrow> (exitUsage, files)
      | Inr v \<Rightarrow>
          let out = in_str v ''out'' in
          if out = [] \<or> in_nargs v = 0 then (exitUsage, files)
          else (case load_sources E files (in_pos v) of
              None \<Rightarrow> (exitFail, files)
            | Some fs' \<Rightarrow>
                (case Merge (lb_go (ce_lib (co_cli E))) (map Some fs') of
                   (merged, rep) \<Rightarrow>
                     (case saveScrubbed (co_cli E) files out merged of
                        (code, files') \<Rightarrow>
                          if code \<noteq> exitOK then (code, files')
                          else if length (mr_conflicts rep) > 0 \<and> in_has v ''strict'' then (exitFail, files')
                          else (exitOK, files')))))"

definition out_flags :: flag_set where
  "out_flags = flag_alias ''o'' ''out'' (valFlag [''out''] newFlags)"

definition cmdStitch :: "'r corpus_env \<Rightarrow> string list \<Rightarrow> fs \<Rightarrow> int \<times> fs" where
  "cmdStitch E args files =
     (case cli_parse out_flags inv0 args of
        Inl _ \<Rightarrow> (exitUsage, files)
      | Inr v \<Rightarrow>
          let out = in_str v ''out'' in
          if out = [] \<or> in_nargs v = 0 then (exitUsage, files)
          else (case load_all E files (in_pos v) of
              None \<Rightarrow> (exitFail, files)
            | Some fs' \<Rightarrow> saveScrubbed (co_cli E) files out (Stitch (map Some fs'))))"

section \<open>split\<close>

definition safe_char :: "char \<Rightarrow> bool" where
  "safe_char c = (is_alnum c \<or> c = CHR ''.'' \<or> c = CHR ''_'' \<or> c = CHR ''-'')"

definition safeFileName :: "string \<Rightarrow> string" where
  "safeFileName s =
     (let out = rx_replace (rplus (RSet (\<lambda>c. \<not> safe_char c))) ''_'' s in if out = [] then ''group'' else out)"

fun split_writes :: "'r corpus_env \<Rightarrow> string \<Rightarrow> (string \<times> wfile) list \<Rightarrow> fs \<Rightarrow> int \<times> fs" where
  "split_writes E out [] files = (exitOK, files)"
| "split_writes E out ((k, g) # groups) files =
     (case saveScrubbed (co_cli E) files (fp_Join out (safeFileName k @ ''.yaml'')) g of
        (code, files') \<Rightarrow> if code \<noteq> exitOK then (code, files') else split_writes E out groups files')"

definition split_flags :: flag_set where
  "split_flags = flag_alias ''o'' ''out'' (valFlag [''by'', ''out''] newFlags)"

definition cmdSplit :: "'r corpus_env \<Rightarrow> string list \<Rightarrow> fs \<Rightarrow> int \<times> fs" where
  "cmdSplit E args files =
     (case cli_parse split_flags inv0 args of
        Inl _ \<Rightarrow> (exitUsage, files)
      | Inr v \<Rightarrow>
          let path = in_arg v 0; out = in_str v ''out''; by' = (if in_str v ''by'' = [] then ''provider'' else in_str v ''by'')
          in if path = [] \<or> out = [] \<or> in_nargs v > 1 then (exitUsage, files)
             else (case loadOrErr (co_cli E) files path of
                 None \<Rightarrow> (exitFail, files)
               | Some f \<Rightarrow>
                   (case Split (ce_gjson (co_cli E)) (ce_isprint (co_cli E)) f by' of
                      Inl _ \<Rightarrow> (exitUsage, files)
                    | Inr groups \<Rightarrow>
                        if \<not> co_mkdir E out then (exitFail, files)
                        else split_writes E out (sort_key fst groups) files)))"

section \<open>whatif\<close>

record whatif_row =
  wr_alt :: string
  wr_digest :: string
  wr_changed :: bool
  wr_stale :: nat

definition value_lines :: "bytes \<Rightarrow> string list" where
  "value_lines raw = map (trim_right (\<lambda>c. c = CHR 0x0D)) (split_byte newline raw)"

definition whatif_alts :: "bytes \<Rightarrow> string list" where
  "whatif_alts raw = filter (\<lambda>line. TrimSpace line \<noteq> []) (value_lines raw)"

definition whatifClone :: "wfile \<Rightarrow> nat \<Rightarrow> bytes \<Rightarrow> wfile" where
  "whatifClone f idx body =
     (let orig = wf_its f ! idx in
      \<lparr>wf_schema = wf_schema f, wf_notice = wf_notice f, wf_expect = wf_expect f, wf_match = None, wf_prov = [],
       wf_its = (wf_its f)[idx := \<lparr>it_kind = it_kind orig, it_request = it_request orig,
         it_response = \<lparr>rs_status = 200, rs_headers = [\<lparr>hf_name = ''Content-Type'', hf_values = [''text/event-stream'']\<rparr>],
           rs_streaming = True, rs_body = NewBody body, rs_error = [], rs_timing = []\<rparr>\<rparr>]\<rparr>)"

definition countDownstreamEmbeds :: "wfile \<Rightarrow> nat \<Rightarrow> string \<Rightarrow> nat" where
  "countDownstreamEmbeds f idx preText =
     (if preText = [] then 0
      else length (filter (\<lambda>i. str_contains (Bytes (rq_body (it_request (wf_its f ! i)))) preText) [Suc idx ..< length (wf_its f)]))"

definition whatif_row_of :: "'r gjson \<Rightarrow> wfile \<Rightarrow> nat \<Rightarrow> transcript \<Rightarrow> string \<Rightarrow> transcript \<Rightarrow> whatif_row" where
  "whatif_row_of G f turn base alt edited =
     (let d = CombinedDigest (CollectTurns G (whatifClone f turn (encode_edit (wf_its f ! turn) edited)))
      in \<lparr>wr_alt = alt, wr_digest = d, wr_changed = (d \<noteq> CombinedDigest (CollectTurns G f)),
          wr_stale = countDownstreamEmbeds f turn (t_Text base)\<rparr>)"

text \<open>
  The tool calls of the base transcript and of an edited one share their array, so the calls of one
  alternative are what the next edit starts from.
\<close>

fun whatif_rows :: "'r gjson \<Rightarrow> wfile \<Rightarrow> nat \<Rightarrow> string \<Rightarrow> transcript \<Rightarrow> string list \<Rightarrow> graft_error + whatif_row list" where
  "whatif_rows G f turn slot base [] = Inr []"
| "whatif_rows G f turn slot base (alt # alts) =
     (case applyGraftEdits base [slot @ ''='' @ alt] [] of
        Inl e \<Rightarrow> Inl e
      | Inr edited \<Rightarrow>
          (case whatif_rows G f turn slot (base\<lparr>t_ToolCalls := t_ToolCalls edited\<rparr>) alts of
             Inl e \<Rightarrow> Inl e
           | Inr rows \<Rightarrow> Inr (whatif_row_of G f turn base alt edited # rows)))"

text \<open>The matrix for a turn, None for a turn that is out of range or not renderable.\<close>

definition whatif_matrix :: "'r gjson \<Rightarrow> wfile \<Rightarrow> int \<Rightarrow> string \<Rightarrow> bytes \<Rightarrow> (graft_error + whatif_row list) option" where
  "whatif_matrix G f turn slot0 raw =
     (let slot = (if slot0 = [] then ''text'' else slot0) in
      if turn < 0 \<or> turn \<ge> int (length (wf_its f)) then None
      else (case DecodeInteraction G (wf_its f ! nat turn) of
          (base, _, renderable) \<Rightarrow>
            if \<not> renderable then None else Some (whatif_rows G f (nat turn) slot base (whatif_alts raw))))"

section \<open>distill\<close>

definition distill_values :: "bytes \<Rightarrow> string list" where
  "distill_values raw = filter (\<lambda>ln. TrimSpace ln \<noteq> [] \<and> \<not> has_prefix (TrimSpace ln) ''#'') (value_lines raw)"

definition distill_file :: "'r gjson \<Rightarrow> (nat \<Rightarrow> bool) \<Rightarrow> string \<Rightarrow> string \<Rightarrow> nat \<Rightarrow> wfile \<Rightarrow> transcript \<Rightarrow> wfile" where
  "distill_file G isprint inp slot turn f edited =
     (let it = wf_its f ! turn
      in AppendProvenance
           (f\<lparr>wf_its := (wf_its f)[turn := splice_stream (encode_edit it edited) it],
              wf_notice := ''distilled from '' @ fp_Base inp @ '' (turn '' @ itoa (int turn) @ '' slot '' @ go_quote isprint slot @
                ''); synthetic response''\<rparr>)
           ''distill'' (BehaviorDigest G f) (''turn '' @ itoa (int turn) @ '' slot '' @ slot))"

definition distill_name :: "string \<Rightarrow> nat \<Rightarrow> string" where
  "distill_name inp k = trim_suffix (fp_Base inp) ''.yaml'' @ ''_'' @ itoa (int k) @ ''.yaml''"

text \<open>One value: the exit code, the files and the entry of the corpus.\<close>

definition distill_value :: "'r cli_env \<Rightarrow> string \<Rightarrow> int \<Rightarrow> string \<Rightarrow> string \<Rightarrow> nat \<Rightarrow> string \<Rightarrow> fs \<Rightarrow> int \<times> fs \<times> corpus_entry option" where
  "distill_value E inp turn slot outDir k v files =
     (case loadOrErr E files inp of
        None \<Rightarrow> (exitFail, files, None)
      | Some f \<Rightarrow>
          if turn \<ge> int (length (wf_its f)) then (exitFail, files, None)
          else (case DecodeInteraction (ce_gjson E) (wf_its f ! nat turn) of
              (tr, _, renderable) \<Rightarrow>
                if \<not> renderable then (exitFail, files, None)
                else (case applyGraftEdits tr [slot @ ''='' @ v] [] of
                    Inl _ \<Rightarrow> (exitFail, files, None)
                  | Inr edited \<Rightarrow>
                      (case checked_save E files (fp_Join outDir (distill_name inp k))
                          (distill_file (ce_gjson E) (ce_isprint E) inp slot (nat turn) f edited) of
                         (code, files') \<Rightarrow>
                           if code \<noteq> exitOK then (code, files', None)
                           else (exitOK, files', Some \<lparr>ce_value = v, ce_cassette = distill_name inp k, ce_turn = turn,
                             ce_slot = slot, ce_digest = t_Digest edited\<rparr>)))))"

fun distill_loop :: "'r cli_env \<Rightarrow> string \<Rightarrow> int \<Rightarrow> string \<Rightarrow> string \<Rightarrow> nat \<Rightarrow> string list \<Rightarrow> fs \<Rightarrow> int \<times> fs \<times> corpus_entry list" where
  "distill_loop E inp turn slot outDir k [] files = (exitOK, files, [])"
| "distill_loop E inp turn slot outDir k (v # vs) files =
     (case distill_value E inp turn slot outDir k v files of
        (_, files', Some e) \<Rightarrow>
          (case distill_loop E inp turn slot outDir (Suc k) vs files' of (c, files'', es) \<Rightarrow> (c, files'', e # es))
      | (c, files', None) \<Rightarrow> (c, files', []))"

definition distill_run :: "'r corpus_env \<Rightarrow> string \<Rightarrow> int \<Rightarrow> string \<Rightarrow> string \<Rightarrow> string \<Rightarrow> fs \<Rightarrow> int \<times> fs" where
  "distill_run E inp turn slot valuesPath outDir files =
     (if inp = [] \<or> slot = [] \<or> valuesPath = [] \<or> outDir = [] \<or> turn < 0 then (exitUsage, files)
      else if slot \<noteq> ''text'' \<and> \<not> has_prefix slot ''tool.'' then (exitUsage, files)
      else (case mget files valuesPath of
          None \<Rightarrow> (exitFail, files)
        | Some rawVals \<Rightarrow>
            let values = distill_values rawVals in
            if length values = 0 \<or> \<not> co_mkdir E outDir then (exitFail, files)
            else (case distill_loop (co_cli E) inp turn slot outDir 0 values files of
                (c, files', corpus) \<Rightarrow>
                  if c \<noteq> exitOK then (c, files')
                  else let p = fp_Join outDir ''corpus.yaml'' in
                    if \<not> co_write E p then (exitFail, files') else (exitOK, mput p (co_corpus E corpus) files'))))"

section \<open>migrate\<close>

text \<open>The first difference between two lists of turns, None where there is none.\<close>

datatype drift = TurnCount nat nat | TurnChanged nat

fun drift_loop :: "nat \<Rightarrow> transcript list \<Rightarrow> transcript list \<Rightarrow> drift option" where
  "drift_loop i (a # as) (b # bs) = (if t_Digest a \<noteq> t_Digest b then Some (TurnChanged i) else drift_loop (Suc i) as bs)"
| "drift_loop i _ _ = None"

definition digestDrift :: "transcript list \<Rightarrow> transcript list \<Rightarrow> drift option" where
  "digestDrift before after =
     (if length before \<noteq> length after then Some (TurnCount (length before) (length after)) else drift_loop 0 before after)"

definition lintTargets :: "'r corpus_env \<Rightarrow> string \<Rightarrow> string list option" where
  "lintTargets E src =
     (case co_isdir E src of
        None \<Rightarrow> None
      | Some False \<Rightarrow> Some [src]
      | Some True \<Rightarrow>
          (case co_walk E src of
             None \<Rightarrow> None
           | Some ps \<Rightarrow> let paths = sort (filter cassette_ext ps) in if length paths = 0 then None else Some paths))"

definition migrate_note :: "string \<Rightarrow> string" where
  "migrate_note to' = [CHR 0xE2, CHR 0x86, CHR 0x92, CHR '' ''] @ to'"

definition migrate_one :: "'r corpus_env \<Rightarrow> provider \<Rightarrow> string \<Rightarrow> string \<Rightarrow> string \<Rightarrow> fs \<Rightarrow> bool \<times> fs" where
  "migrate_one E prov to' dst p files =
     (let C = co_cli E; G = ce_gjson C in
      case loadOrErr C files p of
        None \<Rightarrow> (False, files)
      | Some f \<Rightarrow>
          (case Port (lb_go (ce_lib C)) G f prov of
             Inl _ \<Rightarrow> (False, files)
           | Inr (ported, n) \<Rightarrow>
               if digestDrift (CollectTurns G f) (CollectTurns G ported) \<noteq> None then (False, files)
               else (case saveScrubbed C files dst (StampProvenance G ported f ''migrate'' (migrate_note to')) of
                   (code, files') \<Rightarrow> (code = exitOK, files'))))"

fun migrate_loop :: "'r corpus_env \<Rightarrow> provider \<Rightarrow> string \<Rightarrow> bool \<Rightarrow> string \<Rightarrow> string list \<Rightarrow> fs \<Rightarrow> bool \<times> fs" where
  "migrate_loop E prov to' isDir out [] files = (True, files)"
| "migrate_loop E prov to' isDir out (p # ps) files =
     (case migrate_one E prov to' (if isDir then fp_Join out (fp_Base p) else out) p files of
        (ok, files') \<Rightarrow> (case migrate_loop E prov to' isDir out ps files' of (oks, files'') \<Rightarrow> (ok \<and> oks, files'')))"

definition migrate_flags :: flag_set where
  "migrate_flags = flag_alias ''o'' ''out'' (valFlag [''to'', ''out''] newFlags)"

definition cmdMigrate :: "'r corpus_env \<Rightarrow> string list \<Rightarrow> fs \<Rightarrow> int \<times> fs" where
  "cmdMigrate E args files =
     (case cli_parse migrate_flags inv0 args of
        Inl _ \<Rightarrow> (exitUsage, files)
      | Inr v \<Rightarrow>
          let src = in_arg v 0; to' = in_str v ''to''; out = in_str v ''out'' in
          if src = [] \<or> to' = [] \<or> out = [] \<or> in_nargs v > 1 then (exitUsage, files)
          else (case ProviderRouting (ce_isprint (co_cli E)) to' of
              Inl _ \<Rightarrow> (exitUsage, files)
            | Inr (prov, _) \<Rightarrow>
                (case (co_isdir E src, lintTargets E src) of
                   (Some isDir, Some paths) \<Rightarrow>
                     if isDir \<and> \<not> co_mkdir E out then (exitFail, files)
                     else (case migrate_loop E prov to' isDir out paths files of
                         (ok, files') \<Rightarrow> (if ok then exitOK else exitFail, files'))
                 | _ \<Rightarrow> (exitFail, files))))"

section \<open>The what-if matrix\<close>

text \<open>The matrix as it is meant: every alternative edits the recorded turn.\<close>

fun independent_rows :: "'r gjson \<Rightarrow> wfile \<Rightarrow> nat \<Rightarrow> string \<Rightarrow> transcript \<Rightarrow> string list \<Rightarrow> graft_error + whatif_row list" where
  "independent_rows G f turn slot base [] = Inr []"
| "independent_rows G f turn slot base (alt # alts) =
     (case applyGraftEdits base [slot @ ''='' @ alt] [] of
        Inl e \<Rightarrow> Inl e
      | Inr edited \<Rightarrow>
          (case independent_rows G f turn slot base alts of
             Inl e \<Rightarrow> Inl e
           | Inr rows \<Rightarrow> Inr (whatif_row_of G f turn base alt edited # rows)))"

lemma cut_eq_key: "\<exists>key tl. \<forall>alt. cut_eq (slot @ CHR ''='' # alt) = (key, tl @ (if CHR ''='' \<in> set slot then CHR ''='' # alt else alt), True)"
proof (cases "CHR ''='' \<in> set slot")
  case True
  then obtain a b where s: "slot = a @ CHR ''='' # b" "CHR ''='' \<notin> set a" by (metis split_list_first)
  show ?thesis using True by (simp add: s cut_eq_pair)
next
  case False
  then show ?thesis by (simp add: cut_eq_pair)
qed

lemma set_tool_shape:
  assumes "set_tool key val tr = Inr tr'"
  obtains n c where "tr' = tr\<lparr>t_ToolCalls := (t_ToolCalls tr)[n := c]\<rparr>" "n < length (t_ToolCalls tr)"
    "c = (t_ToolCalls tr ! n)\<lparr>tc_Name := val\<rparr> \<or> (\<exists>a. Canonicalize val = Some a \<and> c = (t_ToolCalls tr ! n)\<lparr>tc_Args := a\<rparr>)"
proof -
  obtain x i field where k: "split_byte (CHR ''.'') key = [x, i, field]" using assms by (auto simp: set_tool_def split: list.splits)
  obtain idx where a: "atoi i = Some idx" "0 \<le> idx" "idx < int (length (t_ToolCalls tr))"
    using assms k by (auto simp: set_tool_def split: option.splits if_splits)
  show thesis
  proof (rule that [of "nat idx"])
    show "nat idx < length (t_ToolCalls tr)" using a by simp
  next
    show "tr' = tr\<lparr>t_ToolCalls := (t_ToolCalls tr)[nat idx := t_ToolCalls tr' ! nat idx]\<rparr>"
      using assms k a by (auto simp: set_tool_def Let_def nat_less_iff split: if_splits option.splits)
  next
    show "t_ToolCalls tr' ! nat idx = (t_ToolCalls tr ! nat idx)\<lparr>tc_Name := val\<rparr> \<or>
        (\<exists>a. Canonicalize val = Some a \<and> t_ToolCalls tr' ! nat idx = (t_ToolCalls tr ! nat idx)\<lparr>tc_Args := a\<rparr>)"
      using assms k a by (auto simp: set_tool_def Let_def nat_less_iff split: if_splits option.splits)
  qed
qed

lemma set_tool_again:
  assumes "set_tool key y base = Inr edited"
  shows "set_tool key x (base\<lparr>t_ToolCalls := t_ToolCalls edited\<rparr>) = set_tool key x base"
proof -
  obtain z i field where k: "split_byte (CHR ''.'') key = [z, i, field]" using assms by (auto simp: set_tool_def split: list.splits)
  obtain idx where a: "atoi i = Some idx" "0 \<le> idx" "idx < int (length (t_ToolCalls base))"
    using assms k by (auto simp: set_tool_def split: option.splits if_splits)
  have e: "field = ''name'' \<Longrightarrow> t_ToolCalls edited = (t_ToolCalls base)[nat idx := (t_ToolCalls base ! nat idx)\<lparr>tc_Name := y\<rparr>]"
    and e': "field \<noteq> ''name'' \<Longrightarrow> \<exists>c. t_ToolCalls edited = (t_ToolCalls base)[nat idx := (t_ToolCalls base ! nat idx)\<lparr>tc_Args := c\<rparr>]"
    using assms k a by (auto simp: set_tool_def Let_def split: if_splits option.splits)
  show ?thesis
  proof (cases "field = ''name''")
    case True
    show ?thesis using k a by (simp add: set_tool_def Let_def nat_less_iff e [OF True] True)
  next
    case False
    then obtain c where "t_ToolCalls edited = (t_ToolCalls base)[nat idx := (t_ToolCalls base ! nat idx)\<lparr>tc_Args := c\<rparr>]" using e' by blast
    then show ?thesis using k a False by (simp add: set_tool_def Let_def nat_less_iff split: option.split)
  qed
qed

lemma apply_one: "applyGraftEdits t [s] [] = graft_set s t"
  by (simp add: applyGraftEdits_def split: sum.split)

lemma edit_again:
  assumes "graft_set (slot @ CHR ''='' # a) base = Inr edited"
  shows "graft_set (slot @ CHR ''='' # b) (base\<lparr>t_ToolCalls := t_ToolCalls edited\<rparr>) = graft_set (slot @ CHR ''='' # b) base"
proof -
  obtain key tl where k: "\<And>alt. cut_eq (slot @ CHR ''='' # alt) = (key, tl @ (if CHR ''='' \<in> set slot then CHR ''='' # alt else alt), True)"
    using cut_eq_key by blast
  show ?thesis
  proof (cases "key \<in> {''text'', ''append'', ''finish''}")
    case True
    then have "t_ToolCalls edited = t_ToolCalls base" using assms by (auto simp: graft_set_def k split: if_splits)
    then show ?thesis by simp
  next
    case False
    then have "has_prefix key ''tool.''" and "set_tool key (tl @ (if CHR ''='' \<in> set slot then CHR ''='' # a else a)) base = Inr edited"
      using assms by (auto simp: graft_set_def k split: if_splits)
    then show ?thesis using False set_tool_again [of key _ base edited] by (simp add: graft_set_def k)
  qed
qed

text \<open>
  Alternatives do not interfere.  Although every edit works on the array of tool calls the previous
  one has written to, the matrix is the one in which each alternative edits the recorded turn on its
  own, errors included, for every slot and every list of alternatives.
\<close>

theorem whatif_rows_independent: "whatif_rows G f turn slot base alts = independent_rows G f turn slot base alts"
proof -
  have row: "whatif_row_of G f turn (base\<lparr>t_ToolCalls := cs\<rparr>) = whatif_row_of G f turn base" for base cs
    by (intro ext) (simp add: whatif_row_of_def)
  have same: "independent_rows G f turn slot (base\<lparr>t_ToolCalls := t_ToolCalls e\<rparr>) xs = independent_rows G f turn slot base xs"
    if "graft_set (slot @ CHR ''='' # a) base = Inr e" for a e xs base
    by (induction xs) (simp_all add: apply_one edit_again [OF that] row cong: sum.case_cong)
  show ?thesis
  proof (induction alts arbitrary: base)
    case (Cons a alts)
    show ?case
    proof (cases "graft_set (slot @ CHR ''='' # a) base")
      case (Inr e)
      then show ?thesis using same [OF Inr] Cons.IH by (simp add: apply_one)
    qed (simp add: apply_one)
  qed simp
qed

section \<open>Distilled cassettes\<close>

lemma good_calls: "list_all call_good cs \<Longrightarrow> n < length cs \<Longrightarrow> call_good (cs ! n)"
  by (simp add: list_all_length)

lemma list_all_update: "list_all P xs \<Longrightarrow> P x \<Longrightarrow> list_all P (xs[i := x])"
  by (auto simp: list_all_iff dest: set_update_subset_insert [THEN subsetD])

lemma canonical_args: "Canonicalize a = Some c \<Longrightarrow> valid_utf8 c \<and> canonArgs c = c"
  using canon_decode_wf [of a] valid_utf8_jencode canonArgs_idem [of a]
  by (auto simp: canonArgs_def Canonicalize_eq split: option.splits)

lemma set_tool_good:
  assumes "set_tool key val tr = Inr tr'" "turn_good tr" "valid_utf8 val"
  shows "turn_good tr'"
proof -
  obtain n c where s: "tr' = tr\<lparr>t_ToolCalls := (t_ToolCalls tr)[n := c]\<rparr>" "n < length (t_ToolCalls tr)"
    "c = (t_ToolCalls tr ! n)\<lparr>tc_Name := val\<rparr> \<or> (\<exists>a. Canonicalize val = Some a \<and> c = (t_ToolCalls tr ! n)\<lparr>tc_Args := a\<rparr>)"
    using assms(1) by (rule set_tool_shape)
  have "call_good (t_ToolCalls tr ! n)" using assms(2) s(2) by (simp add: turn_good_def good_calls)
  then have "call_good c" using s(3) assms(3) canonical_args by (auto simp: call_good_def)
  then show ?thesis using assms(2) s(1) by (simp add: turn_good_def list_all_update)
qed

lemma graft_set_good:
  assumes "graft_set (slot @ CHR ''='' # v) tr = Inr tr'" "CHR ''='' \<notin> set slot" "turn_good tr" "valid_utf8 v"
  shows "turn_good tr'"
  using assms(1,3,4) set_tool_good [of slot v tr tr']
  by (auto simp: graft_set_def cut_eq_pair [OF assms(2)] turn_good_def valid_utf8_append split: if_splits)

lemma good_wire_turn:
  assumes "turn_good t" "codec_bounds p t"
  shows "codec_ok p t envelope0" "wire_turn (d_provider (dialectFor p)) t = Normalize t"
proof -
  have n: "turn_good (Normalize t)" "Normalize (Normalize t) = Normalize t" using assms(1) by (simp_all add: turn_good_Normalize Normalize_idem)
  have m: "set (t_ToolCalls (Normalize t)) = set (t_ToolCalls t)" "length (t_ToolCalls (Normalize t)) = length (t_ToolCalls t)"
    by (simp_all add: Normalize_def)
  then have b: "p = Gemini \<or> p = Ollama \<Longrightarrow> args_shallow (Normalize t) \<and> list_all (\<lambda>c. Canonicalize (tc_Args c) \<noteq> None) (t_ToolCalls (Normalize t))"
    "length (t_ToolCalls (Normalize t)) < 2 ^ 62"
    using assms(2) by (auto simp: codec_bounds_def args_shallow_def list_all_iff)
  show "codec_ok p t envelope0" using assms
    by (auto simp: codec_ok_def utf8_env_def utf8_turn_def turn_good_def call_good_def list_all_iff codec_bounds_def)
  have "wire_turn q (Normalize t) = wire_turn q t" for q
    by (simp add: wire_turn_def Normalize_def sort_calls_map_sort)
  then show "wire_turn (d_provider (dialectFor p)) t = Normalize t" using decoded_wire_turn(2) [OF n b] by simp
qed

lemma t_Digest_Normalize: "t_Digest (Normalize t) = t_Digest t"
  by (simp add: t_Digest_def Normalize_idem)

lemma distill_file_fields:
  "wf_schema (distill_file G isprint inp slot n f edited) = wf_schema f"
  "wf_its (distill_file G isprint inp slot n f edited) =
     (wf_its f)[n := splice_stream (encode_edit (wf_its f ! n) edited) (wf_its f ! n)]"
  by (simp_all add: distill_file_def AppendProvenance_def Let_def)


text \<open>Distilling one value from the sample recording.\<close>

definition distill_env :: "unit cli_env" where
  "distill_env =
     (let out = distill_file null_gjson (\<lambda>_. True) ''a'' ''append'' 0 ollama_file graft_edited
      in edit_env\<lparr>ce_lib := toy_libs\<lparr>lb_ydec := \<lambda>b. if b = ''o'' then Some ollama_file else if b = ''e'' then Some out else None,
           lb_yenc := \<lambda>f. if f = out then Some ''e'' else None\<rparr>\<rparr>)"

lemma saves_clean:
  assumes "lb_yenc (ce_lib E) f = Some ''e''" "wf_schema f = SchemaVersion" "ce_save E = ce_save edit_env"
  shows "\<exists>files'. checked_save E files path f = (exitOK, files')"
proof -
  have "SecretScan ''e'' = []" by code_simp
  moreover have "stamp_schema f = f" using assms(2) by (simp add: stamp_schema_def SchemaVersion_def)
  ultimately show ?thesis
    using assms(1,3) by (simp add: checked_save_def Marshal_def save_file_def Save_def Let_def save_steps_def edit_env_def)
qed


section \<open>Migration\<close>

lemma drift_loop_None:
  "length as = length bs \<Longrightarrow> drift_loop i as bs = None \<longleftrightarrow> map t_Digest as = map t_Digest bs"
  by (induction i as bs rule: drift_loop.induct) auto

lemma digestDrift_None: "digestDrift as bs = None \<longleftrightarrow> map t_Digest as = map t_Digest bs"
  using map_eq_imp_length_eq [of t_Digest as t_Digest bs] by (auto simp: digestDrift_def drift_loop_None)

lemma ported_schema: "Port gl G f p = Inr (g, n) \<Longrightarrow> wf_schema g = SchemaVersion"
  by (auto simp: Port_def split: sum.splits)


text \<open>Files of different directories, and tools of different names, are written to one path.\<close>

lemma migrate_collision: "fp_Join out (fp_Base ''a/x.yaml'') = fp_Join out (fp_Base ''b/x.yaml'')"
proof -
  have "fp_Base ''a/x.yaml'' = ''x.yaml''" "fp_Base ''b/x.yaml'' = ''x.yaml''" by code_simp+
  then show ?thesis by simp
qed

lemma split_collision:
  assumes "fp_Join out (safeFileName k @ ''.yaml'') = p" "fp_Join out (safeFileName k' @ ''.yaml'') = p"
    and "split_writes E out [(k, g), (k', h)] files = (exitOK, files')"
  shows "\<exists>files1. saveScrubbed (co_cli E) files p g = (exitOK, files1) \<and> saveScrubbed (co_cli E) files1 p h = (exitOK, files')"
  using assms by (auto split: prod.splits if_splits)

lemma split_names_clash: "safeFileName ''files/read'' = safeFileName ''files:read''"
  by code_simp

text \<open>A recording with one MCP turn, which a port keeps.\<close>

abbreviation mcp_file :: wfile where
  "mcp_file \<equiv> empty_file\<lparr>wf_its := [mcp_interaction ''tools/call'' ''t'' ''{}'' ''{}'' []]\<rparr>"

definition migrated :: wfile where
  "migrated = scrub_File (lb_json toy_libs) scrub_DefaultConfig (StampProvenance null_gjson mcp_file mcp_file ''migrate'' (migrate_note ''ollama''))"

definition migrate_env :: "unit corpus_env" where
  "migrate_env = \<lparr>co_cli = edit_env\<lparr>ce_lib := toy_libs\<lparr>lb_ydec := \<lambda>b. if b = ''o'' then Some mcp_file else if b = ''e'' then Some migrated else None,
        lb_yenc := \<lambda>f. if f = migrated then Some ''e'' else None\<rparr>\<rparr>,
     co_isdir = (\<lambda>_. Some False), co_walk = (\<lambda>_. None), co_readdir = (\<lambda>_. None), co_mkdir = (\<lambda>_. True), co_write = (\<lambda>_. True), co_corpus = (\<lambda>_. [])\<rparr>"


end
