(* ===== verification/Mcpdiff.thy ===== *)
theory Mcpdiff
  imports Schemacheck Signals Authoring_Laws "HOL-Library.Product_Lexorder"
begin

text \<open>
  internal/analysis/mcpdiff.go: what changed between the tool contracts of two MCP recordings, and which
  of the changes can break a client.  The order in which Go visits a map is \<open>visit\<close>, a permutation.
\<close>

section \<open>The report\<close>

record mcp_change =
  ch_tool :: string
  ch_kind :: string
  ch_detail :: string
  ch_breaking :: bool

record mcp_report =
  mp_changes :: "mcp_change list"
  mp_breaking :: nat

definition mp_OK :: "mcp_report \<Rightarrow> bool" where
  "mp_OK r = (mp_breaking r = 0)"

definition mp_add :: "mcp_change \<Rightarrow> mcp_report \<Rightarrow> mcp_report" where
  "mp_add c r = r\<lparr>mp_breaking := (if ch_breaking c then mp_breaking r + 1 else mp_breaking r), mp_changes := mp_changes r @ [c]\<rparr>"

section \<open>Reading schemas\<close>

definition escapeKey :: "string \<Rightarrow> string" where
  "escapeKey k = concat (map (\<lambda>c. if c = CHR ''.'' \<or> c = CHR ''*'' \<or> c = CHR ''?'' \<or> c = backslash then [backslash, c] else [c]) k)"

definition typeSet :: "'r gjson \<Rightarrow> 'r \<Rightarrow> string list" where
  "typeSet G t =
     (if gj_is_array G t then remdups (filter (\<lambda>s. s \<noteq> []) (map (\<lambda>(_, v). gj_string G v) (gj_each G t)))
      else if gj_string G t \<noteq> [] then [gj_string G t] else [])"

text \<open>A schema is a Result or the zero Result, in which nothing exists.\<close>

definition sub_opt :: "'r gjson \<Rightarrow> 'r option \<Rightarrow> string \<Rightarrow> 'r option" where
  "sub_opt G r path = map_option (\<lambda>r. gj_sub G r path) r"

definition exists_opt :: "'r gjson \<Rightarrow> 'r option \<Rightarrow> bool" where
  "exists_opt G r = (case r of None \<Rightarrow> False | Some r \<Rightarrow> gj_exists G r)"

definition each_opt :: "'r gjson \<Rightarrow> 'r option \<Rightarrow> ('r \<times> 'r) list" where
  "each_opt G r = (case r of None \<Rightarrow> [] | Some r \<Rightarrow> gj_each G r)"

definition types_opt :: "'r gjson \<Rightarrow> 'r option \<Rightarrow> string list" where
  "types_opt G r = (case r of None \<Rightarrow> [] | Some r \<Rightarrow> typeSet G r)"

definition additionalAllowed :: "'r gjson \<Rightarrow> 'r option \<Rightarrow> bool" where
  "additionalAllowed G schema =
     (case sub_opt G schema ''additionalProperties'' of None \<Rightarrow> True | Some ap \<Rightarrow> \<not> (gj_exists G ap \<and> gj_is_false G ap))"

definition requiredSet :: "'r gjson \<Rightarrow> 'r option \<Rightarrow> string list" where
  "requiredSet G schema = remdups (map (\<lambda>(_, v). gj_string G v) (each_opt G (sub_opt G schema ''required'')))"

definition sortedResultKeys :: "'r gjson \<Rightarrow> 'r option \<Rightarrow> string list" where
  "sortedResultKeys G obj = sort (map (\<lambda>(k, _). gj_string G k) (each_opt G obj))"

definition prop_of :: "'r gjson \<Rightarrow> 'r option \<Rightarrow> string \<Rightarrow> 'r option" where
  "prop_of G props name = sub_opt G props (escapeKey name)"

section \<open>Schema changes\<close>

definition type_change :: "'r gjson \<Rightarrow> (string list \<Rightarrow> string list) \<Rightarrow> string \<Rightarrow> string \<Rightarrow> 'r option \<Rightarrow> 'r option \<Rightarrow> mcp_change list" where
  "type_change G visit tool name op' np =
     (let oldT = types_opt G (sub_opt G op' ''type''); newT = types_opt G (sub_opt G np ''type'') in
      if length oldT > 0 \<and> length newT > 0 then
        (case filter (\<lambda>t. t \<notin> set newT) (visit oldT) of
           [] \<Rightarrow> []
         | t # _ \<Rightarrow> [\<lparr>ch_tool = tool, ch_kind = ''type_changed'', ch_detail = ''input property '' @ name @ '' no longer accepts type '' @ t,
                       ch_breaking = True\<rparr>])
      else [])"

definition old_prop_changes :: "'r gjson \<Rightarrow> (string list \<Rightarrow> string list) \<Rightarrow> string \<Rightarrow> 'r option \<Rightarrow> 'r option \<Rightarrow> string \<Rightarrow> mcp_change list" where
  "old_prop_changes G visit tool oldProps newProps name =
     (let np = prop_of G newProps name in
      if \<not> exists_opt G np then
        [\<lparr>ch_tool = tool, ch_kind = ''property_removed'', ch_detail = ''input property '' @ name @ '' was removed'', ch_breaking = True\<rparr>]
      else type_change G visit tool name (prop_of G oldProps name) np)"

definition new_prop_changes :: "'r gjson \<Rightarrow> string \<Rightarrow> 'r option \<Rightarrow> string list \<Rightarrow> string list \<Rightarrow> string \<Rightarrow> mcp_change list" where
  "new_prop_changes G tool oldProps oldReq newReq name =
     (if exists_opt G (prop_of G oldProps name) then []
      else if name \<in> set newReq \<and> name \<notin> set oldReq then
        [\<lparr>ch_tool = tool, ch_kind = ''required_added'', ch_detail = ''new REQUIRED input property '' @ name @ '' (existing clients omit it)'',
          ch_breaking = True\<rparr>]
      else [\<lparr>ch_tool = tool, ch_kind = ''property_added'', ch_detail = ''new optional input property '' @ name, ch_breaking = False\<rparr>])"

definition now_required :: "'r gjson \<Rightarrow> string \<Rightarrow> 'r option \<Rightarrow> 'r option \<Rightarrow> string list \<Rightarrow> string \<Rightarrow> mcp_change list" where
  "now_required G tool oldProps newProps oldReq name =
     (if exists_opt G (prop_of G newProps name) \<and> exists_opt G (prop_of G oldProps name) \<and> name \<notin> set oldReq then
        [\<lparr>ch_tool = tool, ch_kind = ''required_added'', ch_detail = ''input property '' @ name @ '' is now required'', ch_breaking = True\<rparr>]
      else [])"

definition schemaChanges :: "'r gjson \<Rightarrow> (string list \<Rightarrow> string list) \<Rightarrow> string \<Rightarrow> 'r option \<Rightarrow> 'r option \<Rightarrow> mcp_change list" where
  "schemaChanges G visit tool oldS newS =
     (let oldProps = sub_opt G oldS ''properties''; newProps = sub_opt G newS ''properties'';
          oldReq = requiredSet G oldS; newReq = requiredSet G newS
      in sort_key (\<lambda>c. (ch_kind c, ch_detail c))
           (concat (map (old_prop_changes G visit tool oldProps newProps) (sortedResultKeys G oldProps)) @
            (if additionalAllowed G oldS \<and> \<not> additionalAllowed G newS then
               [\<lparr>ch_tool = tool, ch_kind = ''additional_properties_forbidden'', ch_detail = ''additionalProperties tightened to false'',
                 ch_breaking = True\<rparr>] else []) @
            concat (map (new_prop_changes G tool oldProps oldReq newReq) (sortedResultKeys G newProps)) @
            concat (map (now_required G tool oldProps newProps oldReq) (visit newReq))))"

section \<open>Call regressions\<close>

definition mcp_call :: "interaction \<Rightarrow> bool" where
  "mcp_call it = (it_kind it = ''mcp'' \<and> rq_mcp_method (it_request it) = ''tools/call'')"

definition callKey :: "interaction \<Rightarrow> string" where
  "callKey it = rq_mcp_tool (it_request it) @ ''|'' @ Digest (Bytes (rq_body (it_request it)))"

definition call_failed :: "'r gjson \<Rightarrow> interaction \<Rightarrow> bool" where
  "call_failed G it = mcpIsError G (Bytes (rs_body (it_response it)))"

definition new_errors :: "'r gjson \<Rightarrow> interaction list \<Rightarrow> (string \<times> bool) list" where
  "new_errors G its = fold (\<lambda>it m. if mcp_call it then mput (callKey it) (call_failed G it) m else m) its []"

fun regress_loop :: "'r gjson \<Rightarrow> (string \<times> bool) list \<Rightarrow> string list \<Rightarrow> interaction list \<Rightarrow> mcp_change list" where
  "regress_loop G newErr seen [] = []"
| "regress_loop G newErr seen (it # its) =
     (if \<not> mcp_call it then regress_loop G newErr seen its
      else let k = callKey it in
        if k \<in> set seen \<or> call_failed G it then regress_loop G newErr seen its
        else (if mget newErr k = Some True then
                [\<lparr>ch_tool = rq_mcp_tool (it_request it), ch_kind = ''now_errors'',
                  ch_detail = ''a call that succeeded now returns an error'', ch_breaking = True\<rparr>] else []) @
             regress_loop G newErr (k # seen) its)"

definition callRegressions :: "'r gjson \<Rightarrow> interaction list \<Rightarrow> interaction list \<Rightarrow> mcp_change list" where
  "callRegressions G old newer = sort_key ch_tool (regress_loop G (new_errors G newer) [] old)"

section \<open>The comparison\<close>

text \<open>The tools a recording advertises: the keys of mcpToolSchemas.\<close>

definition tool_keys :: "'r gjson \<Rightarrow> interaction list \<Rightarrow> string list" where
  "tool_keys G its = concat (map (\<lambda>it.
     if it_kind it \<noteq> ''mcp'' \<or> rq_mcp_method (it_request it) \<noteq> ''tools/list'' then []
     else filter (\<lambda>n. n \<noteq> []) (map (\<lambda>(_, tool). gj_string G (gj_sub G tool ''name''))
       (gj_each G (gj_get G (Bytes (rs_body (it_response it))) ''tools'')))) its)"

definition sortedUnionKeys :: "string list \<Rightarrow> string list \<Rightarrow> string list" where
  "sortedUnionKeys a b = sort (remdups (a @ b))"

definition tool_changes :: "'r gjson \<Rightarrow> (string list \<Rightarrow> string list) \<Rightarrow> (string \<rightharpoonup> 'r option) \<Rightarrow> (string \<rightharpoonup> 'r option) \<Rightarrow> string \<Rightarrow> mcp_change list" where
  "tool_changes G visit oldTools newTools name =
     (case (oldTools name, newTools name) of
        (Some _, None) \<Rightarrow> [\<lparr>ch_tool = name, ch_kind = ''tool_removed'', ch_detail = ''tool is no longer advertised'', ch_breaking = True\<rparr>]
      | (None, Some _) \<Rightarrow> [\<lparr>ch_tool = name, ch_kind = ''tool_added'', ch_detail = ''new tool advertised'', ch_breaking = False\<rparr>]
      | (Some oldS, Some newS) \<Rightarrow> schemaChanges G visit name oldS newS
      | (None, None) \<Rightarrow> [])"

definition MCPDiff :: "'r gjson \<Rightarrow> (string list \<Rightarrow> string list) \<Rightarrow> wfile \<Rightarrow> wfile \<Rightarrow> mcp_report" where
  "MCPDiff G visit old newer =
     (let oldTools = mcpToolSchemas G (wf_its old); newTools = mcpToolSchemas G (wf_its newer);
          names = sortedUnionKeys (tool_keys G (wf_its old)) (tool_keys G (wf_its newer));
          rep = fold (\<lambda>name rep. fold mp_add (tool_changes G visit oldTools newTools name) rep) names
                  \<lparr>mp_changes = [], mp_breaking = 0\<rparr>
      in fold mp_add (callRegressions G (wf_its old) (wf_its newer)) rep)"

section \<open>When a comparison passes\<close>

definition compatible :: "'r gjson \<Rightarrow> 'r option \<Rightarrow> 'r option \<Rightarrow> bool" where
  "compatible G oldS newS =
     (let oldProps = sub_opt G oldS ''properties''; newProps = sub_opt G newS ''properties'';
          oldReq = set (requiredSet G oldS); newReq = set (requiredSet G newS)
      in (\<forall>name \<in> set (sortedResultKeys G oldProps).
            exists_opt G (prop_of G newProps name) \<and>
            (let oldT = types_opt G (sub_opt G (prop_of G oldProps name) ''type''); newT = types_opt G (sub_opt G (prop_of G newProps name) ''type'')
             in oldT = [] \<or> newT = [] \<or> set oldT \<subseteq> set newT)) \<and>
         (additionalAllowed G oldS \<longrightarrow> additionalAllowed G newS) \<and>
         (\<forall>name \<in> set (sortedResultKeys G newProps). exists_opt G (prop_of G oldProps name) \<or> name \<notin> newReq \<or> name \<in> oldReq) \<and>
         (\<forall>name \<in> newReq. exists_opt G (prop_of G newProps name) \<longrightarrow> exists_opt G (prop_of G oldProps name) \<longrightarrow> name \<in> oldReq))"

text \<open>The last recorded outcome of a call is an error.\<close>

definition fails_last :: "'r gjson \<Rightarrow> string \<Rightarrow> interaction list \<Rightarrow> bool" where
  "fails_last G k its = (let cs = filter (\<lambda>it. mcp_call it \<and> callKey it = k) its in cs \<noteq> [] \<and> call_failed G (last cs))"

lemma breaking_fold: "mp_breaking (fold mp_add cs r) = mp_breaking r + length (filter ch_breaking cs)"
  by (induction cs arbitrary: r) (simp_all add: mp_add_def)

lemma breaking_fold2:
  "mp_breaking (fold (\<lambda>n rep. fold mp_add (f n) rep) ns r) = mp_breaking r + length (filter ch_breaking (concat (map f ns)))"
  by (induction ns arbitrary: r) (simp_all add: breaking_fold)

lemma new_errors_last: "mget (new_errors G its) k = Some True \<longleftrightarrow> fails_last G k its"
proof (induction its rule: rev_induct)
  case (snoc it its)
  then show ?case by (simp add: new_errors_def fails_last_def Let_def map_of_mput)
qed (simp add: new_errors_def fails_last_def)

lemma regress_breaking:
  "filter ch_breaking (regress_loop G m seen its) = [] \<longleftrightarrow>
     (\<forall>it \<in> set its. mcp_call it \<longrightarrow> \<not> call_failed G it \<longrightarrow> callKey it \<notin> set seen \<longrightarrow> mget m (callKey it) \<noteq> Some True)"
  by (induction its arbitrary: seen) (auto simp: Let_def)

lemma dropped_types: "(\<And>xs. set (visit xs) = set xs) \<Longrightarrow> filter (\<lambda>t. t \<notin> set b) (visit a) = [] \<longleftrightarrow> set a \<subseteq> set b"
  by (simp only: filter_empty_conv) blast

lemma type_change_quiet:
  assumes "\<And>xs. set (visit xs) = set xs"
  shows "(\<forall>c \<in> set (type_change G visit tool name op' np). \<not> ch_breaking c) \<longleftrightarrow>
    types_opt G (sub_opt G op' ''type'') = [] \<or> types_opt G (sub_opt G np ''type'') = [] \<or>
    set (types_opt G (sub_opt G op' ''type'')) \<subseteq> set (types_opt G (sub_opt G np ''type''))"
proof -
  let ?o = "types_opt G (sub_opt G op' ''type'')" and ?n = "types_opt G (sub_opt G np ''type'')"
  have "(\<forall>c \<in> set (type_change G visit tool name op' np). \<not> ch_breaking c) \<longleftrightarrow>
      \<not> (length ?o > 0 \<and> length ?n > 0) \<or> filter (\<lambda>t. t \<notin> set ?n) (visit ?o) = []"
    unfolding type_change_def Let_def
    by (cases "filter (\<lambda>t. t \<notin> set ?n) (visit ?o)") (simp_all only: list.case split: if_split, simp_all)
  then show ?thesis by (simp only: dropped_types [of visit, OF assms] length_greater_0_conv) blast
qed

lemma old_prop_quiet:
  assumes "\<And>xs. set (visit xs) = set xs"
  shows "(\<forall>c \<in> set (old_prop_changes G visit tool oldProps newProps name). \<not> ch_breaking c) \<longleftrightarrow>
    exists_opt G (prop_of G newProps name) \<and>
    (let oldT = types_opt G (sub_opt G (prop_of G oldProps name) ''type''); newT = types_opt G (sub_opt G (prop_of G newProps name) ''type'')
     in oldT = [] \<or> newT = [] \<or> set oldT \<subseteq> set newT)"
  by (simp add: old_prop_changes_def Let_def type_change_quiet [of visit, OF assms])

lemma new_prop_quiet:
  "(\<forall>c \<in> set (new_prop_changes G tool oldProps oldReq newReq name). \<not> ch_breaking c) \<longleftrightarrow>
    exists_opt G (prop_of G oldProps name) \<or> name \<notin> set newReq \<or> name \<in> set oldReq"
  by (simp add: new_prop_changes_def)

lemma now_required_quiet:
  "(\<forall>c \<in> set (now_required G tool oldProps newProps oldReq name). \<not> ch_breaking c) \<longleftrightarrow>
    (exists_opt G (prop_of G newProps name) \<longrightarrow> exists_opt G (prop_of G oldProps name) \<longrightarrow> name \<in> set oldReq)"
  by (auto simp: now_required_def)

lemma all_concat_map: "(\<forall>c \<in> set (concat (map f xs)). P c) \<longleftrightarrow> (\<forall>x \<in> set xs. \<forall>c \<in> set (f x). P c)"
  by simp

lemma schema_breaking:
  assumes "\<And>xs. set (visit xs) = set xs"
  shows "(\<forall>c \<in> set (schemaChanges G visit tool oldS newS). \<not> ch_breaking c) \<longleftrightarrow> compatible G oldS newS"
  by (simp only: schemaChanges_def compatible_def Let_def set_sort set_append ball_Un all_concat_map old_prop_quiet [OF assms]
    new_prop_quiet now_required_quiet assms) simp

text \<open>The keys of the schema map are the advertised names.\<close>

lemma list_schema_dom1: "list_schema G tool m n = None \<longleftrightarrow> m n = None \<and> (n \<noteq> gj_string G (gj_sub G tool ''name'') \<or> n = [])"
  by (simp add: list_schema_def Let_def del: firstExisting.simps)

lemma list_schema_dom:
  "fold (\<lambda>(_, tool). list_schema G tool) ts m n = None \<longleftrightarrow>
    m n = None \<and> n \<notin> set (filter (\<lambda>n. n \<noteq> []) (map (\<lambda>(_, tool). gj_string G (gj_sub G tool ''name'')) ts))"
proof (induction ts arbitrary: m)
  case (Cons p ts)
  obtain k tool where p: "p = (k, tool)" by (cases p)
  show ?case by (simp only: p fold.simps o_def case_prod_conv Cons.IH list_schema_dom1 list.map filter.simps) auto
qed simp

lemma tool_keys_dom: "mcpToolSchemas G its n = None \<longleftrightarrow> n \<notin> set (tool_keys G its)"
proof (induction its rule: rev_induct)
  case (snoc it its)
  then show ?case by (simp add: mcpToolSchemas_def tool_keys_def list_schema_dom)
qed (simp add: mcpToolSchemas_def tool_keys_def)

lemma tool_changes_quiet:
  assumes "\<And>xs. set (visit xs) = set xs"
  shows "(\<forall>c \<in> set (tool_changes G visit oldTools newTools n). \<not> ch_breaking c) \<longleftrightarrow>
    (\<forall>s. oldTools n = Some s \<longrightarrow> (\<exists>s'. newTools n = Some s' \<and> compatible G s s'))"
  by (simp add: tool_changes_def schema_breaking [OF assms] split: option.split)

lemma callRegressions_quiet:
  "(\<forall>c \<in> set (callRegressions G old newer). \<not> ch_breaking c) \<longleftrightarrow>
    (\<forall>it \<in> set old. mcp_call it \<longrightarrow> \<not> call_failed G it \<longrightarrow> \<not> fails_last G (callKey it) newer)"
  using regress_breaking [of G "new_errors G newer" "[]" old]
  by (simp add: callRegressions_def new_errors_last filter_empty_conv)

text \<open>
  C25. MCPDiff passes exactly when no client of the older contract can break: every tool the old recording
  advertises is still advertised with a compatible schema (each input property kept, none of its types
  given up, nothing newly required, extra members not newly forbidden), and no call that once succeeded
  has an error as its last recorded outcome.  The order in which the maps are visited does not matter.
\<close>

theorem MCPDiff_OK_exact:
  assumes "\<And>xs. set (visit xs) = set xs"
  shows "mp_OK (MCPDiff G visit old newer) \<longleftrightarrow>
    (\<forall>n s. mcpToolSchemas G (wf_its old) n = Some s \<longrightarrow>
       (\<exists>s'. mcpToolSchemas G (wf_its newer) n = Some s' \<and> compatible G s s')) \<and>
    (\<forall>it \<in> set (wf_its old). mcp_call it \<and> \<not> call_failed G it \<longrightarrow> \<not> fails_last G (callKey it) (wf_its newer))"
proof -
  let ?o = "mcpToolSchemas G (wf_its old)" and ?n = "mcpToolSchemas G (wf_its newer)"
  have "(\<forall>n \<in> set (tool_keys G (wf_its old)) \<union> set (tool_keys G (wf_its newer)). \<forall>s. ?o n = Some s \<longrightarrow> (\<exists>s'. ?n n = Some s' \<and> compatible G s s')) \<longleftrightarrow>
    (\<forall>n s. ?o n = Some s \<longrightarrow> (\<exists>s'. ?n n = Some s' \<and> compatible G s s'))"
    using tool_keys_dom [of G "wf_its old"] by (metis UnCI option.distinct(1))
  then show ?thesis
    by (simp only: mp_OK_def MCPDiff_def Let_def breaking_fold breaking_fold2 mcp_report.simps add_0 add_is_0 length_0_conv
      filter_empty_conv all_concat_map sortedUnionKeys_def set_sort set_remdups set_append tool_changes_quiet [OF assms]
      callRegressions_quiet) blast
qed

text \<open>A listing with one optional property, and the same listing with the property made required.\<close>

definition sample_text :: "string \<Rightarrow> bytes" where
  "sample_text req = ''{\"tools\":[{\"name\":\"t\",\"inputSchema\":{\"properties\":{\"a\":{}},\"required\":['' @ req @ '']}}]}''"

definition sample_input :: "jval list \<Rightarrow> jval" where
  "sample_input req = JObj [(''properties'', JObj [(''a'', JObj [])]), (''required'', JArr req)]"

definition sample_listing :: "string \<Rightarrow> wfile" where
  "sample_listing req = \<lparr>wf_schema = 1, wf_notice = [], wf_expect = None, wf_match = None, wf_prov = [],
     wf_its = [mcp_interaction ''tools/list'' [] [] (sample_text req) []]\<rparr>"

lemma sample_text_parses:
  "jparse (sample_text []) = Some (JObj [(''tools'', JArr [JObj [(''name'', JStr ''t''), (''inputSchema'', sample_input [])]])])"
  by code_simp

lemma sample_text_parses2:
  "jparse (sample_text ''\"a\"'') = Some (JObj [(''tools'', JArr [JObj [(''name'', JStr ''t''), (''inputSchema'', sample_input [JStr ''a''])]])])"
  by code_simp

lemma sample_listing_schema:
  assumes "jparse (sample_text r) = Some (JObj [(''tools'', JArr [JObj [(''name'', JStr ''t''), (''inputSchema'', S)]])])"
  shows "mcpToolSchemas jval_gjson (wf_its (sample_listing r)) = [''t'' \<mapsto> Some (Some S)]"
proof -
  have k: "split_byte (CHR ''.'') ''tools'' = [''tools'']" "split_byte (CHR ''.'') ''name'' = [''name'']"
    "split_byte (CHR ''.'') ''inputSchema'' = [''inputSchema'']" by code_simp+
  show ?thesis
    by (simp add: sample_listing_def mcp_interaction_def mcpToolSchemas_def Bytes_NewBody jval_gjson_def assms k list_schema_def jfield_def)
qed

lemma sample_compatible:
  "compatible jval_gjson (Some (Some (sample_input [JStr ''a'']))) (Some (Some (sample_input [])))"
  "\<not> compatible jval_gjson (Some (Some (sample_input []))) (Some (Some (sample_input [JStr ''a''])))"
  by code_simp+

lemma MCPDiff_OK_exact_witness:
  "mp_OK (MCPDiff jval_gjson rev (sample_listing ''\"a\"'') (sample_listing [])) \<and>
   \<not> mp_OK (MCPDiff jval_gjson rev (sample_listing []) (sample_listing ''\"a\"''))"
proof -
  have "\<And>xs. set (rev xs) = set xs" by simp
  note t = MCPDiff_OK_exact [of rev, OF this]
  have m: "\<not> mcp_call it" if "it \<in> set (wf_its (sample_listing r))" for it r
    using that by (simp add: sample_listing_def mcp_call_def mcp_interaction_def)
  have "\<forall>it \<in> set (wf_its (sample_listing r)). \<not> mcp_call it" for r using m by blast
  then show ?thesis
    by (simp add: t sample_listing_schema [OF sample_text_parses] sample_listing_schema [OF sample_text_parses2] sample_compatible)
qed

text \<open>
  A recording compared with itself is not always clean: a call that succeeded and later failed has an
  error as its last outcome, so it counts as a regression.
\<close>

lemma MCPDiff_self_breaking:
  assumes that: "wf_its f = [a, b]" "mcp_call a" "mcp_call b" "callKey a = callKey b" "\<not> call_failed G a" "call_failed G b"
  shows "\<not> mp_OK (MCPDiff G visit f f)"
proof -
  have "fails_last G (callKey a) [a, b]" using that by (simp add: fails_last_def)
  then have "\<exists>c \<in> set (callRegressions G [a, b] [a, b]). ch_breaking c"
    using that callRegressions_quiet [of G "[a, b]" "[a, b]"] by auto
  then show ?thesis
    unfolding that(1) [symmetric]
    by (simp only: mp_OK_def MCPDiff_def Let_def breaking_fold add_is_0 length_0_conv filter_empty_conv) blast
qed

end
