(* ===== verification/Otel.thy ===== *)
theory Otel
  imports Signals Authoring_Laws Compose_Laws "HOL-Library.Word"
begin

text \<open>
  internal/analysis/otel.go: a recording as OpenTelemetry GenAI spans.  Times are int64, so they are
  \<open>64 word\<close>s read with \<open>sint\<close>.  \<open>ttfc\<close> is the JSON text of float64(ms) / 1000.
\<close>

section \<open>The export\<close>

datatype otlpAnyValue = StringValue string | IntValue string | DoubleValue string | ArrayValue "otlpAnyValue list"

type_synonym otlpKV = "string \<times> otlpAnyValue"

record otlpSpan =
  os_TraceID :: string
  os_SpanID :: string
  os_Name :: string
  os_Kind :: int
  os_Start :: string
  os_End :: string
  os_Attributes :: "otlpKV list"
  os_Status :: int

definition intVal :: "int \<Rightarrow> otlpAnyValue" where
  "intVal n = IntValue (itoa n)"

definition arrStr :: "string list \<Rightarrow> otlpAnyValue" where
  "arrStr ss = ArrayValue (map StringValue ss)"

definition FormatInt64 :: "64 word \<Rightarrow> string" where
  "FormatInt64 w = itoa (sint w)"

definition traceIDFor :: "wfile \<Rightarrow> string" where
  "traceIDFor f = take 32 (SumHex (concat (map (\<lambda>it. rq_match_key (it_request it) @ [newline]) (wf_its f))))"

definition spanIDFor :: "nat \<Rightarrow> interaction \<Rightarrow> string" where
  "spanIDFor idx it =
     take 16 (SumHex (itoa (int idx) @ '':'' @ rq_match_key (it_request it) @ rq_mcp_tool (it_request it) @ rq_url (it_request it)))"

definition mcpAttrs :: "interaction \<Rightarrow> otlpKV list \<times> string" where
  "mcpAttrs it =
     (let rq = it_request it; op' = (if rq_mcp_method rq = ''tools/list'' then ''list_tools'' else ''execute_tool'');
          attrs = [(''gen_ai.provider.name'', StringValue ''mcp''), (''gen_ai.operation.name'', StringValue op'),
                   (''mcp.method.name'', StringValue (rq_mcp_method rq))]
      in if rq_mcp_tool rq \<noteq> [] then (attrs @ [(''mcp.tool.name'', StringValue (rq_mcp_tool rq))], op' @ '' '' @ rq_mcp_tool rq)
         else (attrs, op'))"

definition httpAttrs :: "'r gjson \<Rightarrow> interaction \<Rightarrow> otlpKV list \<times> string" where
  "httpAttrs G it =
     (let model = RequestModel G it; u = DecodeUsage G it; (tr, unary, renderable) = DecodeInteraction G it;
          attrs = [(''gen_ai.provider.name'', StringValue (p_Name (ProviderForURL (rq_url (it_request it))))),
                   (''gen_ai.operation.name'', StringValue ''chat'')] @
            (if model \<noteq> [] then [(''gen_ai.request.model'', StringValue model)] else []) @
            (if u_known u then [(''gen_ai.usage.input_tokens'', intVal (u_in u)), (''gen_ai.usage.output_tokens'', intVal (u_out u))] else []) @
            (if t_FinishReason tr \<noteq> [] then [(''gen_ai.response.finish_reasons'', arrStr [t_FinishReason tr])] else [])
      in (attrs, if model \<noteq> [] then ''chat '' @ model else ''chat''))"

definition durationNs :: "int list \<Rightarrow> 64 word" where
  "durationNs d = (if length d > 0 then fold (\<lambda>ms total. total + word_of_int ms) d 0 * 1000000 else 0)"

definition spanFor :: "'r gjson \<Rightarrow> (int \<Rightarrow> string) \<Rightarrow> string \<Rightarrow> nat \<Rightarrow> interaction \<Rightarrow> 64 word \<Rightarrow> otlpSpan \<times> 64 word" where
  "spanFor G ttfc traceID idx it startNs =
     (let d = rs_timing (it_response it); durNs = durationNs d;
          (attrs, name) = (if it_kind it = ''mcp'' then mcpAttrs it else httpAttrs G it);
          failed = (if it_kind it = ''mcp'' then mcpIsError G (Bytes (rs_body (it_response it)))
                    else rs_status (it_response it) \<ge> 400 \<or> rs_error (it_response it) \<noteq> [])
      in (\<lparr>os_TraceID = traceID, os_SpanID = spanIDFor idx it, os_Name = name, os_Kind = 3,
           os_Start = FormatInt64 startNs, os_End = FormatInt64 (startNs + durNs),
           os_Attributes = attrs @ (case d of [] \<Rightarrow> []
              | ms # _ \<Rightarrow> [(''gen_ai.client.operation.time_to_first_chunk'', DoubleValue (ttfc ms))]),
           os_Status = (if failed then 2 else 1)\<rparr>,
          startNs + durNs))"

fun span_loop :: "'r gjson \<Rightarrow> (int \<Rightarrow> string) \<Rightarrow> string \<Rightarrow> nat \<Rightarrow> 64 word \<Rightarrow> interaction list \<Rightarrow> otlpSpan list" where
  "span_loop G ttfc traceID i startNs [] = []"
| "span_loop G ttfc traceID i startNs (it # its) =
     (case spanFor G ttfc traceID i it startNs of (sp, next) \<Rightarrow> sp # span_loop G ttfc traceID (i + 1) next its)"

definition exportOTLP :: "'r gjson \<Rightarrow> (int \<Rightarrow> string) \<Rightarrow> wfile \<Rightarrow> otlpSpan list" where
  "exportOTLP G ttfc f = span_loop G ttfc (traceIDFor f) 0 0 (wf_its f)"

section \<open>Its JSON\<close>

fun value_json :: "otlpAnyValue \<Rightarrow> jval" where
  "value_json (StringValue s) = JObj [(''stringValue'', JStr s)]"
| "value_json (IntValue s) = JObj [(''intValue'', JStr s)]"
| "value_json (DoubleValue s) = JObj [(''doubleValue'', JNum s)]"
| "value_json (ArrayValue vs) = JObj [(''arrayValue'', JObj [(''values'', JArr (map value_json vs))])]"

definition kv_json :: "otlpKV \<Rightarrow> jval" where
  "kv_json kv = JObj [(''key'', JStr (fst kv)), (''value'', value_json (snd kv))]"

definition span_json :: "otlpSpan \<Rightarrow> jval" where
  "span_json s = JObj [(''traceId'', JStr (os_TraceID s)), (''spanId'', JStr (os_SpanID s)), (''name'', JStr (os_Name s)),
     (''kind'', JNum (itoa (os_Kind s))), (''startTimeUnixNano'', JStr (os_Start s)), (''endTimeUnixNano'', JStr (os_End s)),
     (''attributes'', JArr (map kv_json (os_Attributes s))), (''status'', JObj [(''code'', JNum (itoa (os_Status s)))])]"

definition export_json :: "otlpSpan list \<Rightarrow> jval" where
  "export_json spans = JObj [(''resourceSpans'', JArr [JObj
     [(''resource'', JObj [(''attributes'', JArr [kv_json (''service.name'', StringValue ''cassette'')])]),
      (''scopeSpans'', JArr [JObj [(''scope'', JObj [(''name'', JStr ''cassette'')]), (''spans'', JArr (map span_json spans))]])]])]"

text \<open>json.MarshalIndent with two blanks: members on lines of their own, empty arrays and objects closed at once.\<close>

definition indent_nl :: "nat \<Rightarrow> string" where
  "indent_nl d = newline # replicate (2 * d) (CHR '' '')"

fun MarshalIndent :: "nat \<Rightarrow> jval \<Rightarrow> bytes" where
  "MarshalIndent d (JArr vs) =
     (if vs = [] then ''[]''
      else ''['' @ indent_nl (d + 1) @ str_join ('','' @ indent_nl (d + 1)) (map (MarshalIndent (d + 1)) vs) @ indent_nl d @ '']'')"
| "MarshalIndent d (JObj kvs) =
     (if kvs = [] then ''{}''
      else ''{'' @ indent_nl (d + 1) @
        str_join ('','' @ indent_nl (d + 1)) (map (\<lambda>(k, v). jquote True k @ '': '' @ MarshalIndent (d + 1) v) kvs) @ indent_nl d @ ''}'')"
| "MarshalIndent d v = jencode True v"

definition MarshalOTLP :: "'r gjson \<Rightarrow> (int \<Rightarrow> string) \<Rightarrow> wfile \<Rightarrow> bytes" where
  "MarshalOTLP G ttfc f = MarshalIndent 0 (export_json (exportOTLP G ttfc f))"

section \<open>The waterfall\<close>

definition elapsed_ms :: "interaction list \<Rightarrow> int" where
  "elapsed_ms its = sum_list (concat (map (\<lambda>it. rs_timing (it_response it)) its))"

lemma fold_word: "fold (\<lambda>ms total. total + word_of_int ms) d (w :: 64 word) = w + word_of_int (sum_list d)"
  by (induction d arbitrary: w) (simp_all add: algebra_simps)

lemma durationNs_word: "durationNs d = word_of_int (sum_list d * 1000000)"
  by (cases "d = []") (simp_all add: durationNs_def fold_word)

lemma elapsed_Cons: "elapsed_ms (it # its) = sum_list (rs_timing (it_response it)) + elapsed_ms its"
  by (simp add: elapsed_ms_def)

lemma span_loop_nth:
  assumes "j < length its"
  shows "os_Start (span_loop G ttfc tr i w its ! j) = FormatInt64 (w + word_of_int (elapsed_ms (take j its) * 1000000)) \<and>
    os_End (span_loop G ttfc tr i w its ! j) = FormatInt64 (w + word_of_int (elapsed_ms (take (j + 1) its) * 1000000)) \<and>
    os_TraceID (span_loop G ttfc tr i w its ! j) = tr \<and> os_SpanID (span_loop G ttfc tr i w its ! j) = spanIDFor (i + j) (its ! j)"
  using assms
proof (induction its arbitrary: i w j)
  case (Cons it its)
  show ?case
  proof (cases j)
    case 0
    then show ?thesis by (simp add: spanFor_def Let_def durationNs_word elapsed_ms_def split: prod.split)
  next
    case (Suc k)
    then have "k < length its" using Cons.prems by simp
    from Cons.IH [OF this] show ?thesis
      by (simp add: Suc spanFor_def Let_def durationNs_word elapsed_Cons algebra_simps split: prod.split)
  qed
qed simp

lemma length_span_loop: "length (span_loop G ttfc tr i w its) = length its"
  by (induction its arbitrary: i w) (simp_all split: prod.split)

lemma FormatInt64_exact:
  assumes "0 \<le> n" "n < 2 ^ 63"
  shows "FormatInt64 (word_of_int n) = itoa n"
proof -
  have "sint (word_of_int n :: 64 word) = n"
    unfolding int_word_sint using assms by (simp add: mod_pos_pos_trivial)
  then show ?thesis by (simp only: FormatInt64_def)
qed

lemma elapsed_mono:
  assumes "\<And>it ms. it \<in> set its \<Longrightarrow> ms \<in> set (rs_timing (it_response it)) \<Longrightarrow> 0 \<le> ms"
  shows "0 \<le> elapsed_ms (take j its) \<and> elapsed_ms (take j its) \<le> elapsed_ms its"
proof -
  have n: "0 \<le> elapsed_ms xs" if "set xs \<subseteq> set its" for xs
    unfolding elapsed_ms_def by (rule sum_list_nonneg) (use assms that in auto)
  have "elapsed_ms its = elapsed_ms (take j its) + elapsed_ms (List.drop j its)"
    by (simp add: elapsed_ms_def flip: sum_list_append concat_append map_append)
  then show ?thesis using n [OF set_take_subset] n [OF set_drop_subset] by (metis le_add_same_cancel1)
qed

text \<open>
  C38. As long as the paced stream of a whole recording fits in int64 nanoseconds (2 ^ 63 ns, about 292
  years), the spans of an export tile the timeline without wrapping: span j starts at the exact total of
  the durations before it and ends where span j + 1 starts, no span ends before it starts, and the
  last one ends within the bound.  Each carries the one 32-digit trace id and a 16-digit span id.
\<close>

theorem exportOTLP_tiles:
  assumes "\<forall>it \<in> set (wf_its f). \<forall>ms \<in> set (rs_timing (it_response it)). 0 \<le> ms"
    and "elapsed_ms (wf_its f) * 1000000 < 2 ^ 63"
  shows "let spans = exportOTLP G ttfc f; at_ns = (\<lambda>j. elapsed_ms (take j (wf_its f)) * 1000000) in
    length spans = length (wf_its f) \<and>
    (\<forall>j < length spans. os_Start (spans ! j) = itoa (at_ns j) \<and> os_End (spans ! j) = itoa (at_ns (j + 1)) \<and>
       0 \<le> at_ns j \<and> at_ns j \<le> at_ns (j + 1) \<and> at_ns (j + 1) < 2 ^ 63 \<and>
       os_TraceID (spans ! j) = traceIDFor f \<and> length (traceIDFor f) = 32 \<and> length (os_SpanID (spans ! j)) = 16)"
proof -
  have b: "0 \<le> elapsed_ms (take j (wf_its f)) * 1000000 \<and> elapsed_ms (take j (wf_its f)) * 1000000 < 2 ^ 63" for j
    using elapsed_mono [of "wf_its f" j] assms by fastforce
  have m: "elapsed_ms (take j (wf_its f)) \<le> elapsed_ms (take (j + 1) (wf_its f))" for j
    using elapsed_mono [of "take (j + 1) (wf_its f)" j] assms(1) by (auto dest!: in_set_takeD simp: min_def)
  have t: "FormatInt64 (0 + word_of_int (elapsed_ms (take j (wf_its f)) * 1000000)) = itoa (elapsed_ms (take j (wf_its f)) * 1000000)" for j
    unfolding add_0 by (rule FormatInt64_exact) (use b in blast)+
  note s = span_loop_nth [of _ "wf_its f" G ttfc "traceIDFor f" 0 0, unfolded t]
  have l: "length (traceIDFor f) = 32" "length (spanIDFor i it) = 16" for i it
    by (simp_all add: traceIDFor_def spanIDFor_def length_SumHex)
  show ?thesis
    using b m by (simp add: Let_def exportOTLP_def length_span_loop s l)
qed

text \<open>Two paced turns; with a turn beyond the bound the end of the span wraps below its start.\<close>

definition paced_turn :: "int list \<Rightarrow> interaction" where
  "paced_turn d = (mcp_interaction ''tools/call'' ''t'' [] [] ''k'')\<lparr>it_response := (it_response (mcp_interaction ''tools/call'' ''t'' [] [] ''k''))\<lparr>rs_timing := d\<rparr>\<rparr>"

definition paced_file :: "int list list \<Rightarrow> wfile" where
  "paced_file ds = \<lparr>wf_schema = 1, wf_notice = [], wf_expect = None, wf_match = None, wf_prov = [], wf_its = map paced_turn ds\<rparr>"

lemma exportOTLP_tiles_witness:
  "os_Start (exportOTLP null_gjson (\<lambda>_. []) (paced_file [[3, 4], [5]]) ! 1) = itoa 7000000 \<and>
   os_End (exportOTLP null_gjson (\<lambda>_. []) (paced_file [[3, 4], [5]]) ! 1) = itoa 12000000"
proof -
  have t: "elapsed_ms (wf_its (paced_file [[3, 4], [5]])) * 1000000 < 2 ^ 63"
    "elapsed_ms (take 1 (wf_its (paced_file [[3, 4], [5]]))) = 7" "elapsed_ms (wf_its (paced_file [[3, 4], [5]])) = 12"
    by (simp_all add: elapsed_ms_def paced_file_def paced_turn_def mcp_interaction_def)
  have n: "\<forall>it \<in> set (wf_its (paced_file [[3, 4], [5]])). \<forall>ms \<in> set (rs_timing (it_response it)). 0 \<le> ms"
    by (simp add: paced_file_def paced_turn_def mcp_interaction_def)
  have "length (wf_its (paced_file [[3, 4], [5]])) = 2" by (simp add: paced_file_def)
  then show ?thesis using exportOTLP_tiles [OF n t(1), of null_gjson "\<lambda>_. []"] t(2,3) by (simp add: Let_def)
qed

lemma durationNs_wraps: "sint (durationNs [9223372036855]) < 0"
  unfolding durationNs_word int_word_sint by simp

end
