(* ===== verification/Textdiff.thy ===== *)
theory Textdiff
  imports Wirefmt Runes "HOL-Library.Sublist"
begin

text \<open>
  cmd/cassette/main.go and diff.go: the edit distance behind the suggestions for a misspelt command, and
  the word diff of two transcripts.  Both are tables filled row by row, as in the code.
\<close>

section \<open>Edit distance\<close>

definition min3 :: "nat \<Rightarrow> nat \<Rightarrow> nat \<Rightarrow> nat" where
  "min3 a b c = (let a = (if b < a then b else a); a = (if c < a then c else a) in a)"

text \<open>The inner loop, over the second string and the previous row; \<open>left\<close> is the cell just written.\<close>

fun lev_cells :: "char \<Rightarrow> string \<Rightarrow> nat list \<Rightarrow> nat \<Rightarrow> nat list" where
  "lev_cells c (d # b) (p # q # prev) left =
     (let x = min3 (left + 1) (q + 1) (p + (if c = d then 0 else 1)) in x # lev_cells c b (q # prev) x)"
| "lev_cells c _ _ left = []"

fun lev_rows :: "nat \<Rightarrow> string \<Rightarrow> string \<Rightarrow> nat list \<Rightarrow> nat list" where
  "lev_rows i [] b prev = prev"
| "lev_rows i (c # a) b prev = lev_rows (i + 1) a b (i # lev_cells c b prev i)"

definition levenshtein :: "string \<Rightarrow> string \<Rightarrow> nat" where
  "levenshtein a b = lev_rows 1 a b [0 ..< length b + 1] ! length b"

fun suggest_loop :: "string \<Rightarrow> string \<Rightarrow> nat \<Rightarrow> string list \<Rightarrow> string \<times> nat" where
  "suggest_loop inp best bestDist [] = (best, bestDist)"
| "suggest_loop inp best bestDist (c # cs) =
     (let d = levenshtein inp c in
      if d < bestDist then suggest_loop inp c d cs else suggest_loop inp best bestDist cs)"

definition suggestCommand :: "string list \<Rightarrow> string \<Rightarrow> string" where
  "suggestCommand commands inp =
     (case suggest_loop inp [] (2 ^ 30) commands of
        (best, bestDist) \<Rightarrow> if bestDist \<le> 2 \<or> bestDist * 3 \<le> length best then best else [])"

section \<open>What the distance means\<close>

text \<open>One edit inserts, deletes or substitutes one byte.\<close>

inductive edit :: "string \<Rightarrow> string \<Rightarrow> bool" where
  ins: "edit (u @ v) (u @ x # v)"
| del: "edit (u @ x # v) (u @ v)"
| sub: "edit (u @ x # v) (u @ y # v)"

text \<open>An alignment of two strings and the number of edits it costs.\<close>

inductive align :: "nat \<Rightarrow> string \<Rightarrow> string \<Rightarrow> bool" where
  nil: "align 0 [] []"
| keep: "align n a b \<Longrightarrow> align n (x # a) (x # b)"
| swap: "align n a b \<Longrightarrow> align (Suc n) (x # a) (y # b)"
| less: "align n a b \<Longrightarrow> align (Suc n) (x # a) b"
| more: "align n a b \<Longrightarrow> align (Suc n) a (y # b)"

lemma align_refl: "align 0 a a"
  by (induction a) (auto intro: align.intros)

lemma align_append: "align m a b \<Longrightarrow> align n c d \<Longrightarrow> align (m + n) (a @ c) (b @ d)"
  by (induction rule: align.induct) (auto intro: align.intros)

lemma align_rev: "align n a b \<Longrightarrow> align n (rev a) (rev b)"
proof (induction rule: align.induct)
  case (keep n a b x)
  show ?case using align_append [OF keep.IH align.keep [OF align.nil, of x]] by simp
next
  case (swap n a b x y)
  show ?case using align_append [OF swap.IH align.swap [OF align.nil, of x y]] by simp
next
  case (less n a b x)
  show ?case using align_append [OF less.IH align.less [OF align.nil, of x]] by simp
next
  case (more n a b y)
  show ?case using align_append [OF more.IH align.more [OF align.nil, of y]] by simp
qed (simp add: align.nil)

lemma align_split: "align n a (u @ v) \<Longrightarrow> \<exists>a1 a2 n1 n2. a = a1 @ a2 \<and> n = n1 + n2 \<and> align n1 a1 u \<and> align n2 a2 v"
proof (induction n a "u @ v" arbitrary: u rule: align.induct)
  case nil
  then show ?case using align.nil by auto
next
  case (keep n a b x)
  show ?case
  proof (cases u)
    case Nil
    then show ?thesis using keep align.keep align.nil by (metis add_0 append_Nil)
  next
    case (Cons y u')
    then obtain a1 a2 n1 n2 where "a = a1 @ a2" "n = n1 + n2" "align n1 a1 u'" "align n2 a2 v" "y = x"
      using keep(2) [of u'] keep.hyps by auto
    then show ?thesis using Cons align.keep by (metis append_Cons)
  qed
next
  case (swap n a b x y)
  show ?case
  proof (cases u)
    case Nil
    then show ?thesis using swap align.swap align.nil by (metis add_0 append_Nil)
  next
    case (Cons z u')
    then obtain a1 a2 n1 n2 where "a = a1 @ a2" "n = n1 + n2" "align n1 a1 u'" "align n2 a2 v" "z = y"
      using swap(2) [of u'] swap.hyps by auto
    then show ?thesis using Cons align.swap by (metis append_Cons add_Suc)
  qed
next
  case (less n a x)
  then obtain a1 a2 n1 n2 where "a = a1 @ a2" "n = n1 + n2" "align n1 a1 u" "align n2 a2 v" by blast
  then show ?case using align.less by (metis append_Cons add_Suc)
next
  case (more n a b y)
  show ?case
  proof (cases u)
    case Nil
    then show ?thesis using more align.more align.nil by (metis add_0 append_Nil)
  next
    case (Cons z u')
    then obtain a1 a2 n1 n2 where "a = a1 @ a2" "n = n1 + n2" "align n1 a1 u'" "align n2 a2 v" "z = y"
      using more(2) [of u'] more.hyps by auto
    then show ?thesis using Cons align.more by (metis add_Suc)
  qed
qed

lemma align_drop: "align n a (y # v) \<Longrightarrow> \<exists>k \<le> Suc n. align k a v"
proof (induction n a "y # v" rule: align.induct)
  case (keep n a)
  then show ?case using align.less by blast
next
  case (swap n a x)
  then show ?case using align.less [OF swap.hyps(1)] by (metis le_SucI order_refl)
next
  case (less n a x)
  then show ?case using align.less by blast
next
  case (more n a)
  then show ?case by (metis le_SucI order_refl)
qed

lemma align_change: "align n a (x # v) \<Longrightarrow> \<exists>k \<le> Suc n. align k a (y # v)"
proof (induction n a "x # v" rule: align.induct)
  case (keep n a)
  then show ?case using align.swap by blast
next
  case (swap n a z)
  then show ?case using align.swap [OF swap.hyps(1)] by (metis le_SucI order_refl)
next
  case (less n a z)
  then show ?case using align.less by blast
next
  case (more n a)
  then show ?case using align.more [OF more.hyps(1)] by (metis le_SucI order_refl)
qed

lemma align_swap_tail:
  assumes "align n1 a1 u" "k \<le> Suc n2" "align k a2 w"
  shows "\<exists>m \<le> Suc (n1 + n2). align m (a1 @ a2) (u @ w)"
  by (rule exI [of _ "n1 + k"]) (use assms align_append in auto)

lemma align_edit:
  assumes "edit b c" "align n a b"
  shows "\<exists>k \<le> Suc n. align k a c"
  using assms
proof (induction rule: edit.induct)
  case (ins u v x)
  obtain a1 a2 n1 n2 where s: "a = a1 @ a2" "n = n1 + n2" "align n1 a1 u" "align n2 a2 v" using align_split [OF ins.prems] by auto
  show ?case unfolding s(1,2) by (rule align_swap_tail [OF s(3) order_refl align.more [OF s(4)]])
next
  case (del u x v)
  obtain a1 a2 n1 n2 where s: "a = a1 @ a2" "n = n1 + n2" "align n1 a1 u" "align n2 a2 (x # v)" using align_split [OF del.prems] by auto
  obtain k where k: "k \<le> Suc n2" "align k a2 v" using align_drop [OF s(4)] by blast
  show ?case unfolding s(1,2) by (rule align_swap_tail [OF s(3) k])
next
  case (sub u x v y)
  obtain a1 a2 n1 n2 where s: "a = a1 @ a2" "n = n1 + n2" "align n1 a1 u" "align n2 a2 (x # v)" using align_split [OF sub.prems] by auto
  obtain k where k: "k \<le> Suc n2" "align k a2 (y # v)" using align_change [OF s(4)] by blast
  show ?case unfolding s(1,2) by (rule align_swap_tail [OF s(3) k])
qed

lemma align_of_edits: "(edit ^^ n) a b \<Longrightarrow> \<exists>k \<le> n. align k a b"
proof (induction n arbitrary: b)
  case 0
  then show ?case using align_refl by auto
next
  case (Suc n)
  then obtain c where "(edit ^^ n) a c" "edit c b" by auto
  with Suc.IH align_edit show ?case by (meson Suc_le_mono order_trans)
qed

lemma edit_Cons: "edit a b \<Longrightarrow> edit (x # a) (x # b)"
proof (induction rule: edit.induct)
  case (ins u v y)
  show ?case using edit.ins [of "x # u" v y] by simp
next
  case (del u y v)
  show ?case using edit.del [of "x # u" y v] by simp
next
  case (sub u y v z)
  show ?case using edit.sub [of "x # u" y v z] by simp
qed

lemma edits_Cons: "(edit ^^ n) a b \<Longrightarrow> (edit ^^ n) (x # a) (x # b)"
proof (induction n arbitrary: b)
  case (Suc n)
  then show ?case using edit_Cons by (auto intro!: relcomppI)
qed simp

lemma edits_of_align: "align n a b \<Longrightarrow> (edit ^^ n) a b"
proof (induction rule: align.induct)
  case (keep n a b x)
  show ?case by (rule edits_Cons [OF keep.IH])
next
  case (swap n a b x y)
  have "edit (x # b) (y # b)" using edit.sub [of "[]"] by simp
  then show ?case using edits_Cons [OF swap.IH, of x] by auto
next
  case (less n a b x)
  have "edit (x # b) b" using edit.del [of "[]"] by simp
  then show ?case using edits_Cons [OF less.IH, of x] by auto
next
  case (more n a b y)
  have "edit b (y # b)" using edit.ins [of "[]"] by simp
  then show ?case using more.IH by auto
qed simp

text \<open>The recursive distance, and the row it gives for a prefix (both strings are read backwards).\<close>

fun ed :: "string \<Rightarrow> string \<Rightarrow> nat" where
  "ed [] b = length b"
| "ed (x # a) [] = Suc (length a)"
| "ed (x # a) (y # b) = min3 (ed (x # a) b + 1) (ed a (y # b) + 1) (ed a b + (if x = y then 0 else 1))"

fun ed_row :: "string \<Rightarrow> string \<Rightarrow> string \<Rightarrow> nat list" where
  "ed_row ra [] rb = [ed ra rb]"
| "ed_row ra (d # b) rb = ed ra rb # ed_row ra b (d # rb)"

lemma min3_min: "min3 a b c = min (min a b) c"
  by (simp add: min3_def Let_def)

lemma align_to_nil: "align (length a) a []"
  by (induction a) (auto intro: align.intros)

lemma align_from_nil: "align (length b) [] b"
  by (induction b) (auto intro: align.intros)

lemma ed_aligns: "align (ed a b) a b"
proof (induction a b rule: ed.induct)
  case (1 b)
  then show ?case by (simp add: align_from_nil)
next
  case (2 x a)
  then show ?case using align_to_nil [of "x # a"] by simp
next
  case (3 x a y b)
  have "align (Suc (ed (x # a) b)) (x # a) (y # b)" "align (Suc (ed a (y # b))) (x # a) (y # b)"
    using 3 by (auto intro: align.intros)
  moreover have "align (ed a b + (if x = y then 0 else 1)) (x # a) (y # b)"
    using 3 by (auto intro: align.intros)
  ultimately show ?case by (simp add: min3_min min_def)
qed

lemma ed_nil [simp]: "ed a [] = length a"
  by (cases a) simp_all

lemma ed_more: "ed a (y # b) \<le> Suc (ed a b)"
  by (cases a) (simp_all add: min3_min)

lemma ed_less: "ed (x # a) b \<le> Suc (ed a b)"
  by (cases b) (simp_all add: min3_min)

lemma ed_least: "align n a b \<Longrightarrow> ed a b \<le> n"
proof (induction rule: align.induct)
  case (less n a b x)
  then show ?case using ed_less [of x a b] by simp
next
  case (more n a b y)
  then show ?case using ed_more [of a y b] by simp
qed (auto simp: min3_min min_le_iff_disj)

lemma lev_cells_row: "lev_cells c b (ed_row ra b rb) (ed (c # ra) rb) = tl (ed_row (c # ra) b rb)"
proof (induction b arbitrary: rb)
  case (Cons d b)
  obtain q rest where r: "ed_row ra b (d # rb) = q # rest" "q = ed ra (d # rb)" by (cases b) auto
  have "ed_row (c # ra) b (d # rb) = ed (c # ra) (d # rb) # tl (ed_row (c # ra) b (d # rb))" by (cases b) auto
  with Cons.IH [of "d # rb"] show ?case by (simp add: r Let_def)
qed simp

lemma ed_row_length: "length (ed_row ra b rb) = Suc (length b)"
  by (induction b arbitrary: rb) simp_all

lemma ed_row_last: "ed_row ra b rb ! length b = ed ra (rev b @ rb)"
  by (induction b arbitrary: rb) simp_all

lemma ed_row_first: "[length rb ..< length rb + length b + 1] = ed_row [] b rb"
proof (induction b arbitrary: rb)
  case (Cons d b)
  have "[length rb ..< length rb + length (d # b) + 1] = length rb # [length (d # rb) ..< length (d # rb) + length b + 1]"
    by (simp add: upt_conv_Cons del: upt_Suc)
  then show ?case by (simp only: Cons.IH ed_row.simps ed.simps)
qed simp

lemma lev_rows_row: "lev_rows (Suc (length ra)) a b (ed_row ra b []) = ed_row (rev a @ ra) b []"
proof (induction a arbitrary: ra)
  case (Cons c a)
  have "Suc (length ra) # tl (ed_row (c # ra) b []) = ed_row (c # ra) b []" by (cases b) auto
  with lev_cells_row [of c b ra "[]"] Cons.IH [of "c # ra"] show ?case by simp
qed simp

lemma levenshtein_ed: "levenshtein a b = ed (rev a) (rev b)"
  using lev_rows_row [of "[]" a b] ed_row_first [of "[]" b] by (simp add: levenshtein_def ed_row_last del: upt_Suc)

lemma levenshtein_least: "(edit ^^ n) a b \<Longrightarrow> levenshtein a b \<le> n"
proof -
  assume "(edit ^^ n) a b"
  then obtain k where "k \<le> n" "align k a b" using align_of_edits by blast
  with ed_least [OF align_rev] show ?thesis by (metis levenshtein_ed order_trans)
qed

lemma levenshtein_edits: "(edit ^^ levenshtein a b) a b"
  using edits_of_align [OF align_rev [OF ed_aligns [of "rev a" "rev b"]]] by (simp add: levenshtein_ed)

text \<open>
  C36. The row-by-row table computes the Levenshtein distance: the least number of single-byte insertions,
  deletions and substitutions that turn one string into the other.
\<close>

theorem levenshtein_exact: "levenshtein a b = (LEAST n. (edit ^^ n) a b)"
  by (rule Least_equality [symmetric]) (auto intro: levenshtein_edits levenshtein_least)

section \<open>Suggestions\<close>

lemma suggest_loop_result:
  "case suggest_loop inp best d cs of (b, n) \<Rightarrow>
     n \<le> d \<and> (\<forall>c \<in> set cs. n \<le> levenshtein inp c) \<and> (b = best \<and> n = d \<or> b \<in> set cs \<and> n = levenshtein inp b)"
proof (induction cs arbitrary: best d)
  case (Cons c cs)
  show ?case using Cons.IH [where best = c and d = "levenshtein inp c"] Cons.IH [where best = best and d = d] by (auto simp: Let_def split: prod.splits)
qed simp

text \<open>
  A suggestion is a command of the registry at the least edit distance from what was typed, and a
  typo within two edits of some command always gets one.
\<close>

theorem suggestCommand_nearest:
  assumes "[] \<notin> set commands"
  shows "(suggestCommand commands inp \<noteq> [] \<longrightarrow>
      suggestCommand commands inp \<in> set commands \<and>
      (\<forall>c \<in> set commands. levenshtein inp (suggestCommand commands inp) \<le> levenshtein inp c)) \<and>
    ((\<exists>c \<in> set commands. levenshtein inp c \<le> 2) \<longrightarrow> suggestCommand commands inp \<noteq> [])"
proof -
  obtain b n where r: "suggest_loop inp [] (2 ^ 30) commands = (b, n)" by (cases "suggest_loop inp [] (2 ^ 30) commands")
  note l = suggest_loop_result [where inp = inp and best = "[]" and d = "2 ^ 30" and cs = commands, unfolded r prod.case]
  have sc: "suggestCommand commands inp = (if n \<le> 2 \<or> n * 3 \<le> length b then b else [])"
    by (simp only: suggestCommand_def r prod.case)
  have "suggestCommand commands inp \<noteq> [] \<Longrightarrow> suggestCommand commands inp = b \<and> b \<noteq> []"
    by (simp add: sc split: if_splits)
  moreover have "suggestCommand commands inp \<noteq> []" if "c \<in> set commands" "levenshtein inp c \<le> 2" for c
  proof -
    have "n \<le> 2" using l that by fastforce
    then have "b \<in> set commands" using l by auto
    then have "b \<noteq> []" using assms by blast
    then show ?thesis using \<open>n \<le> 2\<close> by (simp add: sc)
  qed
  ultimately show ?thesis using l by auto
qed

lemma suggestCommand_nearest_witness:
  "suggestCommand [''verify'', ''serve'', ''merge''] ''vrify'' = ''verify'' \<and>
   (\<forall>c \<in> {''verify'', ''serve'', ''merge''}. levenshtein ''vrify'' ''verify'' \<le> levenshtein ''vrify'' c)"
proof -
  have "levenshtein ''vrify'' ''verify'' = 1" "levenshtein ''vrify'' ''serve'' = 5" "levenshtein ''vrify'' ''merge'' = 5" by code_simp+
  then have "suggestCommand [''verify'', ''serve'', ''merge''] ''vrify'' = ''verify''"
    by (simp add: suggestCommand_def)
  with suggestCommand_nearest [of "[''verify'', ''serve'', ''merge'']" "''vrify''"] show ?thesis by simp
qed

section \<open>The word diff\<close>

datatype diff_word = Same string | Minus string | Plus string

text \<open>strings.Fields, over the runes.\<close>

fun fields_of :: "(nat \<times> string) list \<Rightarrow> string \<Rightarrow> string list" where
  "fields_of [] cur = (if cur = [] then [] else [cur])"
| "fields_of ((r, b) # rs) cur =
     (if rune_space r then (if cur = [] then [] else [cur]) @ fields_of rs [] else fields_of rs (cur @ b))"

definition Fields :: "string \<Rightarrow> string list" where
  "Fields s = fields_of (runes_of s) []"

text \<open>One row of the table from the row below it, and the table, whose last row is zero.\<close>

fun lcs_row :: "string \<Rightarrow> string list \<Rightarrow> nat list \<Rightarrow> nat list" where
  "lcs_row w [] below = [0]"
| "lcs_row w (v # wb) below =
     (let right = lcs_row w wb (tl below) in
      (if w = v then hd (tl below) + 1 else if hd below \<ge> hd right then hd below else hd right) # right)"

fun lcs_table :: "string list \<Rightarrow> string list \<Rightarrow> nat list list" where
  "lcs_table [] wb = [replicate (length wb + 1) 0]"
| "lcs_table (w # wa) wb = (let t = lcs_table wa wb in lcs_row w wb (hd t) # t)"

function diff_walk :: "nat list list \<Rightarrow> string list \<Rightarrow> string list \<Rightarrow> nat \<Rightarrow> nat \<Rightarrow> diff_word list" where
  "diff_walk lcs wa wb i j =
     (if i < length wa \<and> j < length wb then
        (if wa ! i = wb ! j then Same (wa ! i) # diff_walk lcs wa wb (i + 1) (j + 1)
         else if lcs ! (i + 1) ! j \<ge> lcs ! i ! (j + 1) then Minus (wa ! i) # diff_walk lcs wa wb (i + 1) j
         else Plus (wb ! j) # diff_walk lcs wa wb i (j + 1))
      else map Minus (drop i wa) @ map Plus (drop j wb))"
  by pat_completeness auto
termination
  by (relation "measure (\<lambda>(_, wa, wb, i, j). length wa - i + (length wb - j))") auto

declare diff_walk.simps [simp del]

definition word_diff :: "string list \<Rightarrow> string list \<Rightarrow> diff_word list" where
  "word_diff wa wb = diff_walk (lcs_table wa wb) wa wb 0 0"

text \<open>The rendering: colours when \<open>color\<close>, at most 400 runes.\<close>

definition ansi_wrap :: "bool \<Rightarrow> string \<Rightarrow> string \<Rightarrow> string" where
  "ansi_wrap color code s = (if color then CHR 0x1B # code @ s @ CHR 0x1B # ''[0m'' else s)"

fun diff_text :: "bool \<Rightarrow> diff_word \<Rightarrow> string" where
  "diff_text color (Same w) = w"
| "diff_text color (Minus w) = ansi_wrap color ''[31m'' (''-'' @ w)"
| "diff_text color (Plus w) = ansi_wrap color ''[32m'' (''+'' @ w)"

text \<open>A rune written back: an invalid byte becomes the replacement character.\<close>

definition rune_text :: "nat \<times> string \<Rightarrow> string" where
  "rune_text rb = (if fst rb = 65533 then [CHR 0xEF, CHR 0xBF, CHR 0xBD] else snd rb)"

definition truncate :: "string \<Rightarrow> nat \<Rightarrow> string" where
  "truncate s n =
     (let s = map (\<lambda>c. if c = newline then CHR '' '' else c) s; r = runes_of s in
      if length r > n then concat (map rune_text (take n r)) @ [CHR 0xE2, CHR 0x80, CHR 0xA6] else s)"

definition wordDiff :: "bool \<Rightarrow> string \<Rightarrow> string \<Rightarrow> string" where
  "wordDiff color a b = truncate (str_join '' '' (map (diff_text color) (word_diff (Fields a) (Fields b)))) 400"

section \<open>The diff is right and shortest\<close>

fun lcs_len :: "string list \<Rightarrow> string list \<Rightarrow> nat" where
  "lcs_len [] wb = 0"
| "lcs_len (w # wa) [] = 0"
| "lcs_len (w # wa) (v # wb) = (if w = v then lcs_len wa wb + 1 else max (lcs_len wa (v # wb)) (lcs_len (w # wa) wb))"

fun len_row :: "string list \<Rightarrow> string list \<Rightarrow> nat list" where
  "len_row wa [] = [lcs_len wa []]"
| "len_row wa (v # wb) = lcs_len wa (v # wb) # len_row wa wb"

lemma lcs_len_nil [simp]: "lcs_len wa [] = 0"
  by (cases wa) simp_all

lemma hd_len_row [simp]: "hd (len_row wa wb) = lcs_len wa wb"
  by (cases wb) simp_all

lemma lcs_row_len: "lcs_row w wb (len_row wa wb) = len_row (w # wa) wb"
  by (induction wb) (auto simp: Let_def max_def)

lemma lcs_table_hd: "hd (lcs_table wa wb) = len_row wa wb"
proof (induction wa)
  case Nil
  show ?case by (induction wb) simp_all
next
  case (Cons w wa)
  then show ?case by (simp add: Let_def lcs_row_len)
qed

lemma lcs_table_nth: "i \<le> length wa \<Longrightarrow> lcs_table wa wb ! i = len_row (drop i wa) wb"
proof (induction wa arbitrary: i)
  case Nil
  then show ?case using lcs_table_hd [of "[]" wb] by simp
next
  case (Cons w wa)
  show ?case
  proof (cases i)
    case 0
    then show ?thesis using lcs_table_hd [of "w # wa" wb] by (simp add: Let_def)
  next
    case (Suc k)
    then show ?thesis using Cons by (simp add: Let_def)
  qed
qed

lemma len_row_nth: "j \<le> length wb \<Longrightarrow> len_row wa wb ! j = lcs_len wa (drop j wb)"
  by (induction wb arbitrary: j) (auto simp: nth_Cons split: nat.split)

fun same_words :: "diff_word list \<Rightarrow> string list" where
  "same_words [] = []"
| "same_words (Same w # d) = w # same_words d"
| "same_words (_ # d) = same_words d"

fun old_words :: "diff_word list \<Rightarrow> string list" where
  "old_words [] = []"
| "old_words (Plus w # d) = old_words d"
| "old_words (Same w # d) = w # old_words d"
| "old_words (Minus w # d) = w # old_words d"

fun new_words :: "diff_word list \<Rightarrow> string list" where
  "new_words [] = []"
| "new_words (Minus w # d) = new_words d"
| "new_words (Same w # d) = w # new_words d"
| "new_words (Plus w # d) = w # new_words d"

lemma rest_words:
  "old_words (map Minus a @ map Plus b) = a" "new_words (map Minus a @ map Plus b) = b"
  "same_words (map Minus a @ map Plus b) = []"
proof -
  have p: "old_words (map Plus b) = []" "new_words (map Plus b) = b" "same_words (map Plus b) = []" by (induction b) simp_all
  show "old_words (map Minus a @ map Plus b) = a" "new_words (map Minus a @ map Plus b) = b"
    "same_words (map Minus a @ map Plus b) = []" by (induction a) (simp_all add: p)
qed

lemma diff_walk_words:
  "old_words (diff_walk (lcs_table wa wb) wa wb i j) = drop i wa \<and>
   new_words (diff_walk (lcs_table wa wb) wa wb i j) = drop j wb \<and>
   (i \<le> length wa \<longrightarrow> j \<le> length wb \<longrightarrow>
     length (same_words (diff_walk (lcs_table wa wb) wa wb i j)) = lcs_len (drop i wa) (drop j wb))"
proof (induction "lcs_table wa wb" wa wb i j rule: diff_walk.induct)
  case (1 wa wb i j)
  let ?t = "lcs_table wa wb"
  show ?case
  proof (cases "i < length wa \<and> j < length wb")
    case False
    then show ?thesis by (auto simp: diff_walk.simps [of ?t wa wb i j] rest_words)
  next
    case True
    then have d: "drop i wa = wa ! i # drop (i + 1) wa" "drop j wb = wb ! j # drop (j + 1) wb"
      by (simp_all add: Cons_nth_drop_Suc)
    have t: "?t ! (i + 1) ! j = lcs_len (drop (i + 1) wa) (drop j wb)" "?t ! i ! (j + 1) = lcs_len (drop i wa) (drop (j + 1) wb)"
      using True by (simp_all add: lcs_table_nth len_row_nth)
    have l: "lcs_len (drop i wa) (drop j wb) =
        (if wa ! i = wb ! j then lcs_len (drop (i + 1) wa) (drop (j + 1) wb) + 1
         else max (lcs_len (drop (i + 1) wa) (drop j wb)) (lcs_len (drop i wa) (drop (j + 1) wb)))"
      unfolding d by simp
    consider (same) "wa ! i = wb ! j"
      | (minus) "wa ! i \<noteq> wb ! j" "?t ! (i + 1) ! j \<ge> ?t ! i ! (j + 1)"
      | (plus) "wa ! i \<noteq> wb ! j" "\<not> ?t ! (i + 1) ! j \<ge> ?t ! i ! (j + 1)" by blast
    then show ?thesis
    proof cases
      case same
      then have "diff_walk ?t wa wb i j = Same (wa ! i) # diff_walk ?t wa wb (i + 1) (j + 1)"
        using True by (simp add: diff_walk.simps [of ?t wa wb i j])
      moreover have "wa ! i # drop (i + 1) wa = drop i wa" "wa ! i # drop (j + 1) wb = drop j wb" using d same by simp_all
      ultimately show ?thesis using 1(1) [OF True same] True same l by simp
    next
      case minus
      then have "diff_walk ?t wa wb i j = Minus (wa ! i) # diff_walk ?t wa wb (i + 1) j"
        using True by (simp add: diff_walk.simps [of ?t wa wb i j])
      then show ?thesis using 1(2) [OF True minus] True minus l t by (simp add: Cons_nth_drop_Suc max_def)
    next
      case plus
      then have "diff_walk ?t wa wb i j = Plus (wb ! j) # diff_walk ?t wa wb i (j + 1)"
        using True by (simp add: diff_walk.simps [of ?t wa wb i j])
      then show ?thesis using 1(3) [OF True plus] True plus l t by (simp add: Cons_nth_drop_Suc max_def)
    qed
  qed
qed

lemma lcs_len_upper: "subseq zs wa \<Longrightarrow> subseq zs wb \<Longrightarrow> length zs \<le> lcs_len wa wb"
proof (induction wa wb arbitrary: zs rule: lcs_len.induct)
  case (3 w wa v wb)
  show ?case
  proof (cases zs)
    case (Cons z zs')
    consider "w = v" "z = w" | "w = v" "z \<noteq> w" | "w \<noteq> v" "z \<noteq> w" | "w \<noteq> v" "z = w" by blast
    then show ?thesis
    proof cases
      case 1
      then show ?thesis using "3.IH"(1) [of zs'] "3.prems" Cons by simp
    next
      case 2
      then show ?thesis using "3.IH"(1) [of zs] "3.prems" Cons by simp
    next
      case c: 3
      then show ?thesis using "3.IH"(2) [of zs] "3.prems" Cons by (simp add: le_max_iff_disj)
    next
      case 4
      then show ?thesis using "3.IH"(3) [of zs] "3.prems" Cons by (simp add: le_max_iff_disj)
    qed
  qed simp
qed simp_all

text \<open>
  C35. The word diff is correct and minimal: what it keeps and removes is the old text, what it keeps and
  adds is the new one, and no common subsequence of the two keeps more words.
\<close>

theorem word_diff_minimal:
  "old_words (word_diff wa wb) = wa \<and> new_words (word_diff wa wb) = wb \<and>
   (\<forall>zs. subseq zs wa \<and> subseq zs wb \<longrightarrow> length zs \<le> length (same_words (word_diff wa wb)))"
  using diff_walk_words [of wa wb 0 0] lcs_len_upper [of _ wa wb] by (simp add: word_diff_def)

lemma word_diff_minimal_witness:
  "word_diff [''a'', ''b'', ''c''] [''b'', ''d'', ''c''] = [Minus ''a'', Same ''b'', Plus ''d'', Same ''c''] \<and>
   length [''b'', ''c''] \<le> length (same_words (word_diff [''a'', ''b'', ''c''] [''b'', ''d'', ''c'']))"
proof -
  have "word_diff [''a'', ''b'', ''c''] [''b'', ''d'', ''c''] = [Minus ''a'', Same ''b'', Plus ''d'', Same ''c'']" by code_simp
  moreover have "subseq [''b'', ''c''] [''a'', ''b'', ''c'']" "subseq [''b'', ''c''] [''b'', ''d'', ''c'']" by simp_all
  ultimately show ?thesis using word_diff_minimal [of "[''a'', ''b'', ''c'']" "[''b'', ''d'', ''c'']"] by blast
qed

end
