(* ===== verification/Mcpproxy.thy ===== *)
theory Mcpproxy
  imports Edits Mcp
begin

text \<open>
  cmd/cassette/mcpproxy.go and mcpserve.go: the recorder between an MCP client and its server, and the
  server that answers from the recording.  The two pumps of the recorder run concurrently, so the
  recorder is a step relation: each pump reads a line and acts on it in two steps, in the order of the
  code, and the server is any process that emits lines.  Of the MCP SDK only the JSON coding of its
  types is used; it is a parameter.
\<close>

section \<open>Raw JSON\<close>

text \<open>The members of an object with the raw text of each value, which json.RawMessage keeps.\<close>

fun raw_mems :: "nat \<Rightarrow> string \<Rightarrow> (string \<times> jval \<times> bytes) list" where
  "raw_mems 0 s = []"
| "raw_mems (Suc f) s =
     (case skip_ws s of
        [] \<Rightarrow> []
      | c # t \<Rightarrow>
          if c \<noteq> dquote then []
          else (case jstr t of
              None \<Rightarrow> []
            | Some (k, r) \<Rightarrow>
                let r' = skip_ws (tl (skip_ws r)) in
                (case jprefix r' of
                   None \<Rightarrow> []
                 | Some (v, q) \<Rightarrow>
                     (k, v, take (length r' - length q) r') #
                     (case skip_ws q of [] \<Rightarrow> [] | e # q' \<Rightarrow> if e = CHR '','' then raw_mems f q' else []))))"

text \<open>What json.Unmarshal finds for a struct: None for an error, no members for null.\<close>

definition raw_struct :: "bytes \<Rightarrow> (string \<times> jval \<times> bytes) list option" where
  "raw_struct b =
     (case jparse b of
        Some (JObj _) \<Rightarrow> Some (raw_mems (length b) (tl (skip_ws b)))
      | Some JNull \<Rightarrow> Some []
      | _ \<Rightarrow> None)"

text \<open>The fields of a struct: raw ones and strings; the flag records a type error.\<close>

datatype field_kind = FRaw | FString

type_synonym fields = "(string \<times> bytes) list \<times> bool"

definition put_field :: "(string \<times> field_kind) list \<Rightarrow> string \<times> jval \<times> bytes \<Rightarrow> fields \<Rightarrow> fields" where
  "put_field fs m st =
     (case m of (k, v, raw) \<Rightarrow>
        (case find_field (map (\<lambda>(n, t). (n, (n, t))) fs) k of
           None \<Rightarrow> st
         | Some (n, FRaw) \<Rightarrow> (mput n raw (fst st), snd st)
         | Some (n, FString) \<Rightarrow>
             (case v of JStr s \<Rightarrow> (mput n s (fst st), snd st) | JNull \<Rightarrow> st | _ \<Rightarrow> (fst st, True))))"

definition read_fields :: "(string \<times> field_kind) list \<Rightarrow> bytes \<Rightarrow> fields" where
  "read_fields fs b = (case raw_struct b of None \<Rightarrow> ([], True) | Some ms \<Rightarrow> fold (put_field fs) ms ([], False))"

text \<open>json.Marshal of a RawMessage: null for nil, else compacted with the HTML characters escaped.\<close>

function compact :: "bool \<Rightarrow> string \<Rightarrow> string" where
  "compact instr [] = []"
| "compact instr (c # s) =
     (if instr \<and> c = backslash then
        (case s of [] \<Rightarrow> [c] | d # s' \<Rightarrow> c # d # compact True s')
      else if c = dquote then c # compact (\<not> instr) s
      else if \<not> instr \<and> is_ws c then compact instr s
      else if line_sep (take 3 (c # s)) then
        [backslash] @ ''u202'' @ [hexd (byte_of (last (take 3 (c # s))) mod 16)] @ compact instr (drop 2 s)
      else (if c = CHR ''<'' \<or> c = CHR ''>'' \<or> c = CHR ''&'' then quote_ascii True c else [c]) @ compact instr s)"
  by pat_completeness auto
termination
  by (relation "measure (\<lambda>(_, s). length s)") auto

definition marshal_raw :: "bytes option \<Rightarrow> bytes" where
  "marshal_raw r = (case r of None \<Rightarrow> ''null'' | Some b \<Rightarrow> compact False b)"

section \<open>Frames\<close>

record rpc_frame =
  fr_id :: bytes
  fr_method :: string
  fr_params :: bytes
  fr_result :: bytes

definition frame_fields :: "(string \<times> field_kind) list" where
  "frame_fields = [(''id'', FRaw), (''method'', FString), (''params'', FRaw), (''result'', FRaw)]"

text \<open>json.Unmarshal of a line into a frame, None for an error.\<close>

definition parse_frame :: "bytes \<Rightarrow> rpc_frame option" where
  "parse_frame line =
     (case read_fields frame_fields line of
        (m, err) \<Rightarrow>
          if err then None
          else Some \<lparr>fr_id = mget0 [] m ''id'', fr_method = mget0 [] m ''method'', fr_params = mget0 [] m ''params'',
                     fr_result = mget0 [] m ''result''\<rparr>)"

text \<open>The tool and the raw arguments of a call, with the error the recorder ignores.\<close>

definition call_params :: "bytes \<Rightarrow> (string \<times> bytes option) \<times> bool" where
  "call_params b =
     (case read_fields [(''name'', FString), (''arguments'', FRaw)] b of
        (m, err) \<Rightarrow> ((mget0 [] m ''name'', mget m ''arguments''), err))"

record pending_call =
  pc_method :: string
  pc_tool :: string
  pc_body :: bytes

text \<open>\<open>lp\<close> is the SDK's ListToolsParams, read from the params and written back.\<close>

definition client_call :: "(bytes \<Rightarrow> bytes) \<Rightarrow> bytes \<Rightarrow> (bytes \<times> pending_call) option" where
  "client_call lp line =
     (case parse_frame line of
        None \<Rightarrow> None
      | Some fr \<Rightarrow>
          if fr_id fr = [] \<or> fr_method fr = [] then None
          else if fr_method fr = ''tools/call'' then
            (case call_params (fr_params fr) of
               ((name, arguments), _) \<Rightarrow>
                 Some (fr_id fr, \<lparr>pc_method = ''tools/call'', pc_tool = name, pc_body = marshal_raw arguments\<rparr>))
          else if fr_method fr = ''tools/list'' then
            Some (fr_id fr, \<lparr>pc_method = ''tools/list'', pc_tool = [], pc_body = lp (fr_params fr)\<rparr>)
          else None)"

definition server_result :: "bytes \<Rightarrow> (bytes \<times> bytes) option" where
  "server_result line =
     (case parse_frame line of
        None \<Rightarrow> None
      | Some fr \<Rightarrow> if fr_id fr = [] \<or> fr_result fr = [] then None else Some (fr_id fr, fr_result fr))"

definition mcp_pair :: "pending_call \<Rightarrow> bytes \<Rightarrow> interaction" where
  "mcp_pair pc result =
     \<lparr>it_kind = ''mcp'',
      it_request = empty_request\<lparr>rq_mcp_method := pc_method pc, rq_mcp_tool := pc_tool pc, rq_body := NewBody (pc_body pc)\<rparr>,
      it_response = empty_response\<lparr>rs_body := NewBody result\<rparr>\<rparr>"

section \<open>The two pumps\<close>

record pump =
  px_cin :: "bytes list"
  px_chold :: "bytes option"
  px_to_server :: "bytes list"
  px_to_client :: "bytes list"
  px_shold :: "bytes option"
  px_pending :: "(bytes \<times> pending_call) list"
  px_rec :: "interaction list"

definition pump_start :: "bytes list \<Rightarrow> pump" where
  "pump_start lines = \<lparr>px_cin = lines, px_chold = None, px_to_server = [], px_to_client = [], px_shold = None, px_pending = [], px_rec = []\<rparr>"

text \<open>The critical sections under the mutex.\<close>

definition register_call :: "(bytes \<Rightarrow> bytes) \<Rightarrow> bytes \<Rightarrow> pump \<Rightarrow> pump" where
  "register_call lp line s =
     (case client_call lp line of None \<Rightarrow> s | Some (i, pc) \<Rightarrow> s\<lparr>px_pending := mput i pc (px_pending s)\<rparr>)"

definition record_answer :: "bytes \<Rightarrow> pump \<Rightarrow> pump" where
  "record_answer line s =
     (case server_result line of
        None \<Rightarrow> s
      | Some (i, result) \<Rightarrow>
          (case mget (px_pending s) i of
             None \<Rightarrow> s
           | Some pc \<Rightarrow> s\<lparr>px_pending := filter (\<lambda>(j, _). j \<noteq> i) (px_pending s), px_rec := px_rec s @ [mcp_pair pc result]\<rparr>))"

text \<open>
  The client pump registers a call before it forwards the line; the server pump forwards a line before
  it records the answer.  \<open>server sent out l\<close>: having been sent \<open>sent\<close> and having emitted \<open>out\<close>, the
  server may emit \<open>l\<close>.
\<close>

inductive pump_step :: "(bytes \<Rightarrow> bytes) \<Rightarrow> (bytes list \<Rightarrow> bytes list \<Rightarrow> bytes \<Rightarrow> bool) \<Rightarrow> pump \<Rightarrow> pump \<Rightarrow> bool"
  for lp server where
  c_read: "px_cin s = l # ls \<Longrightarrow> px_chold s = None \<Longrightarrow>
    pump_step lp server s ((register_call lp l s)\<lparr>px_cin := ls, px_chold := Some l\<rparr>)"
| c_write: "px_chold s = Some l \<Longrightarrow>
    pump_step lp server s (s\<lparr>px_chold := None, px_to_server := px_to_server s @ [l]\<rparr>)"
| s_write: "px_shold s = None \<Longrightarrow> server (px_to_server s) (px_to_client s) l \<Longrightarrow>
    pump_step lp server s (s\<lparr>px_to_client := px_to_client s @ [l], px_shold := Some l\<rparr>)"
| s_record: "px_shold s = Some l \<Longrightarrow>
    pump_step lp server s ((record_answer l s)\<lparr>px_shold := None\<rparr>)"

abbreviation pump_run :: "(bytes \<Rightarrow> bytes) \<Rightarrow> (bytes list \<Rightarrow> bytes list \<Rightarrow> bytes \<Rightarrow> bool) \<Rightarrow> pump \<Rightarrow> pump \<Rightarrow> bool" where
  "pump_run lp server \<equiv> (pump_step lp server)\<^sup>*\<^sup>*"

text \<open>The file that the pumps return, and the command around them.\<close>

definition pump_file :: "pump \<Rightarrow> wfile" where
  "pump_file s = \<lparr>wf_schema = SchemaVersion, wf_notice = [], wf_expect = None, wf_match = None, wf_prov = [], wf_its = px_rec s\<rparr>"

definition cmdMCPProxy :: "'r cli_env \<Rightarrow> bool \<Rightarrow> pump \<Rightarrow> string list \<Rightarrow> fs \<Rightarrow> int \<times> fs" where
  "cmdMCPProxy E started s args files =
     (case cli_parse (flag_alias ''o'' ''out'' (valFlag [''out''] newFlags)) inv0 args of
        Inl _ \<Rightarrow> (exitUsage, files)
      | Inr v \<Rightarrow>
          let out = in_str v ''out'' in
          if out = [] \<or> length (in_pos v) = 0 then (exitUsage, files)
          else if \<not> started then (exitFail, files)
          else if length (px_rec s) = 0 then (exitFail, files)
          else (case rekey_File (lb_go (ce_lib E)) (pump_file s) zero_config of
              (_, Some _) \<Rightarrow> (exitFail, files)
            | (f, None) \<Rightarrow> saveScrubbed E files out f))"

section \<open>What a session leaves behind\<close>

definition calls_of :: "(bytes \<Rightarrow> bytes) \<Rightarrow> bytes list \<Rightarrow> (bytes \<times> pending_call) list" where
  "calls_of lp lines = List.map_filter (client_call lp) lines"

definition answers_of :: "bytes list \<Rightarrow> (bytes \<times> bytes) list" where
  "answers_of lines = List.map_filter server_result lines"

text \<open>
  A server that answers a call of the client only after it was sent that call, and never answers the
  same id twice.
\<close>

definition honest_server :: "(bytes \<Rightarrow> bytes) \<Rightarrow> bytes list \<Rightarrow> (bytes list \<Rightarrow> bytes list \<Rightarrow> bytes \<Rightarrow> bool) \<Rightarrow> bool" where
  "honest_server lp lines server =
     (\<forall>sent out l i r. server sent out l \<longrightarrow> server_result l = Some (i, r) \<longrightarrow>
        i \<notin> fst ` set (answers_of out) \<and> (i \<in> fst ` set (calls_of lp lines) \<longrightarrow> i \<in> fst ` set (calls_of lp sent)))"

text \<open>Every answer with the call of its id, in the order of the answers.\<close>

definition session_of :: "(bytes \<Rightarrow> bytes) \<Rightarrow> bytes list \<Rightarrow> bytes list \<Rightarrow> interaction list" where
  "session_of lp lines out =
     concat (map (\<lambda>(i, r). case map_of (calls_of lp lines) i of None \<Rightarrow> [] | Some pc \<Rightarrow> [mcp_pair pc r]) (answers_of out))"

abbreviation held :: "'a option \<Rightarrow> 'a list" where
  "held h \<equiv> (case h of None \<Rightarrow> [] | Some l \<Rightarrow> [l])"

definition pump_inv :: "(bytes \<Rightarrow> bytes) \<Rightarrow> bytes list \<Rightarrow> pump \<Rightarrow> bool" where
  "pump_inv lp lines s =
     (px_to_server s @ held (px_chold s) @ px_cin s = lines \<and>
      distinct (map fst (answers_of (px_to_client s))) \<and>
      fst ` set (answers_of (px_to_client s)) \<inter> fst ` set (calls_of lp lines) \<subseteq> fst ` set (calls_of lp (px_to_server s)) \<and>
      (\<exists>h. px_to_client s = h @ held (px_shold s) \<and> px_rec s = session_of lp lines h \<and>
         (\<forall>i. mget (px_pending s) i =
           (if i \<in> fst ` set (calls_of lp (px_to_server s @ held (px_chold s))) \<and> i \<notin> fst ` set (answers_of h)
            then map_of (calls_of lp lines) i else None))))"

lemma calls_of_simps [simp]:
  "calls_of lp [] = []"
  "calls_of lp (l # ls) = (case client_call lp l of None \<Rightarrow> calls_of lp ls | Some c \<Rightarrow> c # calls_of lp ls)"
  "calls_of lp (a @ b) = calls_of lp a @ calls_of lp b"
  by (simp_all add: calls_of_def List.map_filter_def split: option.split)

lemma answers_of_simps [simp]:
  "answers_of [] = []"
  "answers_of (l # ls) = (case server_result l of None \<Rightarrow> answers_of ls | Some c \<Rightarrow> c # answers_of ls)"
  "answers_of (a @ b) = answers_of a @ answers_of b"
  by (simp_all add: answers_of_def List.map_filter_def split: option.split)

lemma session_of_snoc:
  "session_of lp lines (h @ [l]) = session_of lp lines h @
     (case server_result l of None \<Rightarrow> [] | Some (i, r) \<Rightarrow>
        (case map_of (calls_of lp lines) i of None \<Rightarrow> [] | Some pc \<Rightarrow> [mcp_pair pc r]))"
  by (simp add: session_of_def split: option.split)

lemma map_of_without: "map_of (filter (\<lambda>(j, _). j \<noteq> i) m) k = (if k = i then None else map_of m k)"
  by (induction m) auto

lemma pump_inv_start: "pump_inv lp lines (pump_start lines)"
  by (simp add: pump_inv_def pump_start_def session_of_def)

lemma pump_inv_read:
  assumes "pump_inv lp lines s" "distinct (map fst (calls_of lp lines))" "px_cin s = l # ls" "px_chold s = None"
  shows "pump_inv lp lines ((register_call lp l s)\<lparr>px_cin := ls, px_chold := Some l\<rparr>)"
proof (cases "client_call lp l")
  case None
  then show ?thesis using assms by (simp add: pump_inv_def register_call_def)
next
  case (Some c)
  obtain i pc where c: "c = (i, pc)" by (cases c)
  have lines: "lines = px_to_server s @ l # ls" using assms by (simp add: pump_inv_def)
  have new: "i \<notin> fst ` set (calls_of lp (px_to_server s))" "map_of (calls_of lp lines) i = Some pc"
    using assms(2) Some c by (auto simp: lines map_add_def map_of_eq_None_iff [symmetric] split: option.splits)
  obtain h where h: "px_to_client s = h @ held (px_shold s)" "px_rec s = session_of lp lines h"
    "\<And>j. mget (px_pending s) j = (if j \<in> fst ` set (calls_of lp (px_to_server s)) \<and> j \<notin> fst ` set (answers_of h)
      then map_of (calls_of lp lines) j else None)"
    using assms(1,4) by (auto simp: pump_inv_def)
  have "i \<in> fst ` set (calls_of lp lines)" using Some c by (simp add: lines image_iff)
  then have "i \<notin> fst ` set (answers_of (px_to_client s))" using assms(1) new(1) by (auto simp: pump_inv_def)
  then have "i \<notin> fst ` set (answers_of h)" by (simp add: h(1) image_Un)
  then have "\<forall>j. mget (mput i pc (px_pending s)) j =
      (if j \<in> fst ` set (calls_of lp (px_to_server s @ [l])) \<and> j \<notin> fst ` set (answers_of h)
       then map_of (calls_of lp lines) j else None)"
    using Some c new by (auto simp: map_of_mput h(3))
  then show ?thesis
    using assms(1,4) Some c h(1,2) lines by (auto simp: pump_inv_def register_call_def)
qed

lemma pump_inv_record:
  assumes "pump_inv lp lines s" "px_shold s = Some l"
  shows "pump_inv lp lines ((record_answer l s)\<lparr>px_shold := None\<rparr>)"
proof -
  obtain h where h: "px_to_client s = h @ [l]" "px_rec s = session_of lp lines h"
    "\<And>j. mget (px_pending s) j = (if j \<in> fst ` set (calls_of lp (px_to_server s @ held (px_chold s))) \<and> j \<notin> fst ` set (answers_of h)
      then map_of (calls_of lp lines) j else None)"
    using assms by (auto simp: pump_inv_def)
  show ?thesis
  proof (cases "server_result l")
    case None
    then show ?thesis using assms h by (auto simp: pump_inv_def record_answer_def session_of_snoc)
  next
    case (Some a)
    obtain i r where a: "a = (i, r)" by (cases a)
    have fresh: "i \<notin> fst ` set (answers_of h)" using assms(1) Some a by (auto simp: pump_inv_def h(1))
    have sent: "i \<in> fst ` set (calls_of lp lines) \<Longrightarrow> i \<in> fst ` set (calls_of lp (px_to_server s @ held (px_chold s)))"
      using assms(1) Some a by (auto simp: pump_inv_def h(1))
    have m: "mget (px_pending s) i = map_of (calls_of lp lines) i"
    proof (cases "i \<in> fst ` set (calls_of lp lines)")
      case True
      then show ?thesis using sent fresh by (simp only: h(3)) simp
    next
      case False
      then have "map_of (calls_of lp lines) i = None" by (simp only: map_of_eq_None_iff) simp
      then show ?thesis by (simp only: h(3)) simp
    qed
    have p: "mget (px_pending s) j = (if j \<in> fst ` set (calls_of lp (px_to_server s @ held (px_chold s))) \<and> j \<notin> fst ` set (answers_of (h @ [l]))
        then map_of (calls_of lp lines) j else None)" if "j \<noteq> i" for j
      using that Some a by (simp add: h(3))
    have q: "j \<notin> fst ` set (answers_of (h @ [l])) \<Longrightarrow> j \<noteq> i" for j using Some a by auto
    show ?thesis
    proof (cases "map_of (calls_of lp lines) i")
      case None
      then have "mget (px_pending s) j = (if j \<in> fst ` set (calls_of lp (px_to_server s @ held (px_chold s))) \<and> j \<notin> fst ` set (answers_of (h @ [l]))
        then map_of (calls_of lp lines) j else None)" for j
        using p [of j] q [of j] m by (cases "j = i") auto
      then show ?thesis
        using assms(1) None Some a h(1,2) m unfolding pump_inv_def record_answer_def
        by (auto simp: session_of_snoc intro!: exI [of _ "h @ [l]"])
    next
      case pc: (Some pc)
      have "mget (filter (\<lambda>(j, _). j \<noteq> i) (px_pending s)) j =
          (if j \<in> fst ` set (calls_of lp (px_to_server s @ held (px_chold s))) \<and> j \<notin> fst ` set (answers_of (h @ [l]))
        then map_of (calls_of lp lines) j else None)" for j
        using p [of j] q [of j] by (auto simp: map_of_without)
      then show ?thesis
        using assms(1) Some a h(1,2) m pc unfolding pump_inv_def record_answer_def
        by (auto simp: session_of_snoc intro!: exI [of _ "h @ [l]"])
    qed
  qed
qed

lemma pump_inv_write:
  assumes "pump_inv lp lines s" "px_chold s = Some l"
  shows "pump_inv lp lines (s\<lparr>px_chold := None, px_to_server := px_to_server s @ [l]\<rparr>)"
  using assms unfolding pump_inv_def by (simp add: image_Un le_supI1 split: option.split)

lemma pump_inv_emit:
  assumes "pump_inv lp lines s" "px_shold s = None" "honest_server lp lines server" "server (px_to_server s) (px_to_client s) l"
  shows "pump_inv lp lines (s\<lparr>px_to_client := px_to_client s @ [l], px_shold := Some l\<rparr>)"
proof -
  have "server_result l = Some (i, r) \<Longrightarrow> i \<notin> fst ` set (answers_of (px_to_client s)) \<and>
      (i \<in> fst ` set (calls_of lp lines) \<longrightarrow> i \<in> fst ` set (calls_of lp (px_to_server s)))" for i r
    using assms(3,4) unfolding honest_server_def by blast
  note honest = this
  have d: "distinct (map fst (answers_of (px_to_client s)))"
    "fst ` set (answers_of (px_to_client s)) \<inter> fst ` set (calls_of lp lines) \<subseteq> fst ` set (calls_of lp (px_to_server s))"
    using assms(1) unfolding pump_inv_def by blast+
  have "distinct (map fst (answers_of (px_to_client s @ [l]))) \<and>
      fst ` set (answers_of (px_to_client s @ [l])) \<inter> fst ` set (calls_of lp lines) \<subseteq> fst ` set (calls_of lp (px_to_server s))"
  proof (cases "server_result l")
    case None
    then show ?thesis using d by simp
  next
    case (Some a)
    obtain i r where a: "a = (i, r)" by (cases a)
    show ?thesis using d honest [of i r] Some a by (simp add: Int_insert_left)
  qed
  moreover obtain h where "px_to_client s = h @ held (px_shold s)" "px_rec s = session_of lp lines h"
    "\<forall>i. mget (px_pending s) i = (if i \<in> fst ` set (calls_of lp (px_to_server s @ held (px_chold s))) \<and> i \<notin> fst ` set (answers_of h)
       then map_of (calls_of lp lines) i else None)"
    using assms(1) unfolding pump_inv_def by blast
  moreover have "px_to_server s @ held (px_chold s) @ px_cin s = lines" using assms(1) unfolding pump_inv_def by blast
  ultimately show ?thesis unfolding pump_inv_def
    by (intro conjI exI [of _ h]) (simp_all add: assms(2) del: calls_of_simps answers_of_simps)
qed

lemma pump_inv_step:
  assumes "pump_step lp server s s'" "pump_inv lp lines s" "distinct (map fst (calls_of lp lines))" "honest_server lp lines server"
  shows "pump_inv lp lines s'"
  using assms(1)
proof cases
  case (c_read l ls)
  then show ?thesis using pump_inv_read [OF assms(2,3)] by simp
next
  case (c_write l)
  then show ?thesis using pump_inv_write [OF assms(2)] by simp
next
  case (s_write l)
  then show ?thesis using pump_inv_emit [OF assms(2) _ assms(4)] by simp
next
  case (s_record l)
  then show ?thesis using pump_inv_record [OF assms(2)] by simp
qed

text \<open>
  C33. The recorder is transparent and exact under every interleaving of its two pumps.  What the server
  has been sent, what is being forwarded and what is still unread are the client's lines in order.
  With an honest server and distinct ids, the recording is at every moment exactly the session so far:
  every answer that has been handled, paired with the method, tool and arguments of its own request,
  each once and in the order of the answers.
\<close>

theorem pump_records_session:
  assumes "distinct (map fst (calls_of lp lines))" "honest_server lp lines server"
    and "pump_run lp server (pump_start lines) s"
  shows "px_to_server s @ held (px_chold s) @ px_cin s = lines \<and>
    (\<exists>h. px_to_client s = h @ held (px_shold s) \<and> wf_its (pump_file s) = session_of lp lines h)"
proof -
  from assms(3) have "pump_inv lp lines s"
  proof (induction rule: rtranclp_induct)
    case base
    show ?case by (rule pump_inv_start)
  next
    case (step a b)
    show ?case by (rule pump_inv_step [OF step(2,3) assms(1,2)])
  qed
  then show ?thesis unfolding pump_inv_def by (auto simp: pump_file_def)
qed

text \<open>One call, answered while the next line is already being forwarded.\<close>

definition sample_request :: bytes where
  "sample_request = ''{\"id\":1,\"method\":\"tools/call\",\"params\":{\"name\":\"t\"}}''"

definition sample_answer :: bytes where
  "sample_answer = ''{\"id\":1,\"result\":{}}''"

definition sample_server :: "bytes list \<Rightarrow> bytes list \<Rightarrow> bytes \<Rightarrow> bool" where
  "sample_server sent out l = (sample_request \<in> set sent \<and> out = [] \<and> l = sample_answer)"

abbreviation sample_call :: pending_call where
  "sample_call \<equiv> \<lparr>pc_method = ''tools/call'', pc_tool = ''t'', pc_body = ''null''\<rparr>"

lemma sample_fields:
  "read_fields frame_fields sample_request = ([(''id'', ''1''), (''method'', ''tools/call''), (''params'', ''{\"name\":\"t\"}'')], False)"
  by code_simp

lemma sample_params: "call_params ''{\"name\":\"t\"}'' = ((''t'', None), False)"
  by code_simp

lemma sample_parses:
  "parse_frame sample_request = Some \<lparr>fr_id = ''1'', fr_method = ''tools/call'', fr_params = ''{\"name\":\"t\"}'', fr_result = []\<rparr>"
  by (simp add: parse_frame_def sample_fields mget0_def)

lemma sample_frames:
  "client_call id sample_request = Some (''1'', sample_call)" "client_call id ''x'' = None" "server_result sample_answer = Some (''1'', ''{}'')"
  by (simp add: client_call_def sample_parses sample_params marshal_raw_def) code_simp+

lemma sample_honest: "honest_server id [sample_request, ''x''] sample_server"
proof -
  have "''1'' \<in> fst ` set (calls_of id sent)" if "sample_request \<in> set sent" for sent
  proof -
    from split_list [OF that] obtain a b where "sent = a @ sample_request # b" by blast
    then show ?thesis by (simp add: sample_frames)
  qed
  then show ?thesis by (auto simp: honest_server_def sample_server_def sample_frames)
qed

lemma pump_records_session_witness:
  "\<exists>s. pump_run id sample_server (pump_start [sample_request, ''x'']) s \<and> px_chold s = Some ''x'' \<and>
     wf_its (pump_file s) = [mcp_pair sample_call ''{}'']"
proof -
  let ?p = "[(''1'', sample_call)]" and ?r = "pump_run id sample_server (pump_start [sample_request, ''x''])"
  have a: "pump_step id sample_server (pump_start [sample_request, ''x''])
      \<lparr>px_cin = [''x''], px_chold = Some sample_request, px_to_server = [], px_to_client = [], px_shold = None, px_pending = ?p, px_rec = []\<rparr>"
    using pump_step.c_read [of "pump_start [sample_request, ''x'']" sample_request "[''x'']" id sample_server]
    by (simp add: pump_start_def register_call_def sample_frames)
  have b: "pump_step id sample_server
      \<lparr>px_cin = [''x''], px_chold = Some sample_request, px_to_server = [], px_to_client = [], px_shold = None, px_pending = ?p, px_rec = []\<rparr>
      \<lparr>px_cin = [''x''], px_chold = None, px_to_server = [sample_request], px_to_client = [], px_shold = None, px_pending = ?p, px_rec = []\<rparr>" (is "pump_step _ _ ?s1 _")
    using pump_step.c_write [of ?s1 sample_request id sample_server] by simp
  have c: "pump_step id sample_server
      \<lparr>px_cin = [''x''], px_chold = None, px_to_server = [sample_request], px_to_client = [], px_shold = None, px_pending = ?p, px_rec = []\<rparr>
      \<lparr>px_cin = [''x''], px_chold = None, px_to_server = [sample_request], px_to_client = [sample_answer], px_shold = Some sample_answer, px_pending = ?p, px_rec = []\<rparr>"
      (is "pump_step _ _ ?s2 _")
    using pump_step.s_write [of ?s2 sample_server sample_answer id] by (simp add: sample_server_def)
  have d: "pump_step id sample_server
      \<lparr>px_cin = [''x''], px_chold = None, px_to_server = [sample_request], px_to_client = [sample_answer], px_shold = Some sample_answer, px_pending = ?p, px_rec = []\<rparr>
      \<lparr>px_cin = [], px_chold = Some ''x'', px_to_server = [sample_request], px_to_client = [sample_answer], px_shold = Some sample_answer, px_pending = ?p, px_rec = []\<rparr>"
      (is "pump_step _ _ ?s3 _")
    using pump_step.c_read [of ?s3 "''x''" "[]" id sample_server] by (simp add: register_call_def sample_frames)
  let ?s4 = "\<lparr>px_cin = [], px_chold = Some ''x'', px_to_server = [sample_request], px_to_client = [sample_answer], px_shold = Some sample_answer, px_pending = ?p, px_rec = []\<rparr>"
  let ?s5 = "(record_answer sample_answer ?s4)\<lparr>px_shold := None\<rparr>"
  have e: "pump_step id sample_server ?s4 ?s5" using pump_step.s_record [of ?s4 sample_answer id sample_server] by simp
  have run: "?r ?s5" using a b c d e by (meson rtranclp.rtrancl_into_rtrancl rtranclp.rtrancl_refl)
  have "distinct (map fst (calls_of id [sample_request, ''x'']))" by (simp add: sample_frames)
  from pump_records_session [OF this sample_honest run]
  have "wf_its (pump_file ?s5) = [mcp_pair sample_call ''{}'']"
    by (simp add: record_answer_def sample_frames session_of_def)
  moreover have "px_chold ?s5 = Some ''x''" by (simp add: record_answer_def sample_frames)
  ultimately show ?thesis using run by blast
qed

section \<open>Serving the recording\<close>

text \<open>The JSON coding of the SDK's results, and of the parameters of a listing.\<close>

record ('c, 'l) mcp_sdk =
  sdk_call_mar :: "'c \<Rightarrow> bytes option"
  sdk_call_unm :: "bytes \<Rightarrow> 'c option"
  sdk_list_mar :: "'l \<Rightarrow> bytes option"
  sdk_list_unm :: "bytes \<Rightarrow> 'l option"
  sdk_list_params :: "bytes \<Rightarrow> bytes"

datatype ('c, 'l) rpc_result = RInitialize | RPing | RList 'l | RCall 'c

datatype rpc_error = RpcCassette cas_error | RpcParams | RpcNoMethod string

definition dispatchMCP :: "('c, 'l) mcp_sdk \<Rightarrow> cassette \<Rightarrow> string \<Rightarrow> bytes \<Rightarrow> cassette \<times> (rpc_error + ('c, 'l) rpc_result)" where
  "dispatchMCP sdk c meth params =
     (if meth = ''initialize'' then (c, Inr RInitialize)
      else if meth = ''ping'' then (c, Inr RPing)
      else if meth = ''tools/list'' then
        (case ListTools (sdk_list_mar sdk) (sdk_list_unm sdk) c False (ArgValue (Some (sdk_list_params sdk params))) None of
           (c, Inl e) \<Rightarrow> (c, Inl (RpcCassette e))
         | (c, Inr r) \<Rightarrow> (c, Inr (RList r)))
      else if meth = ''tools/call'' then
        (case call_params params of
           ((name, arguments), err) \<Rightarrow>
             if err then (c, Inl RpcParams)
             else (case CallTool (sdk_call_mar sdk) (sdk_call_unm sdk) c False name (ArgValue (Some (marshal_raw arguments))) None of
                 (c, Inl e) \<Rightarrow> (c, Inl (RpcCassette e))
               | (c, Inr r) \<Rightarrow> (c, Inr (RCall r))))
      else (c, Inl (RpcNoMethod meth)))"

text \<open>The loop: blank lines, lines that are no frame and notifications are passed over.\<close>

definition request_fields :: "(string \<times> field_kind) list" where
  "request_fields = [(''jsonrpc'', FString), (''id'', FRaw), (''method'', FString), (''params'', FRaw)]"

fun serveMCP :: "('c, 'l) mcp_sdk \<Rightarrow> cassette \<Rightarrow> bytes list \<Rightarrow> cassette \<times> (bytes \<times> (rpc_error + ('c, 'l) rpc_result)) list" where
  "serveMCP sdk c [] = (c, [])"
| "serveMCP sdk c (line # lines) =
     (let line = TrimSpace line in
      if line = [] then serveMCP sdk c lines
      else (case read_fields request_fields line of
          (m, err) \<Rightarrow>
            if err then serveMCP sdk c lines
            else if mget0 [] m ''id'' = [] then serveMCP sdk c lines
            else (case dispatchMCP sdk c (mget0 [] m ''method'') (mget0 [] m ''params'') of
                (c, res) \<Rightarrow> (case serveMCP sdk c lines of (c, out) \<Rightarrow> (c, (mget0 [] m ''id'', res) # out)))))"

lemma mcp_pair_key [simp]:
  "MCPKey (it_request (mcp_pair pc r)) cfg \<noteq> []" "it_kind (mcp_pair pc r) = ''mcp''"
  "pc_method pc = ''tools/call'' \<Longrightarrow> MCPKey (it_request (mcp_pair pc r)) cfg = CallKey (pc_tool pc) (pc_body pc) cfg"
  by (simp_all add: mcp_pair_def MCPKey_def CallKey_def ListKey_def Let_def Bytes_NewBody empty_request_def)

lemma keyed_pair: "keyed gl cfg (mcp_pair pc r) = set_key (mcp_pair pc r) (MCPKey (it_request (mcp_pair pc r)) cfg)"
  by (simp add: keyed_def derived_key_def)

lemma first_in_group: "k \<notin> set ks \<Longrightarrow> group_of (map Some ks @ Some k # ks') k ! 0 = length ks \<and> group_of (map Some ks @ Some k # ks') k \<noteq> []"
proof -
  assume k: "k \<notin> set ks"
  let ?l = "map Some ks @ Some k # ks'"
  have u: "[0 ..< length ?l] = [0 ..< length ks] @ length ks # [Suc (length ks) ..< length ?l]"
    using upt_add_eq_append [of 0 "length ks" "Suc (length ks')"] by (simp add: upt_conv_Cons del: upt_Suc)
  have "filter (\<lambda>i. ?l ! i = Some k) [0 ..< length ks] = []" using k by (auto simp: filter_empty_conv nth_append)
  then have "group_of ?l k = length ks # filter (\<lambda>i. ?l ! i = Some k) [Suc (length ks) ..< length ?l]"
    unfolding group_of_def u by (simp add: nth_append del: upt_Suc)
  then show ?thesis by simp
qed


definition sample_session :: pump where
  "sample_session = (pump_start [])\<lparr>px_rec := [mcp_pair sample_call ''{}'']\<rparr>"


end
