(* ===== verification/Spec2Isabelle.thy ===== *)
theory Spec2Isabelle
  imports Transport Mcp Serve Egress Authoring_Laws Mutate Governance_Laws Conformance Schemacheck Cli Corpus Mcpdiff Otel Textdiff Mcpproxy
begin

text \<open>
  Verification of cassette, the record and replay library and tool for traffic to language models.

  The program.  A cassette is a YAML file of interactions, each a request and a response with a match
  key (package internal/wirefmt).  A client gets a http.RoundTripper (transport.go) or an MCP caller
  (mcp.go) over the cassette.  In record mode every call goes upstream and is appended, in replay mode it
  is looked up by its key and synthesized without a dial, in branch mode a recorded prefix is replayed
  and the rest is live.  Keys come from internal/match over the canonical JSON of internal/canon; a file is
  scrubbed (internal/scrub), scanned for secrets and written atomically on save.  On top of the file
  stand the semantic transcripts of package semequal, the wire codec of internal/wireenc, the analyses
  of internal/analysis and the commands of cmd/cassette, which compare, rewrite and compose recordings.

  Conventions.  A Go string or byte slice is a char list of bytes.  Go maps are association lists
  where the order can be seen, and a function argument \<open>visit\<close> or \<open>order\<close> gives the order of a map
  iteration where the code leaves it to the runtime.  Errors are values: None, Inl, or the error
  constructors of a component.  An int is a HOL \<open>int\<close> or \<open>nat\<close> where the code cannot reach the width
  and a word of its width where it can (Sha256, Otel).  A command is a function of its
  arguments and the file system, to the exit code and the file system it leaves.

  Theories and sources.

  Foundation.  Prelude holds the parts of packages strings, bytes, sort and strconv the program calls.
  Json, Json_Roundtrip, Unmarshal and Runes are encoding/json and unicode/utf8: the parser with the
  nesting limit of 10000, the encoder, the decoding into Go variables.  Nethttp is header keys and
  media types, Regex the leftmost-first matcher for the program's patterns, Sha256 the digest on
  32-bit words.  The lemmas show that the parser reads back what the encoder writes and that the
  length of the input is enough fuel for every loop over a text.

  The cassette.  Canon is internal/canon/canon.go; Wirefmt internal/wirefmt/wirefmt.go with Load and
  Save as a sequence of system calls, each of which may fail; Match internal/match/match.go; Rekey
  internal/rekey/rekey.go and rekey.go; Scrub internal/scrub/scrub.go; Store the index of cassette.go by key with
  its cursors and exhaustion policies; Stream the frame cutting, capturing and pacing of
  transport.go; Faults faults.go; Cassette cassette.go and matchResponse; Transport the round tripper;
  Mcp mcp.go; Serve serve.go and canary.go.  Their central theorems compose the layers: what is recorded, scrubbed, saved and
  reopened is replayed in order with zero dials (C1), from a file without secrets (C2, C5) that is
  replaced atomically (C7).  The locale \<open>record_replay\<close> of Store is the contract of a recorder and
  a keyed store; it is interpreted for HTTP in Transport and for MCP in Mcp.

  Meaning.  Semequal is semequal/semequal.go, the five stream decoders and the transcript digest; Invariants is
  wireshape.go, invariants.go and policy.go of semequal and timeline.go; Wireenc is internal/wireenc/wireenc.go, the encoders and
  the registry of dialects.  Codec, Codec_Anthropic, Codec_OpenAI, Codec_Json, Decoded, Codec_Laws and
  Codec_Edges prove that decoding inverts encoding in all dialects, that every decoder returns normalized transcripts, and that reframed
  streams keep their meaning.  Mutate is mutate/mutate.go.

  Analyses (internal/analysis).  Engine: engine.go, mcp.go, bisect.go, diffrec.go.  Signals: usage.go, refusal.go, mcpsteps.go, seeds.go, evalprompt.go, coverage.go.
  Recode: conform.go, canonicalize.go, provenance.go.  Compose and Compose_Laws: merge.go, compose.go, scenario.go, fuzz.go.
  Authoring and Authoring_Laws: wireenc/request.go, port.go, author.go.  Governance and Governance_Laws: taint.go,
  attest.go, audit.go, policy.go, lint.go.  Schemacheck, Mcpdiff and Otel: the files of these names.  Egress is internal/egress,
  Conformance conformance.go of the root package.

  Commands (cmd/cassette).  Cli: cli.go and ciguard.go.  Edits: the commands that rewrite one recording.  Corpus: those
  that make recordings from recordings.  Mcpproxy: the MCP recorder, a step relation over two
  concurrent pumps, and the MCP server.  Textdiff: the edit distance of the suggestions and the word diff.

  Interfaces that are parameters, with what is assumed of them stated in the theorems that need it:
  gjson and sjson (record \<open>jsonlib\<close>), yaml.v3 (encoder and decoder of whole files), the gzip and multipart
  readers (record \<open>golib\<close>), math/rand, the MCP SDK's JSON types (\<open>mcp_sdk\<close>), the Unicode tables behind
  strconv.IsPrint and strings.ToLower, the decimal text of a float64, the host check of url.Parse, the
  upstream server, the process an MCP recorder spawns, the outcome of each system call and what the
  system reports of paths and directories.

  Not modelled.  The screens and tables the commands print, the help texts of commands.go, the HTML of
  dashboard.go, the terminal styles, signals and listeners, test helpers (cassettetest,
  internal/fakeprovider, wirefix, atrans, otrans), examples and cmd/mcpfixture: they print, start processes or
  wire parts together.  Of transport.go the dial accounting of http.Transport and the cancellation of
  contexts are left out; the Shannon entropy of egress is taken over the reals.  The commands not listed above call one
  analysis and print it.
\<close>

end
